(* ===== verification/Steno_Prelude.thy ===== *)
theory Steno_Prelude
  imports Complex_Main "HOL-Library.Word" "HOL-Library.Signed_Division"
begin

text \<open>
  What every component of the development shares: the names of the machine types, the
  standard-library pieces of Rust the sources use (truncating division, \<open>f64\<close> comparisons,
  Unicode whitespace, constant-time comparison's word level facts are with their component),
  the collections of simplification rules, and one small interface: a machine whose
  operations keep an invariant.
\<close>

section \<open>Types\<close>

text \<open>
  A \<open>Uuid\<close> is its 128 bits. Bytes are 8-bit words. A Rust \<open>String\<close> is its list of Unicode
  scalar values, each a natural number; an ASCII literal of the source is written as a
  list of code points through \<open>ascii\<close>. A \<open>DateTime<Utc>\<close> is a number of nanoseconds.
\<close>

type_synonym uuid = "128 word"
type_synonym byte = "8 word"
type_synonym bytes = "byte list"
type_synonym ustring = "nat list"
type_synonym instant = int

definition ascii :: "string \<Rightarrow> ustring" where
  "ascii s = map of_char s"

section \<open>Rust arithmetic\<close>

text \<open>Division of signed integers truncates towards zero, as \<open>sdiv\<close> does.\<close>

lemma sdiv_nonneg_eq_div: "0 \<le> (a::int) \<Longrightarrow> 0 < b \<Longrightarrow> a sdiv b = a div b"
  by (simp add: signed_divide_int_def sgn_if)

lemma int_le_div_iff:
  assumes "0 < (c::int)"
  shows "n \<le> x div c \<longleftrightarrow> n * c \<le> x"
proof
  assume "n \<le> x div c"
  then have "n * c \<le> (x div c) * c" using assms by simp
  also have "\<dots> \<le> x" using assms by (simp add: minus_mod_eq_div_mult[symmetric])
  finally show "n * c \<le> x" .
next
  assume "n * c \<le> x"
  then have "n * c div c \<le> x div c" using assms by (intro zdiv_mono1)
  then show "n \<le> x div c" using assms by simp
qed

definition i64_min :: int where "i64_min = - (2 ^ 63)"
definition i64_max :: int where "i64_max = 2 ^ 63 - 1"

definition fits_i64 :: "int \<Rightarrow> bool" where
  "fits_i64 x \<longleftrightarrow> i64_min \<le> x \<and> x \<le> i64_max"

text \<open>
  An \<open>f64\<close> as far as the sources compare it: not a number, an infinity, or a finite value.
  Comparisons with a not-a-number are false.
\<close>

datatype f64 = NaN | Infinity | NegInfinity | Finite rat

fun f64_is_finite :: "f64 \<Rightarrow> bool" where
  "f64_is_finite (Finite _) = True"
| "f64_is_finite _ = False"

fun f64_less :: "f64 \<Rightarrow> f64 \<Rightarrow> bool" where
  "f64_less NaN _ = False"
| "f64_less _ NaN = False"
| "f64_less (Finite a) (Finite b) = (a < b)"
| "f64_less NegInfinity NegInfinity = False"
| "f64_less NegInfinity _ = True"
| "f64_less _ Infinity = True"
| "f64_less _ _ = False"

section \<open>Rust strings\<close>

text \<open>\<open>str::trim_matches\<close> with a predicate on characters.\<close>

definition trim_matches :: "('a \<Rightarrow> bool) \<Rightarrow> 'a list \<Rightarrow> 'a list" where
  "trim_matches p s = rev (dropWhile p (rev (dropWhile p s)))"

lemma trim_matches_nil [simp]: "trim_matches p [] = []"
  by (simp add: trim_matches_def)

lemma trim_matches_ends:
  assumes "trim_matches p s \<noteq> []"
  shows "\<not> p (hd (trim_matches p s))" "\<not> p (last (trim_matches p s))"
proof -
  let ?d = "dropWhile p s"
  let ?e = "dropWhile p (rev ?d)"
  have ne: "?e \<noteq> []" using assms by (simp add: trim_matches_def)
  have "rev ?d = takeWhile p (rev ?d) @ ?e" by simp
  then have "?d = rev ?e @ rev (takeWhile p (rev ?d))"
    by (metis rev_append rev_rev_ident)
  then have "hd ?d = hd (rev ?e)"
    using ne by (metis hd_append2 rev_is_Nil_conv)
  moreover have "?d \<noteq> []" using ne by (metis dropWhile.simps(1) rev.simps(1))
  ultimately have "hd (rev ?e) = hd ?d" "?d \<noteq> []" by simp_all
  then show "\<not> p (hd (trim_matches p s))"
    by (metis hd_dropWhile trim_matches_def)
  show "\<not> p (last (trim_matches p s))"
    using ne hd_dropWhile[OF ne] by (simp add: trim_matches_def last_rev)
qed

lemma dropWhile_hd_idem: "xs = [] \<or> \<not> p (hd xs) \<Longrightarrow> dropWhile p xs = xs"
  by (cases xs) auto

lemma trim_matches_idem [simp]: "trim_matches p (trim_matches p s) = trim_matches p s"
proof (cases "trim_matches p s = []")
  case False
  let ?u = "trim_matches p s"
  have "dropWhile p ?u = ?u"
    using trim_matches_ends(1)[OF False] by (intro dropWhile_hd_idem) simp
  moreover have "dropWhile p (rev ?u) = rev ?u"
    using trim_matches_ends(2)[OF False] by (intro dropWhile_hd_idem) (simp add: hd_rev)
  ultimately show ?thesis by (simp add: trim_matches_def [of p "?u"])
qed simp

text \<open>\<open>char::is_whitespace\<close>: Unicode's \<open>White_Space\<close> property.\<close>

definition unicode_white_space :: "nat \<Rightarrow> bool" where
  "unicode_white_space c \<longleftrightarrow>
     (9 \<le> c \<and> c \<le> 13) \<or> c = 32 \<or> c = 133 \<or> c = 160 \<or> c = 5760 \<or>
     (8192 \<le> c \<and> c \<le> 8202) \<or> c = 8232 \<or> c = 8233 \<or> c = 8239 \<or> c = 8287 \<or> c = 12288"

text \<open>\<open>str::split_once\<close> at a character.\<close>

fun split_once :: "'a \<Rightarrow> 'a list \<Rightarrow> ('a list \<times> 'a list) option" where
  "split_once c [] = None"
| "split_once c (x # xs) =
     (if x = c then Some ([], xs)
      else map_option (\<lambda>(a, b). (x # a, b)) (split_once c xs))"

lemma split_once_Some: "split_once c s = Some (a, b) \<Longrightarrow> s = a @ c # b \<and> c \<notin> set a"
  by (induction s arbitrary: a) (auto split: if_splits)

lemma split_once_None: "split_once c s = None \<longleftrightarrow> c \<notin> set s"
  by (induction s) auto

text \<open>\<open>str::split\<close> at a character: always at least one piece.\<close>

fun split_at_char :: "'a \<Rightarrow> 'a list \<Rightarrow> 'a list list" where
  "split_at_char c [] = [[]]"
| "split_at_char c (x # xs) =
     (if x = c then [] # split_at_char c xs
      else case split_at_char c xs of
             [] \<Rightarrow> [[x]]
           | p # ps \<Rightarrow> (x # p) # ps)"

lemma split_at_char_ne [simp]: "split_at_char c s \<noteq> []"
  by (induction s) (auto split: list.splits)

text \<open>\<open>[String]::join\<close> with a one-character separator.\<close>

fun join_with :: "'a \<Rightarrow> 'a list list \<Rightarrow> 'a list" where
  "join_with c [] = []"
| "join_with c [p] = p"
| "join_with c (p # q # ps) = p @ c # join_with c (q # ps)"

lemma join_split [simp]: "join_with c (split_at_char c s) = s"
proof (induction s)
  case (Cons x xs)
  obtain p ps where "split_at_char c xs = p # ps" by (cases "split_at_char c xs") auto
  with Cons show ?case by (cases ps) auto
qed simp

lemma split_pieces_free: "p \<in> set (split_at_char c s) \<Longrightarrow> c \<notin> set p"
  by (induction s arbitrary: p) (auto split: if_splits list.splits)

text \<open>The place of the first element that fits, and of a character's last occurrence (\<open>str::rfind\<close>).\<close>

fun index_of :: "('a \<Rightarrow> bool) \<Rightarrow> 'a list \<Rightarrow> nat option" where
  "index_of P [] = None"
| "index_of P (x # xs) = (if P x then Some 0 else map_option Suc (index_of P xs))"

definition rfind :: "'a \<Rightarrow> 'a list \<Rightarrow> nat option" where
  "rfind c s = map_option (\<lambda>i. length s - 1 - i) (index_of (\<lambda>x. x = c) (rev s))"

text \<open>\<open>str::starts_with\<close>, \<open>strip_prefix\<close> and \<open>strip_suffix\<close>.\<close>

definition starts_with :: "'a list \<Rightarrow> 'a list \<Rightarrow> bool" where
  "starts_with p s \<longleftrightarrow> take (length p) s = p"

definition strip_prefix :: "'a list \<Rightarrow> 'a list \<Rightarrow> 'a list option" where
  "strip_prefix p s = (if starts_with p s then Some (drop (length p) s) else None)"

definition strip_suffix :: "'a list \<Rightarrow> 'a list \<Rightarrow> 'a list option" where
  "strip_suffix p s = map_option rev (strip_prefix (rev p) (rev s))"

lemma starts_with_nil [simp]: "starts_with p [] \<longleftrightarrow> p = []"
  by (auto simp: starts_with_def)

lemma starts_with_append: "starts_with p s \<longleftrightarrow> (\<exists>rest. s = p @ rest)"
  unfolding starts_with_def by (metis append_eq_conv_conj append_take_drop_id)

lemma strip_prefix_append [simp]: "strip_prefix p (p @ s) = Some s"
  by (simp add: strip_prefix_def starts_with_def)

lemma strip_suffix_append [simp]: "strip_suffix p (s @ p) = Some s"
  by (simp add: strip_suffix_def)

lemma strip_prefix_Some: "strip_prefix p s = Some r \<longleftrightarrow> s = p @ r"
  by (auto simp: strip_prefix_def starts_with_append)

section \<open>Machines that keep an invariant\<close>

text \<open>
  Several components are a state and a set of operations that share one contract: an
  operation keeps the invariant. What follows from that for whole runs is proved here once.
\<close>

locale invariant_machine =
  fixes step :: "'s \<Rightarrow> 'e \<Rightarrow> 's"
    and invar :: "'s \<Rightarrow> bool"
  assumes step_invar: "invar s \<Longrightarrow> invar (step s e)"
begin

lemma run_invar: "invar s \<Longrightarrow> invar (foldl step s es)"
  by (induction es arbitrary: s) (auto intro: step_invar)

lemma prefix_invar: "invar s \<Longrightarrow> invar (foldl step s (take n es))"
  by (rule run_invar)

end

end
