(* ===== verification/Async_Tasks.thy ===== *)
theory Async_Tasks
  imports Steno_Prelude
begin

text \<open>
  Asynchronous code as the sources write it: a request is a sequence of atomic sections
  (everything one lock guard covers, one store call, one file operation), and between two
  sections any other request may run. A \<open>task\<close> is such a sequence; \<open>await\<close> runs one task and
  continues with its result. \<open>exec\<close> runs a task with nothing in between, \<open>pool_step\<close> lets a
  pool of tasks interleave, and \<open>keeps\<close> is what a task has to satisfy so that every
  interleaving keeps an invariant and every single section a guarantee.
\<close>

section \<open>Tasks\<close>

datatype ('s, 'a) task = Done 'a | Step "'s \<Rightarrow> 's \<times> ('s, 'a) task"

lemma task_induct [case_names Done Step]:
  assumes "\<And>a. P (Done a)" and "\<And>f. (\<And>s. P (snd (f s))) \<Longrightarrow> P (Step f)"
  shows "P t"
proof (induction t)
  case (Step f)
  have "P (snd (f s))" for s
    by (rule Step[of "f s"]) (auto simp: snds.simps)
  then show ?case by (rule assms(2))
qed (rule assms(1))

primrec await :: "('s, 'a) task \<Rightarrow> ('a \<Rightarrow> ('s, 'b) task) \<Rightarrow> ('s, 'b) task" where
  "await (Done a) k = k a"
| "await (Step f) k = Step (\<lambda>s. map_prod id (\<lambda>t. await t k) (f s))"

text \<open>One atomic section that changes the state and gives a value; one that only reads.\<close>

definition atomically :: "('s \<Rightarrow> 's \<times> 'a) \<Rightarrow> ('s, 'a) task" where
  "atomically f = Step (\<lambda>s. map_prod id Done (f s))"

definition reading :: "('s \<Rightarrow> 'a) \<Rightarrow> ('s, 'a) task" where
  "reading g = atomically (\<lambda>s. (s, g s))"

text \<open>Running a task alone.\<close>

primrec exec :: "('s, 'a) task \<Rightarrow> 's \<Rightarrow> 's \<times> 'a" where
  "exec (Done a) = (\<lambda>s. (s, a))"
| "exec (Step f) = (\<lambda>s. case map_prod id exec (f s) of (s', k) \<Rightarrow> k s')"

lemma exec_Step: "exec (Step f) s = exec (snd (f s)) (fst (f s))"
  by (simp add: map_prod_def split: prod.splits)

declare exec.simps(2) [simp del]

lemma await_atomically [simp]:
  "await (atomically f) k = Step (\<lambda>s. map_prod id k (f s))"
  by (auto simp: atomically_def map_prod_def split: prod.splits)

lemma exec_atomically [simp]: "exec (atomically f) s = f s"
  by (simp add: atomically_def exec_Step)

lemma exec_reading [simp]: "exec (reading g) s = (s, g s)"
  by (simp add: reading_def)

lemma exec_await [simp]: "exec (await t k) s = (case exec t s of (s', a) \<Rightarrow> exec (k a) s')"
proof (induction t arbitrary: s rule: task_induct)
  case (Step f)
  then show ?case by (simp add: exec_Step)
qed simp

lemma await_Done [simp]: "await t Done = t"
proof (induction t rule: task_induct)
  case (Step f)
  then show ?case by (auto simp: map_prod_def split_beta)
qed simp

lemma await_assoc: "await (await t k) l = await t (\<lambda>a. await (k a) l)"
proof (induction t rule: task_induct)
  case (Step f)
  then show ?case by (auto simp: map_prod_def split_beta)
qed simp

section \<open>What every section of a task keeps\<close>

text \<open>
  \<open>keeps I G Q t\<close>: whatever state with \<open>I\<close> a section of \<open>t\<close> starts in, it ends in a state
  with \<open>I\<close>, related to the first by \<open>G\<close>; and the task's result satisfies \<open>Q\<close>. Between two
  sections the state may have changed to any state with \<open>I\<close>.
\<close>

primrec keeps ::
  "('s \<Rightarrow> bool) \<Rightarrow> ('s \<Rightarrow> 's \<Rightarrow> bool) \<Rightarrow> ('a \<Rightarrow> bool) \<Rightarrow> ('s, 'a) task \<Rightarrow> bool" where
  "keeps I G Q (Done a) = Q a"
| "keeps I G Q (Step f) =
     (\<forall>s. I s \<longrightarrow> I (fst (f s)) \<and> G s (fst (f s)) \<and> snd (map_prod id (keeps I G Q) (f s)))"

lemma keeps_Step:
  "keeps I G Q (Step f) \<longleftrightarrow>
     (\<forall>s. I s \<longrightarrow> I (fst (f s)) \<and> G s (fst (f s)) \<and> keeps I G Q (snd (f s)))"
  by simp

declare keeps.simps(2) [simp del]

lemma keeps_await:
  assumes "keeps I G P t" and "\<And>a. P a \<Longrightarrow> keeps I G Q (k a)"
  shows "keeps I G Q (await t k)"
  using assms(1)
proof (induction t rule: task_induct)
  case (Step f)
  then show ?case by (simp add: keeps_Step)
qed (simp add: assms(2))

lemma keeps_atomically:
  "(\<And>s. I s \<Longrightarrow> I (fst (f s)) \<and> G s (fst (f s)) \<and> Q (snd (f s))) \<Longrightarrow> keeps I G Q (atomically f)"
  by (auto simp: atomically_def keeps_Step)

lemma keeps_reading:
  "(\<And>s. I s \<Longrightarrow> G s s \<and> Q (g s)) \<Longrightarrow> keeps I G Q (reading g)"
  by (auto simp: reading_def intro: keeps_atomically)

lemma keeps_mono: "keeps I G P t \<Longrightarrow> (\<And>a. P a \<Longrightarrow> Q a) \<Longrightarrow> keeps I G Q t"
  using keeps_await[of I G P t Q Done] by simp

lemma keeps_exec:
  assumes "keeps I G Q t" and "I s"
  shows "I (fst (exec t s))" and "Q (snd (exec t s))"
proof -
  have "I (fst (exec t s)) \<and> Q (snd (exec t s))"
    using assms
  proof (induction t arbitrary: s rule: task_induct)
    case (Step f)
    then show ?case by (simp add: exec_Step keeps_Step)
  qed simp
  then show "I (fst (exec t s))" and "Q (snd (exec t s))" by simp_all
qed

section \<open>Pools of tasks\<close>

text \<open>
  One step of a pool: the task at some position runs its next section, a new task with
  \<open>admissible\<close> arrives, or the environment (the clock, the disk, the committer of the store)
  moves. Which of these happens is not determined.
\<close>

inductive pool_step ::
  "(('s, 'a) task \<Rightarrow> bool) \<Rightarrow> ('s \<Rightarrow> 's \<Rightarrow> bool) \<Rightarrow>
   's \<times> ('s, 'a) task list \<Rightarrow> 's \<times> ('s, 'a) task list \<Rightarrow> bool"
  for admissible env where
  run: "i < length ts \<Longrightarrow> ts ! i = Step f \<Longrightarrow> f s = (s', t') \<Longrightarrow>
     pool_step admissible env (s, ts) (s', ts[i := t'])"
| arrive: "admissible t \<Longrightarrow> pool_step admissible env (s, ts) (s, ts @ [t])"
| environment: "env s s' \<Longrightarrow> pool_step admissible env (s, ts) (s', ts)"

inductive pool_reachable ::
  "(('s, 'a) task \<Rightarrow> bool) \<Rightarrow> ('s \<Rightarrow> 's \<Rightarrow> bool) \<Rightarrow> ('s \<Rightarrow> bool) \<Rightarrow>
   's \<times> ('s, 'a) task list \<Rightarrow> bool"
  for admissible env init where
  start: "init s \<Longrightarrow> pool_reachable admissible env init (s, [])"
| step: "pool_reachable admissible env init c \<Longrightarrow> pool_step admissible env c c' \<Longrightarrow>
     pool_reachable admissible env init c'"

inductive_cases pool_stepE [consumes 1, case_names run arrive environment]:
  "pool_step admissible env (s, ts) c'"

text \<open>A pool can run its last task to the end with nothing in between.\<close>

lemma pool_run_last:
  assumes "pool_reachable admissible env init (s, ts @ [t])"
  shows "pool_reachable admissible env init (fst (exec t s), ts @ [Done (snd (exec t s))])"
  using assms
proof (induction t arbitrary: s rule: task_induct)
  case (Step f)
  have "pool_step admissible env (s, ts @ [Step f]) (fst (f s), ts @ [snd (f s)])"
    using pool_step.run[of "length ts" "ts @ [Step f]" f s "fst (f s)" "snd (f s)"] by simp
  then have "pool_reachable admissible env init (fst (f s), ts @ [snd (f s)])"
    using Step.prems pool_reachable.step by fast
  from Step.IH[OF this] show ?case by (simp add: exec_Step)
qed simp

lemma in_set_update: "t \<in> set (ts[i := t']) \<Longrightarrow> t = t' \<or> t \<in> set ts"
  using set_update_subset_insert by fastforce

text \<open>
  A system of tasks: requests that each keep the invariant, and an environment that keeps it
  too. Then every reachable state of every interleaving has it, and every step of the pool is
  within the guarantee.
\<close>

locale task_system =
  fixes invar :: "'s \<Rightarrow> bool"
    and guar :: "'s \<Rightarrow> 's \<Rightarrow> bool"
    and admissible :: "('s, 'a) task \<Rightarrow> bool"
    and env :: "'s \<Rightarrow> 's \<Rightarrow> bool"
    and init :: "'s \<Rightarrow> bool"
  assumes init_invar: "init s \<Longrightarrow> invar s"
    and guar_refl: "guar s s"
    and tasks_keep: "admissible t \<Longrightarrow> keeps invar guar (\<lambda>_. True) t"
    and env_keeps: "invar s \<Longrightarrow> env s s' \<Longrightarrow> invar s' \<and> guar s s'"
begin

lemma reachable_invar:
  "pool_reachable admissible env init c \<Longrightarrow>
     invar (fst c) \<and> (\<forall>t \<in> set (snd c). keeps invar guar (\<lambda>_. True) t)"
proof (induction rule: pool_reachable.induct)
  case (start s)
  then show ?case by (simp add: init_invar)
next
  case (step c c')
  obtain s ts where c: "c = (s, ts)" by (cases c)
  from step.IH c have I: "invar s" and K: "\<And>t. t \<in> set ts \<Longrightarrow> keeps invar guar (\<lambda>_. True) t"
    by simp_all
  from step.hyps(2) show ?case
    unfolding c
  proof (cases rule: pool_stepE)
    case (run i f s' t')
    then have "Step f \<in> set ts" by (metis nth_mem)
    from K[OF this] I have "invar (fst (f s))" "keeps invar guar (\<lambda>_. True) (snd (f s))"
      by (simp_all add: keeps_Step)
    with run K show ?thesis by (auto dest: in_set_update)
  qed (use I K in \<open>auto simp: tasks_keep env_keeps\<close>)
qed

lemma step_guar:
  assumes "pool_reachable admissible env init c" and "pool_step admissible env c c'"
  shows "guar (fst c) (fst c')"
proof -
  obtain s ts where c: "c = (s, ts)" by (cases c)
  with reachable_invar[OF assms(1)]
  have I: "invar s" and K: "\<And>t. t \<in> set ts \<Longrightarrow> keeps invar guar (\<lambda>_. True) t"
    by simp_all
  from assms(2) have "guar s (fst c')"
    unfolding c
  proof (cases rule: pool_stepE)
    case (run i f s' t')
    then have "Step f \<in> set ts" by (metis nth_mem)
    from K[OF this] I have "guar s (fst (f s))" by (simp add: keeps_Step)
    with run show ?thesis by simp
  qed (use I in \<open>auto simp: guar_refl env_keeps\<close>)
  with c show ?thesis by simp
qed

end

end
