(* ===== verification/Ordered_Map.thy ===== *)
theory Ordered_Map
  imports Steno_Prelude
begin

text \<open>
  Rust's \<open>BTreeMap\<close>: the pairs in key order. The laws a client relies on are the locale
  \<open>ordered_map\<close>; \<open>bt_insert\<close>, \<open>bt_remove\<close> and \<open>bt_retain\<close> over sorted association lists are
  its provider.
\<close>

section \<open>The interface\<close>

locale ordered_map =
  fixes get :: "'m \<Rightarrow> 'k::linorder \<Rightarrow> 'v option"
    and insert :: "'k \<Rightarrow> 'v \<Rightarrow> 'm \<Rightarrow> 'm"
    and remove :: "'k \<Rightarrow> 'm \<Rightarrow> 'm"
    and entries :: "'m \<Rightarrow> ('k \<times> 'v) list"
    and invar :: "'m \<Rightarrow> bool"
  assumes get_insert: "get (insert k v m) = (get m)(k \<mapsto> v)"
    and get_remove: "get (remove k m) = (get m)(k := None)"
    and insert_invar: "invar m \<Longrightarrow> invar (insert k v m)"
    and remove_invar: "invar m \<Longrightarrow> invar (remove k m)"
    and get_entries: "get m = map_of (entries m)"
    and entries_sorted: "invar m \<Longrightarrow> sorted_wrt (<) (map fst (entries m))"
begin

lemma dom_insert: "dom (get (insert k v m)) = Set.insert k (dom (get m))"
  by (simp add: get_insert)

lemma dom_remove: "dom (get (remove k m)) = dom (get m) - {k}"
  by (auto simp: get_remove)

lemma insert_get_same: "get (insert k v m) k = Some v"
  by (simp add: get_insert)

lemma insert_get_other: "j \<noteq> k \<Longrightarrow> get (insert k v m) j = get m j"
  by (simp add: get_insert)

lemma remove_get_same: "get (remove k m) k = None"
  by (simp add: get_remove)

lemma entries_get: "invar m \<Longrightarrow> (k, v) \<in> set (entries m) \<longleftrightarrow> get m k = Some v"
proof -
  assume "invar m"
  then have "distinct (map fst (entries m))"
    using entries_sorted strict_sorted_iff by blast
  then show ?thesis by (simp add: get_entries)
qed

end

section \<open>The provider\<close>

type_synonym ('k, 'v) btree = "('k \<times> 'v) list"

definition bt_get :: "('k, 'v) btree \<Rightarrow> 'k \<Rightarrow> 'v option" where
  "bt_get m = map_of m"

fun bt_insert :: "'k::linorder \<Rightarrow> 'v \<Rightarrow> ('k, 'v) btree \<Rightarrow> ('k, 'v) btree" where
  "bt_insert k v [] = [(k, v)]"
| "bt_insert k v ((k', v') # m) =
     (if k < k' then (k, v) # (k', v') # m
      else if k = k' then (k, v) # m
      else (k', v') # bt_insert k v m)"

definition bt_remove :: "'k \<Rightarrow> ('k, 'v) btree \<Rightarrow> ('k, 'v) btree" where
  "bt_remove k m = filter (\<lambda>(k', _). k' \<noteq> k) m"

definition bt_retain :: "('k \<Rightarrow> 'v \<Rightarrow> bool) \<Rightarrow> ('k, 'v) btree \<Rightarrow> ('k, 'v) btree" where
  "bt_retain p m = filter (\<lambda>(k, v). p k v) m"

definition bt_ok :: "('k::linorder, 'v) btree \<Rightarrow> bool" where
  "bt_ok m \<longleftrightarrow> sorted_wrt (<) (map fst m)"

lemma bt_get_nil [simp]: "bt_get [] = Map.empty"
  by (simp add: bt_get_def)

lemma bt_get_insert [simp]: "bt_get (bt_insert k v m) = (bt_get m)(k \<mapsto> v)"
  by (induction k v m rule: bt_insert.induct) (auto simp: bt_get_def fun_eq_iff)

lemma bt_get_remove [simp]: "bt_get (bt_remove k m) = (bt_get m)(k := None)"
  by (induction m) (auto simp: bt_get_def bt_remove_def fun_eq_iff)

lemma set_fst_bt_insert: "fst ` set (bt_insert k v m) = insert k (fst ` set m)"
  by (induction k v m rule: bt_insert.induct) auto

lemma bt_insert_ok [simp]: "bt_ok m \<Longrightarrow> bt_ok (bt_insert k v m)"
proof (induction k v m rule: bt_insert.induct)
  case (2 k v k' v' m)
  then show ?case
    using set_fst_bt_insert[of k v m] by (auto simp: bt_ok_def)
qed (simp add: bt_ok_def)

lemma bt_filter_ok: "bt_ok m \<Longrightarrow> bt_ok (filter p m)"
  by (induction m) (auto simp: bt_ok_def)

lemma bt_remove_ok [simp]: "bt_ok m \<Longrightarrow> bt_ok (bt_remove k m)"
  by (simp add: bt_remove_def bt_filter_ok)

lemma bt_retain_ok [simp]: "bt_ok m \<Longrightarrow> bt_ok (bt_retain p m)"
  by (simp add: bt_retain_def bt_filter_ok)

lemma bt_nil_ok [simp]: "bt_ok []"
  by (simp add: bt_ok_def)

interpretation bt: ordered_map bt_get bt_insert bt_remove id bt_ok
  by unfold_locales (simp_all add: bt_get_def[symmetric], simp_all add: bt_ok_def bt_get_def)

lemma bt_get_in: "bt_get m k = Some v \<Longrightarrow> (k, v) \<in> set m"
  by (simp add: bt_get_def map_of_SomeD)

lemma bt_get_retain:
  "bt_ok m \<Longrightarrow>
     bt_get (bt_retain p m) k =
       (case bt_get m k of None \<Rightarrow> None | Some v \<Rightarrow> if p k v then Some v else None)"
proof (induction m)
  case (Cons e m)
  obtain k' v' where e: "e = (k', v')" by (cases e)
  from Cons.prems e have ok: "bt_ok m" and "\<forall>x \<in> fst ` set m. k' < x"
    by (auto simp: bt_ok_def)
  then have "k' \<notin> fst ` set m" by auto
  then have "bt_get m k' = None" by (simp add: bt_get_def map_of_eq_None_iff)
  with Cons.IH[OF ok] e show ?case
    by (auto simp: bt_get_def bt_retain_def split: option.splits)
qed (simp add: bt_retain_def)

lemma bt_get_retain_Some:
  "bt_get (bt_retain p m) k = Some v \<Longrightarrow> bt_ok m \<Longrightarrow> bt_get m k = Some v \<and> p k v"
  by (auto simp: bt_get_retain split: option.splits if_splits)

end
