(* ===== verification/Handover_Types.thy ===== *)
theory Handover_Types
  imports Ordered_Map
begin

text \<open>
  The data of the phone handover: \<open>steno-core/src/model/handover.rs\<close> (devices, receipt
  states, receipts, recording metadata), the audio formats, the bodies of the wire
  (\<open>steno-handover/src/wire.rs\<close>), the response type of \<open>engine/mod.rs\<close> and the listener's
  configuration. A JSON body is kept as the value that is serialised; a message text is kept
  as the constructor that names it, with the numbers it is formatted with.
\<close>

section \<open>Model\<close>

datatype audio_format = Caf48kFloat32 | M4aAac | Wav16kInt16

definition audio_formats :: "audio_format list" where
  "audio_formats = [Caf48kFloat32, M4aAac, Wav16kInt16]"

lemma in_audio_formats [simp]: "f \<in> set audio_formats"
  by (cases f) (simp_all add: audio_formats_def)

fun file_extension :: "audio_format \<Rightarrow> string" where
  "file_extension Caf48kFloat32 = ''caf''"
| "file_extension M4aAac = ''m4a''"
| "file_extension Wav16kInt16 = ''wav''"

record paired_device =
  d_id :: uuid
  d_name :: ustring
  d_paired_at :: instant
  d_last_seen_at :: "instant option"

datatype handover_state_kind = KReceiving | KVerifying | KComplete | KFailed

datatype handover_state =
    Receiving
  | Verifying
  | Complete uuid
  | Failed string

fun kind :: "handover_state \<Rightarrow> handover_state_kind" where
  "kind Receiving = KReceiving"
| "kind Verifying = KVerifying"
| "kind (Complete _) = KComplete"
| "kind (Failed _) = KFailed"

fun meeting_id :: "handover_state \<Rightarrow> uuid option" where
  "meeting_id (Complete m) = Some m"
| "meeting_id _ = None"

text \<open>The state from its three columns; a \<open>complete\<close> row without a meeting is a failure.\<close>

fun from_columns ::
  "handover_state_kind \<Rightarrow> uuid option \<Rightarrow> string option \<Rightarrow> handover_state" where
  "from_columns KReceiving _ _ = Receiving"
| "from_columns KVerifying _ _ = Verifying"
| "from_columns KComplete (Some m) _ = Complete m"
| "from_columns KComplete None _ = Failed ''complete without a meeting id''"
| "from_columns KFailed _ message = Failed (case message of None \<Rightarrow> [] | Some t \<Rightarrow> t)"

record recording_metadata =
  m_recording_id :: uuid
  m_started_at :: instant
  m_duration_seconds :: f64
  m_byte_count :: int
  m_sha256 :: bytes
  m_chunk_size :: int
  m_format :: audio_format
  m_device_name :: ustring

record handover_receipt =
  recording_id :: uuid
  device_id :: uuid
  state :: handover_state
  byte_count :: int
  sha256 :: bytes
  chunk_size :: int
  received_chunks :: "int list"
  created_at :: instant
  updated_at :: instant

lemma kind_Complete_iff: "kind s = KComplete \<longleftrightarrow> (\<exists>m. s = Complete m)"
  by (cases s) auto

lemma meeting_id_Some_iff [simp]: "meeting_id s = Some m \<longleftrightarrow> s = Complete m"
  by (cases s) auto

lemma meeting_id_None_iff: "meeting_id s = None \<longleftrightarrow> kind s \<noteq> KComplete"
  by (cases s) auto

section \<open>Wire\<close>

record recording_status =
  st_state :: handover_state_kind
  st_received_chunks :: "int list"

definition protocol_version :: int where "protocol_version = 1"

text \<open>The error texts of the routes, as the format strings that build them.\<close>

datatype problem_message =
    UnknownOrRevokedToken
  | PairingSecretRejected
  | NoSuchRecording
  | NoSuchRoute
  | BadPairRequest
  | BadRecordingMetadata
  | RecordingIdMismatch
  | ByteCountRange int
  | ChunkSizeRange int int
  | Sha256Length
  | DurationRange
  | DeviceNameLength nat
  | FormatNotAccepted audio_format
  | ChunkIndexBelow int
  | ChunkMustBe int int
  | ChunkHashHeader
  | ChunkHashMismatch int
  | NoPartialFile
  | NoMetadata
  | OtherDeviceOwns
  | Sha256Mismatch
  | BodyLimit nat
  | FailedOnComputer string

datatype response_body =
    NoBody
  | ProblemBody problem_message
  | HelloBody uuid int
  | PairBody string uuid ustring
  | StatusBody recording_status
  | CompleteBody uuid

record handover_response =
  status :: nat
  headers :: "(string \<times> string) list"
  body :: response_body

definition json :: "nat \<Rightarrow> response_body \<Rightarrow> handover_response" where
  "json s value = \<lparr>status = s, headers = [(''content-type'', ''application/json'')], body = value\<rparr>"

definition empty_response :: "nat \<Rightarrow> handover_response" where
  "empty_response s = \<lparr>status = s, headers = [], body = NoBody\<rparr>"

definition problem :: "nat \<Rightarrow> problem_message \<Rightarrow> handover_response" where
  "problem s message = json s (ProblemBody message)"

text \<open>A 500 names the step only; the error itself goes to the local log.\<close>

definition internal_error :: "string \<Rightarrow> handover_response" where
  "internal_error what = problem 500 (FailedOnComputer what)"

definition unauthorized :: handover_response where
  "unauthorized = problem 401 UnknownOrRevokedToken"

definition pairing_rejected :: handover_response where
  "pairing_rejected = problem 403 PairingSecretRejected"

definition no_such_recording :: handover_response where
  "no_such_recording = problem 404 NoSuchRecording"

named_theorems response_defs \<open>the responses, unfolded\<close>

declare json_def [response_defs] empty_response_def [response_defs] problem_def [response_defs]
  internal_error_def [response_defs] unauthorized_def [response_defs]
  pairing_rejected_def [response_defs] no_such_recording_def [response_defs]

section \<open>Configuration\<close>

record handover_configuration =
  service_name :: ustring
  advertise :: bool
  c_chunk_size :: int
  inbox_directory :: string
  pairing_window :: int
  port :: nat
  read_timeout :: int

definition default_chunk_size :: int where "default_chunk_size = 16 * 1024 * 1024"
definition body_headroom :: int where "body_headroom = 64 * 1024"
definition json_body_limit :: int where "json_body_limit = 64 * 1024"

definition chunk_body_limit :: "handover_configuration \<Rightarrow> int" where
  "chunk_body_limit c = c_chunk_size c + body_headroom"

end
