(* ===== verification/Handover_Store.thy ===== *)
theory Handover_Store
  imports Handover_Types
begin

text \<open>
  \<open>steno-core/src/store/handover.rs\<close> with the tables it reads and writes (\<open>migrations/001_v1.sql\<close>
  and \<open>005_v5.sql\<close>): \<open>pairedDevice\<close> (unique token hashes), \<open>handoverReceipt\<close> (each row
  references its device and goes with it), \<open>handoverAdmission\<close> (the ledger of admitted
  recordings) and, of \<open>meeting\<close> and \<open>audioAsset\<close>, the rows' ids, which is all this module
  looks at. A statement that violates a constraint fails and writes nothing. Dates are
  rounded to the millisecond as they are written (\<open>store/convert.rs\<close>).
\<close>

section \<open>Tables\<close>

record receipt_row =
  row_device_id :: uuid
  row_state :: handover_state_kind
  row_meeting_id :: "uuid option"
  row_failure_message :: "string option"
  row_byte_count :: int
  row_sha256 :: bytes
  row_chunk_size :: int
  row_received_chunks :: "int list"
  row_created_at :: instant
  row_updated_at :: instant

record device_row =
  row_name :: ustring
  row_paired_at :: instant
  row_last_seen_at :: "instant option"
  row_token_hash :: bytes

record meeting_row =
  mt_id :: uuid
  mt_created_at :: instant

record asset_row =
  as_id :: uuid
  as_meeting_id :: uuid

type_synonym upload_key = "uuid \<times> int \<times> bytes"

record db =
  devices :: "(uuid, device_row) btree"
  receipts :: "uuid \<rightharpoonup> receipt_row"
  admissions :: "upload_key \<rightharpoonup> uuid \<times> instant"
  meetings :: "uuid \<rightharpoonup> meeting_row"
  assets :: "uuid \<rightharpoonup> asset_row"

definition empty_db :: db where
  "empty_db = \<lparr>devices = [], receipts = Map.empty, admissions = Map.empty,
     meetings = Map.empty, assets = Map.empty\<rparr>"

datatype store_error =
    ReceiptOfAnotherUpload uuid
  | MeetingExists uuid
  | Constraint
  | StoreIo

text \<open>\<open>yyyy-MM-dd HH:mm:ss.SSS\<close>, to the nearest millisecond.\<close>

definition db_date :: "instant \<Rightarrow> instant" where
  "db_date t = (t + 500000) div 1000000 * 1000000"

section \<open>Devices\<close>

definition device_from_row :: "uuid \<Rightarrow> device_row \<Rightarrow> paired_device" where
  "device_from_row i row =
     \<lparr>d_id = i, d_name = row_name row, d_paired_at = row_paired_at row,
      d_last_seen_at = row_last_seen_at row\<rparr>"

definition paired_devices :: "db \<Rightarrow> paired_device list" where
  "paired_devices d = sort_key d_paired_at (map (\<lambda>(i, row). device_from_row i row) (devices d))"

definition save_paired_device :: "paired_device \<Rightarrow> bytes \<Rightarrow> db \<Rightarrow> store_error + db" where
  "save_paired_device dev token_hash d =
     (if \<exists>(i, row) \<in> set (devices d). i \<noteq> d_id dev \<and> row_token_hash row = token_hash
      then Inl Constraint
      else Inr (d\<lparr>devices := bt_insert (d_id dev)
             \<lparr>row_name = d_name dev, row_paired_at = db_date (d_paired_at dev),
              row_last_seen_at = map_option db_date (d_last_seen_at dev),
              row_token_hash = token_hash\<rparr> (devices d)\<rparr>))"

definition touch_paired_device :: "uuid \<Rightarrow> bytes \<Rightarrow> instant \<Rightarrow> db \<Rightarrow> store_error + db" where
  "touch_paired_device i token_hash seen_at d =
     (case bt_get (devices d) i of
        Some row \<Rightarrow>
          if row_token_hash row = token_hash
          then Inr (d\<lparr>devices :=
                 bt_insert i (row\<lparr>row_last_seen_at := Some (db_date seen_at)\<rparr>) (devices d)\<rparr>)
          else Inr d
      | None \<Rightarrow> Inr d)"

definition paired_device_for_token_hash :: "bytes \<Rightarrow> db \<Rightarrow> paired_device option" where
  "paired_device_for_token_hash token_hash d =
     map_option (\<lambda>(i, row). device_from_row i row)
       (List.find (\<lambda>(_, row). row_token_hash row = token_hash) (devices d))"

definition paired_device :: "uuid \<Rightarrow> db \<Rightarrow> paired_device option" where
  "paired_device i d = map_option (device_from_row i) (bt_get (devices d) i)"

text \<open>The receipts of the device go with its row.\<close>

definition delete_paired_device :: "uuid \<Rightarrow> db \<Rightarrow> store_error + db" where
  "delete_paired_device i d =
     Inr (d\<lparr>devices := bt_remove i (devices d),
            receipts := (\<lambda>r. case receipts d r of
                               Some row \<Rightarrow> if row_device_id row = i then None else Some row
                             | None \<Rightarrow> None)\<rparr>)"

section \<open>Receipts\<close>

definition receipt_from_row :: "uuid \<Rightarrow> receipt_row \<Rightarrow> handover_receipt" where
  "receipt_from_row i row =
     \<lparr>recording_id = i, device_id = row_device_id row,
      state = from_columns (row_state row) (row_meeting_id row) (row_failure_message row),
      byte_count = row_byte_count row, sha256 = row_sha256 row, chunk_size = row_chunk_size row,
      received_chunks = row_received_chunks row, created_at = row_created_at row,
      updated_at = row_updated_at row\<rparr>"

definition receipt_to_row :: "handover_receipt \<Rightarrow> receipt_row" where
  "receipt_to_row r =
     \<lparr>row_device_id = device_id r, row_state = kind (state r),
      row_meeting_id = meeting_id (state r),
      row_failure_message = (case state r of Failed message \<Rightarrow> Some message | _ \<Rightarrow> None),
      row_byte_count = byte_count r, row_sha256 = sha256 r, row_chunk_size = chunk_size r,
      row_received_chunks = received_chunks r, row_created_at = db_date (created_at r),
      row_updated_at = db_date (updated_at r)\<rparr>"

definition handover_receipt :: "uuid \<Rightarrow> db \<Rightarrow> handover_receipt option" where
  "handover_receipt i d = map_option (receipt_from_row i) (receipts d i)"

definition save_receipt :: "handover_receipt \<Rightarrow> db \<Rightarrow> store_error + db" where
  "save_receipt r d =
     (if bt_get (devices d) (device_id r) = None then Inl Constraint
      else Inr (d\<lparr>receipts := (receipts d)(recording_id r \<mapsto> receipt_to_row r)\<rparr>))"

section \<open>The admission ledger\<close>

definition has_meeting :: "db \<Rightarrow> uuid \<Rightarrow> bool" where
  "has_meeting d m \<longleftrightarrow> meetings d m \<noteq> None"

definition admitted_meeting :: "uuid \<Rightarrow> int \<Rightarrow> bytes \<Rightarrow> db \<Rightarrow> uuid option" where
  "admitted_meeting i bytes hash d = map_option fst (admissions d (i, bytes, hash))"

text \<open>A row whose meeting still exists stays; one whose meeting is gone moves.\<close>

definition save_admission_row ::
  "uuid \<Rightarrow> int \<Rightarrow> bytes \<Rightarrow> uuid \<Rightarrow> instant \<Rightarrow> db \<Rightarrow> db" where
  "save_admission_row i bytes hash m t d =
     (case admissions d (i, bytes, hash) of
        None \<Rightarrow> d\<lparr>admissions := (admissions d)((i, bytes, hash) \<mapsto> (m, db_date t))\<rparr>
      | Some (earlier, _) \<Rightarrow>
          if has_meeting d earlier then d
          else d\<lparr>admissions := (admissions d)((i, bytes, hash) \<mapsto> (m, db_date t))\<rparr>)"

definition backfill_handover_admissions :: "db \<Rightarrow> db" where
  "backfill_handover_admissions d =
     d\<lparr>admissions := (\<lambda>(i, bytes, hash).
        case admissions d (i, bytes, hash) of
          Some row \<Rightarrow> Some row
        | None \<Rightarrow>
            (case receipts d i of
               Some row \<Rightarrow>
                 (case row_meeting_id row of
                    Some m \<Rightarrow>
                      if row_state row = KComplete \<and> row_byte_count row = bytes \<and>
                         row_sha256 row = hash \<and> has_meeting d m
                      then Some (m, row_updated_at row) else None
                  | None \<Rightarrow> None)
             | None \<Rightarrow> None))\<rparr>"

datatype admission_commit = Wrote | Earlier uuid bool

definition save_meeting :: "meeting_row \<Rightarrow> db \<Rightarrow> db" where
  "save_meeting m d = d\<lparr>meetings := (meetings d)(mt_id m \<mapsto> m)\<rparr>"

definition save_asset :: "asset_row \<Rightarrow> db \<Rightarrow> db" where
  "save_asset a d = d\<lparr>assets := (assets d)(as_id a \<mapsto> a)\<rparr>"

definition other_upload :: "handover_receipt \<Rightarrow> db \<Rightarrow> bool" where
  "other_upload r d =
     (case receipts d (recording_id r) of
        None \<Rightarrow> False
      | Some row \<Rightarrow>
          (row_device_id row, row_byte_count row, row_sha256 row)
            \<noteq> (device_id r, byte_count r, sha256 r))"

definition commit_admission_durably ::
  "handover_receipt \<Rightarrow> meeting_row \<Rightarrow> asset_row \<Rightarrow> db \<Rightarrow> store_error + (db \<times> admission_commit)"
where
  "commit_admission_durably r meeting asset d =
     (if other_upload r d then Inl (ReceiptOfAnotherUpload (recording_id r))
      else
        let earlier = (case admissions d (recording_id r, byte_count r, sha256 r) of
                         Some (m, _) \<Rightarrow> if has_meeting d m then Some m else None
                       | None \<Rightarrow> None)
        in case earlier of
             Some m \<Rightarrow>
               (case save_receipt (r\<lparr>state := Complete m\<rparr>) d of
                  Inl e \<Rightarrow> Inl e
                | Inr d' \<Rightarrow> Inr (d', Earlier m False))
           | None \<Rightarrow>
               if has_meeting d (mt_id meeting) then Inl (MeetingExists (mt_id meeting))
               else case save_receipt r (save_asset asset (save_meeting meeting d)) of
                      Inl e \<Rightarrow> Inl e
                    | Inr d' \<Rightarrow>
                        Inr (save_admission_row (recording_id r) (byte_count r) (sha256 r)
                               (mt_id meeting) (updated_at r) d', Wrote))"

definition save_admission_durably ::
  "handover_receipt \<Rightarrow> meeting_row \<Rightarrow> asset_row \<Rightarrow> db \<Rightarrow> store_error + (db \<times> uuid)" where
  "save_admission_durably r meeting asset d =
     (case commit_admission_durably r meeting asset d of
        Inl e \<Rightarrow> Inl e
      | Inr (d', Wrote) \<Rightarrow> Inr (d', mt_id meeting)
      | Inr (d', Earlier m _) \<Rightarrow> Inr (d', m))"

definition adopt_upload_durably ::
  "meeting_row \<Rightarrow> asset_row \<Rightarrow> uuid \<Rightarrow> int \<Rightarrow> bytes \<Rightarrow> db \<Rightarrow>
     store_error + (db \<times> admission_commit)" where
  "adopt_upload_durably meeting asset i bytes hash d =
     (case admitted_meeting i bytes hash d of
        Some m \<Rightarrow> Inr (d, Earlier m (\<not> has_meeting d m))
      | None \<Rightarrow>
          if has_meeting d (mt_id meeting) then Inl (MeetingExists (mt_id meeting))
          else Inr (save_admission_row i bytes hash (mt_id meeting) (mt_created_at meeting)
                      (save_asset asset (save_meeting meeting d)), Wrote))"


section \<open>Facts\<close>

definition whole_milliseconds :: "instant \<Rightarrow> bool" where
  "whole_milliseconds t \<longleftrightarrow> t mod 1000000 = 0"

lemma db_date_whole [simp]: "whole_milliseconds (db_date t)"
  by (simp add: whole_milliseconds_def db_date_def)

lemma db_date_id: "whole_milliseconds t \<Longrightarrow> db_date t = t"
proof -
  assume "whole_milliseconds t"
  then obtain k where "t = 1000000 * k" by (auto simp: whole_milliseconds_def dvd_def mod_eq_0_iff_dvd)
  moreover have "(1000000 * k + 500000) div 1000000 = k" by simp
  ultimately show ?thesis by (simp add: db_date_def)
qed

lemma db_date_idem [simp]: "db_date (db_date t) = db_date t"
  by (simp add: db_date_id)

lemma db_date_near: "\<bar>db_date t - t\<bar> \<le> 500000"
proof -
  have "db_date t = t + 500000 - (t + 500000) mod 1000000"
    by (simp add: db_date_def minus_mod_eq_div_mult)
  moreover have "0 \<le> (t + 500000) mod 1000000" "(t + 500000) mod 1000000 < 1000000" by simp_all
  ultimately show ?thesis by linarith
qed

lemma db_date_mono: "s \<le> t \<Longrightarrow> db_date s \<le> db_date t"
  by (simp add: db_date_def zdiv_mono1)

lemma from_columns_kind:
  "from_columns (kind s) (meeting_id s) (case s of Failed m \<Rightarrow> Some m | _ \<Rightarrow> None) = s"
  by (cases s) auto

lemma receipt_row_roundtrip:
  "receipt_from_row (recording_id r) (receipt_to_row r) =
     r\<lparr>created_at := db_date (created_at r), updated_at := db_date (updated_at r)\<rparr>"
  by (simp add: receipt_from_row_def receipt_to_row_def from_columns_kind)

lemma receipt_from_row_id [simp]: "recording_id (receipt_from_row i row) = i"
  by (simp add: receipt_from_row_def)

lemma handover_receipt_id: "handover_receipt i d = Some r \<Longrightarrow> recording_id r = i"
  by (auto simp: handover_receipt_def)

lemma save_receipt_Inr:
  "save_receipt r d = Inr d' \<longleftrightarrow>
     bt_get (devices d) (device_id r) \<noteq> None \<and>
     d' = d\<lparr>receipts := (receipts d)(recording_id r \<mapsto> receipt_to_row r)\<rparr>"
  by (auto simp: save_receipt_def)

text \<open>The store's referential integrity: every receipt's device has a row, hashes are unique.\<close>

definition db_ok :: "db \<Rightarrow> bool" where
  "db_ok d \<longleftrightarrow> bt_ok (devices d) \<and>
     (\<forall>i row. receipts d i = Some row \<longrightarrow> bt_get (devices d) (row_device_id row) \<noteq> None) \<and>
     (\<forall>i j a b. bt_get (devices d) i = Some a \<longrightarrow> bt_get (devices d) j = Some b \<longrightarrow>
        row_token_hash a = row_token_hash b \<longrightarrow> i = j)"

lemma db_okD:
  assumes "db_ok d"
  shows "bt_ok (devices d)"
    and "receipts d i = Some row \<Longrightarrow> bt_get (devices d) (row_device_id row) \<noteq> None"
    and "bt_get (devices d) j = Some a \<Longrightarrow> bt_get (devices d) k = Some b \<Longrightarrow>
           row_token_hash a = row_token_hash b \<Longrightarrow> j = k"
  using assms unfolding db_ok_def by blast+

lemma db_ok_empty: "db_ok empty_db"
  by (simp add: db_ok_def empty_db_def)

lemma db_ok_save_receipt: "db_ok d \<Longrightarrow> save_receipt r d = Inr d' \<Longrightarrow> db_ok d'"
  by (auto simp: save_receipt_Inr db_ok_def receipt_to_row_def)

lemma db_ok_save_device:
  assumes "db_ok d" and "save_paired_device dev h d = Inr d'"
  shows "db_ok d'"
proof -
  have free: "\<And>i row. bt_get (devices d) i = Some row \<Longrightarrow> i \<noteq> d_id dev \<Longrightarrow> row_token_hash row \<noteq> h"
    using assms(2) by (auto simp: save_paired_device_def split: if_splits dest: bt_get_in)
  show ?thesis
    using assms free db_okD[OF assms(1)]
    by (fastforce simp: db_ok_def save_paired_device_def split: if_splits)
qed

lemma db_ok_touch: "db_ok d \<Longrightarrow> touch_paired_device i h t d = Inr d' \<Longrightarrow> db_ok d'"
  by (auto simp: touch_paired_device_def db_ok_def split: option.splits if_splits)

lemma db_ok_delete: "db_ok d \<Longrightarrow> delete_paired_device i d = Inr d' \<Longrightarrow> db_ok d'"
  by (auto simp: delete_paired_device_def db_ok_def split: option.splits if_splits)

text \<open>The device a token hash belongs to, read through the unique index.\<close>

lemma find_device:
  assumes "db_ok d" and "bt_get (devices d) i = Some row" and "row_token_hash row = h"
  shows "paired_device_for_token_hash h d = Some (device_from_row i row)"
proof -
  have mem: "(i, row) \<in> set (devices d)" using assms(2) by (rule bt_get_in)
  then obtain j b where f: "List.find (\<lambda>(_, row). row_token_hash row = h) (devices d) = Some (j, b)"
    using assms(3) by (cases "List.find (\<lambda>(_, row). row_token_hash row = h) (devices d)")
      (auto simp: find_None_iff)
  then have "(j, b) \<in> set (devices d)" and hb: "row_token_hash b = h"
    by (auto simp: find_Some_iff) (metis nth_mem)
  then have "bt_get (devices d) j = Some b"
    using bt.entries_get[of "devices d"] db_okD(1)[OF assms(1)] by simp
  then have "j = i" using db_okD(3)[OF assms(1)] assms(2,3) hb by metis
  with f assms(2) \<open>bt_get (devices d) j = Some b\<close> show ?thesis
    by (simp add: paired_device_for_token_hash_def)
qed

lemma find_device_Some:
  assumes "paired_device_for_token_hash h d = Some dev"
  shows "\<exists>row. (d_id dev, row) \<in> set (devices d) \<and> row_token_hash row = h"
  using assms
  by (auto simp: paired_device_for_token_hash_def find_Some_iff device_from_row_def)
    (metis nth_mem)


section \<open>The ledger\<close>

text \<open>Every statement the handover runs, each as one transaction.\<close>

datatype store_write =
    SaveReceipt handover_receipt
  | SavePairedDevice paired_device bytes
  | TouchPairedDevice uuid bytes instant
  | DeletePairedDevice uuid
  | CommitAdmission handover_receipt meeting_row asset_row
  | AdoptUpload meeting_row asset_row uuid int bytes
  | BackfillAdmissions

fun run_write :: "store_write \<Rightarrow> db \<Rightarrow> store_error + db" where
  "run_write (SaveReceipt r) d = save_receipt r d"
| "run_write (SavePairedDevice dev h) d = save_paired_device dev h d"
| "run_write (TouchPairedDevice i h t) d = touch_paired_device i h t d"
| "run_write (DeletePairedDevice i) d = delete_paired_device i d"
| "run_write (CommitAdmission r m a) d = map_sum id fst (commit_admission_durably r m a d)"
| "run_write (AdoptUpload m a i bytes h) d = map_sum id fst (adopt_upload_durably m a i bytes h d)"
| "run_write BackfillAdmissions d = Inr (backfill_handover_admissions d)"

text \<open>A failed transaction leaves the database as it was.\<close>

definition commit_write :: "store_write \<Rightarrow> db \<Rightarrow> db" where
  "commit_write w d = (case run_write w d of Inl _ \<Rightarrow> d | Inr d' \<Rightarrow> d')"

locale admission_ledger =
  fixes admitted :: "'k \<Rightarrow> 'd \<Rightarrow> 'm option"
    and commit :: "'w \<Rightarrow> 'd \<Rightarrow> 'd"
  assumes write_keeps: "admitted k d \<noteq> None \<Longrightarrow> admitted k (commit w d) \<noteq> None"
begin

lemma writes_keep: "admitted k d \<noteq> None \<Longrightarrow> admitted k (fold commit ws d) \<noteq> None"
  by (induction ws arbitrary: d) (simp_all add: write_keeps del: not_None_eq)

end

lemma save_admission_row_dom:
  "dom (admissions (save_admission_row i b h m t d)) = insert (i, b, h) (dom (admissions d))"
  by (auto simp: save_admission_row_def split: option.splits)

lemma save_admission_row_None [simp]:
  "admissions (save_admission_row i b h m t d) k = None \<longleftrightarrow> k \<noteq> (i, b, h) \<and> admissions d k = None"
  using save_admission_row_dom[of i b h m t d] by (metis domIff insert_iff)

lemma save_admission_row_frame [simp]:
  "devices (save_admission_row i b h m t d) = devices d"
  "receipts (save_admission_row i b h m t d) = receipts d"
  "meetings (save_admission_row i b h m t d) = meetings d"
  "assets (save_admission_row i b h m t d) = assets d"
  by (simp_all add: save_admission_row_def split: option.splits)

lemma save_receipt_frame:
  assumes "save_receipt r d = Inr d'"
  shows "devices d' = devices d" "admissions d' = admissions d" "meetings d' = meetings d"
    "assets d' = assets d"
  using assms by (auto simp: save_receipt_Inr)

lemma commit_admission_cases:
  assumes "commit_admission_durably r m a d = Inr (d', c)"
  shows "(\<exists>d2. d' = save_admission_row (recording_id r) (byte_count r) (sha256 r)
             (mt_id m) (updated_at r) d2 \<and> admissions d2 = admissions d) \<or>
     admissions d' = admissions d"
  using assms
  by (auto simp: commit_admission_durably_def Let_def save_receipt_Inr save_meeting_def
      save_asset_def split: if_splits option.splits sum.splits intro!: exI conjI)

lemma commit_admission_dom:
  "commit_admission_durably r m a d = Inr (d', c) \<Longrightarrow> dom (admissions d) \<subseteq> dom (admissions d')"
  by (drule commit_admission_cases) (elim disjE exE conjE, simp_all add: save_admission_row_dom subset_insertI)

lemma adopt_upload_cases:
  assumes "adopt_upload_durably m a i b h d = Inr (d', c)"
  shows "(\<exists>d2. d' = save_admission_row i b h (mt_id m) (mt_created_at m) d2 \<and>
       admissions d2 = admissions d) \<or> d' = d"
  using assms
  by (auto simp: adopt_upload_durably_def save_meeting_def save_asset_def
      split: if_splits option.splits intro!: exI conjI)

lemma adopt_upload_dom:
  "adopt_upload_durably m a i b h d = Inr (d', c) \<Longrightarrow> dom (admissions d) \<subseteq> dom (admissions d')"
  by (drule adopt_upload_cases) (elim disjE exE conjE, simp_all add: save_admission_row_dom subset_insertI)

lemma backfill_dom: "dom (admissions d) \<subseteq> dom (admissions (backfill_handover_admissions d))"
  by (auto simp: backfill_handover_admissions_def split: prod.splits)

lemma run_write_dom:
  assumes "run_write w d = Inr d'"
  shows "dom (admissions d) \<subseteq> dom (admissions d')"
proof (cases w)
  case (CommitAdmission r m a)
  with assms obtain c where "commit_admission_durably r m a d = Inr (d', c)"
    by (cases "commit_admission_durably r m a d") auto
  then show ?thesis by (rule commit_admission_dom)
next
  case (AdoptUpload m a i b h)
  with assms obtain c where "adopt_upload_durably m a i b h d = Inr (d', c)"
    by (cases "adopt_upload_durably m a i b h d") auto
  then show ?thesis by (rule adopt_upload_dom)
next
  case BackfillAdmissions
  with assms have "d' = backfill_handover_admissions d" by simp
  then show ?thesis using backfill_dom[of d] by simp
qed (use assms in \<open>auto simp: save_receipt_def save_paired_device_def touch_paired_device_def
      delete_paired_device_def split: option.splits if_splits\<close>)

lemma commit_write_dom: "dom (admissions d) \<subseteq> dom (admissions (commit_write w d))"
  by (simp add: commit_write_def run_write_dom split: sum.splits)

lemma admitted_meeting_dom:
  "admitted_meeting i b h d \<noteq> None \<longleftrightarrow> (i, b, h) \<in> dom (admissions d)"
  by (simp add: admitted_meeting_def domIff)

interpretation ledger: admission_ledger
  "\<lambda>(i, b, h) d. admitted_meeting i b h d" commit_write
  by unfold_locales
    (metis (no_types, lifting) admitted_meeting_dom case_prod_beta commit_write_dom subsetD)

lemma commit_Wrote:
  assumes "commit_admission_durably r meeting asset d = Inr (d', Wrote)"
  shows "admitted_meeting (recording_id r) (byte_count r) (sha256 r) d' = Some (mt_id meeting)"
    and "receipts d' (recording_id r) = Some (receipt_to_row r)"
    and "meetings d' = (meetings d)(mt_id meeting \<mapsto> meeting)"
    and "assets d' = (assets d)(as_id asset \<mapsto> asset)"
    and "\<not> has_meeting d (mt_id meeting)"
    and "devices d' = devices d"
    and "bt_get (devices d) (device_id r) \<noteq> None"
  using assms
  by (auto simp: commit_admission_durably_def Let_def save_receipt_Inr save_meeting_def
      save_asset_def save_admission_row_def admitted_meeting_def has_meeting_def
      split: if_splits option.splits sum.splits)

lemma commit_again:
  assumes "admitted_meeting (recording_id r) (byte_count r) (sha256 r) d = Some m"
    and "has_meeting d m" and "\<not> other_upload r d" and "bt_get (devices d) (device_id r) \<noteq> None"
  shows "commit_admission_durably r meeting asset d =
     Inr (d\<lparr>receipts := (receipts d)(recording_id r \<mapsto> receipt_to_row (r\<lparr>state := Complete m\<rparr>))\<rparr>,
          Earlier m False)"
  using assms
  by (auto simp: commit_admission_durably_def admitted_meeting_def save_receipt_def Let_def
      split: option.splits)

end
