(* ===== verification/Metadata_Validation.thy ===== *)
theory Metadata_Validation
  imports Handover_Types
begin

text \<open>
  \<open>steno-handover/src/upload/metadata_validation.rs\<close>: what a phone may announce and the
  split of a recording into chunks, and \<open>constant_time_equals\<close> of \<open>pinning.rs\<close>. Counting
  grapheme clusters is the \<open>unicode-segmentation\<close> crate's and is the parameter \<open>graphemes\<close>.
\<close>

unbundle bit_operations_syntax

section \<open>Constant-time comparison\<close>

definition constant_time_equals :: "bytes \<Rightarrow> bytes \<Rightarrow> bool" where
  "constant_time_equals lhs rhs =
     (if length lhs \<noteq> length rhs then False
      else foldl (\<lambda>acc (left, right). acc OR (left XOR right)) 0 (zip lhs rhs) = 0)"

lemma or_eq_0_iff: "a OR b = (0 :: byte) \<longleftrightarrow> a = 0 \<and> b = 0"
  by (auto simp: bit_eq_iff bit_or_iff)

lemma xor_eq_0_iff: "a XOR b = (0 :: byte) \<longleftrightarrow> a = b"
  by (auto simp: bit_eq_iff bit_xor_iff)

lemma difference_zero:
  "foldl (\<lambda>acc (l, r). acc OR (l XOR r)) acc ps = (0 :: byte) \<longleftrightarrow>
     acc = 0 \<and> (\<forall>(l, r) \<in> set ps. l = r)"
  by (induction ps arbitrary: acc) (auto simp: or_eq_0_iff xor_eq_0_iff)

lemma constant_time_equals_iff [simp]: "constant_time_equals a b \<longleftrightarrow> a = b"
  by (auto simp: constant_time_equals_def difference_zero list_eq_iff_zip_eq set_zip
      simp flip: list_eq_iff_nth_eq)

section \<open>Limits\<close>

definition max_byte_count :: int where "max_byte_count = 4 * 1024 * 1024 * 1024"
definition min_chunk_size :: int where "min_chunk_size = 64 * 1024"
definition max_duration_seconds :: rat where "max_duration_seconds = 7 * 24 * 3600"
definition max_device_name_length :: nat where "max_device_name_length = 128"

definition accepted_formats :: "audio_format list" where
  "accepted_formats = [M4aAac, Wav16kInt16]"

definition is_foundation_whitespace :: "nat \<Rightarrow> bool" where
  "is_foundation_whitespace c \<longleftrightarrow> unicode_white_space c \<or> c = 8203"

definition device_name :: "(ustring \<Rightarrow> nat) \<Rightarrow> ustring \<Rightarrow> problem_message + ustring" where
  "device_name graphemes n =
     (let n = trim_matches is_foundation_whitespace n
      in if n = [] \<or> graphemes n > max_device_name_length
         then Inl (DeviceNameLength max_device_name_length)
         else Inr n)"

text \<open>The first problem with the metadata, or \<open>None\<close> when it is acceptable.\<close>

definition metadata_problem ::
  "(ustring \<Rightarrow> nat) \<Rightarrow> recording_metadata \<Rightarrow> handover_configuration \<Rightarrow> problem_message option" where
  "metadata_problem graphemes m c =
     (if m_byte_count m \<le> 0 \<or> m_byte_count m > max_byte_count
      then Some (ByteCountRange max_byte_count)
      else if m_chunk_size m < min_chunk_size \<or> m_chunk_size m > c_chunk_size c
      then Some (ChunkSizeRange min_chunk_size (c_chunk_size c))
      else if length (m_sha256 m) \<noteq> 32 then Some Sha256Length
      else if \<not> f64_is_finite (m_duration_seconds m)
            \<or> f64_less (m_duration_seconds m) (Finite 0)
            \<or> f64_less (Finite max_duration_seconds) (m_duration_seconds m)
      then Some DurationRange
      else case device_name graphemes (m_device_name m) of
             Inl p \<Rightarrow> Some p
           | Inr _ \<Rightarrow>
               if m_format m \<notin> set accepted_formats then Some (FormatNotAccepted (m_format m))
               else None)"

section \<open>The split into chunks\<close>

definition chunk_count :: "int \<Rightarrow> int \<Rightarrow> int" where
  "chunk_count bytes chunk = (bytes + chunk - 1) sdiv chunk"

definition chunk_length :: "int \<Rightarrow> int \<Rightarrow> int \<Rightarrow> int" where
  "chunk_length index bytes chunk = (let offset = index * chunk in min chunk (bytes - offset))"

text \<open>
  A recording that passed the checks: the sizes every later computation relies on. The stored
  receipts come from announces, so they have them too.
\<close>

definition sizes_ok :: "int \<Rightarrow> int \<Rightarrow> bool" where
  "sizes_ok bytes chunk \<longleftrightarrow> 0 < bytes \<and> bytes \<le> max_byte_count \<and> min_chunk_size \<le> chunk \<and>
     chunk \<le> i64_max - max_byte_count"

lemma sizes_ok_pos: "sizes_ok b c \<Longrightarrow> 0 < b \<and> 0 < c"
  by (simp add: sizes_ok_def min_chunk_size_def)

lemma chunk_count_div: "sizes_ok b c \<Longrightarrow> chunk_count b c = (b + c - 1) div c"
  by (drule sizes_ok_pos) (simp add: chunk_count_def sdiv_nonneg_eq_div)

lemma chunk_count_le_iff:
  assumes "sizes_ok b c"
  shows "i < chunk_count b c \<longleftrightarrow> i * c < b"
proof -
  from sizes_ok_pos[OF assms] have "0 < c" by simp
  have "i < (b + c - 1) div c \<longleftrightarrow> i + 1 \<le> (b + c - 1) div c" by linarith
  also have "\<dots> \<longleftrightarrow> (i + 1) * c \<le> b + c - 1"
    using \<open>0 < c\<close> by (rule int_le_div_iff)
  also have "\<dots> \<longleftrightarrow> i * c < b" by (simp add: distrib_right)
  finally show ?thesis using assms by (simp add: chunk_count_div)
qed

lemma chunk_count_pos: "sizes_ok b c \<Longrightarrow> 0 < chunk_count b c"
  using chunk_count_le_iff[of b c 0] sizes_ok_pos[of b c] by simp

lemma chunk_length_bounds:
  assumes "sizes_ok b c" and "0 \<le> i" and "i < chunk_count b c"
  shows "0 < chunk_length i b c" and "chunk_length i b c \<le> c" and "i * c + chunk_length i b c \<le> b"
  using assms sizes_ok_pos[OF assms(1)] by (auto simp: chunk_length_def chunk_count_le_iff)

lemma chunk_length_full:
  assumes "sizes_ok b c" and "0 \<le> i" and "i + 1 < chunk_count b c"
  shows "chunk_length i b c = c"
  using assms sizes_ok_pos[OF assms(1)] chunk_count_le_iff[of b c "i + 1"]
  by (simp add: chunk_length_def algebra_simps)

lemma chunk_length_last:
  assumes "sizes_ok b c"
  shows "(chunk_count b c - 1) * c + chunk_length (chunk_count b c - 1) b c = b"
proof -
  let ?n = "chunk_count b c"
  have "\<not> ?n * c < b" using chunk_count_le_iff[OF assms, of ?n] by simp
  then show ?thesis by (simp add: chunk_length_def algebra_simps)
qed

end
