(* ===== verification/Upload_Inbox.thy ===== *)
theory Upload_Inbox
  imports Metadata_Validation
begin

text \<open>
  \<open>steno-handover/src/upload/inbox.rs\<close> and \<open>receiving_file.rs\<close>: the files of the recordings
  being uploaded. A file is its identity (volume and file number) and its content; the
  sidecar is kept as what it decodes to, \<open>None\<close> when it does not decode. Every operation that
  can fail takes its outcome: \<open>IoOk\<close>, or \<open>IoFail n\<close> where \<open>n\<close> says how far it got (how many
  bytes of a write landed, or which of the operation's steps failed).
\<close>

section \<open>Files\<close>

datatype io_outcome = IoOk | IoFail nat

record disk_file =
  inode :: nat
  content :: bytes

record inbox =
  partials :: "(uuid, disk_file) btree"
  sidecars :: "(uuid, recording_metadata option) btree"
  temporaries :: "(uuid, unit) btree"
  verifieds :: "audio_format \<Rightarrow> (uuid, disk_file) btree"
  next_inode :: nat

definition empty_inbox :: inbox where
  "empty_inbox = \<lparr>partials = [], sidecars = [], temporaries = [], verifieds = (\<lambda>_. []),
     next_inode = 0\<rparr>"

text \<open>Writing at an offset: a gap past the end reads as zeros, an empty write does nothing.\<close>

definition write_at :: "nat \<Rightarrow> bytes \<Rightarrow> bytes \<Rightarrow> bytes" where
  "write_at offset data f =
     (if data = [] then f
      else take offset (f @ replicate (offset - length f) 0) @ data @ drop (offset + length data) f)"

definition has_partial :: "uuid \<Rightarrow> inbox \<Rightarrow> bool" where
  "has_partial i b \<longleftrightarrow> bt_get (partials b) i \<noteq> None"

definition has_verified :: "uuid \<Rightarrow> audio_format \<Rightarrow> inbox \<Rightarrow> bool" where
  "has_verified i f b \<longleftrightarrow> bt_get (verifieds b f) i \<noteq> None"

definition load_metadata :: "uuid \<Rightarrow> inbox \<Rightarrow> recording_metadata option" where
  "load_metadata i b = Option.bind (bt_get (sidecars b) i) (\<lambda>m. m)"

text \<open>Creates an empty partial, or opens an existing one without truncating it.\<close>

definition create_partial :: "uuid \<Rightarrow> inbox \<Rightarrow> inbox" where
  "create_partial i b =
     (case bt_get (partials b) i of
        Some _ \<Rightarrow> b
      | None \<Rightarrow> b\<lparr>partials := bt_insert i \<lparr>inode = next_inode b, content = []\<rparr> (partials b),
                  next_inode := Suc (next_inode b)\<rparr>)"

text \<open>The directory and the partial, the sidecar's temporary, the rename over the sidecar.\<close>

fun begin_recording :: "io_outcome \<Rightarrow> recording_metadata \<Rightarrow> inbox \<Rightarrow> inbox \<times> bool" where
  "begin_recording (IoFail 0) m b = (b, False)"
| "begin_recording (IoFail (Suc _)) m b =
     (let b = create_partial (m_recording_id m) b
      in (b\<lparr>temporaries := bt_insert (m_recording_id m) () (temporaries b)\<rparr>, False))"
| "begin_recording IoOk m b =
     (let b = create_partial (m_recording_id m) b
      in (b\<lparr>temporaries := bt_remove (m_recording_id m) (temporaries b),
            sidecars := bt_insert (m_recording_id m) (Some m) (sidecars b)\<rparr>, True))"

text \<open>Opens the partial for writing, never creating it, and writes at the offset.\<close>

fun write_chunk :: "io_outcome \<Rightarrow> uuid \<Rightarrow> nat \<Rightarrow> bytes \<Rightarrow> inbox \<Rightarrow> inbox \<times> bool" where
  "write_chunk out i offset data b =
     (case bt_get (partials b) i of
        None \<Rightarrow> (b, False)
      | Some f \<Rightarrow>
          (case out of
             IoOk \<Rightarrow>
               (b\<lparr>partials := bt_insert i (f\<lparr>content := write_at offset data (content f)\<rparr>)
                   (partials b)\<rparr>, True)
           | IoFail n \<Rightarrow>
               (b\<lparr>partials := bt_insert i
                   (f\<lparr>content := write_at offset (take n data) (content f)\<rparr>) (partials b)\<rparr>,
                False)))"

definition hash_matches :: "(bytes \<Rightarrow> bytes) \<Rightarrow> bytes \<Rightarrow> bytes \<Rightarrow> bool" where
  "hash_matches digest data expected = constant_time_equals (digest data) expected"

text \<open>An existing destination goes first; then the partial is renamed to it.\<close>

fun promote :: "io_outcome \<Rightarrow> uuid \<Rightarrow> audio_format \<Rightarrow> inbox \<Rightarrow> inbox \<times> bool" where
  "promote (IoFail 0) i f b = (b, False)"
| "promote out i f b =
     (let b = b\<lparr>verifieds := (verifieds b)(f := bt_remove i (verifieds b f))\<rparr>
      in case (out, bt_get (partials b) i) of
           (IoOk, Some p) \<Rightarrow>
             (b\<lparr>verifieds := (verifieds b)(f := bt_insert i p (verifieds b f)),
                partials := bt_remove i (partials b)\<rparr>, True)
         | _ \<Rightarrow> (b, False))"

definition remove_verified :: "uuid \<Rightarrow> audio_format \<Rightarrow> inbox \<Rightarrow> inbox" where
  "remove_verified i f b = b\<lparr>verifieds := (verifieds b)(f := bt_remove i (verifieds b f))\<rparr>"

text \<open>Removes every file of the recording.\<close>

definition discard :: "uuid \<Rightarrow> inbox \<Rightarrow> inbox" where
  "discard i b =
     b\<lparr>partials := bt_remove i (partials b), sidecars := bt_remove i (sidecars b),
       temporaries := bt_remove i (temporaries b),
       verifieds := (\<lambda>f. bt_remove i (verifieds b f))\<rparr>"

text \<open>Recording ids with any file, ascending.\<close>

definition recording_ids :: "inbox \<Rightarrow> uuid list" where
  "recording_ids b =
     sort (remdups (map fst (partials b) @ map fst (sidecars b) @ map fst (temporaries b) @
       concat (map (\<lambda>f. map fst (verifieds b f)) audio_formats)))"

section \<open>Facts\<close>

lemma create_partial_has [simp]: "has_partial i (create_partial i b)"
  by (simp add: has_partial_def create_partial_def split: option.splits)

lemma create_partial_other [simp]:
  "sidecars (create_partial i b) = sidecars b"
  "temporaries (create_partial i b) = temporaries b"
  "verifieds (create_partial i b) = verifieds b"
  by (simp_all add: create_partial_def split: option.splits)

lemma begin_ok:
  assumes "begin_recording out m b = (b', True)"
  shows "out = IoOk" and "has_partial (m_recording_id m) b'"
    and "load_metadata (m_recording_id m) b' = Some m"
    and "verifieds b' = verifieds b"
  using assms
  by (cases out rule: io_outcome.exhaust; cases "case out of IoFail n \<Rightarrow> n | _ \<Rightarrow> 0";
      auto simp: Let_def has_partial_def load_metadata_def create_partial_def split: option.splits)+

lemma ex_audio_format [simp]: "(\<exists>f \<in> set audio_formats. P f) \<longleftrightarrow> (\<exists>f. P f)"
  by auto

lemma in_recording_ids:
  "i \<in> set (recording_ids b) \<longleftrightarrow>
     bt_get (partials b) i \<noteq> None \<or> bt_get (sidecars b) i \<noteq> None \<or>
     bt_get (temporaries b) i \<noteq> None \<or> (\<exists>f. bt_get (verifieds b f) i \<noteq> None)"
  by (simp add: recording_ids_def bt_get_def map_of_eq_None_iff)

lemma discard_gone [simp]:
  "\<not> has_partial i (discard i b)" "load_metadata i (discard i b) = None"
  "\<not> has_verified i f (discard i b)" "i \<notin> set (recording_ids (discard i b))"
  by (auto simp: has_partial_def load_metadata_def has_verified_def discard_def in_recording_ids)

lemma discard_frame [simp]:
  assumes "j \<noteq> i"
  shows "bt_get (partials (discard i b)) j = bt_get (partials b) j"
    and "bt_get (sidecars (discard i b)) j = bt_get (sidecars b) j"
    and "bt_get (verifieds (discard i b) f) j = bt_get (verifieds b f) j"
  using assms by (simp_all add: discard_def)

lemma promote_ok:
  assumes "promote out i f b = (b', True)"
  shows "\<exists>p. bt_get (partials b) i = Some p \<and> bt_get (verifieds b' f) i = Some p"
    and "\<not> has_partial i b'"
  using assms
  by (auto simp: has_partial_def Let_def elim!: promote.elims split: io_outcome.splits option.splits)

section \<open>Chunks land where they belong\<close>

text \<open>
  The partial is sparse until complete, and chunks may come in any order or twice: once every
  index was written, the content is the recording.
\<close>

definition chunk_of :: "nat \<Rightarrow> bytes \<Rightarrow> nat \<Rightarrow> bytes" where
  "chunk_of c bs i = take c (drop (i * c) bs)"

lemma length_write_at:
  "length (write_at offset data f) = (if data = [] then length f
     else max (length f) (offset + length data))"
  by (auto simp: write_at_def max_def min_def)

lemma nth_write_at:
  assumes "p < length (write_at offset data f)"
  shows "write_at offset data f ! p =
     (if offset \<le> p \<and> p < offset + length data then data ! (p - offset)
      else if p < length f then f ! p else 0)"
  using assms
  by (auto simp: write_at_def nth_append min_def split: if_splits)

definition holds_chunks :: "nat \<Rightarrow> bytes \<Rightarrow> nat set \<Rightarrow> bytes \<Rightarrow> bool" where
  "holds_chunks c bs S f \<longleftrightarrow> length f \<le> length bs \<and>
     (\<forall>p < length bs. p div c \<in> S \<longrightarrow> p < length f \<and> f ! p = bs ! p)"

lemma holds_chunks_write:
  assumes h: "holds_chunks c bs S f" and c: "0 < c"
  shows "holds_chunks c bs (insert i S) (write_at (i * c) (chunk_of c bs i) f)"
proof (cases "chunk_of c bs i = []")
  case True
  then have "length bs \<le> i * c" using c by (auto simp: chunk_of_def)
  then have "p div c \<noteq> i" if "p < length bs" for p
    using that c by (metis div_less_iff_less_mult leD less_le_trans order_refl)
  with h True show ?thesis by (auto simp: holds_chunks_def write_at_def)
next
  case False
  let ?f = "write_at (i * c) (chunk_of c bs i) f"
  have off: "i * c < length bs" using False by (auto simp: chunk_of_def)
  have len: "length (chunk_of c bs i) = min c (length bs - i * c)"
    by (simp add: chunk_of_def)
  have L: "length ?f = max (length f) (i * c + min c (length bs - i * c))"
    using False by (simp add: length_write_at len)
  have Lb: "length ?f \<le> length bs"
    using h off by (auto simp: L holds_chunks_def)
  have "p < length ?f \<and> ?f ! p = bs ! p" if p: "p < length bs" "p div c \<in> insert i S" for p
  proof (cases "i * c \<le> p \<and> p < i * c + length (chunk_of c bs i)")
    case True
    then have "p - i * c < c" and "i * c \<le> p" using len by linarith+
    then have "chunk_of c bs i ! (p - i * c) = bs ! p"
      using off by (simp add: chunk_of_def)
    moreover have "p < length ?f" using True L len by linarith
    ultimately show ?thesis using True by (simp add: nth_write_at)
  next
    case F: False
    have "p div c \<noteq> i"
    proof
      assume "p div c = i"
      then have "i * c \<le> p" "p < i * c + c"
        using c div_times_less_eq_dividend[of p c] dividend_less_div_times[OF c, of p]
        by (auto simp: add.commute)
      with F p(1) len off show False by auto
    qed
    with p h have "p < length f" "f ! p = bs ! p" by (auto simp: holds_chunks_def)
    with F show ?thesis by (auto simp: L nth_write_at)
  qed
  with Lb show ?thesis by (simp add: holds_chunks_def)
qed

lemma holds_chunks_writes:
  assumes "0 < c" and "holds_chunks c bs S f"
  shows "holds_chunks c bs (S \<union> set is)
           (foldl (\<lambda>f i. write_at (i * c) (chunk_of c bs i) f) f is)"
  using assms(2)
proof (induction "is" arbitrary: S f)
  case (Cons i "is")
  from Cons.IH[OF holds_chunks_write[OF Cons.prems assms(1), of i]] show ?case by simp
qed simp

lemma holds_chunks_all:
  assumes "holds_chunks c bs S f" and "\<And>p. p < length bs \<Longrightarrow> p div c \<in> S"
  shows "f = bs"
proof -
  have "length bs \<le> length f"
  proof (rule ccontr)
    assume "\<not> length bs \<le> length f"
    then have "length f < length bs" by simp
    with assms show False by (auto simp: holds_chunks_def)
  qed
  with assms show ?thesis by (intro nth_equalityI) (auto simp: holds_chunks_def)
qed

end
