(* ===== verification/Pairing_Window.thy ===== *)
theory Pairing_Window
  imports Metadata_Validation
begin

text \<open>
  \<open>steno-handover/src/pairing.rs\<close> and \<open>base64url.rs\<close>: the open pairing window, the presented
  credential and the bearer tokens, and \<open>Engine::credential\<close> of \<open>engine/mod.rs\<close>. SHA-256 and
  the base64 engines are crates' and are the fields of \<open>crypto_ext\<close>; \<open>random\<close> gives the
  32 bytes of the n-th draw.
\<close>

record crypto_ext =
  digest :: "bytes \<Rightarrow> bytes"
  standard_decode :: "string \<Rightarrow> bytes option"
  standard_encode :: "bytes \<Rightarrow> string"
  url_safe_decode :: "string \<Rightarrow> bytes option"
  random :: "nat \<Rightarrow> bytes"

record pairing_payload =
  p_mac_id :: uuid
  p_mac_name :: ustring
  p_fingerprint :: bytes
  p_secret :: bytes
  p_expires_at :: instant

definition whole_second :: "instant \<Rightarrow> instant" where
  "whole_second t = t div 1000000000 * 1000000000"

definition new_payload ::
  "uuid \<Rightarrow> ustring \<Rightarrow> bytes \<Rightarrow> bytes \<Rightarrow> instant \<Rightarrow> pairing_payload" where
  "new_payload mac n fp secret expires =
     \<lparr>p_mac_id = mac, p_mac_name = n, p_fingerprint = fp, p_secret = secret,
      p_expires_at = whole_second expires\<rparr>"

definition open_session ::
  "uuid \<Rightarrow> ustring \<Rightarrow> bytes \<Rightarrow> int \<Rightarrow> instant \<Rightarrow> bytes \<Rightarrow> pairing_payload" where
  "open_session mac n fp window now secret = new_payload mac n fp secret (now + window)"

definition session_is_open :: "instant \<Rightarrow> pairing_payload \<Rightarrow> bool" where
  "session_is_open now s \<longleftrightarrow> now < p_expires_at s"

definition base64url_decode :: "crypto_ext \<Rightarrow> string \<Rightarrow> bytes option" where
  "base64url_decode x s = url_safe_decode x (rev (dropWhile (\<lambda>c. c = CHR ''='') (rev s)))"

definition session_matches ::
  "crypto_ext \<Rightarrow> instant \<Rightarrow> string \<Rightarrow> pairing_payload \<Rightarrow> bool" where
  "session_matches x now presented s =
     (if \<not> session_is_open now s then False
      else case (case standard_decode x presented of
                   Some b \<Rightarrow> Some b | None \<Rightarrow> base64url_decode x presented) of
             None \<Rightarrow> False
           | Some b \<Rightarrow> constant_time_equals (digest x b) (digest x (p_secret s)))"

text \<open>Bearer tokens: the store keeps only the hash.\<close>

definition mint_token :: "crypto_ext \<Rightarrow> bytes \<Rightarrow> string" where
  "mint_token x drawn = standard_encode x drawn"

definition utf8_bytes :: "string \<Rightarrow> bytes" where
  "utf8_bytes s = map of_char s"

definition token_hash :: "crypto_ext \<Rightarrow> string \<Rightarrow> bytes" where
  "token_hash x token = digest x (utf8_bytes token)"

section \<open>The credential of an \<open>Authorization\<close> header\<close>

definition ascii_white_space :: "char \<Rightarrow> bool" where
  "ascii_white_space c = unicode_white_space (of_char c)"

definition to_ascii_lowercase :: "char \<Rightarrow> char" where
  "to_ascii_lowercase c =
     (let n = of_char c :: nat in if 65 \<le> n \<and> n \<le> 90 then char_of (n + 32) else c)"

definition eq_ignore_ascii_case :: "string \<Rightarrow> string \<Rightarrow> bool" where
  "eq_ignore_ascii_case a b \<longleftrightarrow> map to_ascii_lowercase a = map to_ascii_lowercase b"

definition credential :: "string \<Rightarrow> string option \<Rightarrow> string option" where
  "credential scheme authorization =
     (case authorization of
        None \<Rightarrow> None
      | Some header \<Rightarrow>
          (case split_once (CHR '' '') (dropWhile ascii_white_space header) of
             None \<Rightarrow> None
           | Some (presented, rest) \<Rightarrow>
               if \<not> eq_ignore_ascii_case presented scheme then None
               else let c = trim_matches ascii_white_space rest
                    in if c = [] then None else Some c))"

section \<open>Facts\<close>

lemma whole_second_le: "whole_second t \<le> t"
proof -
  have "whole_second t = t - t mod 1000000000"
    by (simp add: whole_second_def minus_mod_eq_div_mult)
  then show ?thesis by simp
qed

lemma open_session_bounds:
  "session_is_open now (open_session mac n fp window start secret) \<Longrightarrow> now < start + window"
  using whole_second_le[of "start + window"]
  by (simp add: session_is_open_def open_session_def new_payload_def)

lemma session_matches_open: "session_matches x now c s \<Longrightarrow> session_is_open now s"
  by (simp add: session_matches_def split: if_splits)

lemma session_matches_digest:
  assumes "session_matches x now c s"
  shows "\<exists>b. digest x b = digest x (p_secret s)"
  using assms by (auto simp: session_matches_def split: if_splits option.splits)

lemma session_matches_secret:
  assumes "standard_decode x c = Some (p_secret s)" and "session_is_open now s"
  shows "session_matches x now c s"
  using assms by (simp add: session_matches_def)

lemma eq_ignore_ascii_case_refl [simp]: "eq_ignore_ascii_case s s"
  by (simp add: eq_ignore_ascii_case_def)

lemma credential_Some:
  assumes "credential scheme h = Some c"
  shows "c \<noteq> []" and "\<not> ascii_white_space (hd c)" and "\<not> ascii_white_space (last c)"
  using assms trim_matches_ends[of ascii_white_space]
  by (auto simp: credential_def Let_def split: option.splits prod.splits if_splits)

lemma ascii_white_space_space: "ascii_white_space (CHR '' '')"
  by (simp add: ascii_white_space_def unicode_white_space_def)

text \<open>What a client writes as \<open>scheme credential\<close> is read back.\<close>

lemma credential_written:
  assumes "scheme \<noteq> []" and "\<forall>ch \<in> set scheme. \<not> ascii_white_space ch"
    and "c \<noteq> []" and "\<not> ascii_white_space (hd c)" and "\<not> ascii_white_space (last c)"
  shows "credential scheme (Some (scheme @ CHR '' '' # c)) = Some c"
proof -
  have "dropWhile ascii_white_space (scheme @ CHR '' '' # c) = scheme @ CHR '' '' # c"
    using assms(1,2) by (cases scheme) auto
  moreover have "CHR '' '' \<notin> set scheme" using assms(2) ascii_white_space_space by auto
  then have "split_once (CHR '' '') (scheme @ CHR '' '' # c) = Some (scheme, c)"
    by (induction scheme) auto
  moreover have "trim_matches ascii_white_space c = c"
  proof -
    have "dropWhile ascii_white_space c = c"
      using assms(4) by (intro dropWhile_hd_idem) simp
    moreover have "dropWhile ascii_white_space (rev c) = rev c"
      using assms(3,5) by (intro dropWhile_hd_idem) (simp add: hd_rev)
    ultimately show ?thesis by (simp add: trim_matches_def)
  qed
  ultimately show ?thesis using assms(3) by (simp add: credential_def)
qed

end
