(* ===== verification/Decimal_Text.thy ===== *)
theory Decimal_Text
  imports Steno_Prelude
begin

text \<open>
  Decimal numbers as Rust prints and parses them: \<open>to_string\<close> of an \<open>i64\<close> and
  \<open>str::parse::<i64>\<close>, which takes an optional sign and at least one digit and fails on
  overflow.
\<close>

definition digit_char :: "nat \<Rightarrow> char" where
  "digit_char d = char_of (48 + d)"

definition is_ascii_digit :: "char \<Rightarrow> bool" where
  "is_ascii_digit c \<longleftrightarrow> 48 \<le> (of_char c :: nat) \<and> (of_char c :: nat) \<le> 57"

definition digit_val :: "char \<Rightarrow> nat" where
  "digit_val c = of_char c - 48"

fun nat_to_string :: "nat \<Rightarrow> string" where
  "nat_to_string n =
     (if n < 10 then [digit_char n] else nat_to_string (n div 10) @ [digit_char (n mod 10)])"

declare nat_to_string.simps [simp del]

definition int_to_string :: "int \<Rightarrow> string" where
  "int_to_string i =
     (if i < 0 then CHR ''-'' # nat_to_string (nat (- i)) else nat_to_string (nat i))"

definition digits_value :: "string \<Rightarrow> nat option" where
  "digits_value s =
     (if s \<noteq> [] \<and> list_all is_ascii_digit s
      then Some (foldl (\<lambda>n c. 10 * n + digit_val c) 0 s) else None)"

definition in_i64 :: "int \<Rightarrow> int option" where
  "in_i64 i = (if fits_i64 i then Some i else None)"

definition parse_i64 :: "string \<Rightarrow> int option" where
  "parse_i64 s =
     (case s of
        [] \<Rightarrow> None
      | c # cs \<Rightarrow>
          if c = CHR ''-'' then Option.bind (digits_value cs) (\<lambda>n. in_i64 (- int n))
          else if c = CHR ''+'' then Option.bind (digits_value cs) (\<lambda>n. in_i64 (int n))
          else Option.bind (digits_value (c # cs)) (\<lambda>n. in_i64 (int n)))"

lemma of_char_digit: "d < 10 \<Longrightarrow> of_char (digit_char d) = 48 + d"
  by (simp add: digit_char_def)

lemma is_digit_digit_char [simp]: "d < 10 \<Longrightarrow> is_ascii_digit (digit_char d)"
  by (simp add: is_ascii_digit_def of_char_digit)

lemma digit_val_digit_char [simp]: "d < 10 \<Longrightarrow> digit_val (digit_char d) = d"
  by (simp add: digit_val_def of_char_digit)

lemma nat_to_string_ne [simp]: "nat_to_string n \<noteq> []"
  by (subst nat_to_string.simps) simp

lemma nat_to_string_digits: "list_all is_ascii_digit (nat_to_string n)"
proof (induction n rule: nat_to_string.induct)
  case (1 n)
  then show ?case by (subst nat_to_string.simps) auto
qed

lemma nat_to_string_value: "foldl (\<lambda>n c. 10 * n + digit_val c) 0 (nat_to_string n) = n"
proof (induction n rule: nat_to_string.induct)
  case (1 n)
  then show ?case by (subst nat_to_string.simps) auto
qed

lemma digits_value_nat_to_string [simp]: "digits_value (nat_to_string n) = Some n"
  by (simp add: digits_value_def nat_to_string_digits nat_to_string_value)

lemma hd_nat_to_string: "is_ascii_digit (hd (nat_to_string n))"
  using nat_to_string_digits[of n] by (cases "nat_to_string n") auto

lemma parse_int_to_string_nonneg:
  assumes "0 \<le> i" and "i \<le> i64_max"
  shows "parse_i64 (int_to_string i) = Some i"
proof -
  obtain c cs where s: "nat_to_string (nat i) = c # cs" by (cases "nat_to_string (nat i)") auto
  then have "is_ascii_digit c" using hd_nat_to_string[of "nat i"] by simp
  then have "c \<noteq> CHR ''-''" "c \<noteq> CHR ''+''" by (auto simp: is_ascii_digit_def)
  with s assms show ?thesis
    using digits_value_nat_to_string[of "nat i"]
    by (simp add: parse_i64_def int_to_string_def in_i64_def fits_i64_def i64_min_def)
qed

lemma int_to_string_no_slash: "CHR ''/'' \<notin> set (int_to_string i)"
  using nat_to_string_digits[of "nat i"] nat_to_string_digits[of "nat (-i)"]
  by (auto simp: int_to_string_def list_all_iff is_ascii_digit_def)

lemma int_to_string_no_question: "CHR ''?'' \<notin> set (int_to_string i)"
  using nat_to_string_digits[of "nat i"] nat_to_string_digits[of "nat (-i)"]
  by (auto simp: int_to_string_def list_all_iff is_ascii_digit_def)

lemma int_to_string_no_percent: "CHR ''%'' \<notin> set (int_to_string i)"
  using nat_to_string_digits[of "nat i"] nat_to_string_digits[of "nat (-i)"]
  by (auto simp: int_to_string_def list_all_iff is_ascii_digit_def)

lemma int_to_string_ne [simp]: "int_to_string i \<noteq> []"
  by (simp add: int_to_string_def)

section \<open>Unsigned numbers in text\<close>

text \<open>\<open>str::parse\<close> to an unsigned integer of \<open>w\<close> bits.\<close>

definition parse_unsigned :: "nat \<Rightarrow> ustring \<Rightarrow> nat option" where
  "parse_unsigned w s =
     (let digits = (case s of c # cs \<Rightarrow> if c = 43 then cs else s | [] \<Rightarrow> s)
      in if list_all (\<lambda>c. c < 128) digits
         then Option.bind (digits_value (map char_of digits)) (\<lambda>n. if n < 2 ^ w then Some n else None)
         else None)"

definition nat_text :: "nat \<Rightarrow> ustring" where
  "nat_text n = ascii (nat_to_string n)"

lemma nat_text_digits: "c \<in> set (nat_text n) \<Longrightarrow> 48 \<le> c \<and> c \<le> 57"
  using nat_to_string_digits[of n] by (auto simp: nat_text_def ascii_def list_all_iff is_ascii_digit_def)

lemma nat_text_ne [simp]: "nat_text n \<noteq> []"
  by (simp add: nat_text_def ascii_def)

lemma parse_unsigned_nat_text: "n < 2 ^ w \<Longrightarrow> parse_unsigned w (nat_text n) = Some n"
proof -
  assume n: "n < 2 ^ w"
  obtain c cs where s: "nat_text n = c # cs" by (cases "nat_text n") auto
  then have "c \<noteq> 43" using nat_text_digits[of c n] by auto
  then have "(case nat_text n of c # cs \<Rightarrow> if c = 43 then cs else nat_text n | [] \<Rightarrow> nat_text n) = nat_text n"
    by (simp add: s)
  moreover have "list_all (\<lambda>c. c < 128) (nat_text n)"
    using nat_text_digits[of _ n] by (fastforce simp: list_all_iff)
  moreover have "map char_of (nat_text n) = nat_to_string n" by (simp add: nat_text_def ascii_def comp_def)
  ultimately show ?thesis using n unfolding parse_unsigned_def Let_def by simp
qed

lemma nat_text_inject [simp]: "nat_text m = nat_text n \<longleftrightarrow> m = n"
proof
  assume "nat_text m = nat_text n"
  then have "map char_of (nat_text m) = (map char_of (nat_text n) :: string)" by simp
  then have "nat_to_string m = nat_to_string n" by (simp add: nat_text_def ascii_def comp_def)
  then show "m = n" by (metis digits_value_nat_to_string option.inject)
qed simp

end
