(* ===== verification/Handover_Routes.thy ===== *)
theory Handover_Routes
  imports Handover_Types Decimal_Text
begin

text \<open>
  \<open>steno-handover/src/route.rs\<close>: the seven routes, what each must carry, and the body limit.
  Percent decoding (\<open>percent-encoding\<close>, \<open>None\<close> when the decoded bytes are not UTF-8) and
  \<open>Uuid::try_parse\<close> are the crates' and are the fields of \<open>route_ext\<close>; \<open>parse_uuid\<close> is
  \<open>steno-core/src/json.rs\<close>'s.
\<close>

datatype http_method = GET | POST | PUT | DELETE | OtherMethod string

datatype auth_requirement = NoAuth | PairingAuth | BearerAuth

datatype route =
    Hello
  | Pair
  | Unpair
  | Announce uuid
  | Status uuid
  | Chunk uuid int
  | CompleteRoute uuid

record route_ext =
  percent_decode :: "string \<Rightarrow> string option"
  try_parse_uuid :: "string \<Rightarrow> uuid option"

definition parse_uuid :: "route_ext \<Rightarrow> string \<Rightarrow> uuid option" where
  "parse_uuid x s = (if length s \<noteq> 36 then None else try_parse_uuid x s)"

definition path_of :: "string \<Rightarrow> string" where
  "path_of uri = (case split_once (CHR ''?'') uri of None \<Rightarrow> uri | Some (path, _) \<Rightarrow> path)"

definition path_parts :: "route_ext \<Rightarrow> string \<Rightarrow> string list" where
  "path_parts x path =
     map (\<lambda>part. case percent_decode x part of None \<Rightarrow> part | Some decoded \<Rightarrow> decoded)
       (filter (\<lambda>part. part \<noteq> []) (split_at_char (CHR ''/'') path))"

definition chunk_index :: "string \<Rightarrow> int option" where
  "chunk_index s =
     Option.bind (parse_i64 s)
       (\<lambda>index. if index \<ge> 0 \<and> int_to_string index = s then Some index else None)"

fun match_parts :: "route_ext \<Rightarrow> http_method \<Rightarrow> string list \<Rightarrow> route option" where
  "match_parts x GET [_, a] =
     (if a = ''hello'' then Some Hello else None)"
| "match_parts x POST [_, a] =
     (if a = ''pair'' then Some Pair else None)"
| "match_parts x DELETE [_, a] =
     (if a = ''pairing'' then Some Unpair else None)"
| "match_parts x PUT [_, a, b] =
     (if a = ''recordings'' then map_option Announce (parse_uuid x b) else None)"
| "match_parts x GET [_, a, b] =
     (if a = ''recordings'' then map_option Status (parse_uuid x b) else None)"
| "match_parts x PUT [_, a, b, c, d] =
     (if a = ''recordings'' \<and> c = ''chunks''
      then Option.bind (parse_uuid x b) (\<lambda>id. map_option (Chunk id) (chunk_index d))
      else None)"
| "match_parts x POST [_, a, b, c] =
     (if a = ''recordings'' \<and> c = ''complete''
      then map_option CompleteRoute (parse_uuid x b) else None)"
| "match_parts x _ _ = None"

definition matches :: "route_ext \<Rightarrow> http_method \<Rightarrow> string \<Rightarrow> route option" where
  "matches x meth uri =
     (let parts = path_parts x (path_of uri)
      in case parts of
           [] \<Rightarrow> None
         | first # _ \<Rightarrow> if first \<noteq> ''v1'' then None else match_parts x meth parts)"

fun auth :: "route \<Rightarrow> auth_requirement" where
  "auth Hello = NoAuth"
| "auth Pair = PairingAuth"
| "auth _ = BearerAuth"

fun body_limit :: "route \<Rightarrow> handover_configuration \<Rightarrow> int" where
  "body_limit (Chunk _ _) c = chunk_body_limit c"
| "body_limit _ _ = json_body_limit"

section \<open>Facts\<close>

lemma chunk_index_Some: "chunk_index s = Some i \<longleftrightarrow> 0 \<le> i \<and> i \<le> i64_max \<and> s = int_to_string i"
proof
  assume "chunk_index s = Some i"
  then have "parse_i64 s = Some i" "0 \<le> i" "int_to_string i = s"
    by (auto simp: chunk_index_def bind_eq_Some_conv split: if_splits)
  moreover from this(1) have "i \<le> i64_max"
    by (auto simp: parse_i64_def in_i64_def fits_i64_def bind_eq_Some_conv
        split: list.splits if_splits)
  ultimately show "0 \<le> i \<and> i \<le> i64_max \<and> s = int_to_string i" by simp
next
  assume "0 \<le> i \<and> i \<le> i64_max \<and> s = int_to_string i"
  then show "chunk_index s = Some i"
    by (simp add: chunk_index_def parse_int_to_string_nonneg)
qed

text \<open>The path a client writes for a route with an id in its text form.\<close>

definition slash :: "string list \<Rightarrow> string" where
  "slash parts = concat (map (\<lambda>p. CHR ''/'' # p) parts)"

lemma split_at_char_append:
  "CHR ''/'' \<notin> set p \<Longrightarrow>
     split_at_char (CHR ''/'') (p @ CHR ''/'' # s) = p # split_at_char (CHR ''/'') s"
  by (induction p) auto

lemma split_at_char_free: "c \<notin> set p \<Longrightarrow> split_at_char c p = [p]"
  by (induction p) auto

lemma split_slash:
  assumes "\<And>p. p \<in> set ps \<Longrightarrow> CHR ''/'' \<notin> set p"
  shows "split_at_char (CHR ''/'') (slash ps) = [] # ps"
  using assms
proof (induction ps)
  case (Cons p ps)
  then have IH: "split_at_char (CHR ''/'') (slash ps) = [] # ps" and p: "CHR ''/'' \<notin> set p"
    by auto
  show ?case
  proof (cases ps)
    case Nil
    with p show ?thesis by (simp add: slash_def split_at_char_free)
  next
    case (Cons q qs)
    then have "slash (p # ps) = CHR ''/'' # p @ CHR ''/'' # tl (slash ps)"
      and "slash ps = CHR ''/'' # tl (slash ps)"
      by (simp_all add: slash_def)
    with IH have "split_at_char (CHR ''/'') (tl (slash ps)) = ps"
      by (metis list.inject split_at_char.simps(2))
    with p \<open>slash (p # ps) = _\<close> show ?thesis by (simp add: split_at_char_append)
  qed
qed (simp add: slash_def)

text \<open>A segment a client may write: it decodes to itself and carries no separator.\<close>

definition plain_segment :: "route_ext \<Rightarrow> string \<Rightarrow> bool" where
  "plain_segment x p \<longleftrightarrow> p \<noteq> [] \<and> CHR ''/'' \<notin> set p \<and> CHR ''?'' \<notin> set p \<and>
     percent_decode x p = Some p"

lemma path_parts_slash:
  assumes "list_all (plain_segment x) ps"
  shows "path_parts x (slash ps) = ps"
proof -
  have "split_at_char (CHR ''/'') (slash ps) = [] # ps"
    using assms by (intro split_slash) (auto simp: list_all_iff plain_segment_def)
  moreover have "filter (\<lambda>part. part \<noteq> []) ps = ps"
    using assms by (auto simp: list_all_iff plain_segment_def intro!: filter_True)
  moreover have "map (\<lambda>part. case percent_decode x part of None \<Rightarrow> part | Some d \<Rightarrow> d) ps = ps"
    using assms by (intro map_idI) (auto simp: list_all_iff plain_segment_def)
  ultimately show ?thesis by (simp add: path_parts_def)
qed

lemma path_of_slash:
  assumes "list_all (plain_segment x) ps"
  shows "path_of (slash ps) = slash ps" and "path_of (slash ps @ CHR ''?'' # q) = slash ps"
proof -
  have free: "CHR ''?'' \<notin> set (slash ps)"
    using assms by (auto simp: slash_def list_all_iff plain_segment_def)
  then show "path_of (slash ps) = slash ps"
    by (simp add: path_of_def split_once_None[THEN iffD2])
  have "split_once c (p @ c # q) = Some (p, q)" if "c \<notin> set p" for c :: char and p q
    using that by (induction p) auto
  with free show "path_of (slash ps @ CHR ''?'' # q) = slash ps"
    by (simp add: path_of_def)
qed

lemma matches_slash:
  assumes "list_all (plain_segment x) (''v1'' # ps)"
  shows "matches x meth (slash (''v1'' # ps)) = match_parts x meth (''v1'' # ps)"
  using path_parts_slash[OF assms] path_of_slash(1)[OF assms] by (simp add: matches_def)

lemma auth_anonymous: "auth r = NoAuth \<longleftrightarrow> r = Hello"
  by (cases r) auto

lemma auth_pairing: "auth r = PairingAuth \<longleftrightarrow> r = Pair"
  by (cases r) auto

end
