(* ===== verification/Handover_Engine.thy ===== *)
theory Handover_Engine
  imports Async_Tasks Handover_Store Upload_Inbox Pairing_Window Handover_Routes
begin

text \<open>
  The state of the handover engine and its operations (\<open>steno-handover/src/engine/mod.rs\<close>).
  \<open>world\<close> is everything a request can touch: the fields of the source's \<open>State\<close>, the store,
  the line of store writes, the inbox files, the clock. Each definition that ends in a task
  is one \<open>async\<close> function; its atomic sections are what the source does under one guard of the
  state lock, or in one store, file or clock call. The files lock is not modelled: what the
  source does under it is a few sections that others may come between, so the tasks interleave
  in more ways than the program does, and what holds of every interleaving here holds there.
  \<open>store_faults\<close> and \<open>io_faults\<close> script how the coming store and file calls end, so a theorem about
  every world covers every pattern of failures.
\<close>

section \<open>The world\<close>

record world =
  clock :: instant
  store :: db
  store_faults :: "bool list"
  files :: inbox
  io_faults :: "io_outcome list"
  pairing :: "pairing_payload option"
  window :: nat
  active_receipts :: "(uuid, handover_receipt) btree"
  completing :: "uuid set"
  revoked :: "uuid set"
  revocations :: "uuid \<Rightarrow> nat"
  line :: "(nat \<times> store_write) list"
  next_place :: nat
  written :: "nat \<rightharpoonup> bool"
  published :: "handover_receipt list"
  draws :: nat

text \<open>
  What the engine is given: the crates' functions, the identity, the configuration, and the
  intake, which takes the file's content, the metadata and the device, reads and writes the
  store in as many transactions as it likes, and returns a meeting id or fails.
\<close>

record engine_ext =
  crypto :: crypto_ext
  routing :: route_ext
  graphemes :: "ustring \<Rightarrow> nat"
  parse_metadata :: "bytes \<Rightarrow> recording_metadata option"
  parse_pair_request :: "bytes \<Rightarrow> (uuid \<times> ustring) option"
  conf :: handover_configuration
  mac_id :: uuid
  fingerprint :: bytes
  intake :: "bytes \<Rightarrow> recording_metadata \<Rightarrow> paired_device \<Rightarrow> (db, uuid option) task"

definition take_fault :: "world \<Rightarrow> bool \<times> world" where
  "take_fault w =
     (case store_faults w of [] \<Rightarrow> (False, w) | f # fs \<Rightarrow> (f, w\<lparr>store_faults := fs\<rparr>))"

definition take_io :: "world \<Rightarrow> io_outcome \<times> world" where
  "take_io w =
     (case io_faults w of [] \<Rightarrow> (IoOk, w) | f # fs \<Rightarrow> (f, w\<lparr>io_faults := fs\<rparr>))"

definition abandoned_after :: int where
  "abandoned_after = 14 * 24 * 60 * 60 * 1000000000"

definition intake_refused :: string where "intake_refused = ''the intake refused the file''"
definition meeting_missing :: string where
  "meeting_missing = ''the admitted meeting is missing''"

section \<open>State\<close>

definition revocation_count :: "uuid \<Rightarrow> world \<Rightarrow> nat" where
  "revocation_count dev w = revocations w dev"

definition holds_another_devices :: "uuid \<Rightarrow> uuid \<Rightarrow> world \<Rightarrow> bool" where
  "holds_another_devices i dev w =
     (case bt_get (active_receipts w) i of None \<Rightarrow> False | Some r \<Rightarrow> device_id r \<noteq> dev)"

definition receipts_snapshot :: "world \<Rightarrow> handover_receipt list" where
  "receipts_snapshot w = sort_key created_at (sort_key recording_id (map snd (active_receipts w)))"

definition forget_own_state :: "uuid \<Rightarrow> uuid \<Rightarrow> world \<Rightarrow> world \<times> bool" where
  "forget_own_state i dev w =
     (if holds_another_devices i dev w then (w, False)
      else (w\<lparr>active_receipts := bt_remove i (active_receipts w)\<rparr>, True))"

definition remember :: "handover_receipt \<Rightarrow> world \<Rightarrow> world" where
  "remember r w =
     (if device_id r \<in> revoked w then w
      else w\<lparr>active_receipts := bt_insert (recording_id r) r (active_receipts w)\<rparr>)"

section \<open>The line of store writes\<close>

text \<open>
  A place in line is taken in the section that changes memory; the writes commit in that
  order, each once the one before it has returned, and a failed write does not hold up the
  next.
\<close>

definition next_write :: "store_write \<Rightarrow> world \<Rightarrow> world \<times> nat" where
  "next_write wr w =
     (w\<lparr>line := line w @ [(next_place w, wr)], next_place := Suc (next_place w)\<rparr>, next_place w)"

definition commit_head :: "world \<Rightarrow> world" where
  "commit_head w =
     (case line w of
        [] \<Rightarrow> w
      | (p, wr) # rest \<Rightarrow>
          (let (fault, w) = take_fault w;
               result = (if fault then Inl StoreIo else run_write wr (store w))
           in w\<lparr>line := rest,
                store := (case result of Inl _ \<Rightarrow> store w | Inr d \<Rightarrow> d),
                written := (written w)(p \<mapsto> (case result of Inl _ \<Rightarrow> False | Inr _ \<Rightarrow> True))\<rparr>))"

fun commit_heads :: "nat \<Rightarrow> world \<Rightarrow> world" where
  "commit_heads 0 w = w"
| "commit_heads (Suc n) w = commit_heads n (commit_head w)"

definition commit_until :: "nat \<Rightarrow> world \<Rightarrow> world" where
  "commit_until p w =
     (if p \<in> set (map fst (line w))
      then commit_heads (Suc (length (takeWhile (\<lambda>(q, _). q \<noteq> p) (line w)))) w else w)"

text \<open>Waiting for the write at place \<open>p\<close>: whether it was written.\<close>

definition in_order :: "nat \<Rightarrow> (world, bool) task" where
  "in_order p = atomically (\<lambda>w. let w = commit_until p w in (w, written w p = Some True))"

text \<open>A store read on the blocking pool; \<open>None\<close> when it fails.\<close>

definition with_store :: "(db \<Rightarrow> 'a) \<Rightarrow> (world, 'a option) task" where
  "with_store query =
     atomically (\<lambda>w. let (fault, w) = take_fault w
                     in (w, if fault then None else Some (query (store w))))"

text \<open>A task of the store, run by the engine.\<close>

primrec on_store :: "(db, 'a) task \<Rightarrow> (world, 'a) task" where
  "on_store (Done a) = Done a"
| "on_store (Step f) =
     Step (\<lambda>w. map_prod (\<lambda>d. w\<lparr>store := d\<rparr>) on_store (f (store w)))"

section \<open>Receipts\<close>

definition publish_receipts :: "(world, unit) task" where
  "publish_receipts = atomically (\<lambda>w. (w\<lparr>published := receipts_snapshot w\<rparr>, ()))"

text \<open>
  The stored receipt as admitted or not: a complete one whose meeting exists as it is, one the
  ledger admitted as complete with the ledger's meeting, a complete one with neither as failed.
\<close>

definition stored_receipt :: "uuid \<Rightarrow> db \<Rightarrow> handover_receipt option" where
  "stored_receipt i d =
     (case handover_receipt i d of
        None \<Rightarrow> None
      | Some r \<Rightarrow>
          if (case meeting_id (state r) of Some m \<Rightarrow> has_meeting d m | None \<Rightarrow> False) then Some r
          else case admitted_meeting i (byte_count r) (sha256 r) d of
                 Some m \<Rightarrow> Some (r\<lparr>state := Complete m\<rparr>)
               | None \<Rightarrow>
                   if kind (state r) = KComplete then Some (r\<lparr>state := Failed meeting_missing\<rparr>)
                   else Some r)"

definition same_upload :: "handover_receipt \<Rightarrow> handover_receipt \<Rightarrow> bool" where
  "same_upload held read \<longleftrightarrow>
     device_id held = device_id read \<and> byte_count held = byte_count read \<and>
     sha256 held = sha256 read"

definition change ::
  "uuid \<Rightarrow> (handover_receipt option \<Rightarrow> 'e + handover_receipt) \<Rightarrow>
   (handover_receipt \<Rightarrow> handover_receipt) \<Rightarrow> instant \<Rightarrow> world \<Rightarrow>
   world \<times> ('e + handover_receipt \<times> nat)" where
  "change i pick edit timestamp w =
     (case pick (bt_get (active_receipts w) i) of
        Inl e \<Rightarrow> (w, Inl e)
      | Inr picked \<Rightarrow>
          let changed = (edit picked)\<lparr>updated_at := timestamp\<rparr>;
              (w, place) = next_write (SaveReceipt changed) (remember changed w)
          in (w, Inr (changed, place)))"

definition save :: "nat \<Rightarrow> (world, bool) task" where
  "save place = await (in_order place) (\<lambda>ok. await publish_receipts (\<lambda>_. Done ok))"

definition pick_update ::
  "handover_receipt \<Rightarrow> bool \<Rightarrow> handover_receipt option \<Rightarrow>
     handover_receipt option + handover_receipt" where
  "pick_update read writes_chunks held =
     (case held of
        Some h \<Rightarrow>
          if \<not> same_upload h read then Inl None
          else if kind (state h) = KComplete then Inl (Some h)
          else if writes_chunks \<and> chunk_size h \<noteq> chunk_size read then Inl None
          else Inr h
      | None \<Rightarrow> Inr read)"

definition edit_update ::
  "handover_state option \<Rightarrow> int list option \<Rightarrow> handover_receipt \<Rightarrow> handover_receipt" where
  "edit_update s chunks r =
     (let r = (case s of None \<Rightarrow> r | Some s \<Rightarrow> r\<lparr>state := s\<rparr>)
      in case chunks of None \<Rightarrow> r | Some cs \<Rightarrow> r\<lparr>received_chunks := cs\<rparr>)"

text \<open>The receipt the request goes on with, and whether the save went through.\<close>

definition update_receipt ::
  "handover_receipt \<Rightarrow> handover_state option \<Rightarrow> int list option \<Rightarrow>
     (world, handover_receipt \<times> bool) task" where
  "update_receipt r s chunks =
     await (reading clock) (\<lambda>now.
       await (atomically (change (recording_id r) (pick_update r (chunks \<noteq> None))
                (edit_update s chunks) now))
         (\<lambda>picked. case picked of
            Inr (changed, place) \<Rightarrow> await (save place) (\<lambda>ok. Done (changed, ok))
          | Inl (Some h) \<Rightarrow> Done (h, True)
          | Inl None \<Rightarrow> Done (r, True)))"

definition transition ::
  "handover_receipt \<Rightarrow> handover_state \<Rightarrow> int list option \<Rightarrow>
     (world, handover_receipt \<times> bool) task" where
  "transition r s chunks = update_receipt r (Some s) chunks"

definition insert_chunk :: "int \<Rightarrow> int list \<Rightarrow> int list" where
  "insert_chunk index chunks = remdups_adj (sort (chunks @ [index]))"

definition edit_chunk :: "int \<Rightarrow> handover_receipt \<Rightarrow> handover_receipt" where
  "edit_chunk index r =
     r\<lparr>state := Receiving, received_chunks := insert_chunk index (received_chunks r)\<rparr>"

definition pick_chunk ::
  "handover_receipt \<Rightarrow> handover_receipt option \<Rightarrow> bool option + handover_receipt" where
  "pick_chunk read held =
     (case held of
        Some h \<Rightarrow>
          if \<not> (same_upload h read \<and> chunk_size h = chunk_size read) then Inl None
          else if kind (state h) = KComplete then Inl (Some True)
          else Inr h
      | None \<Rightarrow> Inl None)"

text \<open>\<open>None\<close>: memory holds no receipt of this upload and split.\<close>

definition add_chunk :: "handover_receipt \<Rightarrow> int \<Rightarrow> (world, bool option) task" where
  "add_chunk read index =
     await (reading clock) (\<lambda>now.
       await (atomically (change (recording_id read) (pick_chunk read) (edit_chunk index) now))
         (\<lambda>picked. case picked of
            Inr (_, place) \<Rightarrow> await (save place) (\<lambda>ok. Done (Some ok))
          | Inl declined \<Rightarrow> Done declined))"

text \<open>From memory or the store; memory wins. \<open>Inl ()\<close> is a failed read, never "no receipt".\<close>

definition receipt :: "uuid \<Rightarrow> (world, unit + handover_receipt option) task" where
  "receipt i =
     await (reading (\<lambda>w. bt_get (active_receipts w) i)) (\<lambda>active.
       case active of
         Some r \<Rightarrow> Done (Inr (Some r))
       | None \<Rightarrow>
           await (with_store (stored_receipt i)) (\<lambda>stored.
             case stored of
               None \<Rightarrow> Done (Inl ())
             | Some None \<Rightarrow> Done (Inr None)
             | Some (Some r) \<Rightarrow>
                 atomically (\<lambda>w. case bt_get (active_receipts w) i of
                    Some active \<Rightarrow> (w, Inr (Some active))
                  | None \<Rightarrow> (remember r w, Inr (Some r)))))"

definition owned_receipt ::
  "uuid \<Rightarrow> paired_device \<Rightarrow> (world, handover_response + handover_receipt) task" where
  "owned_receipt i dev =
     await (receipt i) (\<lambda>found.
       case found of
         Inr (Some r) \<Rightarrow>
           if device_id r = d_id dev then Done (Inr r) else Done (Inl no_such_recording)
       | Inr None \<Rightarrow> Done (Inl no_such_recording)
       | Inl _ \<Rightarrow> Done (Inl (internal_error ''reading the receipt'')))"

section \<open>Files of a recording\<close>

definition forget_own :: "uuid \<Rightarrow> uuid \<Rightarrow> (world, unit) task" where
  "forget_own i dev =
     await (atomically (forget_own_state i dev))
       (\<lambda>forgot. if forgot then publish_receipts else Done ())"

definition discard_files :: "uuid \<Rightarrow> (world, unit) task" where
  "discard_files i = atomically (\<lambda>w. (w\<lparr>files := discard i (files w)\<rparr>, ()))"

definition discard_own :: "uuid \<Rightarrow> uuid \<Rightarrow> (world, unit) task" where
  "discard_own i dev =
     await (reading (holds_another_devices i dev))
       (\<lambda>another. if another then Done () else discard_files i)"

definition discard_own_while_revoked :: "uuid \<Rightarrow> uuid \<Rightarrow> (world, unit) task" where
  "discard_own_while_revoked i dev =
     await (reading (\<lambda>w. dev \<in> revoked w \<and> \<not> holds_another_devices i dev w))
       (\<lambda>go. if go then discard_files i else Done ())"

definition discard_and_forget_own :: "uuid \<Rightarrow> uuid \<Rightarrow> (world, unit) task" where
  "discard_and_forget_own i dev =
     await (atomically (forget_own_state i dev)) (\<lambda>forgot.
       if \<not> forgot then Done () else await (discard_files i) (\<lambda>_. publish_receipts))"

text \<open>\<open>Inbox::begin\<close> on the disk: whether it went through.\<close>

definition begin_files :: "recording_metadata \<Rightarrow> (world, bool) task" where
  "begin_files m =
     atomically (\<lambda>w. let (out, w) = take_io w; (b, ok) = begin_recording out m (files w)
                     in (w\<lparr>files := b\<rparr>, ok))"

text \<open>
  Opens the files of the receipt an announce just made, after discarding every file of the
  recording; \<open>None\<close>, with nothing opened, when memory no longer holds this device's receipt.
\<close>

definition open_files ::
  "uuid \<Rightarrow> uuid \<Rightarrow> recording_metadata option \<Rightarrow> (world, bool option) task" where
  "open_files i dev begins =
     await (reading (\<lambda>w. case bt_get (active_receipts w) i of
                           None \<Rightarrow> False | Some held \<Rightarrow> device_id held = dev)) (\<lambda>ours.
       if \<not> ours then Done None
       else await (discard_files i) (\<lambda>_.
         case begins of
           None \<Rightarrow> Done (Some True)
         | Some m \<Rightarrow> await (begin_files m) (\<lambda>ok. Done (Some ok))))"

text \<open>\<open>None\<close> for a revoked device, \<open>Some None\<close> for a failed opening, else whether it reopened.\<close>

definition reopen_missing_files ::
  "recording_metadata \<Rightarrow> uuid \<Rightarrow> (world, bool option option) task" where
  "reopen_missing_files m dev =
     await (reading (\<lambda>w. dev \<in> revoked w)) (\<lambda>gone.
       if gone then Done None
       else await (reading (\<lambda>w. let i = m_recording_id m in
               has_verified i (m_format m) (files w) \<or>
               (has_partial i (files w) \<and> load_metadata i (files w) \<noteq> None))) (\<lambda>there.
         if there then Done (Some (Some False))
         else await (begin_files m)
                (\<lambda>ok. Done (Some (if ok then Some True else None)))))"

section \<open>Revoking\<close>

text \<open>
  The receipts of the device leave memory, the delete takes its place in line, all in one
  section; then the files of the unfinished ones go, then the delete commits.
\<close>

definition revoke_state :: "uuid \<Rightarrow> world \<Rightarrow> world \<times> (uuid list \<times> nat)" where
  "revoke_state dev w =
     (let unfinished = map (\<lambda>(_, r). recording_id r)
            (filter (\<lambda>(_, r). device_id r = dev \<and> kind (state r) \<noteq> KComplete) (active_receipts w));
          w = w\<lparr>revoked := insert dev (revoked w),
                revocations := (revocations w)(dev := Suc (revocations w dev)),
                active_receipts := bt_retain (\<lambda>_ r. device_id r \<noteq> dev) (active_receipts w)\<rparr>;
          (w, place) = next_write (DeletePairedDevice dev) w
      in (w, unfinished, place))"

fun discard_all_own :: "uuid list \<Rightarrow> uuid \<Rightarrow> (world, unit) task" where
  "discard_all_own [] dev = Done ()"
| "discard_all_own (i # is) dev = await (discard_own i dev) (\<lambda>_. discard_all_own is dev)"

definition revoke :: "uuid \<Rightarrow> (world, bool) task" where
  "revoke dev =
     await (atomically (revoke_state dev)) (\<lambda>(unfinished, place).
       await (discard_all_own unfinished dev) (\<lambda>_.
         await (in_order place) (\<lambda>ok.
           await publish_receipts (\<lambda>_. Done ok))))"

text \<open>\<open>begin_completing\<close>: whether the mark was set; it is cleared when \<open>complete\<close> ends.\<close>

definition begin_completing :: "uuid \<Rightarrow> world \<Rightarrow> world \<times> bool" where
  "begin_completing i w =
     (w\<lparr>completing := insert i (completing w)\<rparr>, i \<notin> completing w)"

definition end_completing :: "uuid \<Rightarrow> (world, unit) task" where
  "end_completing i = atomically (\<lambda>w. (w\<lparr>completing := completing w - {i}\<rparr>, ()))"

end
