(* ===== verification/Recording_Routes.thy ===== *)
theory Recording_Routes
  imports Handover_Engine
begin

text \<open>
  \<open>steno-handover/src/engine/recording.rs\<close>: the four recording routes, announce, status, chunk and
  complete, as tasks over the engine's operations. The announce loop has fuel, \<open>None\<close> when it
  runs out; \<open>complete\<close> holds the recording's completing mark from \<open>begin_completing\<close> to its
  answer, and releases it on every way out.
\<close>

section \<open>Requests\<close>

datatype principal =
    Anonymous
  | PairingPrincipal nat
  | Device paired_device

text \<open>A header that is absent or not visible ASCII is \<open>None\<close>.\<close>

record handover_request =
  rq_route :: route
  rq_principal :: principal
  rq_headers :: "string \<Rightarrow> string option"
  rq_body :: bytes

fun device :: "handover_request \<Rightarrow> paired_device option" where
  "device rq = (case rq_principal rq of Device dev \<Rightarrow> Some dev | _ \<Rightarrow> None)"

definition chunk_hash_header :: string where "chunk_hash_header = ''X-Steno-Chunk-SHA256''"

definition status_of :: "handover_receipt \<Rightarrow> recording_status" where
  "status_of r =
     (if kind (state r) = KComplete
      then \<lparr>st_state = KComplete,
            st_received_chunks = [0..chunk_count (byte_count r) (chunk_size r) - 1]\<rparr>
      else \<lparr>st_state = kind (state r), st_received_chunks = received_chunks r\<rparr>)"

definition status_answer :: "nat \<Rightarrow> handover_receipt \<Rightarrow> handover_response" where
  "status_answer s r = json s (StatusBody (status_of r))"

section \<open>Announce\<close>

datatype announced = Answered handover_response | Changed handover_receipt

definition fresh ::
  "paired_device \<Rightarrow> recording_metadata \<Rightarrow> handover_state \<Rightarrow> (world, handover_receipt) task" where
  "fresh dev m s =
     reading (\<lambda>w. \<lparr>recording_id = m_recording_id m, device_id = d_id dev, state = s,
       byte_count = m_byte_count m, sha256 = m_sha256 m, chunk_size = m_chunk_size m,
       received_chunks = [], created_at = clock w, updated_at = clock w\<rparr>)"

definition pick_replace ::
  "handover_receipt option \<Rightarrow> handover_receipt \<Rightarrow> handover_receipt option \<Rightarrow>
     handover_receipt + handover_receipt" where
  "pick_replace expected made held =
     (case held of
        Some h \<Rightarrow> if Some h \<noteq> expected then Inl h else Inr made
      | None \<Rightarrow> Inr made)"

definition make_and_open ::
  "handover_receipt option \<Rightarrow> handover_receipt \<Rightarrow> recording_metadata option \<Rightarrow>
     (world, handover_receipt + handover_receipt \<times> nat \<times> bool option) task" where
  "make_and_open expected made begins =
     await (reading clock) (\<lambda>now.
       await (atomically (change (recording_id made) (pick_replace expected made) (\<lambda>r. r) now))
         (\<lambda>changed. case changed of
            Inl held \<Rightarrow> Done (Inl held)
          | Inr (r, place) \<Rightarrow>
              await (open_files (recording_id r) (device_id r) begins)
                (\<lambda>opened. Done (Inr (r, place, opened)))))"

definition replace ::
  "handover_receipt option \<Rightarrow> handover_receipt \<Rightarrow> recording_metadata option \<Rightarrow> nat \<Rightarrow>
     (world, announced) task" where
  "replace expected made begins code =
     await (make_and_open expected made begins) (\<lambda>made'. case made' of
         Inl held \<Rightarrow> Done (Changed held)
       | Inr (r, place, opened) \<Rightarrow>
           await (save place) (\<lambda>saved.
             case opened of
               None \<Rightarrow> Done (Answered unauthorized)
             | Some opened \<Rightarrow>
                 if \<not> saved then
                   await (discard_own (recording_id made) (device_id made))
                     (\<lambda>_. Done (Answered (internal_error ''saving the receipt'')))
                 else if \<not> opened then Done (Answered (internal_error ''opening the partial file''))
                 else Done (Answered (status_answer code r))))"

definition new_bytes ::
  "handover_receipt option \<Rightarrow> paired_device \<Rightarrow> recording_metadata \<Rightarrow> (world, announced) task" where
  "new_bytes read dev m =
     await (with_store (admitted_meeting (m_recording_id m) (m_byte_count m) (m_sha256 m)))
       (\<lambda>admitted.
          let delivers = (case read of
                            None \<Rightarrow> True
                          | Some r \<Rightarrow> kind (state r) = KComplete \<or> device_id r = d_id dev)
          in case admitted of
               None \<Rightarrow> Done (Answered (internal_error ''reading the admission ledger''))
             | Some (Some meeting) \<Rightarrow>
                 if delivers
                 then await (fresh dev m (Complete meeting))
                        (\<lambda>delivered. replace read delivered None 200)
                 else Done (Answered (problem 409 OtherDeviceOwns))
             | Some None \<Rightarrow>
                 await (fresh dev m Receiving) (\<lambda>made. replace read made (Some m) 201))"

definition take_over ::
  "handover_receipt \<Rightarrow> paired_device \<Rightarrow> (world, announced + handover_receipt) task" where
  "take_over r dev =
     await (reading clock) (\<lambda>now.
       await (atomically (change (recording_id r)
                (pick_replace (Some r) (r\<lparr>device_id := d_id dev\<rparr>)) (\<lambda>r. r) now))
         (\<lambda>changed. case changed of
            Inl held \<Rightarrow> Done (Inl (Changed held))
          | Inr (taken, place) \<Rightarrow>
              await (save place) (\<lambda>saved.
                Done (if saved then Inr taken
                      else Inl (Answered (internal_error ''saving the receipt''))))))"

definition resume ::
  "handover_receipt \<Rightarrow> paired_device \<Rightarrow> recording_metadata \<Rightarrow> (world, handover_response) task" where
  "resume r dev m =
     await (reopen_missing_files m (d_id dev)) (\<lambda>reopened.
       case reopened of
         None \<Rightarrow> Done unauthorized
       | Some None \<Rightarrow> Done (internal_error ''opening the partial file'')
       | Some (Some again) \<Rightarrow>
           await (transition r Receiving (if again then Some [] else None)) (\<lambda>(r', saved).
             if \<not> saved then Done (internal_error ''saving the receipt'')
             else if kind (state r') = KComplete then
               await (discard_own (recording_id r) (d_id dev)) (\<lambda>_. Done (status_answer 200 r'))
             else Done (status_answer 200 r')))"

definition reannounce_owned ::
  "bool \<Rightarrow> handover_receipt \<Rightarrow> paired_device \<Rightarrow> recording_metadata \<Rightarrow> (world, announced) task"
where
  "reannounce_owned complete_already r dev m =
     (if complete_already then
        Done (Answered (status_answer 200 (r\<lparr>chunk_size := m_chunk_size m\<rparr>)))
      else if chunk_size r \<noteq> m_chunk_size m then
        replace (Some r)
          (r\<lparr>state := Receiving, chunk_size := m_chunk_size m, received_chunks := []\<rparr>) (Some m) 200
      else await (resume r dev m) (\<lambda>response. Done (Answered response)))"

definition reannounce ::
  "handover_receipt \<Rightarrow> paired_device \<Rightarrow> recording_metadata \<Rightarrow> (world, announced) task" where
  "reannounce r dev m =
     (let complete_already = (kind (state r) = KComplete)
      in if byte_count r \<noteq> m_byte_count m \<or> sha256 r \<noteq> m_sha256 m then new_bytes (Some r) dev m
         else if device_id r = d_id dev then reannounce_owned complete_already r dev m
         else await (take_over r dev) (\<lambda>taken. case taken of
                Inl announced \<Rightarrow> Done announced
              | Inr taken \<Rightarrow> reannounce_owned complete_already taken dev m))"

fun announce_loop ::
  "nat \<Rightarrow> handover_receipt option \<Rightarrow> paired_device \<Rightarrow> recording_metadata \<Rightarrow>
     (world, handover_response option) task" where
  "announce_loop 0 existing dev m = Done None"
| "announce_loop (Suc fuel) existing dev m =
     await (case existing of None \<Rightarrow> new_bytes None dev m | Some r \<Rightarrow> reannounce r dev m)
       (\<lambda>announced. case announced of
          Answered response \<Rightarrow> Done (Some response)
        | Changed held \<Rightarrow> announce_loop fuel (Some held) dev m)"

definition announce ::
  "nat \<Rightarrow> engine_ext \<Rightarrow> uuid \<Rightarrow> paired_device \<Rightarrow> bytes \<Rightarrow> (world, handover_response option) task" where
  "announce fuel x i dev payload =
     (case parse_metadata x payload of
        None \<Rightarrow> Done (Some (problem 400 BadRecordingMetadata))
      | Some m \<Rightarrow>
          if m_recording_id m \<noteq> i then Done (Some (problem 400 RecordingIdMismatch))
          else case metadata_problem (graphemes x) m (conf x) of
                 Some p \<Rightarrow> Done (Some (problem 400 p))
               | None \<Rightarrow>
                   await (receipt i) (\<lambda>existing. case existing of
                       Inl _ \<Rightarrow> Done (Some (internal_error ''reading the receipt''))
                     | Inr existing \<Rightarrow> announce_loop fuel existing dev m))"

section \<open>Status and chunks\<close>

definition status_route :: "uuid \<Rightarrow> paired_device \<Rightarrow> (world, handover_response) task" where
  "status_route i dev =
     await (owned_receipt i dev)
       (\<lambda>found. Done (case found of Inl response \<Rightarrow> response | Inr r \<Rightarrow> status_answer 200 r))"

definition chunk_digest :: "engine_ext \<Rightarrow> handover_request \<Rightarrow> bytes option" where
  "chunk_digest x rq =
     Option.bind (rq_headers rq chunk_hash_header) (\<lambda>value.
       Option.bind (standard_decode (crypto x) (trim_matches ascii_white_space value)) (\<lambda>d.
         if length d = 32 then Some d else None))"

definition write_partial :: "uuid \<Rightarrow> nat \<Rightarrow> bytes \<Rightarrow> (world, bool) task" where
  "write_partial i offset data =
     atomically (\<lambda>w. let (out, w) = take_io w; (b, ok) = write_chunk out i offset data (files w)
                     in (w\<lparr>files := b\<rparr>, ok))"

text \<open>What a chunk's request is checked for before anything is written; \<open>None\<close> when it passes.\<close>

definition chunk_refusal ::
  "engine_ext \<Rightarrow> handover_receipt \<Rightarrow> int \<Rightarrow> handover_request \<Rightarrow> handover_response option" where
  "chunk_refusal x r index rq =
     (let count = chunk_count (byte_count r) (chunk_size r);
          expected = chunk_length index (byte_count r) (chunk_size r)
      in if kind (state r) = KComplete then Some (empty_response 204)
         else if index < 0 \<or> index \<ge> count then Some (problem 400 (ChunkIndexBelow count))
         else if int (length (rq_body rq)) \<noteq> expected
         then Some (problem 400 (ChunkMustBe index expected))
         else case chunk_digest x rq of
                None \<Rightarrow> Some (problem 400 ChunkHashHeader)
              | Some d \<Rightarrow>
                  if \<not> constant_time_equals (digest (crypto x) (rq_body rq)) d
                  then Some (problem 422 (ChunkHashMismatch index))
                  else if index \<in> set (received_chunks r) then Some (empty_response 204)
                  else None)"

definition receive_chunk ::
  "engine_ext \<Rightarrow> uuid \<Rightarrow> int \<Rightarrow> paired_device \<Rightarrow> handover_request \<Rightarrow>
     (world, handover_response) task" where
  "receive_chunk x i index dev rq =
     await (owned_receipt i dev) (\<lambda>found. case found of
         Inl response \<Rightarrow> Done response
       | Inr r \<Rightarrow>
           (case chunk_refusal x r index rq of
              Some response \<Rightarrow> Done response
            | None \<Rightarrow>
                await (reading (\<lambda>w. has_partial i (files w))) (\<lambda>there.
                  if \<not> there then Done (problem 404 NoPartialFile)
                  else await (write_partial i (nat (index * chunk_size r)) (rq_body rq))
                    (\<lambda>written.
                       if \<not> written then Done (internal_error ''writing the chunk'')
                       else await (add_chunk r index) (\<lambda>added. Done (case added of
                           None \<Rightarrow> no_such_recording
                         | Some False \<Rightarrow> internal_error ''saving the receipt''
                         | Some True \<Rightarrow> empty_response 204))))))"

section \<open>Complete\<close>

text \<open>What \<open>verified_file\<close> ends with; the file is at its verified path.\<close>

datatype verification = File | VAnswered handover_response

definition revoked_since :: "uuid \<Rightarrow> nat \<Rightarrow> (world, bool) task" where
  "revoked_since dev revocation = reading (\<lambda>w. revocation_count dev w \<noteq> revocation)"

definition refusal ::
  "uuid \<Rightarrow> paired_device \<Rightarrow> nat \<Rightarrow> (world, handover_response option) task" where
  "refusal i dev revocation =
     await (revoked_since (d_id dev) revocation) (\<lambda>gone.
       if \<not> gone then Done None
       else await (discard_and_forget_own i (d_id dev)) (\<lambda>_. Done (Some unauthorized)))"

definition revoked_during_the_verify ::
  "uuid \<Rightarrow> paired_device \<Rightarrow> (world, handover_response) task" where
  "revoked_during_the_verify i dev =
     await (discard_own_while_revoked i (d_id dev)) (\<lambda>_. Done unauthorized)"

definition replaced_during_the_verify :: "handover_receipt \<Rightarrow> (world, handover_response) task" where
  "replaced_during_the_verify r =
     await (transition r Receiving (Some [])) (\<lambda>(r', _). Done (status_answer 409 r'))"

text \<open>
  The open partial is the file with that identity: what it holds now, or nothing that matters
  once it left its path, as the identity check after the hash then answers. Its size, then
  its hash; \<open>None\<close> when either read fails.
\<close>

definition open_partial :: "uuid \<Rightarrow> (world, nat option) task" where
  "open_partial i =
     atomically (\<lambda>w. let (out, w) = take_io w
       in (w, case (out, bt_get (partials (files w)) i) of
                (IoOk, Some f) \<Rightarrow> Some (inode f) | _ \<Rightarrow> None))"

definition open_content :: "uuid \<Rightarrow> nat \<Rightarrow> world \<Rightarrow> bytes" where
  "open_content i identity w =
     (case bt_get (partials (files w)) i of
        Some f \<Rightarrow> if inode f = identity then content f else []
      | None \<Rightarrow> [])"

definition verify_open_file ::
  "engine_ext \<Rightarrow> handover_receipt \<Rightarrow> nat \<Rightarrow> (world, bool option) task" where
  "verify_open_file x r identity =
     await (atomically (\<lambda>w. let (out, w) = take_io w
              in (w, if out = IoOk
                     then Some (int (length (open_content (recording_id r) identity w)) = byte_count r)
                     else None)))
       (\<lambda>sized. case sized of
          None \<Rightarrow> Done None
        | Some False \<Rightarrow> Done (Some False)
        | Some True \<Rightarrow>
            atomically (\<lambda>w. let (out, w) = take_io w
              in (w, if out = IoOk
                     then Some (hash_matches (digest (crypto x))
                                  (open_content (recording_id r) identity w) (sha256 r))
                     else None)))"

definition partial_identity :: "uuid \<Rightarrow> (world, nat option) task" where
  "partial_identity i = reading (\<lambda>w. map_option inode (bt_get (partials (files w)) i))"

definition verified_identity :: "uuid \<Rightarrow> audio_format \<Rightarrow> (world, nat option) task" where
  "verified_identity i f = reading (\<lambda>w. map_option inode (bt_get (verifieds (files w) f) i))"

definition promote_file :: "uuid \<Rightarrow> audio_format \<Rightarrow> (world, bool) task" where
  "promote_file i f =
     atomically (\<lambda>w. let (out, w) = take_io w; (b, ok) = promote out i f (files w)
                     in (w\<lparr>files := b\<rparr>, ok))"

definition remove_file :: "uuid \<Rightarrow> audio_format \<Rightarrow> (world, unit) task" where
  "remove_file i f = atomically (\<lambda>w. (w\<lparr>files := remove_verified i f (files w)\<rparr>, ()))"

text \<open>After the \<open>verifying\<close> write: hash, check the file is still the one opened, promote, check again.\<close>

definition verify_and_promote ::
  "engine_ext \<Rightarrow> handover_receipt \<Rightarrow> recording_metadata \<Rightarrow> paired_device \<Rightarrow> nat \<Rightarrow> nat \<Rightarrow>
     (world, verification \<times> handover_receipt) task" where
  "verify_and_promote x r m dev revocation identity =
     (let i = recording_id r in
      await (verify_open_file x r identity) (\<lambda>verified.
      await (revoked_since (d_id dev) revocation) (\<lambda>gone.
        if gone then
          await (revoked_during_the_verify i dev) (\<lambda>response. Done (VAnswered response, r))
        else case verified of
          None \<Rightarrow> Done (VAnswered (internal_error ''verifying the file''), r)
        | Some verified \<Rightarrow>
            await (partial_identity i) (\<lambda>there.
              if there \<noteq> Some identity then
                await (replaced_during_the_verify r) (\<lambda>response. Done (VAnswered response, r))
              else if \<not> verified then
                await (discard_own i (d_id dev)) (\<lambda>_.
                await (transition r (Failed ''sha256 mismatch'') (Some [])) (\<lambda>(r', _).
                  Done (VAnswered (problem 422 Sha256Mismatch), r')))
              else
                await (promote_file i (m_format m)) (\<lambda>promoted.
                  if \<not> promoted
                  then Done (VAnswered (internal_error ''moving the verified file''), r)
                  else await (verified_identity i (m_format m)) (\<lambda>moved.
                    if moved \<noteq> Some identity then
                      await (remove_file i (m_format m)) (\<lambda>_.
                      await (replaced_during_the_verify r) (\<lambda>response.
                        Done (VAnswered response, r)))
                    else Done (File, r)))))))"

definition missing_chunks_answer ::
  "handover_receipt \<Rightarrow> bool \<Rightarrow> (world, verification \<times> handover_receipt) task" where
  "missing_chunks_answer r there =
     await (if there then Done r
            else await (update_receipt r None (Some [])) (\<lambda>(r', _). Done r')) (\<lambda>r.
       case (there, meeting_id (state r)) of
         (False, Some meeting) \<Rightarrow> Done (VAnswered (json 200 (CompleteBody meeting)), r)
       | _ \<Rightarrow> Done (VAnswered (status_answer 409 r), r))"

definition verified_file ::
  "engine_ext \<Rightarrow> handover_receipt \<Rightarrow> recording_metadata \<Rightarrow> paired_device \<Rightarrow> nat \<Rightarrow>
     (world, verification \<times> handover_receipt) task" where
  "verified_file x r m dev revocation =
     (let i = recording_id r in
      await (reading (\<lambda>w. has_verified i (m_format m) (files w))) (\<lambda>waiting.
        if waiting then Done (File, r)
        else await (reading (\<lambda>w. has_partial i (files w))) (\<lambda>there.
          if received_chunks r \<noteq> [0..chunk_count (byte_count r) (chunk_size r) - 1] \<or> \<not> there
          then missing_chunks_answer r there
          else await (open_partial i) (\<lambda>opened. case opened of
              None \<Rightarrow> Done (VAnswered (internal_error ''reading the partial''), r)
            | Some identity \<Rightarrow>
                await (transition r Verifying None) (\<lambda>(r', _).
                  case meeting_id (state r') of
                    Some meeting \<Rightarrow> Done (VAnswered (json 200 (CompleteBody meeting)), r')
                  | None \<Rightarrow> verify_and_promote x r' m dev revocation identity)))))"

definition run_intake ::
  "engine_ext \<Rightarrow> uuid \<Rightarrow> recording_metadata \<Rightarrow> paired_device \<Rightarrow> (world, uuid option) task" where
  "run_intake x i m dev =
     await (reading (\<lambda>w. map_option content (bt_get (verifieds (files w) (m_format m)) i)))
       (\<lambda>found. case found of
          None \<Rightarrow> Done None
        | Some bytes \<Rightarrow> on_store (intake x bytes m dev))"

definition admit ::
  "engine_ext \<Rightarrow> recording_metadata \<Rightarrow> paired_device \<Rightarrow> handover_receipt \<Rightarrow>
     (world, handover_response) task" where
  "admit x m dev r =
     (let i = recording_id r in
      await (run_intake x i m dev) (\<lambda>result. case result of
          None \<Rightarrow>
            await (transition r (Failed intake_refused) None) (\<lambda>(r', _).
            await (reading (\<lambda>w. case bt_get (active_receipts w) i of
                     None \<Rightarrow> False
                   | Some held \<Rightarrow> byte_count held \<noteq> byte_count r' \<or> sha256 held \<noteq> sha256 r'))
              (\<lambda>replaced.
                 await (if replaced then remove_file i (m_format m) else Done ())
                   (\<lambda>_. Done (internal_error ''the intake''))))
        | Some meeting \<Rightarrow>
            await (transition r (Complete meeting) None) (\<lambda>_.
            await (remove_file i (m_format m)) (\<lambda>_.
            await (discard_own i (d_id dev)) (\<lambda>_.
              Done (json 200 (CompleteBody meeting)))))))"

text \<open>With the mark held: the sidecar, the verified file, the intake.\<close>

definition complete_marked ::
  "engine_ext \<Rightarrow> uuid \<Rightarrow> paired_device \<Rightarrow> nat \<Rightarrow> handover_receipt \<Rightarrow>
     (world, handover_response) task" where
  "complete_marked x i dev revocation r =
     await (reading (\<lambda>w. load_metadata i (files w))) (\<lambda>metadata. case metadata of
         None \<Rightarrow> Done (problem 404 NoMetadata)
       | Some m \<Rightarrow>
           await (verified_file x r m dev revocation) (\<lambda>(verification, r'). case verification of
               VAnswered response \<Rightarrow> Done response
             | File \<Rightarrow> admit x m dev r'))"

definition complete_route ::
  "engine_ext \<Rightarrow> uuid \<Rightarrow> paired_device \<Rightarrow> (world, handover_response) task" where
  "complete_route x i dev =
     await (reading (\<lambda>w. if d_id dev \<in> revoked w then None
                         else Some (revocation_count (d_id dev) w))) (\<lambda>taken. case taken of
         None \<Rightarrow> Done unauthorized
       | Some revocation \<Rightarrow>
           await (owned_receipt i dev) (\<lambda>found. case found of
               Inl response \<Rightarrow> Done response
             | Inr r \<Rightarrow>
                 (case meeting_id (state r) of
                    Some meeting \<Rightarrow>
                      await (revoked_since (d_id dev) revocation) (\<lambda>gone.
                      await (if gone then forget_own i (d_id dev) else Done ())
                        (\<lambda>_. Done (json 200 (CompleteBody meeting))))
                  | None \<Rightarrow>
                      await (refusal i dev revocation) (\<lambda>refused. case refused of
                          Some response \<Rightarrow> Done response
                        | None \<Rightarrow>
                            await (atomically (begin_completing i)) (\<lambda>marked.
                              if \<not> marked then Done (status_answer 409 r)
                              else await (complete_marked x i dev revocation r) (\<lambda>response.
                                await (end_completing i) (\<lambda>_. Done response)))))))"

end
