(* ===== verification/Handover_Server.thy ===== *)
theory Handover_Server
  imports Recording_Routes
begin

text \<open>
  The rest of \<open>steno-handover/src/engine/mod.rs\<close> (the pairing window, the auth gate, pairing and
  unpairing, the dispatch, the start sweep) and the request handler of \<open>server/connection.rs\<close>,
  which runs the gate on the head, reads the body up to its limit, then dispatches.
\<close>

section \<open>The pairing window\<close>

definition draw :: "engine_ext \<Rightarrow> (world, bytes) task" where
  "draw x = atomically (\<lambda>w. (w\<lparr>draws := Suc (draws w)\<rparr>, random (crypto x) (draws w)))"

definition begin_pairing :: "engine_ext \<Rightarrow> (world, pairing_payload) task" where
  "begin_pairing x =
     await (reading clock) (\<lambda>now.
     await (draw x) (\<lambda>secret.
       let session = open_session (mac_id x) (service_name (conf x)) (fingerprint x)
                       (pairing_window (conf x)) now secret
       in atomically (\<lambda>w. (w\<lparr>window := Suc (window w), pairing := Some session\<rparr>, session))))"

definition cancel_pairing :: "(world, unit) task" where
  "cancel_pairing = atomically (\<lambda>w. (w\<lparr>pairing := None, window := Suc (window w)\<rparr>, ()))"

definition pairing_is_open :: "(world, bool) task" where
  "pairing_is_open =
     reading (\<lambda>w. case pairing w of None \<Rightarrow> False | Some s \<Rightarrow> session_is_open (clock w) s)"

section \<open>The auth gate\<close>

definition last_seen_resolution_seconds :: int where "last_seen_resolution_seconds = 60"

definition touch :: "paired_device \<Rightarrow> bytes \<Rightarrow> (world, paired_device) task" where
  "touch dev hash =
     await (reading clock) (\<lambda>now.
       if (case d_last_seen_at dev of
             None \<Rightarrow> False
           | Some seen \<Rightarrow> (now - seen) sdiv 1000000000 < last_seen_resolution_seconds)
       then Done dev
       else await (atomically (next_write (TouchPairedDevice (d_id dev) hash now))) (\<lambda>place.
            await (in_order place) (\<lambda>_. Done (dev\<lparr>d_last_seen_at := Some now\<rparr>))))"

datatype auth_outcome = Allowed principal | Rejected handover_response

definition authenticate ::
  "engine_ext \<Rightarrow> route \<Rightarrow> string option \<Rightarrow> (world, auth_outcome) task" where
  "authenticate x r authorization =
     (case auth r of
        NoAuth \<Rightarrow> Done (Allowed Anonymous)
      | PairingAuth \<Rightarrow>
          await (reading (\<lambda>w.
              Option.bind (credential ''Pairing'' authorization) (\<lambda>secret.
              Option.bind (pairing w) (\<lambda>session.
                if session_matches (crypto x) (clock w) secret session
                then Some (window w) else None))))
            (\<lambda>win. Done (case win of
                Some win \<Rightarrow> Allowed (PairingPrincipal win)
              | None \<Rightarrow> Rejected pairing_rejected))
      | BearerAuth \<Rightarrow>
          (case credential ''Bearer'' authorization of
             None \<Rightarrow> Done (Rejected unauthorized)
           | Some token \<Rightarrow>
               let hash = token_hash (crypto x) token
               in await (with_store (paired_device_for_token_hash hash)) (\<lambda>found. case found of
                      Some (Some dev) \<Rightarrow>
                        await (touch dev hash) (\<lambda>dev. Done (Allowed (Device dev)))
                    | Some None \<Rightarrow> Done (Rejected unauthorized)
                    | None \<Rightarrow> Done (Rejected (internal_error ''reading the device'')))))"

section \<open>Pairing and unpairing\<close>

text \<open>From the check of the window to taking its session, under one guard.\<close>

definition take_session ::
  "engine_ext \<Rightarrow> nat \<Rightarrow> bytes \<Rightarrow> world \<Rightarrow>
     world \<times> (handover_response + pairing_payload \<times> uuid \<times> ustring)" where
  "take_session x win payload w =
     (case pairing w of
        None \<Rightarrow> (w, Inl pairing_rejected)
      | Some session \<Rightarrow>
          if \<not> (session_is_open (clock w) session \<and> window w = win)
          then (w, Inl pairing_rejected)
          else case parse_pair_request x payload of
                 None \<Rightarrow> (w, Inl (problem 400 BadPairRequest))
               | Some (i, n) \<Rightarrow>
                   (case device_name (graphemes x) n of
                      Inl p \<Rightarrow> (w, Inl (problem 400 p))
                    | Inr n \<Rightarrow> (w\<lparr>pairing := None\<rparr>, Inr (session, i, n))))"

definition put_session_back :: "nat \<Rightarrow> pairing_payload \<Rightarrow> world \<Rightarrow> world \<times> unit" where
  "put_session_back win session w =
     (if pairing w = None \<and> window w = win then w\<lparr>pairing := Some session\<rparr> else w, ())"

definition unrevoke :: "uuid \<Rightarrow> nat \<Rightarrow> world \<Rightarrow> world \<times> unit" where
  "unrevoke i revocation w =
     (if revocation_count i w = revocation then w\<lparr>revoked := revoked w - {i}\<rparr> else w, ())"

definition save_device_place :: "paired_device \<Rightarrow> bytes \<Rightarrow> world \<Rightarrow> world \<times> nat \<times> nat" where
  "save_device_place dev hash w =
     (let (w', place) = next_write (SavePairedDevice dev hash) w
      in (w', revocation_count (d_id dev) w, place))"

definition pair_device ::
  "engine_ext \<Rightarrow> nat \<Rightarrow> pairing_payload \<Rightarrow> uuid \<Rightarrow> ustring \<Rightarrow> (world, handover_response) task" where
  "pair_device x win session i n =
     await (draw x) (\<lambda>drawn.
     await (reading clock) (\<lambda>now.
       let token = mint_token (crypto x) drawn;
           dev = \<lparr>d_id = i, d_name = n, d_paired_at = now, d_last_seen_at = Some now\<rparr>
       in await (atomically (save_device_place dev (token_hash (crypto x) token)))
            (\<lambda>(revocation, place).
          await (in_order place) (\<lambda>saved.
            if \<not> saved then
              await (atomically (put_session_back win session))
                (\<lambda>_. Done (internal_error ''saving the device''))
            else
              await (atomically (unrevoke i revocation))
                (\<lambda>_. Done (json 200 (PairBody token (mac_id x) (service_name (conf x)))))))))"

definition pair_route :: "engine_ext \<Rightarrow> handover_request \<Rightarrow> (world, handover_response) task" where
  "pair_route x rq =
     (case rq_principal rq of
        PairingPrincipal win \<Rightarrow>
          await (atomically (take_session x win (rq_body rq))) (\<lambda>taken. case taken of
              Inl response \<Rightarrow> Done response
            | Inr (session, i, n) \<Rightarrow> pair_device x win session i n)
      | _ \<Rightarrow> Done pairing_rejected)"

definition unpair :: "paired_device \<Rightarrow> (world, handover_response) task" where
  "unpair dev =
     await (revoke (d_id dev)) (\<lambda>deleted.
       Done (if deleted then empty_response 204 else internal_error ''revoking the device''))"

section \<open>Dispatch\<close>

definition recording_route ::
  "nat \<Rightarrow> engine_ext \<Rightarrow> handover_request \<Rightarrow> paired_device \<Rightarrow> (world, handover_response option) task"
where
  "recording_route fuel x rq dev =
     (case rq_route rq of
        Announce i \<Rightarrow> announce fuel x i dev (rq_body rq)
      | Status i \<Rightarrow> await (status_route i dev) (\<lambda>response. Done (Some response))
      | Chunk i index \<Rightarrow>
          await (receive_chunk x i index dev rq) (\<lambda>response. Done (Some response))
      | CompleteRoute i \<Rightarrow> await (complete_route x i dev) (\<lambda>response. Done (Some response))
      | _ \<Rightarrow> Done (Some unauthorized))"

definition handle ::
  "nat \<Rightarrow> engine_ext \<Rightarrow> handover_request \<Rightarrow> (world, handover_response option) task" where
  "handle fuel x rq =
     (case (rq_route rq, device rq) of
        (Hello, _) \<Rightarrow> Done (Some (json 200 (HelloBody (mac_id x) protocol_version)))
      | (Pair, _) \<Rightarrow> await (pair_route x rq) (\<lambda>response. Done (Some response))
      | (_, None) \<Rightarrow> Done (Some unauthorized)
      | (Unpair, Some dev) \<Rightarrow> await (unpair dev) (\<lambda>response. Done (Some response))
      | (_, Some dev) \<Rightarrow>
          await (reading (\<lambda>w. d_id dev \<in> revoked w)) (\<lambda>gone.
            if gone then Done (Some unauthorized) else recording_route fuel x rq dev))"

section \<open>The start sweep\<close>

definition swept :: "instant \<Rightarrow> handover_receipt option \<Rightarrow> bool" where
  "swept cutoff found =
     (case found of None \<Rightarrow> True | Some r \<Rightarrow> kind (state r) = KComplete \<or> updated_at r < cutoff)"

fun sweep_each :: "instant \<Rightarrow> uuid list \<Rightarrow> (world, unit) task" where
  "sweep_each cutoff [] = Done ()"
| "sweep_each cutoff (i # is) =
     await (with_store (stored_receipt i)) (\<lambda>found.
     await (case found of
              None \<Rightarrow> Done ()
            | Some found \<Rightarrow> if swept cutoff found then discard_files i else Done ())
       (\<lambda>_. sweep_each cutoff is))"

definition sweep_orphans :: "(world, unit) task" where
  "sweep_orphans =
     await (reading clock) (\<lambda>now.
     await (reading (\<lambda>w. recording_ids (files w))) (\<lambda>is.
       sweep_each (now - abandoned_after) is))"

section \<open>One request on a connection\<close>

datatype frame = Data bytes | Trailers | FrameError

record request_head =
  h_method :: http_method
  h_uri :: string
  h_content_length :: "string option"
  h_authorization :: "string option"
  h_connection :: "string option"
  h_http_10 :: bool
  h_headers :: "string \<Rightarrow> string option"

text \<open>What the connection does: an answer and whether it closes, or nothing at a torn body.\<close>

datatype exchange = Respond handover_response bool | TornBody

datatype collected = Collected bytes | TooLarge | Torn

fun collect :: "nat \<Rightarrow> bytes \<Rightarrow> frame list \<Rightarrow> collected" where
  "collect limit acc [] = Collected acc"
| "collect limit acc (FrameError # fs) = Torn"
| "collect limit acc (Trailers # fs) = collect limit acc fs"
| "collect limit acc (Data d # fs) =
     (let acc = acc @ d in if length acc > limit then TooLarge else collect limit acc fs)"

definition parse_usize :: "string \<Rightarrow> nat option" where
  "parse_usize s =
     Option.bind (digits_value (case s of CHR ''+'' # cs \<Rightarrow> cs | _ \<Rightarrow> s))
       (\<lambda>n. if n < 2 ^ 64 then Some n else None)"

definition declared_length :: "request_head \<Rightarrow> nat option" where
  "declared_length h =
     Option.bind (h_content_length h) (\<lambda>v. parse_usize (trim_matches ascii_white_space v))"

text \<open>\<open>usize::try_from\<close>: a negative limit is no limit.\<close>

definition body_cap :: "route \<Rightarrow> handover_configuration \<Rightarrow> nat" where
  "body_cap r c = (let limit = body_limit r c in if limit < 0 then 2 ^ 64 - 1 else nat limit)"

definition too_large :: "nat \<Rightarrow> handover_response" where
  "too_large limit = problem 413 (BodyLimit limit)"

definition keep_alive :: "request_head \<Rightarrow> bool" where
  "keep_alive h \<longleftrightarrow> \<not> h_http_10 h \<and>
     \<not> (case h_connection h of None \<Rightarrow> False | Some v \<Rightarrow> eq_ignore_ascii_case v ''close'')"

definition dispatch_body ::
  "nat \<Rightarrow> engine_ext \<Rightarrow> request_head \<Rightarrow> nat \<Rightarrow> route \<Rightarrow> principal \<Rightarrow> frame list \<Rightarrow>
     (world, exchange option) task" where
  "dispatch_body fuel x h limit r p fs =
     (case collect limit [] fs of
        Torn \<Rightarrow> Done (Some TornBody)
      | TooLarge \<Rightarrow> Done (Some (Respond (too_large limit) True))
      | Collected payload \<Rightarrow>
          await (handle fuel x \<lparr>rq_route = r, rq_principal = p, rq_headers = h_headers h,
                                rq_body = payload\<rparr>)
            (\<lambda>response. Done (map_option (\<lambda>resp. Respond resp (\<not> keep_alive h)) response)))"

definition serve_request ::
  "nat \<Rightarrow> engine_ext \<Rightarrow> request_head \<Rightarrow> frame list \<Rightarrow> (world, exchange option) task" where
  "serve_request fuel x h fs =
     (case matches (routing x) (h_method h) (h_uri h) of
        None \<Rightarrow> Done (Some (Respond (problem 404 NoSuchRoute) True))
      | Some r \<Rightarrow>
          (let limit = body_cap r (conf x)
           in if (case declared_length h of None \<Rightarrow> False | Some n \<Rightarrow> limit < n)
              then Done (Some (Respond (too_large limit) True))
              else await (authenticate x r (h_authorization h)) (\<lambda>outcome. case outcome of
                     Rejected response \<Rightarrow> Done (Some (Respond response True))
                   | Allowed p \<Rightarrow> dispatch_body fuel x h limit r p fs)))"

end
