(* ===== verification/Engine_Invariant.thy ===== *)
theory Engine_Invariant
  imports Handover_Server
begin

text \<open>
  What every interleaving of requests keeps. \<open>engine_ok\<close> is the invariant of memory, the store and
  the line of writes; \<open>advances\<close> is what a single section may do at most. Every operation and
  every route keeps both, whatever the other requests do between its sections, and the
  interpretation of \<open>task_system\<close> carries that to every reachable state of every pool.
\<close>

section \<open>The invariant\<close>

text \<open>A receipt's sizes are those of an accepted announce; its chunks ascend, in range.\<close>

definition receipt_ok :: "handover_receipt \<Rightarrow> bool" where
  "receipt_ok r \<longleftrightarrow> sizes_ok (byte_count r) (chunk_size r) \<and>
     sorted_wrt (<) (received_chunks r) \<and>
     (\<forall>c \<in> set (received_chunks r). 0 \<le> c \<and> c < chunk_count (byte_count r) (chunk_size r))"

definition memory_ok :: "world \<Rightarrow> bool" where
  "memory_ok w \<longleftrightarrow> bt_ok (active_receipts w) \<and>
     (\<forall>i r. bt_get (active_receipts w) i = Some r \<longrightarrow>
        recording_id r = i \<and> device_id r \<notin> revoked w \<and> receipt_ok r)"

definition stored_ok :: "db \<Rightarrow> bool" where
  "stored_ok d \<longleftrightarrow> db_ok d \<and>
     (\<forall>i row. receipts d i = Some row \<longrightarrow> receipt_ok (receipt_from_row i row))"

text \<open>The writes the engine itself puts in line.\<close>

fun write_ok :: "store_write \<Rightarrow> bool" where
  "write_ok (SaveReceipt r) = receipt_ok r"
| "write_ok (SavePairedDevice _ _) = True"
| "write_ok (TouchPairedDevice _ _ _) = True"
| "write_ok (DeletePairedDevice _) = True"
| "write_ok _ = False"

definition line_ok :: "world \<Rightarrow> bool" where
  "line_ok w \<longleftrightarrow> sorted_wrt (<) (map fst (line w)) \<and>
     (\<forall>(p, wr) \<in> set (line w). p < next_place w \<and> write_ok wr) \<and>
     (\<forall>p. written w p \<noteq> None \<longleftrightarrow> p < next_place w \<and> p \<notin> fst ` set (line w))"

text \<open>A sidecar holds the accepted announce of its recording.\<close>

definition metadata_ok :: "uuid \<Rightarrow> recording_metadata \<Rightarrow> bool" where
  "metadata_ok i m \<longleftrightarrow> m_recording_id m = i \<and> sizes_ok (m_byte_count m) (m_chunk_size m)"

definition sidecars_ok :: "inbox \<Rightarrow> bool" where
  "sidecars_ok b \<longleftrightarrow> (\<forall>i m. load_metadata i b = Some m \<longrightarrow> metadata_ok i m)"

definition engine_ok :: "world \<Rightarrow> bool" where
  "engine_ok w \<longleftrightarrow> memory_ok w \<and> stored_ok (store w) \<and> line_ok w \<and> sidecars_ok (files w)"

section \<open>What one section may do\<close>

text \<open>A complete receipt stays as it is while memory holds a receipt of the same bytes.\<close>

definition complete_stays :: "world \<Rightarrow> world \<Rightarrow> bool" where
  "complete_stays w w' \<longleftrightarrow>
     (\<forall>i r r'. bt_get (active_receipts w) i = Some r \<longrightarrow> bt_get (active_receipts w') i = Some r' \<longrightarrow>
        kind (state r) = KComplete \<longrightarrow> byte_count r' = byte_count r \<longrightarrow> sha256 r' = sha256 r \<longrightarrow>
        state r' = state r)"

text \<open>Nothing leaves the ledger; revoke counts and places grow; the outcome of a write is final.\<close>

definition grows :: "world \<Rightarrow> world \<Rightarrow> bool" where
  "grows w w' \<longleftrightarrow>
     dom (admissions (store w)) \<subseteq> dom (admissions (store w')) \<and>
     (\<forall>d. revocations w d \<le> revocations w' d) \<and>
     written w \<subseteq>\<^sub>m written w' \<and>
     next_place w \<le> next_place w'"

definition advances :: "world \<Rightarrow> world \<Rightarrow> bool" where
  "advances w w' \<longleftrightarrow> complete_stays w w' \<and> grows w w'"

abbreviation holds :: "('a \<Rightarrow> bool) \<Rightarrow> (world, 'a) task \<Rightarrow> bool" where
  "holds Q t \<equiv> keeps engine_ok advances Q t"

lemma advances_refl [simp]: "advances w w"
  by (simp add: advances_def complete_stays_def grows_def)

lemma engine_okD:
  assumes "engine_ok w"
  shows "memory_ok w" and "stored_ok (store w)" and "line_ok w" and "bt_ok (active_receipts w)"
    and "bt_get (active_receipts w) i = Some r \<Longrightarrow>
           recording_id r = i \<and> device_id r \<notin> revoked w \<and> receipt_ok r"
    and "sidecars_ok (files w)"
  using assms by (simp_all add: engine_ok_def memory_ok_def)

text \<open>Sections that leave memory, the store and the line alone.\<close>

lemma engine_ok_frame:
  assumes "active_receipts w' = active_receipts w" and "revoked w' = revoked w"
    and "store w' = store w" and "line w' = line w" and "next_place w' = next_place w"
    and "written w' = written w"
    and "\<And>i m. load_metadata i (files w') = Some m \<Longrightarrow> load_metadata i (files w) = Some m"
    and "engine_ok w"
  shows "engine_ok w'"
  using assms(7,8)
  by (auto simp: engine_ok_def memory_ok_def line_ok_def sidecars_ok_def assms(1-6))

lemma advances_frame:
  assumes "active_receipts w' = active_receipts w" and "revocations w' = revocations w"
    and "store w' = store w" and "next_place w' = next_place w" and "written w' = written w"
  shows "advances w w'"
  using advances_refl[of w]
  by (simp add: advances_def complete_stays_def grows_def assms)

definition same_engine :: "world \<Rightarrow> world \<Rightarrow> bool" where
  "same_engine w w' \<longleftrightarrow>
     active_receipts w' = active_receipts w \<and> revoked w' = revoked w \<and>
     revocations w' = revocations w \<and> store w' = store w \<and> line w' = line w \<and>
     next_place w' = next_place w \<and> written w' = written w \<and>
     (\<forall>i m. load_metadata i (files w') = Some m \<longrightarrow> load_metadata i (files w) = Some m)"

lemma same_engine_ok: "same_engine w w' \<Longrightarrow> engine_ok w \<Longrightarrow> engine_ok w' \<and> advances w w'"
  using engine_ok_frame[of w' w] advances_frame[of w' w] unfolding same_engine_def by blast

lemma take_fault_same [simp]: "same_engine w (snd (take_fault w))"
  by (simp add: take_fault_def same_engine_def split: list.splits)

lemma take_io_same [simp]: "same_engine w (snd (take_io w))"
  by (simp add: take_io_def same_engine_def split: list.splits)

lemma same_engine_files:
  "same_engine w w' \<Longrightarrow>
     (\<And>i m. load_metadata i f = Some m \<Longrightarrow> load_metadata i (files w') = Some m) \<Longrightarrow>
     same_engine w (w'\<lparr>files := f\<rparr>)"
  by (simp add: same_engine_def)

lemma same_engine_refl [simp]: "same_engine w w"
  by (simp add: same_engine_def)

lemma holds_same:
  "(\<And>w. same_engine w (fst (f w))) \<Longrightarrow> holds (\<lambda>_. True) (atomically f)"
  by (rule keeps_atomically) (blast intro: same_engine_ok[THEN conjunct1] same_engine_ok[THEN conjunct2])

lemma holds_reading: "holds (\<lambda>_. True) (reading g)"
  by (rule keeps_reading) simp

lemma load_metadata_discard:
  "load_metadata i (discard j b) = (if i = j then None else load_metadata i b)"
  by (simp add: load_metadata_def discard_def)

lemma load_metadata_begin:
  "load_metadata i (fst (begin_recording out m b)) =
     (if out = IoOk \<and> i = m_recording_id m then Some m else load_metadata i b)"
  by (cases "(out, m, b)" rule: begin_recording.cases) (auto simp: load_metadata_def Let_def)

section \<open>The line of writes\<close>

lemma stored_ok_run_write:
  assumes "write_ok wr" and "stored_ok d" and "run_write wr d = Inr d'"
  shows "stored_ok d'"
proof (cases wr)
  case (SaveReceipt r)
  then have s: "save_receipt r d = Inr d'" and r: "receipt_ok r" using assms by simp_all
  have "receipt_ok (receipt_from_row (recording_id r) (receipt_to_row r))"
    using r by (simp add: receipt_row_roundtrip receipt_ok_def)
  then show ?thesis
    using s assms(2) db_ok_save_receipt[of d r d']
    by (auto simp: stored_ok_def save_receipt_Inr)
next
  case (SavePairedDevice dev h)
  then have s: "save_paired_device dev h d = Inr d'" using assms by simp
  moreover from s have "receipts d' = receipts d"
    by (auto simp: save_paired_device_def split: if_splits)
  ultimately show ?thesis using assms(2) db_ok_save_device[of d dev h d']
    by (simp add: stored_ok_def)
next
  case (TouchPairedDevice i h t)
  then have s: "touch_paired_device i h t d = Inr d'" using assms by simp
  moreover from s have "receipts d' = receipts d"
    by (auto simp: touch_paired_device_def split: option.splits if_splits)
  ultimately show ?thesis using assms(2) db_ok_touch[of d i h t d']
    by (simp add: stored_ok_def)
next
  case (DeletePairedDevice i)
  then have s: "delete_paired_device i d = Inr d'" using assms by simp
  moreover from s have "receipts d' j = Some row \<Longrightarrow> receipts d j = Some row" for j row
    by (auto simp: delete_paired_device_def split: option.splits if_splits)
  ultimately show ?thesis using assms(2) db_ok_delete[of d i d']
    by (auto simp: stored_ok_def)
qed (use assms in simp_all)

lemma commit_head_Cons:
  assumes "line w = (p, wr) # rest"
  shows "line (commit_head w) = rest"
    and "\<exists>ok. written (commit_head w) = (written w)(p \<mapsto> ok) \<and>
           (if ok then run_write wr (store w) = Inr (store (commit_head w))
            else store (commit_head w) = store w)"
proof -
  obtain b w1 where f: "take_fault w = (b, w1)" by (cases "take_fault w")
  have same: "store w1 = store w" "written w1 = written w"
    using take_fault_same[of w] f by (simp_all add: same_engine_def)
  show "line (commit_head w) = rest" by (simp add: commit_head_def assms f Let_def)
  show "\<exists>ok. written (commit_head w) = (written w)(p \<mapsto> ok) \<and>
           (if ok then run_write wr (store w) = Inr (store (commit_head w))
            else store (commit_head w) = store w)"
  proof (cases "if b then Inl StoreIo else run_write wr (store w)")
    case (Inl e)
    then show ?thesis
      by (intro exI[of _ False]) (auto simp: commit_head_def assms f Let_def same split: if_splits)
  next
    case (Inr d)
    then show ?thesis
      by (intro exI[of _ True]) (auto simp: commit_head_def assms f Let_def same split: if_splits)
  qed
qed

lemma take_fault_fields [simp]:
  "active_receipts (snd (take_fault w)) = active_receipts w"
  "revoked (snd (take_fault w)) = revoked w" "revocations (snd (take_fault w)) = revocations w"
  "next_place (snd (take_fault w)) = next_place w" "files (snd (take_fault w)) = files w"
  by (simp_all add: take_fault_def split: list.split)

lemma commit_head_memory [simp]:
  "active_receipts (commit_head w) = active_receipts w" "revoked (commit_head w) = revoked w"
  "revocations (commit_head w) = revocations w" "next_place (commit_head w) = next_place w"
  "files (commit_head w) = files w"
  by (simp_all add: commit_head_def Let_def split_beta split: list.split)

lemma commit_head_ok:
  assumes "engine_ok w"
  shows "engine_ok (commit_head w)" and "grows w (commit_head w)"
proof -
  note I = engine_okD[OF assms]
  have "engine_ok (commit_head w) \<and> grows w (commit_head w)"
  proof (cases "line w")
    case Nil
    then have "commit_head w = w" by (simp add: commit_head_def)
    with assms show ?thesis by (simp add: grows_def)
  next
    case (Cons e rest)
    obtain p wr where "e = (p, wr)" by (cases e)
    with Cons have l: "line w = (p, wr) # rest" by simp
    have l': "line (commit_head w) = rest" by (rule commit_head_Cons(1)[OF l])
    from commit_head_Cons(2)[OF l] obtain ok where
      w': "written (commit_head w) = (written w)(p \<mapsto> ok)" and
      d: "if ok then run_write wr (store w) = Inr (store (commit_head w))
          else store (commit_head w) = store w"
      by blast
    have p: "p < next_place w" "written w p = None" "write_ok wr"
      "p \<notin> fst ` set rest" and rest: "sorted_wrt (<) (map fst rest)"
      using I(3) l by (auto simp: line_ok_def)
    have "stored_ok (store (commit_head w))"
      using d stored_ok_run_write[OF p(3) I(2)] I(2) by (auto split: if_splits)
    moreover have "dom (admissions (store w)) \<subseteq> dom (admissions (store (commit_head w)))"
      using d run_write_dom[of wr "store w"] by (auto split: if_splits)
    moreover have "line_ok (commit_head w)"
      using I(3) l p rest by (auto simp: line_ok_def l' w')
    moreover have "memory_ok (commit_head w)" using I(1) by (simp add: memory_ok_def)
    ultimately show ?thesis using p(2) I(6)
      by (auto simp: engine_ok_def grows_def w' map_le_def)
  qed
  then show "engine_ok (commit_head w)" and "grows w (commit_head w)" by simp_all
qed

lemma grows_trans: "grows u v \<Longrightarrow> grows v w \<Longrightarrow> grows u w"
  by (auto simp: grows_def intro: order_trans map_le_trans)

lemma commit_heads_memory [simp]:
  "active_receipts (commit_heads n w) = active_receipts w"
  by (induction n arbitrary: w) simp_all

lemma commit_heads_ok:
  "engine_ok w \<Longrightarrow> engine_ok (commit_heads n w) \<and> grows w (commit_heads n w)"
proof (induction n arbitrary: w)
  case 0
  then show ?case by (simp add: grows_def)
next
  case (Suc n)
  then show ?case using commit_head_ok[of w] by (auto intro: grows_trans)
qed

lemma advances_memory_same:
  "active_receipts w' = active_receipts w \<Longrightarrow> grows w w' \<Longrightarrow> advances w w'"
  by (simp add: advances_def complete_stays_def)

lemma commit_until_ok:
  assumes "engine_ok w"
  shows "engine_ok (commit_until p w)" and "advances w (commit_until p w)"
  using commit_heads_ok[OF assms] assms
  by (auto simp: commit_until_def simp del: commit_heads.simps intro!: advances_memory_same)


lemma next_write_ok:
  assumes "engine_ok w" and "write_ok wr"
  shows "engine_ok (fst (next_write wr w)) \<and> advances w (fst (next_write wr w))"
proof -
  note I = engine_okD[OF assms(1)]
  have wr: "\<forall>p. written w p \<noteq> None \<longleftrightarrow> p < next_place w \<and> p \<notin> fst ` set (line w)"
    using I(3) unfolding line_ok_def by blast
  have free: "(p, v) \<notin> set (line w)" if "next_place w \<le> p" for p v
    using I(3) that by (force simp: line_ok_def)
  have "written w p = None" if "next_place w \<le> p" for p
    using wr that by (meson leD)
  note free = free this
  have "line_ok (fst (next_write wr w))"
    using I(3) assms(2) free
    by (fastforce simp: line_ok_def next_write_def sorted_wrt_append less_Suc_eq)
  moreover have "memory_ok (fst (next_write wr w))"
    using I(1) by (simp add: memory_ok_def next_write_def)
  ultimately show ?thesis using I(2,6)
    by (simp add: engine_ok_def next_write_def advances_def complete_stays_def grows_def)
qed

lemma next_write_keeps: "write_ok wr \<Longrightarrow> holds (\<lambda>_. True) (atomically (next_write wr))"
  by (rule keeps_atomically) (use next_write_ok in blast)

section \<open>Operations of the engine\<close>

text \<open>A change of memory that keeps \<open>complete_stays\<close>, then the write's place.\<close>

lemma remember_ok:
  assumes "engine_ok w" and "receipt_ok r"
    and "\<And>h. bt_get (active_receipts w) (recording_id r) = Some h \<Longrightarrow> kind (state h) = KComplete \<Longrightarrow>
           byte_count r = byte_count h \<Longrightarrow> sha256 r = sha256 h \<Longrightarrow> state r = state h"
  shows "engine_ok (remember r w) \<and> advances w (remember r w)"
proof -
  note I = engine_okD[OF assms(1)]
  have "memory_ok (remember r w)"
    using I(1) assms(2) by (auto simp: memory_ok_def remember_def)
  moreover have "line_ok (remember r w)" using I(3) by (simp add: line_ok_def remember_def)
  moreover have "stored_ok (store (remember r w))" using I(2) by (simp add: remember_def)
  moreover have "complete_stays w (remember r w)"
    using assms(3) by (auto simp: complete_stays_def remember_def)
  moreover have "grows w (remember r w)" by (simp add: grows_def remember_def)
  moreover have "files (remember r w) = files w" by (simp add: remember_def)
  ultimately show ?thesis using I(6) by (simp add: engine_ok_def advances_def)
qed

lemma advances_next_write:
  assumes "advances u w"
  shows "advances u (fst (next_write wr w))"
  using assms by (simp add: advances_def complete_stays_def grows_def next_write_def)

lemma change_keeps:
  assumes "\<And>held r. (\<And>h. held = Some h \<Longrightarrow> recording_id h = i \<and> receipt_ok h) \<Longrightarrow>
       pick held = Inr r \<Longrightarrow>
       recording_id (edit r) = i \<and> receipt_ok (edit r) \<and>
       (\<forall>h. held = Some h \<longrightarrow> kind (state h) = KComplete \<longrightarrow> byte_count (edit r) = byte_count h \<longrightarrow>
          sha256 (edit r) = sha256 h \<longrightarrow> state (edit r) = state h) \<and>
       R ((edit r)\<lparr>updated_at := now\<rparr>)"
    and "\<And>held e. (\<And>h. held = Some h \<Longrightarrow> recording_id h = i \<and> receipt_ok h) \<Longrightarrow>
       pick held = Inl e \<Longrightarrow> P e"
  shows "holds (\<lambda>res. case res of Inl e \<Rightarrow> P e
                   | Inr (r, _) \<Rightarrow> recording_id r = i \<and> receipt_ok r \<and> R r)
           (atomically (change i pick edit now))"
proof (rule keeps_atomically)
  fix w
  assume I: "engine_ok w"
  let ?held = "bt_get (active_receipts w) i"
  let ?Q = "\<lambda>res. case res of Inl e \<Rightarrow> P e
                   | Inr (r, _) \<Rightarrow> recording_id r = i \<and> receipt_ok r \<and> R r"
  have held: "recording_id h = i \<and> receipt_ok h" if "?held = Some h" for h
    using engine_okD(5)[OF I that] by simp
  show "engine_ok (fst (change i pick edit now w)) \<and> advances w (fst (change i pick edit now w)) \<and>
    ?Q (snd (change i pick edit now w))"
  proof (cases "pick ?held")
    case (Inl e)
    then show ?thesis using I assms(2)[OF held Inl] by (simp add: change_def)
  next
    case (Inr r)
    define c where "c = (edit r)\<lparr>updated_at := now\<rparr>"
    from assms(1)[OF held Inr] have c: "recording_id c = i" "receipt_ok c" "R c"
      and keep: "\<forall>h. ?held = Some h \<longrightarrow> kind (state h) = KComplete \<longrightarrow> byte_count c = byte_count h \<longrightarrow>
          sha256 c = sha256 h \<longrightarrow> state c = state h"
      by (simp_all add: c_def receipt_ok_def)
    have r: "engine_ok (remember c w) \<and> advances w (remember c w)"
      by (rule remember_ok[OF I c(2)]) (use keep c(1) in auto)
    have "change i pick edit now w =
        (fst (next_write (SaveReceipt c) (remember c w)),
         Inr (c, snd (next_write (SaveReceipt c) (remember c w))))"
      by (simp add: change_def Inr c_def split_beta Let_def)
    with r next_write_ok[of "remember c w" "SaveReceipt c"] advances_next_write[of w "remember c w"] c
    show ?thesis by simp
  qed
qed

named_theorems keeps_intro \<open>operations that keep the invariant, whatever their result\<close>

declare holds_reading [keeps_intro]

lemma keeps_seq:
  "keeps I G (\<lambda>_. True) t \<Longrightarrow> (\<And>a. keeps I G Q (k a)) \<Longrightarrow> keeps I G Q (await t k)"
  by (rule keeps_await)

lemma keeps_if: "(b \<Longrightarrow> keeps I G Q t) \<Longrightarrow> (\<not> b \<Longrightarrow> keeps I G Q u) \<Longrightarrow> keeps I G Q (if b then t else u)"
  by simp

lemma keeps_any: "keeps I G Q t \<Longrightarrow> keeps I G (\<lambda>_. True) t"
  by (erule keeps_mono) simp

lemma in_order_keeps [keeps_intro]: "holds (\<lambda>_. True) (in_order p)"
  unfolding in_order_def
  by (rule keeps_atomically) (simp add: Let_def commit_until_ok)

lemma publish_keeps [keeps_intro]: "holds (\<lambda>_. True) publish_receipts"
  unfolding publish_receipts_def by (rule holds_same) (simp add: same_engine_def)

lemma with_store_keeps: 
  assumes "\<And>d. stored_ok d \<Longrightarrow> P (query d)"
  shows "holds (\<lambda>found. \<forall>v. found = Some v \<longrightarrow> P v) (with_store query)"
  unfolding with_store_def
proof (rule keeps_atomically)
  fix w assume I: "engine_ok w"
  have "P (query (store w))" using assms engine_okD(2)[OF I] .
  then show "engine_ok (fst (let (fault, w) = take_fault w
      in (w, if fault then None else Some (query (store w))))) \<and>
    advances w (fst (let (fault, w) = take_fault w
      in (w, if fault then None else Some (query (store w))))) \<and>
    (\<forall>v. snd (let (fault, w) = take_fault w
      in (w, if fault then None else Some (query (store w)))) = Some v \<longrightarrow> P v)"
    using same_engine_ok[OF take_fault_same I] take_fault_same[of w]
    by (auto simp: split_beta Let_def same_engine_def)
qed

lemma with_store_any [keeps_intro]: "holds (\<lambda>_. True) (with_store query)"
  using with_store_keeps[where P = "\<lambda>_. True"] by (rule keeps_any) simp

lemma save_keeps [keeps_intro]: "holds (\<lambda>_. True) (save place)"
  unfolding save_def by (intro keeps_seq keeps_intro) simp_all

lemma discard_files_keeps [keeps_intro]: "holds (\<lambda>_. True) (discard_files i)"
  unfolding discard_files_def
  by (rule holds_same) (auto intro!: same_engine_files simp: load_metadata_discard split: if_splits)

lemma discard_own_keeps [keeps_intro]: "holds (\<lambda>_. True) (discard_own i dev)"
  unfolding discard_own_def by (intro keeps_seq keeps_intro keeps_if) simp_all

lemma discard_own_while_revoked_keeps [keeps_intro]:
  "holds (\<lambda>_. True) (discard_own_while_revoked i dev)"
  unfolding discard_own_while_revoked_def by (intro keeps_seq keeps_intro keeps_if) simp_all

lemma forget_own_state_keeps [keeps_intro]: "holds (\<lambda>_. True) (atomically (forget_own_state i dev))"
proof (rule keeps_atomically)
  fix w assume I: "engine_ok w"
  show "engine_ok (fst (forget_own_state i dev w)) \<and> advances w (fst (forget_own_state i dev w)) \<and> True"
    using I engine_okD[OF I]
    by (auto simp: forget_own_state_def engine_ok_def memory_ok_def line_ok_def advances_def
        complete_stays_def grows_def split: if_splits)
qed

lemma forget_own_keeps [keeps_intro]: "holds (\<lambda>_. True) (forget_own i dev)"
  unfolding forget_own_def by (intro keeps_seq keeps_intro keeps_if) simp_all

lemma discard_and_forget_own_keeps [keeps_intro]: "holds (\<lambda>_. True) (discard_and_forget_own i dev)"
  unfolding discard_and_forget_own_def by (intro keeps_seq keeps_intro keeps_if) simp_all

lemma begin_files_keeps:
  assumes "metadata_ok i m"
  shows "holds (\<lambda>_. True) (begin_files m)"
  unfolding begin_files_def
proof (rule keeps_atomically)
  fix w assume I: "engine_ok w"
  let ?v = "snd (take_io w)" and ?out = "fst (take_io w)"
  let ?w = "?v\<lparr>files := fst (begin_recording ?out m (files w))\<rparr>"
  have f: "files ?v = files w" by (simp add: take_io_def split: list.split)
  have "sidecars_ok (files ?w)"
    using engine_okD(6)[OF I] assms
    by (auto simp: sidecars_ok_def load_metadata_begin metadata_ok_def split: if_splits)
  moreover have "engine_ok ?v" "advances w ?v" using same_engine_ok[OF take_io_same I] by simp_all
  ultimately have "engine_ok ?w \<and> advances w ?w"
    by (simp add: engine_ok_def memory_ok_def line_ok_def advances_def complete_stays_def grows_def)
  then show "engine_ok (fst (let (out, w) = take_io w; (b, ok) = begin_recording out m (files w)
                     in (w\<lparr>files := b\<rparr>, ok))) \<and>
    advances w (fst (let (out, w) = take_io w; (b, ok) = begin_recording out m (files w)
                     in (w\<lparr>files := b\<rparr>, ok))) \<and> True"
    by (simp add: split_beta Let_def f)
qed

lemma open_files_keeps:
  assumes "\<And>m. begins = Some m \<Longrightarrow> metadata_ok i m"
  shows "holds (\<lambda>_. True) (open_files i dev begins)"
  using assms unfolding open_files_def
  by (cases begins)
    (auto intro!: keeps_seq[OF holds_reading] keeps_seq[OF discard_files_keeps]
      keeps_seq[OF begin_files_keeps[of i]])

lemma reopen_missing_files_keeps:
  "metadata_ok i m \<Longrightarrow> holds (\<lambda>_. True) (reopen_missing_files m dev)"
  unfolding reopen_missing_files_def
  by (intro keeps_seq[OF holds_reading] keeps_if keeps_seq[OF begin_files_keeps[of i]]) simp_all


section \<open>Receipts\<close>

lemma insert_chunk_set [simp]: "set (insert_chunk c cs) = insert c (set cs)"
  by (simp add: insert_chunk_def)

lemma sorted_remdups_adj_strict:
  "sorted (xs :: int list) \<Longrightarrow> sorted_wrt (<) (remdups_adj xs)"
  by (induction xs rule: remdups_adj.induct) (auto simp: less_le)

lemma insert_chunk_sorted [simp]: "sorted_wrt (<) (insert_chunk c cs)"
  unfolding insert_chunk_def by (rule sorted_remdups_adj_strict) simp

lemma pick_update_Inr:
  assumes "\<And>h. held = Some h \<Longrightarrow> recording_id h = i \<and> receipt_ok h"
    and "pick_update r wc held = Inr q" and "recording_id r = i" and "receipt_ok r"
  shows "recording_id q = i \<and> receipt_ok q \<and> (\<forall>h. held = Some h \<longrightarrow> kind (state h) \<noteq> KComplete)"
  using assms by (auto simp: pick_update_def split: option.splits if_splits)

lemma edit_update_ok:
  "receipt_ok r \<Longrightarrow> chunks = None \<or> chunks = Some [] \<Longrightarrow>
     receipt_ok (edit_update s chunks r) \<and> recording_id (edit_update s chunks r) = recording_id r"
  by (auto simp: edit_update_def receipt_ok_def split: option.splits)

text \<open>What a request may rely on of the receipt it goes on with.\<close>

definition its :: "uuid \<Rightarrow> handover_receipt \<Rightarrow> bool" where
  "its i r \<longleftrightarrow> recording_id r = i \<and> receipt_ok r"

lemma update_receipt_keeps:
  assumes "its i r" and "chunks = None \<or> chunks = Some []"
  shows "holds (\<lambda>(r', _). its i r') (update_receipt r s chunks)"
proof -
  have r: "recording_id r = i" "receipt_ok r" using assms(1) by (simp_all add: its_def)
  have "holds (\<lambda>res. case res of Inl e \<Rightarrow> (\<forall>h. e = Some h \<longrightarrow> its i h)
                   | Inr (q, _) \<Rightarrow> recording_id q = i \<and> receipt_ok q \<and> True)
      (atomically (change i (pick_update r wc) (edit_update s chunks) now))" for wc now
  proof (rule change_keeps)
    fix held q
    assume h: "\<And>h. held = Some h \<Longrightarrow> recording_id h = i \<and> receipt_ok h"
      and "pick_update r wc held = Inr q"
    with pick_update_Inr[OF h this(2) r] edit_update_ok[OF _ assms(2), of q s]
    show "recording_id (edit_update s chunks q) = i \<and> receipt_ok (edit_update s chunks q) \<and>
       (\<forall>h. held = Some h \<longrightarrow> kind (state h) = KComplete \<longrightarrow>
          byte_count (edit_update s chunks q) = byte_count h \<longrightarrow>
          sha256 (edit_update s chunks q) = sha256 h \<longrightarrow> state (edit_update s chunks q) = state h) \<and>
       True"
      by auto
  next
    fix held e
    assume "\<And>h. held = Some h \<Longrightarrow> recording_id h = i \<and> receipt_ok h"
      and "pick_update r wc held = Inl e"
    then show "\<forall>h. e = Some h \<longrightarrow> its i h"
      by (auto simp: pick_update_def its_def split: option.splits if_splits)
  qed
  note change = this
  show ?thesis
    unfolding update_receipt_def r(1)
  proof (intro keeps_seq[OF holds_reading] keeps_await[OF change])
    fix res :: "handover_receipt option + handover_receipt \<times> nat"
    assume res: "case res of Inl e \<Rightarrow> (\<forall>h. e = Some h \<longrightarrow> its i h)
                   | Inr (q, _) \<Rightarrow> recording_id q = i \<and> receipt_ok q \<and> True"
    show "holds (\<lambda>(r', _). its i r') (case res of
            Inl None \<Rightarrow> Done (r, True) | Inl (Some h) \<Rightarrow> Done (h, True)
          | Inr (changed, place) \<Rightarrow> await (save place) (\<lambda>ok. Done (changed, ok)))"
    proof (cases res)
      case (Inl e)
      with res assms(1) show ?thesis by (cases e) simp_all
    next
      case (Inr q)
      with res show ?thesis
        by (cases q) (auto simp: its_def intro!: keeps_seq[OF save_keeps])
    qed
  qed
qed

lemma transition_keeps:
  "its i r \<Longrightarrow> chunks = None \<or> chunks = Some [] \<Longrightarrow>
     holds (\<lambda>(r', _). its i r') (transition r s chunks)"
  unfolding transition_def by (rule update_receipt_keeps)

lemma transition_any:
  "its i r \<Longrightarrow> chunks = None \<or> chunks = Some [] \<Longrightarrow> holds (\<lambda>_. True) (transition r s chunks)"
  by (rule keeps_any) (rule transition_keeps)

lemma add_chunk_keeps:
  assumes "its i r" and "0 \<le> c" and "c < chunk_count (byte_count r) (chunk_size r)"
  shows "holds (\<lambda>_. True) (add_chunk r c)"
proof -
  have r: "recording_id r = i" "receipt_ok r" using assms(1) by (simp_all add: its_def)
  have change: "holds (\<lambda>res. case res of Inl e \<Rightarrow> True
                   | Inr (q, _) \<Rightarrow> recording_id q = i \<and> receipt_ok q \<and> True)
      (atomically (change i (pick_chunk r) (edit_chunk c) now))" for now
  proof (rule change_keeps)
    fix held q
    assume h: "\<And>h. held = Some h \<Longrightarrow> recording_id h = i \<and> receipt_ok h"
      and p: "pick_chunk r held = Inr q"
    from p have q: "held = Some q" "kind (state q) \<noteq> KComplete" "chunk_size q = chunk_size r"
      "byte_count q = byte_count r"
      by (auto simp: pick_chunk_def same_upload_def split: option.splits if_splits)
    with h assms(2,3)
    show "recording_id (edit_chunk c q) = i \<and> receipt_ok (edit_chunk c q) \<and>
       (\<forall>h. held = Some h \<longrightarrow> kind (state h) = KComplete \<longrightarrow>
          byte_count (edit_chunk c q) = byte_count h \<longrightarrow>
          sha256 (edit_chunk c q) = sha256 h \<longrightarrow> state (edit_chunk c q) = state h) \<and> True"
      by (auto simp: edit_chunk_def receipt_ok_def)
  qed simp
  show ?thesis
    unfolding add_chunk_def r(1)
    by (intro keeps_seq[OF holds_reading] keeps_await[OF change])
      (auto split: sum.splits intro!: keeps_seq[OF save_keeps])
qed

lemma stored_receipt_its:
  assumes "stored_ok d"
  shows "\<forall>r. stored_receipt i d = Some r \<longrightarrow> its i r"
  using assms
  by (auto simp: stored_receipt_def stored_ok_def handover_receipt_def its_def receipt_ok_def
      split: option.splits if_splits)

lemma receipt_keeps: "holds (\<lambda>found. \<forall>r. found = Inr (Some r) \<longrightarrow> its i r) (receipt i)"
proof -
  have get: "holds (\<lambda>a. \<forall>r. a = Some r \<longrightarrow> its i r) (reading (\<lambda>w. bt_get (active_receipts w) i))"
    by (rule keeps_reading) (simp add: its_def engine_okD(5))
  have put: "holds (\<lambda>found. \<forall>r. found = Inr (Some r) \<longrightarrow> its i r)
      (atomically (\<lambda>w. case bt_get (active_receipts w) i of
                    Some active \<Rightarrow> (w, Inr (Some active))
                  | None \<Rightarrow> (remember r w, Inr (Some r))))" (is "holds ?Q (atomically ?f)")
    if r: "its i r" for r
  proof (rule keeps_atomically)
    fix w assume I: "engine_ok w"
    show "engine_ok (fst (?f w)) \<and> advances w (fst (?f w)) \<and> ?Q (snd (?f w))"
    proof (cases "bt_get (active_receipts w) i")
      case None
      then have "engine_ok (remember r w) \<and> advances w (remember r w)"
        by (intro remember_ok[OF I]) (use r in \<open>auto simp: its_def\<close>)
      with None r show ?thesis by simp
    next
      case (Some a)
      with I engine_okD(5)[OF I Some] show ?thesis by (simp add: its_def)
    qed
  qed
  have stored: "holds (\<lambda>found. \<forall>v. found = Some v \<longrightarrow> (\<forall>r. v = Some r \<longrightarrow> its i r))
      (with_store (stored_receipt i))"
    by (rule with_store_keeps) (rule stored_receipt_its)
  show ?thesis
    unfolding receipt_def
    by (rule keeps_await[OF get], split option.split)
      (auto split: option.splits intro!: keeps_await[OF stored] put)
qed

lemma owned_receipt_keeps:
  "holds (\<lambda>found. \<forall>r. found = Inr r \<longrightarrow> its i r \<and> device_id r = d_id dev) (owned_receipt i dev)"
  unfolding owned_receipt_def
  by (rule keeps_await[OF receipt_keeps]) (auto split: sum.splits option.splits)

section \<open>Revokes, the completing mark and the intake\<close>

lemma revoke_state_keeps [keeps_intro]: "holds (\<lambda>_. True) (atomically (revoke_state dev))"
proof (rule keeps_atomically)
  fix w assume I: "engine_ok w"
  define v where "v = w\<lparr>revoked := insert dev (revoked w),
    revocations := (revocations w)(dev := Suc (revocations w dev)),
    active_receipts := bt_retain (\<lambda>_ r. device_id r \<noteq> dev) (active_receipts w)\<rparr>"
  note d = engine_okD[OF I]
  have get: "bt_get (active_receipts v) i = Some r \<Longrightarrow>
      bt_get (active_receipts w) i = Some r \<and> device_id r \<noteq> dev" for i r
    using bt_get_retain_Some[of "\<lambda>_ r. device_id r \<noteq> dev", OF _ d(4)] by (simp add: v_def)
  have "memory_ok v"
    unfolding memory_ok_def
  proof (intro conjI allI impI)
    show "bt_ok (active_receipts v)" using d(4) by (simp add: v_def)
    fix i r assume "bt_get (active_receipts v) i = Some r"
    from get[OF this] d(5)[of i r]
    show "recording_id r = i" and "device_id r \<notin> revoked v" and "receipt_ok r"
      by (simp_all add: v_def)
  qed
  then have v: "engine_ok v" using d(2,3,6) by (simp add: engine_ok_def line_ok_def v_def)
  have "complete_stays w v" unfolding complete_stays_def using get by fastforce
  then have a: "advances w v" by (simp add: advances_def grows_def v_def)
  have "fst (revoke_state dev w) = fst (next_write (DeletePairedDevice dev) v)"
    by (simp add: revoke_state_def v_def Let_def split_beta)
  then show "engine_ok (fst (revoke_state dev w)) \<and> advances w (fst (revoke_state dev w)) \<and> True"
    using next_write_ok[OF v, of "DeletePairedDevice dev"] advances_next_write[OF a] by simp
qed

lemma discard_all_own_keeps [keeps_intro]: "holds (\<lambda>_. True) (discard_all_own is dev)"
  by (induction "is") (auto intro!: keeps_seq[OF discard_own_keeps])

lemma revoke_keeps [keeps_intro]: "holds (\<lambda>_. True) (revoke dev)"
  unfolding revoke_def
  by (rule keeps_seq[OF revoke_state_keeps], simp add: split_beta)
    (intro keeps_seq keeps_intro, simp)

lemma begin_completing_keeps [keeps_intro]: "holds (\<lambda>_. True) (atomically (begin_completing i))"
  by (rule holds_same) (simp add: begin_completing_def same_engine_def)

lemma end_completing_keeps [keeps_intro]: "holds (\<lambda>_. True) (end_completing i)"
  unfolding end_completing_def by (rule holds_same) (simp add: same_engine_def)

text \<open>The intake's transactions keep the store sound and the ledger.\<close>

definition ledger_keeps :: "db \<Rightarrow> db \<Rightarrow> bool" where
  "ledger_keeps d d' \<longleftrightarrow> dom (admissions d) \<subseteq> dom (admissions d')"

definition intake_ok :: "engine_ext \<Rightarrow> bool" where
  "intake_ok x \<longleftrightarrow> (\<forall>content i m dev. metadata_ok i m \<longrightarrow>
     keeps stored_ok ledger_keeps (\<lambda>_. True) (intake x content m dev))"

lemma on_store_keeps:
  assumes "keeps stored_ok ledger_keeps (\<lambda>_. True) t"
  shows "holds (\<lambda>_. True) (on_store t)"
  using assms
proof (induction t rule: task_induct)
  case (Step f)
  have "engine_ok (w\<lparr>store := fst (f (store w))\<rparr>) \<and> advances w (w\<lparr>store := fst (f (store w))\<rparr>) \<and>
    holds (\<lambda>_. True) (on_store (snd (f (store w))))" if I: "engine_ok w" for w
  proof -
    from Step.prems engine_okD(2)[OF I]
    have d: "stored_ok (fst (f (store w)))" "ledger_keeps (store w) (fst (f (store w)))"
      and k: "keeps stored_ok ledger_keeps (\<lambda>_. True) (snd (f (store w)))"
      by (simp_all add: keeps_Step)
    from I d(1) have "engine_ok (w\<lparr>store := fst (f (store w))\<rparr>)"
      by (simp add: engine_ok_def memory_ok_def line_ok_def)
    moreover from d(2) have "advances w (w\<lparr>store := fst (f (store w))\<rparr>)"
      by (simp add: advances_def complete_stays_def grows_def ledger_keeps_def)
    ultimately show ?thesis using Step.IH[OF k] by simp
  qed
  then show ?case by (simp add: keeps_Step)
qed simp

end
