(* ===== verification/Engine_Interleaving.thy ===== *)
theory Engine_Interleaving
  imports Engine_Invariant
begin

text \<open>
  Every route keeps \<open>engine_ok\<close> and stays within \<open>advances\<close>, section by section, so the
  interpretation of \<open>task_system\<close> holds: any number of requests on any number of connections,
  interleaved in any way with the clock, the disk and the committer of the store.
\<close>

section \<open>Announce\<close>

definition announced_its :: "uuid \<Rightarrow> announced \<Rightarrow> bool" where
  "announced_its i a = (case a of Answered _ \<Rightarrow> True | Changed held \<Rightarrow> its i held)"

lemma fresh_keeps:
  assumes "metadata_ok i m"
  shows "holds (\<lambda>r. its i r \<and> byte_count r = m_byte_count m \<and> sha256 r = m_sha256 m)
           (fresh dev m s)"
  unfolding fresh_def
  by (rule keeps_reading) (use assms in \<open>auto simp: its_def receipt_ok_def metadata_ok_def\<close>)

lemma pick_replace_change_keeps:
  assumes made: "its i made" and R: "\<And>now. R (made\<lparr>updated_at := now\<rparr>)"
    and stays: "\<And>e. expected = Some e \<Longrightarrow> kind (state e) = KComplete \<Longrightarrow>
      byte_count made = byte_count e \<Longrightarrow> sha256 made = sha256 e \<Longrightarrow> state made = state e"
  shows "holds (\<lambda>res. case res of Inl h \<Rightarrow> its i h
                   | Inr (q, _) \<Rightarrow> recording_id q = i \<and> receipt_ok q \<and> R q)
      (atomically (change i (pick_replace expected made) (\<lambda>r. r) now))"
  by (rule change_keeps)
    (use assms in \<open>auto simp: pick_replace_def its_def split: option.splits if_splits\<close>)

lemma replace_keeps:
  assumes made: "its i made"
    and stays: "\<And>e. expected = Some e \<Longrightarrow> kind (state e) = KComplete \<Longrightarrow>
      byte_count made = byte_count e \<Longrightarrow> sha256 made = sha256 e \<Longrightarrow> state made = state e"
    and begins: "\<And>m. begins = Some m \<Longrightarrow> metadata_ok i m"
  shows "holds (announced_its i) (replace expected made begins code)"
proof -
  have id: "recording_id made = i" using made by (simp add: its_def)
  have open_res: "holds (\<lambda>res. case res of Inl h \<Rightarrow> its i h | Inr _ \<Rightarrow> True)
      (make_and_open expected made begins)"
    unfolding make_and_open_def id
    by (intro keeps_seq[OF holds_reading]
        keeps_await[OF pick_replace_change_keeps[OF made, of "\<lambda>_. True", OF _ stays]])
      (auto split: sum.splits intro!: keeps_seq[OF open_files_keeps] dest: begins)
  show ?thesis
    unfolding replace_def
    by (rule keeps_await[OF open_res])
      (auto simp: announced_its_def split: sum.splits option.splits
        intro!: keeps_seq[OF save_keeps] keeps_if keeps_seq[OF discard_own_keeps])
qed

lemma new_bytes_keeps:
  assumes m: "metadata_ok i m"
    and "\<And>r. read = Some r \<Longrightarrow> byte_count r \<noteq> m_byte_count m \<or> sha256 r \<noteq> m_sha256 m"
  shows "holds (announced_its i) (new_bytes read dev m)"
proof -
  have "holds (announced_its i) (await (fresh dev m s) (\<lambda>r. replace read r begins code))"
    if "begins = None \<or> begins = Some m" for s begins code
    by (rule keeps_await[OF fresh_keeps[OF m]], rule replace_keeps)
      (use that assms in \<open>auto\<close>)
  then show ?thesis
    unfolding new_bytes_def
    by (intro keeps_seq[OF with_store_any])
      (auto simp: announced_its_def Let_def split: option.splits intro!: keeps_if)
qed

lemma take_over_keeps:
  assumes "its i r"
  shows "holds (\<lambda>res. case res of Inl a \<Rightarrow> announced_its i a
                   | Inr t \<Rightarrow> its i t \<and> state t = state r \<and> byte_count t = byte_count r)
           (take_over r dev)"
proof -
  have id: "recording_id r = i" using assms by (simp add: its_def)
  have made: "its i (r\<lparr>device_id := d_id dev\<rparr>)"
    using assms by (simp add: its_def receipt_ok_def)
  show ?thesis
    unfolding take_over_def id
    by (intro keeps_seq[OF holds_reading] keeps_await[OF pick_replace_change_keeps[OF made,
          of "\<lambda>q. state q = state r \<and> byte_count q = byte_count r"]])
      (auto simp: announced_its_def its_def split: sum.splits intro!: keeps_seq[OF save_keeps])
qed

lemma resume_keeps:
  assumes "its i r" and "metadata_ok i m"
  shows "holds (\<lambda>_. True) (resume r dev m)"
  unfolding resume_def
  by (rule keeps_seq[OF reopen_missing_files_keeps[OF assms(2)]])
    (auto split: option.splits intro!: keeps_seq[OF transition_any[OF assms(1)]] keeps_if
      keeps_seq[OF discard_own_keeps])

lemma reannounce_owned_keeps:
  assumes "its i r" and "metadata_ok i m" and "byte_count r = m_byte_count m"
    and "c \<longleftrightarrow> kind (state r) = KComplete"
  shows "holds (announced_its i) (reannounce_owned c r dev m)"
proof -
  have "holds (announced_its i)
      (replace (Some r) (r\<lparr>state := Receiving, chunk_size := m_chunk_size m, received_chunks := []\<rparr>)
         (Some m) 200)" if "\<not> c"
    by (rule replace_keeps) (use that assms in \<open>auto simp: its_def receipt_ok_def metadata_ok_def\<close>)
  then show ?thesis
    unfolding reannounce_owned_def
    by (auto simp: announced_its_def
        intro!: keeps_if keeps_seq[OF resume_keeps[OF assms(1,2)]])
qed

lemma reannounce_keeps:
  assumes r: "its i r" and m: "metadata_ok i m"
  shows "holds (announced_its i) (reannounce r dev m)"
  unfolding reannounce_def Let_def
  by (intro keeps_if new_bytes_keeps[OF m] reannounce_owned_keeps[OF r m]
      keeps_await[OF take_over_keeps[OF r]])
    (auto split: sum.splits intro!: reannounce_owned_keeps[OF _ m])

lemma announce_loop_keeps:
  assumes m: "metadata_ok i m" and "\<And>r. existing = Some r \<Longrightarrow> its i r"
  shows "holds (\<lambda>_. True) (announce_loop fuel existing dev m)"
  using assms(2)
proof (induction fuel arbitrary: existing)
  case (Suc fuel)
  have "holds (announced_its i)
      (case existing of None \<Rightarrow> new_bytes None dev m | Some r \<Rightarrow> reannounce r dev m)"
    using Suc.prems new_bytes_keeps[OF m, of None] reannounce_keeps[OF _ m]
    by (auto split: option.splits)
  then show ?case
    unfolding announce_loop.simps
    by (rule keeps_await) (auto simp: announced_its_def split: announced.splits intro!: Suc.IH)
qed simp

text \<open>
  The largest chunk size the configuration may name: the sizes of an accepted announce then fit
  the 64-bit arithmetic of the routes.
\<close>

definition conf_ok :: "handover_configuration \<Rightarrow> bool" where
  "conf_ok c \<longleftrightarrow> c_chunk_size c \<le> i64_max - max_byte_count"

lemma metadata_problem_None:
  "metadata_problem g m c = None \<Longrightarrow> conf_ok c \<Longrightarrow> metadata_ok (m_recording_id m) m"
  by (auto simp: metadata_problem_def metadata_ok_def sizes_ok_def conf_ok_def split: if_splits)

lemma announce_keeps:
  assumes "conf_ok (conf x)"
  shows "holds (\<lambda>_. True) (announce fuel x i dev payload)"
  unfolding announce_def
  by (auto split: option.splits sum.splits intro!: keeps_if keeps_await[OF receipt_keeps]
      announce_loop_keeps dest!: metadata_problem_None[OF _ assms])


section \<open>Status, chunks and complete\<close>

lemma status_route_keeps: "holds (\<lambda>_. True) (status_route i dev)"
  unfolding status_route_def
  by (rule keeps_seq[OF keeps_any[OF owned_receipt_keeps]]) simp

lemma take_io_files [simp]: "files (snd (take_io w)) = files w"
  by (simp add: take_io_def split: list.split)

lemma load_metadata_write_chunk [simp]:
  "load_metadata i (fst (write_chunk out j offset data b)) = load_metadata i b"
  by (auto simp: load_metadata_def split: option.split io_outcome.split)

lemma write_partial_keeps: "holds (\<lambda>_. True) (write_partial i offset data)"
  unfolding write_partial_def
  by (rule holds_same) (auto simp: split_beta Let_def simp del: write_chunk.simps intro!: same_engine_files)

lemma chunk_refusal_None:
  assumes "chunk_refusal x r index rq = None"
  shows "0 \<le> index" and "index < chunk_count (byte_count r) (chunk_size r)"
    and "int (length (rq_body rq)) = chunk_length index (byte_count r) (chunk_size r)"
    and "index \<notin> set (received_chunks r)" and "kind (state r) \<noteq> KComplete"
    and "chunk_digest x rq = Some (digest (crypto x) (rq_body rq))"
  using assms by (auto simp: chunk_refusal_def Let_def split: if_splits option.splits)

lemma receive_chunk_keeps: "holds (\<lambda>_. True) (receive_chunk x i index dev rq)"
  unfolding receive_chunk_def
  by (rule keeps_await[OF owned_receipt_keeps])
    (auto split: sum.splits option.splits
      intro!: keeps_seq[OF holds_reading] keeps_if keeps_seq[OF write_partial_keeps]
        keeps_seq[OF add_chunk_keeps] dest: chunk_refusal_None(1,2))

lemma refusal_keeps: "holds (\<lambda>_. True) (refusal i dev revocation)"
  unfolding refusal_def revoked_since_def
  by (intro keeps_seq[OF holds_reading] keeps_if keeps_seq[OF discard_and_forget_own_keeps]) simp_all

lemma revoked_during_the_verify_keeps: "holds (\<lambda>_. True) (revoked_during_the_verify i dev)"
  unfolding revoked_during_the_verify_def
  by (intro keeps_seq[OF discard_own_while_revoked_keeps]) simp

lemma replaced_during_the_verify_keeps:
  "its i r \<Longrightarrow> holds (\<lambda>_. True) (replaced_during_the_verify r)"
  unfolding replaced_during_the_verify_def
  by (rule keeps_seq[OF transition_any]) auto

lemma same_engine_io: "same_engine w (fst (let (out, w) = take_io w in (w, g out w)))"
  by (simp add: split_beta Let_def)

lemma open_partial_keeps: "holds (\<lambda>_. True) (open_partial i)"
  unfolding open_partial_def by (rule holds_same) (rule same_engine_io)

lemma verify_open_file_keeps: "holds (\<lambda>_. True) (verify_open_file x r identity)"
  unfolding verify_open_file_def
  by (rule keeps_seq, rule holds_same, rule same_engine_io)
    (auto simp: split_beta split: option.splits bool.splits intro!: holds_same)

lemma load_metadata_promote [simp]:
  "load_metadata i (fst (promote out j f b)) = load_metadata i b"
  by (cases "(out, j, f, b)" rule: promote.cases)
    (auto simp: load_metadata_def Let_def split: option.split io_outcome.split)

lemma promote_file_keeps: "holds (\<lambda>_. True) (promote_file i f)"
  unfolding promote_file_def
  by (rule holds_same) (auto simp: split_beta Let_def intro!: same_engine_files)

lemma remove_file_keeps: "holds (\<lambda>_. True) (remove_file i f)"
  unfolding remove_file_def
  by (rule holds_same) (auto simp: remove_verified_def load_metadata_def intro!: same_engine_files)

text \<open>What \<open>complete\<close> goes on with is still a receipt of the recording.\<close>

definition verified_its :: "uuid \<Rightarrow> verification \<times> handover_receipt \<Rightarrow> bool" where
  "verified_its i v = its i (snd v)"

lemma verify_and_promote_keeps:
  assumes r: "its i r"
  shows "holds (verified_its i) (verify_and_promote x r m dev revocation identity)"
proof -
  have id: "recording_id r = i" using r by (simp add: its_def)
  have replaced: "holds (verified_its i)
      (await (replaced_during_the_verify r) (\<lambda>response. Done (VAnswered response, r)))"
    by (rule keeps_seq[OF replaced_during_the_verify_keeps[OF r]]) (simp add: verified_its_def r)
  have mismatch: "holds (verified_its i)
      (await (transition r (Failed ''sha256 mismatch'') (Some [])) (\<lambda>(r', _).
         Done (VAnswered (problem 422 Sha256Mismatch), r')))"
    by (rule keeps_await[OF transition_keeps[OF r]]) (auto simp: verified_its_def)
  show ?thesis
    unfolding verify_and_promote_def Let_def id revoked_since_def partial_identity_def
      verified_identity_def
    by (rule keeps_seq[OF verify_open_file_keeps], rule keeps_seq[OF holds_reading])
      (auto simp: verified_its_def[of i "(_, r)"] r split: option.split
        intro!: keeps_if keeps_seq[OF revoked_during_the_verify_keeps] keeps_seq[OF holds_reading]
          replaced keeps_seq[OF discard_own_keeps] mismatch keeps_seq[OF promote_file_keeps]
          keeps_seq[OF remove_file_keeps])
qed

lemma verified_file_keeps:
  assumes r: "its i r"
  shows "holds (verified_its i) (verified_file x r m dev revocation)"
proof -
  have missing: "holds (verified_its i) (missing_chunks_answer r there)" for there
  proof -
    have "holds (\<lambda>r'. its i r') (if there then Done r
            else await (update_receipt r None (Some [])) (\<lambda>(r', _). Done r'))"
      using r by (auto intro!: keeps_if keeps_await[OF update_receipt_keeps[OF r]])
    then show ?thesis
      unfolding missing_chunks_answer_def
      by (rule keeps_await) (auto simp: verified_its_def split: bool.splits option.splits)
  qed
  show ?thesis
    unfolding verified_file_def Let_def
    by (intro keeps_seq[OF holds_reading] keeps_if missing keeps_seq[OF open_partial_keeps])
      (auto simp: verified_its_def r split: option.splits
        intro!: keeps_await[OF transition_keeps[OF r]] verify_and_promote_keeps)
qed

lemma admit_keeps:
  assumes "intake_ok x" and "metadata_ok i m" and r: "its i r"
  shows "holds (\<lambda>_. True) (admit x m dev r)"
proof -
  have id: "recording_id r = i" using r by (simp add: its_def)
  have intake: "holds (\<lambda>_. True) (on_store (intake x bytes m dev))" for bytes
    using assms(1,2) unfolding intake_ok_def by (blast intro: on_store_keeps)
  have run: "holds (\<lambda>_. True) (run_intake x i m dev)"
    unfolding run_intake_def
    by (rule keeps_seq[OF holds_reading]) (auto split: option.split intro!: intake)
  show ?thesis
    unfolding admit_def Let_def id
    by (rule keeps_seq[OF run])
      (auto split: option.split intro!: keeps_seq[OF transition_any[OF r]] keeps_seq[OF holds_reading]
        keeps_if keeps_seq[OF remove_file_keeps] keeps_seq[OF discard_own_keeps])
qed

lemma complete_marked_keeps:
  assumes "intake_ok x" and r: "its i r"
  shows "holds (\<lambda>_. True) (complete_marked x i dev revocation r)"
proof -
  have "holds (\<lambda>found. \<forall>m. found = Some m \<longrightarrow> metadata_ok i m)
      (reading (\<lambda>w. load_metadata i (files w)))"
    by (rule keeps_reading) (use engine_okD(6) in \<open>auto simp: sidecars_ok_def\<close>)
  then show ?thesis
    unfolding complete_marked_def
    by (rule keeps_await)
      (auto split: option.splits verification.splits simp: verified_its_def
        intro!: keeps_await[OF verified_file_keeps[OF r]] admit_keeps[OF assms(1)])
qed

lemma complete_route_keeps:
  assumes "intake_ok x"
  shows "holds (\<lambda>_. True) (complete_route x i dev)"
  unfolding complete_route_def revoked_since_def
  by (rule keeps_seq[OF holds_reading])
    (auto split: option.splits sum.splits simp del: await_atomically
      intro!: keeps_await[OF owned_receipt_keeps] keeps_seq[OF holds_reading] keeps_if
        keeps_seq[OF forget_own_keeps] keeps_seq[OF refusal_keeps]
        keeps_seq[OF begin_completing_keeps] keeps_seq[OF complete_marked_keeps[OF assms]]
        keeps_seq[OF end_completing_keeps])


section \<open>The gate, pairing and the dispatch\<close>

lemma draw_keeps: "holds (\<lambda>_. True) (draw x)"
  unfolding draw_def by (rule holds_same) (simp add: same_engine_def)

lemma begin_pairing_keeps: "holds (\<lambda>_. True) (begin_pairing x)"
  unfolding begin_pairing_def Let_def
  by (intro keeps_seq[OF holds_reading] keeps_seq[OF draw_keeps] holds_same)
    (simp add: same_engine_def)

lemma cancel_pairing_keeps: "holds (\<lambda>_. True) cancel_pairing"
  unfolding cancel_pairing_def by (rule holds_same) (simp add: same_engine_def)

lemma touch_keeps: "holds (\<lambda>_. True) (touch dev hash)"
  unfolding touch_def
  by (auto simp del: await_atomically split: option.split
      intro!: keeps_seq[OF holds_reading] keeps_if keeps_seq[OF next_write_keeps]
        keeps_seq[OF in_order_keeps])

lemma authenticate_keeps: "holds (\<lambda>_. True) (authenticate x r authorization)"
  unfolding authenticate_def Let_def
  by (auto split: auth_requirement.split option.splits
      intro!: keeps_seq[OF holds_reading] keeps_seq[OF with_store_any] keeps_seq[OF touch_keeps])

lemma take_session_keeps: "holds (\<lambda>_. True) (atomically (take_session x win payload))"
  by (rule holds_same) (auto simp: take_session_def same_engine_def split: option.split sum.split)

lemma put_session_back_keeps: "holds (\<lambda>_. True) (atomically (put_session_back win session))"
  by (rule holds_same) (simp add: put_session_back_def same_engine_def)

lemma unrevoke_keeps: "holds (\<lambda>_. True) (atomically (unrevoke i revocation))"
proof (rule keeps_atomically)
  fix w assume I: "engine_ok w"
  have "memory_ok (w\<lparr>revoked := revoked w - {i}\<rparr>)"
    using engine_okD(1)[OF I] by (auto simp: memory_ok_def)
  then have "engine_ok (w\<lparr>revoked := revoked w - {i}\<rparr>)"
    using I by (simp add: engine_ok_def line_ok_def)
  moreover have "advances w (w\<lparr>revoked := revoked w - {i}\<rparr>)"
    by (rule advances_frame) simp_all
  ultimately show "engine_ok (fst (unrevoke i revocation w)) \<and>
      advances w (fst (unrevoke i revocation w)) \<and> True"
    using I by (simp add: unrevoke_def)
qed

lemma save_device_place_keeps: "holds (\<lambda>_. True) (atomically (save_device_place dev hash))"
proof (rule keeps_atomically)
  fix w assume "engine_ok w"
  then show "engine_ok (fst (save_device_place dev hash w)) \<and>
      advances w (fst (save_device_place dev hash w)) \<and> True"
    using next_write_ok[of w "SavePairedDevice dev hash"]
    by (simp add: save_device_place_def split_beta Let_def)
qed

lemma pair_device_keeps: "holds (\<lambda>_. True) (pair_device x win session i n)"
  unfolding pair_device_def Let_def
  by (auto simp del: await_atomically
      intro!: keeps_seq[OF draw_keeps] keeps_seq[OF holds_reading]
        keeps_seq[OF save_device_place_keeps] keeps_seq[OF in_order_keeps] keeps_if
        keeps_seq[OF put_session_back_keeps] keeps_seq[OF unrevoke_keeps])

lemma pair_route_keeps: "holds (\<lambda>_. True) (pair_route x rq)"
  unfolding pair_route_def
  by (auto simp del: await_atomically split: principal.split sum.split
      intro!: keeps_seq[OF take_session_keeps] pair_device_keeps)

lemma unpair_keeps: "holds (\<lambda>_. True) (unpair dev)"
  unfolding unpair_def by (rule keeps_seq[OF revoke_keeps]) simp

lemma handle_keeps:
  assumes "conf_ok (conf x)" and "intake_ok x"
  shows "holds (\<lambda>_. True) (handle fuel x rq)"
  unfolding handle_def recording_route_def
  by (auto split: route.split option.split simp del: device.simps
      intro!: keeps_seq[OF pair_route_keeps] keeps_seq[OF unpair_keeps] keeps_seq[OF holds_reading]
        keeps_if announce_keeps[OF assms(1)] keeps_seq[OF status_route_keeps]
        keeps_seq[OF receive_chunk_keeps] keeps_seq[OF complete_route_keeps[OF assms(2)]])

lemma serve_request_keeps:
  assumes "conf_ok (conf x)" and "intake_ok x"
  shows "holds (\<lambda>_. True) (serve_request fuel x h fs)"
  unfolding serve_request_def dispatch_body_def Let_def
  by (auto split: option.split auth_outcome.split collected.split
      intro!: keeps_if keeps_seq[OF authenticate_keeps] keeps_seq[OF handle_keeps[OF assms]])

lemma sweep_each_keeps: "holds (\<lambda>_. True) (sweep_each cutoff is)"
  by (induction "is")
    (auto split: option.split intro!: keeps_seq keeps_if with_store_any discard_files_keeps)

lemma sweep_orphans_keeps: "holds (\<lambda>_. True) sweep_orphans"
  unfolding sweep_orphans_def
  by (intro keeps_seq[OF holds_reading] sweep_each_keeps)

section \<open>The system\<close>

text \<open>
  What may arrive at the engine: a request of a connection, what the host calls, the start
  sweep. The environment moves the clock, commits the first write of the line, and scripts how
  the coming store and file calls end.
\<close>

definition forget_result :: "(world, 'a) task \<Rightarrow> (world, unit) task" where
  "forget_result t = await t (\<lambda>_. Done ())"

inductive engine_task :: "engine_ext \<Rightarrow> (world, unit) task \<Rightarrow> bool" for x where
  request: "engine_task x (forget_result (serve_request fuel x h fs))"
| open_window: "engine_task x (forget_result (begin_pairing x))"
| close_window: "engine_task x cancel_pairing"
| forget_device: "engine_task x (forget_result (revoke dev))"
| sweep: "engine_task x sweep_orphans"

inductive engine_env :: "world \<Rightarrow> world \<Rightarrow> bool" where
  tick: "engine_env w (w\<lparr>clock := t\<rparr>)"
| committed: "engine_env w (commit_head w)"
| weather: "engine_env w (w\<lparr>store_faults := sf, io_faults := f\<rparr>)"

definition started :: "db \<Rightarrow> inbox \<Rightarrow> world" where
  "started d b =
     \<lparr>clock = 0, store = d, store_faults = [], files = b, io_faults = [], pairing = None,
      window = 0, active_receipts = [], completing = {}, revoked = {}, revocations = (\<lambda>_. 0),
      line = [], next_place = 0, written = Map.empty, published = [], draws = 0\<rparr>"

lemma started_ok: "stored_ok d \<Longrightarrow> sidecars_ok b \<Longrightarrow> engine_ok (started d b)"
  by (simp add: engine_ok_def memory_ok_def line_ok_def started_def)

lemma engine_task_keeps:
  assumes "conf_ok (conf x)" and "intake_ok x" and "engine_task x t"
  shows "holds (\<lambda>_. True) t"
  using assms(3)
proof cases
  case (request fuel h fs)
  show ?thesis unfolding request forget_result_def
    by (rule keeps_seq[OF serve_request_keeps[OF assms(1,2)]]) simp
next
  case open_window
  show ?thesis unfolding open_window forget_result_def
    by (rule keeps_seq[OF begin_pairing_keeps]) simp
next
  case close_window
  show ?thesis unfolding close_window by (rule cancel_pairing_keeps)
next
  case (forget_device dev)
  show ?thesis unfolding forget_device forget_result_def
    by (rule keeps_seq[OF revoke_keeps]) simp
qed (simp add: sweep_orphans_keeps)

lemma engine_env_ok:
  assumes "engine_ok w" and "engine_env w w'"
  shows "engine_ok w' \<and> advances w w'"
  using assms(2)
proof cases
  case committed
  then show ?thesis using commit_head_ok[OF assms(1)] by (simp add: advances_memory_same)
next
  case (tick t)
  have "same_engine w w'" by (simp add: tick same_engine_def)
  from same_engine_ok[OF this assms(1)] show ?thesis .
next
  case (weather sf f)
  have "same_engine w w'" by (simp add: weather same_engine_def)
  from same_engine_ok[OF this assms(1)] show ?thesis .
qed

definition engine_init :: "world \<Rightarrow> bool" where
  "engine_init w \<longleftrightarrow> (\<exists>d b. stored_ok d \<and> sidecars_ok b \<and> w = started d b)"

definition engine_admits :: "engine_ext \<Rightarrow> (world, unit) task \<Rightarrow> bool" where
  "engine_admits x t \<longleftrightarrow> conf_ok (conf x) \<and> intake_ok x \<and> engine_task x t"

interpretation engine: task_system engine_ok advances "engine_admits x" engine_env engine_init
  for x
proof
  show "engine_init w \<Longrightarrow> engine_ok w" for w
    by (auto simp: engine_init_def started_ok)
  show "advances w w" for w by simp
  show "engine_admits x t \<Longrightarrow> holds (\<lambda>_. True) t" for t
    by (auto simp: engine_admits_def engine_task_keeps)
  show "engine_ok w \<Longrightarrow> engine_env w w' \<Longrightarrow> engine_ok w' \<and> advances w w'" for w w'
    by (rule engine_env_ok)
qed

abbreviation engine_reachable :: "engine_ext \<Rightarrow> world \<times> (world, unit) task list \<Rightarrow> bool" where
  "engine_reachable x \<equiv> pool_reachable (engine_admits x) engine_env engine_init"

lemma engine_reachable_ok: "engine_reachable x c \<Longrightarrow> engine_ok (fst c)"
  using engine.reachable_invar by blast

end
