(* ===== verification/Upload_Run.thy ===== *)
theory Upload_Run
  imports Engine_Interleaving
begin

text \<open>
  One request after another: what the routes answer and leave behind when no other request comes
  between. \<open>uploading\<close> is the abstract state of an upload, the set of chunks the computer holds of
  a recording; each route is shown to refine its step on it, and together they are the whole
  upload: announced, sent in chunks in any order, completed, admitted with exactly its bytes.
\<close>

section \<open>Running alone\<close>

declare await_atomically [simp del]

text \<open>No write waits and neither the store nor the disk is about to fail.\<close>

definition calm :: "world \<Rightarrow> bool" where
  "calm w \<longleftrightarrow> line w = [] \<and> store_faults w = [] \<and> io_faults w = []"

definition goes_through :: "store_write \<Rightarrow> db \<Rightarrow> bool" where
  "goes_through wr d = (case run_write wr d of Inl _ \<Rightarrow> False | Inr _ \<Rightarrow> True)"

text \<open>The world after a write was put in line and saved.\<close>

definition saved_as :: "store_write \<Rightarrow> world \<Rightarrow> world" where
  "saved_as wr w =
     w\<lparr>store := commit_write wr (store w), next_place := Suc (next_place w),
       written := (written w)(next_place w \<mapsto> goes_through wr (store w)),
       published := receipts_snapshot w\<rparr>"

lemma calm_take_fault [simp]: "calm w \<Longrightarrow> take_fault w = (False, w)"
  by (simp add: calm_def take_fault_def)

lemma calm_take_io [simp]: "calm w \<Longrightarrow> take_io w = (IoOk, w)"
  by (simp add: calm_def take_io_def)

lemma commit_until_next_write:
  assumes "calm w"
  shows "commit_until (next_place w) (fst (next_write wr w)) =
     w\<lparr>store := commit_write wr (store w), next_place := Suc (next_place w),
       written := (written w)(next_place w \<mapsto> goes_through wr (store w))\<rparr>"
proof -
  have "take_fault (w\<lparr>line := [(next_place w, wr)], next_place := Suc (next_place w)\<rparr>) =
      (False, w\<lparr>line := [(next_place w, wr)], next_place := Suc (next_place w)\<rparr>)"
    using assms by (simp add: calm_def take_fault_def)
  then show ?thesis
    using assms
    by (cases "run_write wr (store w)")
      (simp_all add: commit_until_def next_write_def calm_def commit_head_def commit_write_def
        goes_through_def Let_def numeral_eq_Suc)
qed

lemma exec_save:
  assumes "calm w"
  shows "exec (save (next_place w)) (fst (next_write wr w)) =
     (saved_as wr w, goes_through wr (store w))"
  by (simp add: save_def in_order_def publish_receipts_def commit_until_next_write[OF assms]
      saved_as_def receipts_snapshot_def Let_def)

lemma saved_as_fields [simp]:
  "active_receipts (saved_as wr w) = active_receipts w" "files (saved_as wr w) = files w"
  "revoked (saved_as wr w) = revoked w" "revocations (saved_as wr w) = revocations w"
  "completing (saved_as wr w) = completing w" "clock (saved_as wr w) = clock w"
  "store (saved_as wr w) = commit_write wr (store w)" "line (saved_as wr w) = line w"
  "pairing (saved_as wr w) = pairing w" "window (saved_as wr w) = window w"
  "io_faults (saved_as wr w) = io_faults w" "store_faults (saved_as wr w) = store_faults w"
  by (simp_all add: saved_as_def)

lemma calm_saved_as [simp]: "calm (saved_as wr w) \<longleftrightarrow> calm w"
  by (simp add: calm_def)

lemma remember_fields [simp]:
  "files (remember r w) = files w" "revoked (remember r w) = revoked w"
  "revocations (remember r w) = revocations w" "completing (remember r w) = completing w"
  "clock (remember r w) = clock w" "store (remember r w) = store w" "line (remember r w) = line w"
  "io_faults (remember r w) = io_faults w" "store_faults (remember r w) = store_faults w"
  "next_place (remember r w) = next_place w"
  by (simp_all add: remember_def)

lemma calm_remember [simp]: "calm (remember r w) \<longleftrightarrow> calm w"
  by (simp add: calm_def)

lemma calm_files [simp]:
  "calm (w\<lparr>files := b\<rparr>) \<longleftrightarrow> calm w" "calm (w\<lparr>completing := c\<rparr>) \<longleftrightarrow> calm w"
  "calm (w\<lparr>store := d\<rparr>) \<longleftrightarrow> calm w"
  by (simp_all add: calm_def)

text \<open>A change that goes ahead, in memory and in the line.\<close>

lemma change_Inr:
  "pick (bt_get (active_receipts w) i) = Inr r \<Longrightarrow> c = (edit r)\<lparr>updated_at := now\<rparr> \<Longrightarrow>
   change i pick edit now w =
     (fst (next_write (SaveReceipt c) (remember c w)), Inr (c, next_place w))"
  by (simp add: change_def next_write_def Let_def)

lemma change_Inl:
  "pick (bt_get (active_receipts w) i) = Inl e \<Longrightarrow> change i pick edit now w = (w, Inl e)"
  by (simp add: change_def)

lemma exec_save_change:
  "calm w \<Longrightarrow> exec (save (next_place w)) (fst (next_write (SaveReceipt c) (remember c w))) =
     (saved_as (SaveReceipt c) (remember c w), goes_through (SaveReceipt c) (store w))"
  using exec_save[of "remember c w" "SaveReceipt c"] by simp

lemma goes_through_receipt [simp]:
  "goes_through (SaveReceipt c) d \<longleftrightarrow> bt_get (devices d) (device_id c) \<noteq> None"
  by (simp add: goes_through_def save_receipt_def)

lemma commit_save_receipt:
  "bt_get (devices d) (device_id c) = Some row \<Longrightarrow>
   commit_write (SaveReceipt c) d = d\<lparr>receipts := (receipts d)(recording_id c \<mapsto> receipt_to_row c)\<rparr>"
  by (simp add: commit_write_def save_receipt_def)

text \<open>The world once a changed receipt is kept and saved.\<close>

definition keep_receipt :: "handover_receipt \<Rightarrow> world \<Rightarrow> world" where
  "keep_receipt c w = saved_as (SaveReceipt c) (remember c w)"

lemma keep_receipt_fields [simp]:
  "files (keep_receipt c w) = files w" "revoked (keep_receipt c w) = revoked w"
  "revocations (keep_receipt c w) = revocations w" "completing (keep_receipt c w) = completing w"
  "clock (keep_receipt c w) = clock w" "calm (keep_receipt c w) = calm w"
  "store (keep_receipt c w) = commit_write (SaveReceipt c) (store w)"
  by (simp_all add: keep_receipt_def)

lemma keep_receipt_memory [simp]:
  "device_id c \<notin> revoked w \<Longrightarrow>
     bt_get (active_receipts (keep_receipt c w)) = (bt_get (active_receipts w))(recording_id c \<mapsto> c)"
  by (simp add: keep_receipt_def remember_def)

lemma devices_keep_receipt [simp]:
  "devices (commit_write (SaveReceipt c) d) = devices d"
  "admissions (commit_write (SaveReceipt c) d) = admissions d"
  by (simp_all add: commit_write_def save_receipt_def split: sum.split)

lemma exec_update_receipt:
  assumes "calm w"
  shows "exec (update_receipt r s chunks) w =
     (case pick_update r (chunks \<noteq> None) (bt_get (active_receipts w) (recording_id r)) of
        Inl None \<Rightarrow> (w, r, True)
      | Inl (Some h) \<Rightarrow> (w, h, True)
      | Inr q \<Rightarrow> let c = (edit_update s chunks q)\<lparr>updated_at := clock w\<rparr>
                 in (keep_receipt c w, c, bt_get (devices (store w)) (device_id c) \<noteq> None))"
proof (cases "pick_update r (chunks \<noteq> None) (bt_get (active_receipts w) (recording_id r))")
  case (Inl e)
  then show ?thesis
    by (cases e) (simp_all add: update_receipt_def change_Inl)
next
  case (Inr q)
  then show ?thesis
    using assms
    by (simp add: update_receipt_def change_Inr Let_def exec_save_change
        keep_receipt_def)
qed


section \<open>The abstract upload\<close>

text \<open>
  \<open>uploading dev m bs S w\<close>: the computer receives \<open>bs\<close> for \<open>dev\<close> under the announce \<open>m\<close> and holds the
  chunks \<open>S\<close>: in the receipt as an ascending list, in the partial where they belong.
\<close>

definition receipt_of ::
  "paired_device \<Rightarrow> recording_metadata \<Rightarrow> handover_receipt \<Rightarrow> bool" where
  "receipt_of dev m r \<longleftrightarrow>
     recording_id r = m_recording_id m \<and> device_id r = d_id dev \<and> byte_count r = m_byte_count m \<and>
     sha256 r = m_sha256 m \<and> chunk_size r = m_chunk_size m"

definition uploading ::
  "paired_device \<Rightarrow> recording_metadata \<Rightarrow> bytes \<Rightarrow> int set \<Rightarrow> world \<Rightarrow> bool" where
  "uploading dev m bs S w \<longleftrightarrow>
     calm w \<and> d_id dev \<notin> revoked w \<and> m_recording_id m \<notin> completing w \<and>
     bt_get (devices (store w)) (d_id dev) \<noteq> None \<and>
     (\<exists>r. bt_get (active_receipts w) (m_recording_id m) = Some r \<and> receipt_of dev m r \<and>
        state r = Receiving \<and> received_chunks r = sorted_list_of_set S) \<and>
     load_metadata (m_recording_id m) (files w) = Some m \<and>
     (\<forall>f. \<not> has_verified (m_recording_id m) f (files w)) \<and>
     (\<exists>f. bt_get (partials (files w)) (m_recording_id m) = Some f \<and>
        holds_chunks (nat (m_chunk_size m)) bs (nat ` S) (content f))"

text \<open>What the phone announces of its recording \<open>bs\<close>.\<close>

definition announces :: "engine_ext \<Rightarrow> recording_metadata \<Rightarrow> bytes \<Rightarrow> bool" where
  "announces x m bs \<longleftrightarrow>
     metadata_problem (graphemes x) m (conf x) = None \<and> conf_ok (conf x) \<and>
     m_byte_count m = int (length bs) \<and> m_sha256 m = digest (crypto x) bs"

lemma announces_sizes: "announces x m bs \<Longrightarrow> sizes_ok (int (length bs)) (m_chunk_size m)"
  using metadata_problem_None[of "graphemes x" m "conf x"]
  by (auto simp: announces_def metadata_ok_def)

definition begun :: "recording_metadata \<Rightarrow> inbox \<Rightarrow> inbox" where
  "begun m b = fst (begin_recording IoOk m (discard (m_recording_id m) b))"

lemma begun_files:
  "load_metadata (m_recording_id m) (begun m b) = Some m"
  "\<not> has_verified (m_recording_id m) f (begun m b)"
  "\<exists>f. bt_get (partials (begun m b)) (m_recording_id m) = Some f \<and> content f = []"
  by (simp_all add: begun_def load_metadata_def has_verified_def create_partial_def discard_def Let_def)

lemma exec_open_files:
  assumes "io_faults w = []" and "bt_get (active_receipts w) (m_recording_id m) = Some r"
    and "device_id r = dev"
  shows "exec (open_files (m_recording_id m) dev (Some m)) w =
     (w\<lparr>files := begun m (files w)\<rparr>, Some True)"
proof -
  let ?b = "begin_recording IoOk m (discard (m_recording_id m) (files w))"
  have "snd ?b = True" by (simp add: Let_def)
  then have b: "?b = (begun m (files w), True)" by (simp add: begun_def prod_eq_iff)
  show ?thesis
    using assms
    by (simp add: open_files_def discard_files_def begin_files_def take_io_def b
        del: begin_recording.simps)
qed

lemma exec_replace_new:
  assumes w: "calm w" and "d_id dev \<notin> revoked w" and "bt_get (devices (store w)) (d_id dev) = Some row"
    and "bt_get (active_receipts w) (m_recording_id m) = None"
    and r: "receipt_of dev m r" and c: "c = r\<lparr>updated_at := clock w\<rparr>"
  shows "exec (replace None r (Some m) code) w =
     (saved_as (SaveReceipt c) ((remember c w)\<lparr>files := begun m (files w)\<rparr>),
      Answered (status_answer code c))"
proof -
  let ?v = "fst (next_write (SaveReceipt c) (remember c w))"
  have id: "recording_id r = m_recording_id m" "device_id r = d_id dev"
    using r by (simp_all add: receipt_of_def)
  have ch: "change (m_recording_id m) (pick_replace None r) (\<lambda>r. r) (clock w) w =
      (?v, Inr (c, next_place w))"
    by (rule change_Inr) (simp_all add: pick_replace_def assms(4) c)
  have opened: "exec (open_files (m_recording_id m) (d_id dev) (Some m)) ?v =
      (?v\<lparr>files := begun m (files w)\<rparr>, Some True)"
    using exec_open_files[of ?v m c "d_id dev"] w assms(2) id c
    by (simp add: next_write_def remember_def calm_def)
  have v: "?v\<lparr>files := begun m (files w)\<rparr> =
      fst (next_write (SaveReceipt c) ((remember c w)\<lparr>files := begun m (files w)\<rparr>))"
    by (simp add: next_write_def)
  have "exec (save (next_place w)) (?v\<lparr>files := begun m (files w)\<rparr>) =
      (saved_as (SaveReceipt c) ((remember c w)\<lparr>files := begun m (files w)\<rparr>), True)"
    unfolding v
    using exec_save[of "(remember c w)\<lparr>files := begun m (files w)\<rparr>" "SaveReceipt c"] w assms(3) id c
    by simp
  with ch opened id show ?thesis
    by (simp add: replace_def make_and_open_def c)
qed

text \<open>A first announce: 201, no chunk received.\<close>

lemma announce_begins:
  assumes m: "announces x m bs" and p: "parse_metadata x payload = Some m"
    and w: "calm w" and dev: "d_id dev \<notin> revoked w" "bt_get (devices (store w)) (d_id dev) \<noteq> None"
    and fresh: "m_recording_id m \<notin> completing w"
      "bt_get (active_receipts w) (m_recording_id m) = None"
      "receipts (store w) (m_recording_id m) = None"
      "admitted_meeting (m_recording_id m) (m_byte_count m) (m_sha256 m) (store w) = None"
  shows "\<exists>w'. exec (announce (Suc n) x (m_recording_id m) dev payload) w =
       (w', Some (json 201 (StatusBody \<lparr>st_state = KReceiving, st_received_chunks = []\<rparr>))) \<and>
     uploading dev m bs {} w'"
proof -
  define r where "r = \<lparr>recording_id = m_recording_id m, device_id = d_id dev, state = Receiving,
    byte_count = m_byte_count m, sha256 = m_sha256 m, chunk_size = m_chunk_size m,
    received_chunks = [], created_at = clock w, updated_at = clock w\<rparr>"
  let ?w = "saved_as (SaveReceipt r) ((remember r w)\<lparr>files := begun m (files w)\<rparr>)"
  from dev(2) obtain row where row: "bt_get (devices (store w)) (d_id dev) = Some row" by auto
  have "exec (receipt (m_recording_id m)) w = (w, Inr None)"
    using w fresh(2,3)
    by (simp add: receipt_def with_store_def stored_receipt_def handover_receipt_def)
  moreover have "exec (replace None r (Some m) 201) w = (?w, Answered (status_answer 201 r))"
    by (rule exec_replace_new[OF w dev(1) row fresh(2)]) (simp_all add: r_def receipt_of_def)
  then have "exec (new_bytes None dev m) w = (?w, Answered (status_answer 201 r))"
    using w fresh(4) by (simp add: new_bytes_def with_store_def fresh_def r_def)
  moreover have "metadata_problem (graphemes x) m (conf x) = None"
    using m by (simp add: announces_def)
  moreover have "uploading dev m bs {} ?w"
  proof -
    have "bt_get (active_receipts ?w) (m_recording_id m) = Some r"
      using dev(1) by (simp add: remember_def r_def)
    then show ?thesis
      using w dev row fresh(1) begun_files[where m = m and b = "files w"]
      by (auto simp: uploading_def receipt_of_def r_def holds_chunks_def)
  qed
  ultimately show ?thesis
    using p by (simp add: announce_def status_answer_def status_of_def r_def)
qed

section \<open>A chunk\<close>

definition carries :: "engine_ext \<Rightarrow> recording_metadata \<Rightarrow> bytes \<Rightarrow> int \<Rightarrow> handover_request \<Rightarrow> bool" where
  "carries x m bs index rq \<longleftrightarrow>
     rq_body rq = chunk_of (nat (m_chunk_size m)) bs (nat index) \<and>
     chunk_digest x rq = Some (digest (crypto x) (rq_body rq))"

lemma insert_chunk_list:
  "finite S \<Longrightarrow> insert_chunk index (sorted_list_of_set S) = sorted_list_of_set (insert index S)"
  using sorted_list_of_set.idem_if_sorted_distinct[of "insert_chunk index (sorted_list_of_set S)"]
    insert_chunk_sorted[of index "sorted_list_of_set S"]
  by (simp add: strict_sorted_iff del: insert_chunk_sorted)

lemma chunk_of_length:
  assumes "sizes_ok (int (length bs)) c" and "0 \<le> index" and "index < chunk_count (int (length bs)) c"
  shows "int (length (chunk_of (nat c) bs (nat index))) = chunk_length index (int (length bs)) c"
proof -
  have "0 < c" using sizes_ok_pos[OF assms(1)] by simp
  moreover have "index * c < int (length bs)"
    using assms chunk_count_le_iff[OF assms(1), of index] by simp
  moreover have off: "int (nat index * nat c) = index * c" using assms(2) \<open>0 < c\<close> by simp
  ultimately have le: "nat index * nat c \<le> length bs" by linarith
  have "int (length bs - nat index * nat c) = int (length bs) - index * c"
    using le off by (simp only: of_nat_diff)
  then show ?thesis
    using \<open>0 < c\<close> by (simp add: chunk_of_def chunk_length_def Let_def of_nat_min)
qed

text \<open>A chunk's body, checked, lands at its place: 204, and the chunk is held.\<close>

lemma chunk_lands:
  assumes m: "announces x m bs" and u: "uploading dev m bs S w" and S: "finite S"
    and i: "0 \<le> index" "index < chunk_count (m_byte_count m) (m_chunk_size m)"
    and rq: "carries x m bs index rq"
  shows "\<exists>w'. exec (receive_chunk x (m_recording_id m) index dev rq) w = (w', empty_response 204) \<and>
     uploading dev m bs (insert index S) w'"
proof -
  let ?i = "m_recording_id m" and ?c = "m_chunk_size m"
  from u obtain r f where w: "calm w" and dev: "d_id dev \<notin> revoked w"
    and free: "m_recording_id m \<notin> completing w"
    and row: "bt_get (devices (store w)) (d_id dev) \<noteq> None"
    and r: "bt_get (active_receipts w) ?i = Some r" "receipt_of dev m r" "state r = Receiving"
      "received_chunks r = sorted_list_of_set S"
    and md: "load_metadata ?i (files w) = Some m"
    and nv: "\<forall>f. \<not> has_verified ?i f (files w)"
    and f: "bt_get (partials (files w)) ?i = Some f" "holds_chunks (nat ?c) bs (nat ` S) (content f)"
    by (auto simp: uploading_def)
  have own: "exec (owned_receipt ?i dev) w = (w, Inr r)"
    using r by (simp add: owned_receipt_def receipt_def receipt_of_def)
  have bc: "m_byte_count m = int (length bs)" using m by (simp add: announces_def)
  have len: "int (length (rq_body rq)) = chunk_length index (m_byte_count m) ?c"
    using chunk_of_length[OF announces_sizes[OF m]] i rq bc by (simp add: carries_def)
  have refusal: "chunk_refusal x r index rq =
      (if index \<in> S then Some (empty_response 204) else None)"
    using r i rq len S by (simp add: chunk_refusal_def receipt_of_def carries_def)
  show ?thesis
  proof (cases "index \<in> S")
    case True
    then have "insert index S = S" by blast
    with True own refusal u show ?thesis by (simp add: receive_chunk_def)
  next
    case False
    let ?b = "(files w)\<lparr>partials := bt_insert ?i (f\<lparr>content :=
        write_at (nat (index * ?c)) (rq_body rq) (content f)\<rparr>) (partials (files w))\<rparr>"
    let ?v = "w\<lparr>files := ?b\<rparr>"
    define q where "q = r\<lparr>state := Receiving, received_chunks := insert_chunk index (received_chunks r),
      updated_at := clock w\<rparr>"
    have add: "exec (add_chunk r index) ?v = (keep_receipt q ?v, Some True)"
    proof -
      have "change (recording_id r) (pick_chunk r) (edit_chunk index) (clock w) ?v =
          (fst (next_write (SaveReceipt q) (remember q ?v)), Inr (q, next_place ?v))"
        by (rule change_Inr[where r = r])
          (use r in \<open>simp_all add: receipt_of_def pick_chunk_def same_upload_def q_def edit_chunk_def\<close>)
      moreover have "exec (save (next_place ?v)) (fst (next_write (SaveReceipt q) (remember q ?v))) =
          (saved_as (SaveReceipt q) (remember q ?v), True)"
        using exec_save_change[of ?v q] w row r by (simp add: q_def receipt_of_def)
      ultimately show ?thesis by (simp add: add_chunk_def keep_receipt_def)
    qed
    have "exec (receive_chunk x ?i index dev rq) w = (keep_receipt q ?v, empty_response 204)"
      using False own refusal w f r(2) add
      by (simp add: receive_chunk_def has_partial_def write_partial_def receipt_of_def)
    moreover have "uploading dev m bs (insert index S) (keep_receipt q ?v)"
    proof -
      have "nat (index * ?c) = nat index * nat ?c"
        using i(1) sizes_ok_pos[OF announces_sizes[OF m]] by (simp add: nat_mult_distrib)
      then have "holds_chunks (nat ?c) bs (nat ` insert index S)
          (write_at (nat (index * ?c)) (rq_body rq) (content f))"
        using holds_chunks_write[OF f(2), of "nat index"] rq sizes_ok_pos[OF announces_sizes[OF m]]
        by (simp add: carries_def)
      moreover have "q\<lparr>updated_at := t\<rparr> = r\<lparr>state := Receiving,
          received_chunks := insert_chunk index (received_chunks r), updated_at := t\<rparr>" for t
        by (simp add: q_def)
      ultimately show ?thesis
        using w dev free row r md nv insert_chunk_list[OF S]
        by (auto simp: uploading_def receipt_of_def q_def load_metadata_def has_verified_def)
    qed
    ultimately show ?thesis by blast
  qed
qed


section \<open>Complete\<close>

lemma exec_on_store:
  "exec (on_store t) w = (w\<lparr>store := fst (exec t (store w))\<rparr>, snd (exec t (store w)))"
proof (induction t arbitrary: w rule: task_induct)
  case (Step f)
  then show ?case by (simp add: exec_Step)
qed simp

text \<open>An upload with every chunk, whatever the partial holds.\<close>

definition awaiting_complete ::
  "paired_device \<Rightarrow> recording_metadata \<Rightarrow> handover_receipt \<Rightarrow> disk_file \<Rightarrow> world \<Rightarrow> bool" where
  "awaiting_complete dev m r f w \<longleftrightarrow>
     calm w \<and> d_id dev \<notin> revoked w \<and> m_recording_id m \<notin> completing w \<and>
     bt_get (active_receipts w) (m_recording_id m) = Some r \<and>
     recording_id r = m_recording_id m \<and> device_id r = d_id dev \<and> kind (state r) \<noteq> KComplete \<and>
     received_chunks r = [0..chunk_count (byte_count r) (chunk_size r) - 1] \<and>
     load_metadata (m_recording_id m) (files w) = Some m \<and>
     \<not> has_verified (m_recording_id m) (m_format m) (files w) \<and>
     bt_get (partials (files w)) (m_recording_id m) = Some f"

text \<open>Such a world after the \<open>verifying\<close> write, with the mark held.\<close>

definition verifying_receipt :: "handover_receipt \<Rightarrow> world \<Rightarrow> handover_receipt" where
  "verifying_receipt r w = r\<lparr>state := Verifying, updated_at := clock w\<rparr>"

definition in_verify :: "uuid \<Rightarrow> handover_receipt \<Rightarrow> world \<Rightarrow> world" where
  "in_verify i r w =
     keep_receipt (verifying_receipt r w) (w\<lparr>completing := insert i (completing w)\<rparr>)"

lemma promote_partial:
  assumes "bt_get (partials b) i = Some f"
  shows "snd (promote IoOk i g b)"
    and "bt_get (verifieds (fst (promote IoOk i g b)) g) i = Some f"
  using assms by (simp_all add: Let_def)

lemma exec_verify_and_promote:
  assumes a: "awaiting_complete dev m r f w" and q: "q = verifying_receipt r w"
    and v: "v = in_verify (m_recording_id m) r w"
  shows "exec (verify_and_promote x q m dev (revocations w (d_id dev)) (inode f)) v =
     (if int (length (content f)) = byte_count r \<and> digest (crypto x) (content f) = sha256 r
      then (v\<lparr>files := fst (promote IoOk (m_recording_id m) (m_format m) (files w))\<rparr>, File, q)
      else let u = v\<lparr>files := discard (m_recording_id m) (files w)\<rparr>;
               c = q\<lparr>state := Failed ''sha256 mismatch'', received_chunks := [],
                          updated_at := clock w\<rparr>
           in (keep_receipt c u, VAnswered (problem 422 Sha256Mismatch), c))"
proof -
  let ?i = "m_recording_id m"
  from a have w: "calm w" and dev: "d_id dev \<notin> revoked w"
    and r: "recording_id r = ?i" "device_id r = d_id dev"
    and f: "bt_get (partials (files w)) ?i = Some f"
    by (simp_all add: awaiting_complete_def)
  have v': "calm v" "files v = files w" "revocations v = revocations w" "revoked v = revoked w"
    "bt_get (active_receipts v) ?i = Some q" "clock v = clock w"
    using w dev r by (simp_all add: v in_verify_def q verifying_receipt_def)
  have q': "recording_id q = ?i" "byte_count q = byte_count r" "sha256 q = sha256 r"
    "device_id q = d_id dev" "state q = Verifying" "updated_at q = clock w"
    using r by (simp_all add: q verifying_receipt_def)
  have open_c: "open_content ?i (inode f) v = content f"
    using f v' by (simp add: open_content_def)
  have checked: "exec (verify_open_file x q (inode f)) v = (v, Some (
      int (length (content f)) = byte_count r \<and> digest (crypto x) (content f) = sha256 r))"
    using v'(1) open_c q'
    by (simp add: verify_open_file_def hash_matches_def split: bool.split)
  show ?thesis
  proof (cases "int (length (content f)) = byte_count r \<and> digest (crypto x) (content f) = sha256 r")
    case True
    have "exec (promote_file ?i (m_format m)) v =
        (v\<lparr>files := fst (promote IoOk ?i (m_format m) (files w))\<rparr>, True)"
      using v'(1,2) promote_partial(1)[OF f, of "m_format m"]
      by (simp add: promote_file_def split_beta del: promote.simps)
    with True checked v' q' f promote_partial(2)[OF f, of "m_format m"] show ?thesis
      by (simp add: verify_and_promote_def revoked_since_def revocation_count_def
          partial_identity_def verified_identity_def Let_def del: promote.simps)
  next
    case False
    let ?u = "v\<lparr>files := discard ?i (files w)\<rparr>"
    let ?c = "q\<lparr>state := Failed ''sha256 mismatch'', received_chunks := [],
                 updated_at := clock w\<rparr>"
    have "exec (transition q (Failed ''sha256 mismatch'') (Some [])) ?u =
        (keep_receipt ?c ?u, ?c, bt_get (devices (store ?u)) (device_id ?c) \<noteq> None)"
      using v' q'
      by (simp add: transition_def exec_update_receipt pick_update_def same_upload_def
          edit_update_def Let_def)
    with False checked v' q' f show ?thesis
      by (simp add: verify_and_promote_def revoked_since_def revocation_count_def
          partial_identity_def discard_own_def discard_files_def holds_another_devices_def Let_def)
  qed
qed


lemma exec_verified_file:
  assumes a: "awaiting_complete dev m r f w" and q: "q = verifying_receipt r w"
    and v: "v = in_verify (m_recording_id m) r w"
  shows "exec (verified_file x r m dev (revocations w (d_id dev)))
           (w\<lparr>completing := insert (m_recording_id m) (completing w)\<rparr>) =
         exec (verify_and_promote x q m dev (revocations w (d_id dev)) (inode f)) v"
proof -
  let ?u = "w\<lparr>completing := insert (m_recording_id m) (completing w)\<rparr>"
  have u: "calm ?u" using a by (simp add: awaiting_complete_def)
  have "exec (transition r Verifying None) ?u =
      (v, q, bt_get (devices (store w)) (d_id dev) \<noteq> None)"
    unfolding transition_def exec_update_receipt[OF u]
    using a by (simp add: awaiting_complete_def pick_update_def same_upload_def edit_update_def
        Let_def v in_verify_def q verifying_receipt_def)
  with a u show ?thesis
    by (simp add: verified_file_def awaiting_complete_def has_partial_def open_partial_def q
        verifying_receipt_def Let_def)
qed

text \<open>After an admission: the receipt complete, no file of the recording left.\<close>

definition admitted_with :: "uuid \<Rightarrow> uuid \<Rightarrow> world \<Rightarrow> bool" where
  "admitted_with i meeting w \<longleftrightarrow>
     (\<exists>r. bt_get (active_receipts w) i = Some r \<and> state r = Complete meeting) \<and>
     i \<notin> set (recording_ids (files w))"

lemma exec_admit:
  assumes v: "calm v" "d_id dev \<notin> revoked v"
    and q: "bt_get (active_receipts v) (m_recording_id m) = Some q"
      "recording_id q = m_recording_id m" "device_id q = d_id dev" "kind (state q) \<noteq> KComplete"
    and p: "bt_get (verifieds (files v) (m_format m)) (m_recording_id m) = Some p"
    and meeting: "snd (exec (intake x (content p) m dev) (store v)) = Some meeting"
  shows "\<exists>w'. exec (admit x m dev q) v = (w', json 200 (CompleteBody meeting)) \<and>
     admitted_with (m_recording_id m) meeting w' \<and> completing w' = completing v"
proof -
  let ?i = "m_recording_id m"
  let ?d = "fst (exec (intake x (content p) m dev) (store v))"
  let ?v = "v\<lparr>store := ?d\<rparr>"
  let ?c = "q\<lparr>state := Complete meeting, updated_at := clock v\<rparr>"
  let ?b = "discard ?i (remove_verified ?i (m_format m) (files v))"
  have run: "exec (run_intake x ?i m dev) v = (?v, Some meeting)"
    using p meeting by (simp add: run_intake_def exec_on_store)
  have "exec (transition q (Complete meeting) None) ?v =
      (keep_receipt ?c ?v, ?c, bt_get (devices ?d) (d_id dev) \<noteq> None)"
    using v q by (simp add: transition_def exec_update_receipt pick_update_def same_upload_def
        edit_update_def Let_def)
  with run v q have "exec (admit x m dev q) v =
      ((keep_receipt ?c ?v)\<lparr>files := ?b\<rparr>, json 200 (CompleteBody meeting))"
    by (simp add: admit_def remove_file_def discard_own_def discard_files_def
        holds_another_devices_def Let_def)
  moreover have "admitted_with ?i meeting ((keep_receipt ?c ?v)\<lparr>files := ?b\<rparr>)"
    using v q by (simp add: admitted_with_def)
  ultimately show ?thesis by auto
qed

text \<open>
  The answer of \<open>complete\<close> on an upload with every chunk: the bytes the partial holds are
  admitted when they are the announced ones, else 422, and nothing of them is left.
\<close>

lemma complete_decides:
  assumes a: "awaiting_complete dev m r f w"
  shows "int (length (content f)) = byte_count r \<Longrightarrow> digest (crypto x) (content f) = sha256 r \<Longrightarrow>
      snd (exec (intake x (content f) m dev) (store (in_verify (m_recording_id m) r w))) =
        Some meeting \<Longrightarrow>
      \<exists>w'. exec (complete_route x (m_recording_id m) dev) w =
          (w', json 200 (CompleteBody meeting)) \<and>
        admitted_with (m_recording_id m) meeting w' \<and> completing w' = completing w"
    and "\<not> (int (length (content f)) = byte_count r \<and> digest (crypto x) (content f) = sha256 r) \<Longrightarrow>
      \<exists>w' c. exec (complete_route x (m_recording_id m) dev) w = (w', problem 422 Sha256Mismatch) \<and>
        m_recording_id m \<notin> set (recording_ids (files w')) \<and> completing w' = completing w \<and>
        bt_get (active_receipts w') (m_recording_id m) = Some c \<and>
        state c = Failed ''sha256 mismatch'' \<and> received_chunks c = []"
proof -
  let ?i = "m_recording_id m"
  define q where "q = verifying_receipt r w"
  define v where "v = in_verify ?i r w"
  from a have w: "calm w" and dev: "d_id dev \<notin> revoked w" and free: "?i \<notin> completing w"
    and r: "bt_get (active_receipts w) ?i = Some r" "recording_id r = ?i" "device_id r = d_id dev"
      "kind (state r) \<noteq> KComplete"
    and md: "load_metadata ?i (files w) = Some m"
    and f: "bt_get (partials (files w)) ?i = Some f"
    by (simp_all add: awaiting_complete_def)
  have nc: "meeting_id (state r) = None" using r(4) by (simp add: meeting_id_None_iff)
  have unmark: "insert ?i (completing w) - {?i} = completing w" using free by simp
  have v': "calm v" "files v = files w" "revoked v = revoked w"
    "completing v = insert ?i (completing w)" "bt_get (active_receipts v) ?i = Some q"
    using w dev r by (simp_all add: v_def in_verify_def q_def verifying_receipt_def)
  have route: "exec (complete_route x ?i dev) w =
      (case exec (complete_marked x ?i dev (revocations w (d_id dev)) r)
          (w\<lparr>completing := insert ?i (completing w)\<rparr>) of
        (w', response) \<Rightarrow> (w'\<lparr>completing := completing w' - {?i}\<rparr>, response))"
    using dev free r nc
    by (simp add: complete_route_def revocation_count_def owned_receipt_def receipt_def refusal_def
        revoked_since_def begin_completing_def end_completing_def split_beta)
  note verify = exec_verified_file[OF a q_def v_def] exec_verify_and_promote[OF a q_def v_def]
  show "\<exists>w'. exec (complete_route x ?i dev) w = (w', json 200 (CompleteBody meeting)) \<and>
        admitted_with ?i meeting w' \<and> completing w' = completing w"
    if ok: "int (length (content f)) = byte_count r" "digest (crypto x) (content f) = sha256 r"
      and meeting: "snd (exec (intake x (content f) m dev) (store (in_verify ?i r w))) = Some meeting"
  proof -
    let ?u = "v\<lparr>files := fst (promote IoOk ?i (m_format m) (files w))\<rparr>"
    have "\<exists>w'. exec (admit x m dev q) ?u = (w', json 200 (CompleteBody meeting)) \<and>
        admitted_with ?i meeting w' \<and> completing w' = completing ?u"
      by (rule exec_admit[where p = f])
        (use v' dev r promote_partial(2)[OF f] meeting in
          \<open>simp_all add: q_def verifying_receipt_def v_def del: promote.simps\<close>)
    with ok verify md v' free show ?thesis
      unfolding route complete_marked_def
      by (auto simp: admitted_with_def unmark simp del: promote.simps)
  qed
  show "\<exists>w' c. exec (complete_route x ?i dev) w = (w', problem 422 Sha256Mismatch) \<and>
        ?i \<notin> set (recording_ids (files w')) \<and> completing w' = completing w \<and>
        bt_get (active_receipts w') ?i = Some c \<and>
        state c = Failed ''sha256 mismatch'' \<and> received_chunks c = []"
    if bad: "\<not> (int (length (content f)) = byte_count r \<and> digest (crypto x) (content f) = sha256 r)"
  proof -
    have "recording_id q = ?i" "device_id q = d_id dev"
      using r by (simp_all add: q_def verifying_receipt_def)
    with bad verify md v' dev show ?thesis
      unfolding route complete_marked_def
      by (auto simp: unmark Let_def)
  qed
qed


section \<open>The whole upload\<close>

text \<open>The phone's chunk requests, one after another, with their answers.\<close>

fun send_chunks ::
  "engine_ext \<Rightarrow> uuid \<Rightarrow> paired_device \<Rightarrow> (int \<times> handover_request) list \<Rightarrow>
     (world, handover_response list) task" where
  "send_chunks x i dev [] = Done []"
| "send_chunks x i dev ((index, rq) # rqs) =
     await (receive_chunk x i index dev rq) (\<lambda>response.
     await (send_chunks x i dev rqs) (\<lambda>rest. Done (response # rest)))"

lemma chunks_land:
  assumes m: "announces x m bs" and "uploading dev m bs S w" and "finite S"
    and "\<forall>(index, rq) \<in> set rqs. 0 \<le> index \<and>
           index < chunk_count (m_byte_count m) (m_chunk_size m) \<and> carries x m bs index rq"
  shows "\<exists>w'. exec (send_chunks x (m_recording_id m) dev rqs) w =
       (w', replicate (length rqs) (empty_response 204)) \<and>
     uploading dev m bs (S \<union> fst ` set rqs) w'"
  using assms(2-)
proof (induction rqs arbitrary: S w)
  case (Cons e rqs)
  obtain index rq where e: "e = (index, rq)" by (cases e)
  from Cons.prems e have "0 \<le> index" "index < chunk_count (m_byte_count m) (m_chunk_size m)"
    "carries x m bs index rq" by auto
  from chunk_lands[OF m Cons.prems(1,2) this] obtain v where
    v: "exec (receive_chunk x (m_recording_id m) index dev rq) w = (v, empty_response 204)"
      "uploading dev m bs (insert index S) v" by blast
  from Cons.IH[OF v(2)] Cons.prems(2,3) obtain w' where
    "exec (send_chunks x (m_recording_id m) dev rqs) v =
       (w', replicate (length rqs) (empty_response 204))"
    "uploading dev m bs (insert index S \<union> fst ` set rqs) w'" by auto
  with v(1) e show ?case by auto
qed simp

lemma upto_sorted_list: "sorted_list_of_set {0..<n :: int} = [0..n - 1]"
proof -
  have "{0..<n} = set [0..n - 1]" by auto
  then show ?thesis by (simp add: sorted_list_of_set.idem_if_sorted_distinct)
qed

text \<open>Once every chunk is held, the partial is the recording.\<close>

lemma uploading_all:
  assumes m: "announces x m bs"
    and u: "uploading dev m bs {0..<chunk_count (m_byte_count m) (m_chunk_size m)} w"
  shows "\<exists>r f. awaiting_complete dev m r f w \<and> content f = bs \<and> byte_count r = int (length bs) \<and>
     sha256 r = digest (crypto x) bs"
proof -
  let ?n = "chunk_count (m_byte_count m) (m_chunk_size m)" and ?c = "nat (m_chunk_size m)"
  have sz: "sizes_ok (int (length bs)) (m_chunk_size m)" by (rule announces_sizes[OF m])
  have b: "m_byte_count m = int (length bs)" using m by (simp add: announces_def)
  have c: "0 < m_chunk_size m" using sizes_ok_pos[OF sz] by simp
  from u obtain r f where r: "bt_get (active_receipts w) (m_recording_id m) = Some r"
      "receipt_of dev m r" "state r = Receiving" "received_chunks r = [0..?n - 1]"
    and f: "bt_get (partials (files w)) (m_recording_id m) = Some f"
      "holds_chunks ?c bs (nat ` {0..<?n}) (content f)"
    by (auto simp: uploading_def upto_sorted_list)
  have "p div ?c \<in> nat ` {0..<?n}" if "p < length bs" for p
  proof -
    have "int (p div ?c) = int p div m_chunk_size m" using c by (simp add: zdiv_int)
    moreover have "int p div m_chunk_size m * m_chunk_size m \<le> int p"
      using int_le_div_iff[OF c, of "int p div m_chunk_size m" "int p"] by simp
    then have "int p div m_chunk_size m < ?n"
      using that chunk_count_le_iff[OF sz, of "int p div m_chunk_size m"] by (simp add: b)
    ultimately show ?thesis using c
      by (intro image_eqI[of _ _ "int (p div ?c)"]) auto
  qed
  then have "content f = bs" using holds_chunks_all[OF f(2)] by blast
  moreover have "awaiting_complete dev m r f w"
    using u r f(1) by (simp add: awaiting_complete_def uploading_def receipt_of_def)
  ultimately show ?thesis using r(2) m by (auto simp: receipt_of_def announces_def)
qed

lemma devices_in_verify: "devices (store (in_verify i r w)) = devices (store w)"
  by (simp add: in_verify_def)

lemma upload_completes:
  assumes m: "announces x m bs"
    and u: "uploading dev m bs {0..<chunk_count (m_byte_count m) (m_chunk_size m)} w"
    and admits: "\<And>d. bt_get (devices d) (d_id dev) \<noteq> None \<Longrightarrow>
       snd (exec (intake x bs m dev) d) = Some meeting"
  shows "\<exists>w'. exec (complete_route x (m_recording_id m) dev) w =
       (w', json 200 (CompleteBody meeting)) \<and> admitted_with (m_recording_id m) meeting w'"
proof -
  from uploading_all[OF m u] obtain r f where a: "awaiting_complete dev m r f w"
    and f: "content f = bs" "byte_count r = int (length bs)" "sha256 r = digest (crypto x) bs"
    by blast
  have "bt_get (devices (store (in_verify (m_recording_id m) r w))) (d_id dev) \<noteq> None"
    using u by (simp add: devices_in_verify uploading_def)
  from complete_decides(1)[OF a, of x meeting] admits[OF this] f show ?thesis by auto
qed

end
