(* ===== verification/Handover_Properties.thy ===== *)
theory Handover_Properties
  imports Upload_Run
begin

text \<open>
  The properties of the phone handover, stated over the engine's operations and routes, with the
  concrete engine and requests their witnesses run.
\<close>

section \<open>An engine to run\<close>

text \<open>
  Stand-ins for what the engine is given: a digest and a base64 decoder that work on short
  inputs, an intake that admits what a paired device sends as meeting 42.
\<close>

definition demo_digest :: "bytes \<Rightarrow> bytes" where
  "demo_digest bs = take 32 (bs @ replicate 32 0)"

definition demo_bytes :: bytes where "demo_bytes = [97, 98, 99]"

definition demo_metadata :: recording_metadata where
  "demo_metadata = \<lparr>m_recording_id = 7, m_started_at = 0, m_duration_seconds = Finite 3,
     m_byte_count = 3, m_sha256 = demo_digest demo_bytes, m_chunk_size = 65536,
     m_format = M4aAac, m_device_name = [80]\<rparr>"

definition demo_crypto :: crypto_ext where
  "demo_crypto = \<lparr>digest = demo_digest, standard_decode = (\<lambda>s. Some (demo_digest (map of_char s))),
     standard_encode = (\<lambda>_. ''token''), url_safe_decode = (\<lambda>_. None), random = (\<lambda>_. [1])\<rparr>"

definition demo_conf :: handover_configuration where
  "demo_conf = \<lparr>service_name = [83], advertise = False, c_chunk_size = default_chunk_size,
     inbox_directory = ''inbox'', pairing_window = 300000000000, port = 0,
     read_timeout = 30000000000\<rparr>"

definition demo_intake :: "bytes \<Rightarrow> recording_metadata \<Rightarrow> paired_device \<Rightarrow> (db, uuid option) task"
where
  "demo_intake bs m dev =
     reading (\<lambda>d. if bt_get (devices d) (d_id dev) = None then None else Some 42)"

definition demo_engine :: engine_ext where
  "demo_engine = \<lparr>crypto = demo_crypto,
     routing = \<lparr>percent_decode = Some, try_parse_uuid = (\<lambda>_. Some 7)\<rparr>, graphemes = length,
     parse_metadata = (\<lambda>_. Some demo_metadata), parse_pair_request = (\<lambda>_. Some (5, [80])),
     conf = demo_conf, mac_id = 9, fingerprint = [1], intake = demo_intake\<rparr>"

definition demo_device :: paired_device where
  "demo_device = \<lparr>d_id = 5, d_name = [80], d_paired_at = 0, d_last_seen_at = Some 0\<rparr>"

definition demo_db :: db where
  "demo_db = empty_db\<lparr>devices := [(5, \<lparr>row_name = [80], row_paired_at = 0, row_last_seen_at = Some 0,
     row_token_hash = demo_digest (map of_char ''token'')\<rparr>)]\<rparr>"

definition demo_world :: world where
  "demo_world = started demo_db empty_inbox"

definition demo_chunk :: handover_request where
  "demo_chunk = \<lparr>rq_route = Chunk 7 0, rq_principal = Device demo_device,
     rq_headers = (\<lambda>_. Some ''abc''), rq_body = demo_bytes\<rparr>"

lemmas demo_defs = demo_metadata_def demo_crypto_def demo_conf_def demo_engine_def demo_device_def
  demo_db_def demo_chunk_def demo_bytes_def empty_db_def default_chunk_size_def

lemma demo_fields [simp]:
  "parse_metadata demo_engine p = Some demo_metadata" "graphemes demo_engine = length"
  "conf demo_engine = demo_conf" "crypto demo_engine = demo_crypto"
  "intake demo_engine = demo_intake" "digest demo_crypto = demo_digest"
  "m_recording_id demo_metadata = 7" "d_id demo_device = 5"
  "m_byte_count demo_metadata = 3" "m_chunk_size demo_metadata = 65536"
  by (simp_all add: demo_defs)

lemma demo_conf_ok [simp]: "conf_ok demo_conf"
  by (simp add: conf_ok_def demo_defs max_byte_count_def i64_max_def)

lemma demo_intake_ok [simp]: "intake_ok demo_engine"
  by (auto simp: intake_ok_def demo_intake_def ledger_keeps_def intro!: keeps_reading)

lemma demo_announces: "announces demo_engine demo_metadata demo_bytes"
proof -
  have "trim_matches is_foundation_whitespace [80] = [80]"
    by (simp add: trim_matches_def is_foundation_whitespace_def unicode_white_space_def)
  then have "metadata_problem length demo_metadata demo_conf = None"
    by (simp add: metadata_problem_def demo_defs demo_digest_def max_byte_count_def
        min_chunk_size_def max_duration_seconds_def device_name_def
        max_device_name_length_def accepted_formats_def Let_def)
  moreover have "m_sha256 demo_metadata = demo_digest demo_bytes" by (simp add: demo_metadata_def)
  ultimately show ?thesis by (simp add: announces_def demo_bytes_def)
qed

lemma demo_world_fields [simp]:
  "calm demo_world" "revoked demo_world = {}" "completing demo_world = {}"
  "active_receipts demo_world = []" "store demo_world = demo_db" "files demo_world = empty_inbox"
  by (simp_all add: demo_world_def started_def calm_def)

lemma demo_db_ok [simp]: "stored_ok demo_db"
  by (auto simp: stored_ok_def db_ok_def demo_defs bt_ok_def bt_get_def split: if_splits)

lemma demo_device_paired [simp]: "bt_get (devices demo_db) 5 \<noteq> None"
  by (simp add: demo_defs bt_get_def)

lemma empty_sidecars [simp]: "sidecars_ok empty_inbox"
  by (simp add: sidecars_ok_def load_metadata_def empty_inbox_def)

lemma demo_carries: "carries demo_engine demo_metadata demo_bytes 0 demo_chunk"
proof -
  have "trim_matches ascii_white_space ''abc'' = ''abc''"
    by (simp add: trim_matches_def ascii_white_space_def unicode_white_space_def)
  then show ?thesis
    by (simp add: carries_def chunk_digest_def demo_defs chunk_of_def demo_digest_def)
qed

lemma demo_chunk_count: "chunk_count 3 65536 = 1"
  by (simp add: chunk_count_def sdiv_nonneg_eq_div)

section \<open>The upload\<close>

text \<open>C1: A recording announced by a paired phone and sent in chunks, in any order and with any
  repeats, each checked, is answered 201, then 204 for every chunk, then 200 with the meeting the
  intake gave for exactly the bytes announced; the receipt is then complete and no file of the
  recording is left in the inbox.\<close>

theorem upload_whole:
  assumes "announces x m bs" and "parse_metadata x payload = Some m"
    and "calm w" and "d_id dev \<notin> revoked w" and "bt_get (devices (store w)) (d_id dev) \<noteq> None"
    and "m_recording_id m \<notin> completing w"
    and "bt_get (active_receipts w) (m_recording_id m) = None"
    and "receipts (store w) (m_recording_id m) = None"
    and "admitted_meeting (m_recording_id m) (m_byte_count m) (m_sha256 m) (store w) = None"
    and "\<forall>(index, rq) \<in> set rqs. carries x m bs index rq"
    and "fst ` set rqs = {0..<chunk_count (m_byte_count m) (m_chunk_size m)}"
    and "\<And>d. bt_get (devices d) (d_id dev) \<noteq> None \<Longrightarrow>
           snd (exec (intake x bs m dev) d) = Some meeting"
  shows "\<exists>w1 w2 w3.
     exec (announce 1 x (m_recording_id m) dev payload) w =
       (w1, Some (json 201 (StatusBody \<lparr>st_state = KReceiving, st_received_chunks = []\<rparr>))) \<and>
     exec (send_chunks x (m_recording_id m) dev rqs) w1 =
       (w2, replicate (length rqs) (empty_response 204)) \<and>
     exec (complete_route x (m_recording_id m) dev) w2 = (w3, json 200 (CompleteBody meeting)) \<and>
     admitted_with (m_recording_id m) meeting w3"
proof -
  from announce_begins[OF assms(1-9), of 0] obtain w1 where
    w1: "exec (announce 1 x (m_recording_id m) dev payload) w =
       (w1, Some (json 201 (StatusBody \<lparr>st_state = KReceiving, st_received_chunks = []\<rparr>)))"
      "uploading dev m bs {} w1" by auto
  have "\<forall>(index, rq) \<in> set rqs. 0 \<le> index \<and>
      index < chunk_count (m_byte_count m) (m_chunk_size m) \<and> carries x m bs index rq"
    using assms(10,11) by force
  from chunks_land[OF assms(1) w1(2) _ this] assms(11) obtain w2 where
    w2: "exec (send_chunks x (m_recording_id m) dev rqs) w1 =
       (w2, replicate (length rqs) (empty_response 204))"
      "uploading dev m bs {0..<chunk_count (m_byte_count m) (m_chunk_size m)} w2" by auto
  from upload_completes[OF assms(1) w2(2) assms(12)] w1(1) w2(1) show ?thesis by blast
qed

lemma upload_whole_witness:
  "\<exists>w1 w2 w3.
     exec (announce 1 demo_engine 7 demo_device []) demo_world =
       (w1, Some (json 201 (StatusBody \<lparr>st_state = KReceiving, st_received_chunks = []\<rparr>))) \<and>
     exec (send_chunks demo_engine 7 demo_device [(0, demo_chunk), (0, demo_chunk)]) w1 =
       (w2, [empty_response 204, empty_response 204]) \<and>
     exec (complete_route demo_engine 7 demo_device) w2 = (w3, json 200 (CompleteBody 42)) \<and>
     admitted_with 7 42 w3"
proof -
  have chunks: "fst ` set [(0 :: int, demo_chunk), (0, demo_chunk)] =
      {0..<chunk_count (m_byte_count demo_metadata) (m_chunk_size demo_metadata)}"
    by (auto simp: demo_chunk_count)
  have none: "receipts demo_db i = None" "admitted_meeting i n h demo_db = None" for i n h
    by (simp_all add: demo_db_def empty_db_def admitted_meeting_def)
  have "\<exists>w1 w2 w3.
     exec (announce 1 demo_engine (m_recording_id demo_metadata) demo_device []) demo_world =
       (w1, Some (json 201 (StatusBody \<lparr>st_state = KReceiving, st_received_chunks = []\<rparr>))) \<and>
     exec (send_chunks demo_engine (m_recording_id demo_metadata) demo_device
         [(0, demo_chunk), (0, demo_chunk)]) w1 =
       (w2, replicate (length [(0 :: int, demo_chunk), (0, demo_chunk)]) (empty_response 204)) \<and>
     exec (complete_route demo_engine (m_recording_id demo_metadata) demo_device) w2 =
       (w3, json 200 (CompleteBody 42)) \<and>
     admitted_with (m_recording_id demo_metadata) 42 w3"
    by (rule upload_whole[OF demo_announces _ _ _ _ _ _ _ _ _ chunks])
      (use demo_carries demo_device_paired none in \<open>simp_all add: demo_intake_def del: demo_device_paired\<close>)
  then show ?thesis by (simp add: numeral_2_eq_2 del: send_chunks.simps)
qed



definition demo_receipt :: "handover_state \<Rightarrow> int list \<Rightarrow> handover_receipt" where
  "demo_receipt s chunks = \<lparr>recording_id = 7, device_id = 5, state = s, byte_count = 3,
     sha256 = demo_digest demo_bytes, chunk_size = 65536, received_chunks = chunks,
     created_at = 0, updated_at = 0\<rparr>"

definition demo_file :: "bytes \<Rightarrow> disk_file" where
  "demo_file bs = \<lparr>inode = 0, content = bs\<rparr>"

definition demo_uploaded :: "bytes \<Rightarrow> world" where
  "demo_uploaded bs = demo_world\<lparr>active_receipts := [(7, demo_receipt Receiving [0])],
     files := empty_inbox\<lparr>partials := [(7, demo_file bs)], sidecars := [(7, Some demo_metadata)],
       next_inode := 1\<rparr>\<rparr>"

lemma demo_awaiting:
  "awaiting_complete demo_device demo_metadata (demo_receipt Receiving [0]) (demo_file bs)
     (demo_uploaded bs)"
  by (simp add: awaiting_complete_def demo_uploaded_def demo_receipt_def demo_world_def started_def
      calm_def bt_get_def demo_chunk_count load_metadata_def has_verified_def empty_inbox_def)


text \<open>C16: \<open>complete\<close> on an upload whose bytes are not the announced ones answers 422 and hands
  nothing over: every file of the recording goes, the receipt is failed with no chunk, and the
  completing mark is released.\<close>

theorem complete_refuses_other_bytes:
  assumes "awaiting_complete dev m r f w"
    and "\<not> (int (length (content f)) = byte_count r \<and> digest (crypto x) (content f) = sha256 r)"
  shows "\<exists>w' c. exec (complete_route x (m_recording_id m) dev) w =
      (w', problem 422 Sha256Mismatch) \<and>
    m_recording_id m \<notin> set (recording_ids (files w')) \<and> completing w' = completing w \<and>
    bt_get (active_receipts w') (m_recording_id m) = Some c \<and>
    state c = Failed ''sha256 mismatch'' \<and> received_chunks c = []"
  by (rule complete_decides(2)[OF assms])

lemma complete_refuses_other_bytes_witness:
  "\<exists>w' c. exec (complete_route demo_engine 7 demo_device) (demo_uploaded [1, 2, 3]) =
      (w', problem 422 Sha256Mismatch) \<and>
    7 \<notin> set (recording_ids (files w')) \<and> completing w' = completing (demo_uploaded [1, 2, 3]) \<and>
    bt_get (active_receipts w') 7 = Some c \<and>
    state c = Failed ''sha256 mismatch'' \<and> received_chunks c = []"
  using complete_refuses_other_bytes[OF demo_awaiting, of "[1, 2, 3]" demo_engine]
  by (simp add: demo_file_def demo_receipt_def demo_bytes_def demo_digest_def)

section \<open>Every interleaving\<close>

text \<open>C6: In every state any interleaving of requests reaches, whatever the store and the disk do:
  memory holds a receipt under its own recording id only, never one of a revoked device, and its
  chunks ascend and lie inside the recording; so do the chunks of every stored receipt, and every
  stored receipt's device is in the store.\<close>

theorem reachable_receipts:
  assumes "engine_reachable x (w, ts)"
  shows "(\<forall>i r. bt_get (active_receipts w) i = Some r \<longrightarrow>
       recording_id r = i \<and> device_id r \<notin> revoked w \<and> sorted_wrt (<) (received_chunks r) \<and>
       (\<forall>c \<in> set (received_chunks r). 0 \<le> c \<and> c * chunk_size r < byte_count r)) \<and>
     (\<forall>i row. receipts (store w) i = Some row \<longrightarrow>
       bt_get (devices (store w)) (row_device_id row) \<noteq> None \<and>
       sorted_wrt (<) (row_received_chunks row) \<and>
       (\<forall>c \<in> set (row_received_chunks row). 0 \<le> c \<and> c * row_chunk_size row < row_byte_count row))"
proof -
  have I: "engine_ok w" using engine_reachable_ok[OF assms] by simp
  have chunk: "c * chunk_size r < byte_count r" if "receipt_ok r" "c \<in> set (received_chunks r)"
    for r c
    using that chunk_count_le_iff[of "byte_count r" "chunk_size r" c] by (simp add: receipt_ok_def)
  have row: "sorted_wrt (<) (row_received_chunks row) \<and>
      (\<forall>c \<in> set (row_received_chunks row). 0 \<le> c \<and> c * row_chunk_size row < row_byte_count row)"
    if "receipts (store w) i = Some row" for i row
  proof -
    have ok: "receipt_ok (receipt_from_row i row)"
      using engine_okD(2)[OF I] that by (simp add: stored_ok_def)
    with chunk[OF ok] show ?thesis by (auto simp: receipt_ok_def receipt_from_row_def)
  qed
  have "bt_get (devices (store w)) (row_device_id row) \<noteq> None"
    if "receipts (store w) i = Some row" for i row
    using engine_okD(2)[OF I] that db_okD(2)[of "store w"] by (auto simp: stored_ok_def)
  with row chunk engine_okD(5)[OF I] show ?thesis by (auto simp: receipt_ok_def)
qed

text \<open>The announce of the demo recording arrives and runs to its end.\<close>

definition demo_id :: string where "demo_id = replicate 36 (CHR ''a'')"

definition demo_head :: "http_method \<Rightarrow> string list \<Rightarrow> request_head" where
  "demo_head meth ps = \<lparr>h_method = meth, h_uri = slash ps, h_content_length = None,
     h_authorization = Some ''Bearer token'', h_connection = None, h_http_10 = False,
     h_headers = (\<lambda>_. None)\<rparr>"

definition demo_announce :: "(world, unit) task" where
  "demo_announce = forget_result
     (serve_request 1 demo_engine (demo_head PUT [''v1'', ''recordings'', demo_id]) [])"

lemma demo_start: "engine_reachable demo_engine (demo_world, [])"
proof (rule pool_reachable.start)
  show "engine_init demo_world"
    unfolding engine_init_def demo_world_def using demo_db_ok empty_sidecars by blast
qed

lemma demo_arrive:
  assumes "engine_task demo_engine t" and "engine_reachable demo_engine (w, ts)"
  shows "engine_reachable demo_engine (w, ts @ [t])"
proof -
  have "engine_admits demo_engine t"
    using assms(1) by (simp add: engine_admits_def)
  then have "pool_step (engine_admits demo_engine) engine_env (w, ts) (w, ts @ [t])"
    by (rule pool_step.arrive)
  with assms(2) show ?thesis by (rule pool_reachable.step)
qed

lemma demo_route: "matches (routing demo_engine) PUT (slash [''v1'', ''recordings'', demo_id]) =
    Some (Announce 7)"
proof -
  have "list_all (plain_segment (routing demo_engine)) [''v1'', ''recordings'', demo_id]"
    by (simp add: plain_segment_def demo_engine_def demo_id_def)
  from matches_slash[OF this, of PUT] show ?thesis
    by (simp add: parse_uuid_def demo_engine_def demo_id_def)
qed

lemma demo_gate:
  "exec (authenticate demo_engine (Announce i) (Some ''Bearer token'')) demo_world =
     (demo_world, Allowed (Device demo_device))"
proof -
  have "credential ''Bearer'' (Some (''Bearer'' @ CHR '' '' # ''token'')) = Some ''token''"
    by (rule credential_written)
      (simp_all add: ascii_white_space_def unicode_white_space_def)
  then show ?thesis
    by (simp add: authenticate_def with_store_def paired_device_for_token_hash_def demo_db_def
        touch_def Let_def token_hash_def utf8_bytes_def device_from_row_def demo_device_def
        last_seen_resolution_seconds_def) (simp add: demo_world_def started_def)
qed

lemma demo_announced:
  "\<exists>w. engine_reachable demo_engine (w, [Done ()]) \<and>
     uploading demo_device demo_metadata demo_bytes {} w"
proof -
  from announce_begins[OF demo_announces, of "[]" demo_world demo_device 0] obtain w where
    w: "exec (announce 1 demo_engine 7 demo_device []) demo_world =
       (w, Some (json 201 (StatusBody \<lparr>st_state = KReceiving, st_received_chunks = []\<rparr>)))"
      "uploading demo_device demo_metadata demo_bytes {} w"
    by (auto simp: demo_db_def empty_db_def bt_get_def admitted_meeting_def)
  have "exec demo_announce demo_world = (w, ())"
    using w(1) demo_route demo_gate
    by (simp add: demo_announce_def forget_result_def serve_request_def demo_head_def
        declared_length_def dispatch_body_def handle_def recording_route_def)
  with pool_run_last[of "engine_admits demo_engine" engine_env engine_init demo_world "[]"
      demo_announce] demo_arrive[OF _ demo_start, of demo_announce] w(2)
  show ?thesis
    by (auto simp: demo_announce_def engine_task.request)
qed

lemma reachable_receipts_witness:
  "\<exists>w ts r. engine_reachable demo_engine (w, ts) \<and> bt_get (active_receipts w) 7 = Some r \<and>
     recording_id r = 7 \<and> device_id r \<notin> revoked w \<and> sorted_wrt (<) (received_chunks r)"
proof -
  from demo_announced obtain w r where "engine_reachable demo_engine (w, [Done ()])"
    and "bt_get (active_receipts w) 7 = Some r"
    by (auto simp: uploading_def)
  with reachable_receipts[OF this(1)] show ?thesis by blast
qed



end
