(* ===== verification/Announce_Loop.thy ===== *)
theory Announce_Loop
  imports Handover_Properties
begin

text \<open>
  Whether an announce answers. Its loop decides again whenever memory holds another receipt than
  the one it read, so alone, for a device that is not revoked, it answers in its first round,
  however the store and the disk fail. For a revoked device taking over another phone's upload in
  another split it never answers: memory refuses the taken-over receipt, so every round finds
  the other phone's receipt again.
\<close>

lemma commit_heads_revoked [simp]: "revoked (commit_heads n w) = revoked w"
  by (induction n arbitrary: w) simp_all

lemma commit_until_memory [simp]:
  "active_receipts (commit_until p w) = active_receipts w" "revoked (commit_until p w) = revoked w"
  by (simp_all add: commit_until_def del: commit_heads.simps)

lemma take_io_memory [simp]:
  "active_receipts (snd (take_io w)) = active_receipts w" "revoked (snd (take_io w)) = revoked w"
  by (simp_all add: take_io_def split: list.split)

lemma exec_save_memory:
  "active_receipts (fst (exec (save p) w)) = active_receipts w"
  "revoked (fst (exec (save p) w)) = revoked w"
  by (simp_all add: save_def in_order_def publish_receipts_def Let_def)

lemma exec_with_store_memory:
  "active_receipts (fst (exec (with_store q) w)) = active_receipts w"
  "revoked (fst (exec (with_store q) w)) = revoked w"
  by (simp_all add: with_store_def split_beta Let_def)

definition answers :: "(world, announced) task \<Rightarrow> world \<Rightarrow> bool" where
  "answers t w \<longleftrightarrow> (\<exists>response. snd (exec t w) = Answered response)"

lemma replace_answers:
  assumes "\<And>h. bt_get (active_receipts w) (recording_id made) = Some h \<Longrightarrow> expected = Some h"
  shows "answers (replace expected made begins code) w"
proof -
  have "pick_replace expected made (bt_get (active_receipts w) (recording_id made)) = Inr made"
    using assms by (auto simp: pick_replace_def split: option.split)
  then show ?thesis
    by (auto simp: answers_def replace_def make_and_open_def change_Inr split_beta
        split: option.splits)
qed

lemma new_bytes_answers:
  assumes "\<And>h. bt_get (active_receipts w) (m_recording_id m) = Some h \<Longrightarrow> read = Some h"
  shows "answers (new_bytes read dev m) w"
proof -
  let ?v = "fst (exec (with_store (admitted_meeting (m_recording_id m) (m_byte_count m) (m_sha256 m))) w)"
  have v: "active_receipts ?v = active_receipts w" by (rule exec_with_store_memory)
  have r: "answers (replace read (snd (exec (fresh dev m s) ?v)) begins code) ?v" for s begins code
    by (rule replace_answers) (use assms v in \<open>simp add: fresh_def\<close>)
  show ?thesis
    using r unfolding answers_def new_bytes_def
    by (auto simp: split_beta Let_def fresh_def split: option.split)
qed

lemma resume_answers: "answers (await (resume r dev m) (\<lambda>response. Done (Answered response))) w"
  by (simp add: answers_def split_beta)

lemma reannounce_answers:
  assumes dev: "d_id dev \<notin> revoked w" and i: "recording_id r = m_recording_id m"
    and held: "\<And>h. bt_get (active_receipts w) (m_recording_id m) = Some h \<Longrightarrow> r = h"
  shows "answers (reannounce r dev m) w"
proof -
  have owned: "answers (reannounce_owned c q dev m) v"
    if "\<And>h. bt_get (active_receipts v) (m_recording_id m) = Some h \<Longrightarrow> q = h"
      and "recording_id q = m_recording_id m" for c q v
    using that resume_answers[of q dev m v]
      replace_answers[of v "q\<lparr>state := Receiving, chunk_size := m_chunk_size m, received_chunks := []\<rparr>"
        "Some q"]
    by (auto simp: reannounce_owned_def answers_def)
  show ?thesis
  proof (cases "byte_count r \<noteq> m_byte_count m \<or> sha256 r \<noteq> m_sha256 m")
    case True
    then show ?thesis
      using new_bytes_answers[of w m "Some r"] held by (auto simp: reannounce_def Let_def)
  next
    case same: False
    show ?thesis
    proof (cases "device_id r = d_id dev")
      case True
      with same owned[OF held i] show ?thesis by (simp add: reannounce_def Let_def)
    next
      case False
      define c where "c = r\<lparr>device_id := d_id dev, updated_at := clock w\<rparr>"
      let ?u = "fst (next_write (SaveReceipt c) (remember c w))"
      let ?v = "fst (exec (save (next_place w)) ?u)"
      have "change (recording_id r) (pick_replace (Some r) (r\<lparr>device_id := d_id dev\<rparr>)) (\<lambda>r. r)
          (clock w) w = (?u, Inr (c, next_place w))"
        by (rule change_Inr) (use held i in \<open>auto simp: pick_replace_def c_def split: option.split\<close>)
      then have taken: "exec (take_over r dev) w =
          (?v, if snd (exec (save (next_place w)) ?u) then Inr c
               else Inl (Answered (internal_error ''saving the receipt'')))"
        by (simp add: take_over_def split_beta)
      have "bt_get (active_receipts ?v) (m_recording_id m) = Some c"
        using dev i by (simp add: exec_save_memory next_write_def remember_def c_def)
      then have "answers (reannounce_owned (kind (state r) = KComplete) c dev m) ?v"
        by (intro owned) (simp_all add: c_def i)
      with taken same False show ?thesis
        by (auto simp: answers_def reannounce_def Let_def)
    qed
  qed
qed

lemma receipt_read:
  assumes "engine_ok w" and "snd (exec (receipt i) w) = Inr existing"
  shows "\<And>h. bt_get (active_receipts (fst (exec (receipt i) w))) i = Some h \<Longrightarrow> existing = Some h"
    and "revoked (fst (exec (receipt i) w)) = revoked w"
    and "\<And>r. existing = Some r \<Longrightarrow> recording_id r = i"
proof -
  let ?v = "fst (exec (with_store (stored_receipt i)) w)"
  have v: "active_receipts ?v = active_receipts w" "revoked ?v = revoked w"
    by (rule exec_with_store_memory)+
  have "\<forall>r. existing = Some r \<longrightarrow> its i r"
    using keeps_exec(2)[OF receipt_keeps assms(1)] assms(2) by auto
  then show "\<And>r. existing = Some r \<Longrightarrow> recording_id r = i" by (simp add: its_def)
  show "existing = Some h"
    if "bt_get (active_receipts (fst (exec (receipt i) w))) i = Some h" for h
    using that assms(2) v(1) \<open>\<forall>r. existing = Some r \<longrightarrow> its i r\<close>
    by (auto simp: receipt_def split_beta remember_def its_def split: option.splits if_splits)
  show "revoked (fst (exec (receipt i) w)) = revoked w"
    using v(2) by (auto simp: receipt_def split_beta remember_def split: option.split)
qed

text \<open> An announce of a device that is not revoked always answers, in the first round of its
  loop when no other request comes between, however the store and the disk fail.\<close>

theorem announce_answers:
  assumes "engine_ok w" and "d_id dev \<notin> revoked w"
  shows "\<exists>response. snd (exec (announce (Suc n) x i dev payload) w) = Some response"
proof (cases "parse_metadata x payload")
  case (Some m)
  show ?thesis
  proof (cases "m_recording_id m \<noteq> i \<or> metadata_problem (graphemes x) m (conf x) \<noteq> None")
    case True
    with Some show ?thesis by (auto simp: announce_def split: option.split)
  next
    case False
    let ?v = "fst (exec (receipt i) w)"
    have round: "\<exists>response. snd (exec (announce_loop (Suc n) existing dev m) ?v) = Some response"
      if e: "snd (exec (receipt i) w) = Inr existing" for existing
    proof -
      note read = receipt_read[OF assms(1) e]
      have "answers (case existing of None \<Rightarrow> new_bytes None dev m | Some r \<Rightarrow> reannounce r dev m) ?v"
        using read False assms(2)
        by (cases existing) (auto intro!: new_bytes_answers reannounce_answers)
      then show ?thesis by (auto simp: answers_def split_beta)
    qed
    with Some False show ?thesis
      by (auto simp: announce_def split_beta simp del: announce_loop.simps split: sum.split option.split)
  qed
qed (simp add: announce_def)

lemma announce_answers_witness:
  "\<exists>response. snd (exec (announce 1 demo_engine 7 demo_device []) (demo_uploaded [1])) =
     Some response"
proof -
  have "engine_ok (demo_uploaded [1])"
    by (auto simp: engine_ok_def memory_ok_def line_ok_def sidecars_ok_def demo_uploaded_def
        bt_ok_def bt_get_def demo_receipt_def receipt_ok_def sizes_ok_def max_byte_count_def
        min_chunk_size_def i64_max_def demo_chunk_count load_metadata_def metadata_ok_def
        demo_world_def started_def empty_inbox_def split: if_splits)
  from announce_answers[OF this, of demo_device 0] show ?thesis
    by (simp add: demo_uploaded_def)
qed




end
