(* ===== verification/Handover_Gate.thy ===== *)
theory Handover_Gate
  imports Announce_Loop
begin

text \<open>
  The gate of the handover: bearer tokens and revokes, the pairing window, and what a connection
  reads of a request before it is let in; then the order the store commits in and the start
  sweep.
\<close>

section \<open>Tokens and revokes\<close>

lemma touch_id: "d_id (snd (exec (touch dev hash) v)) = d_id dev"
  by (auto simp: touch_def split_beta split: option.split)

lemma take_fault_store [simp]: "store (snd (take_fault w)) = store w"
  by (simp add: take_fault_def split: list.split)

text \<open> The gate lets a request in as a device only when the store holds that device's row with the
  SHA-256 of the token the request presented.\<close>

theorem bearer_gate:
  assumes "auth r = BearerAuth" and "snd (exec (authenticate x r h) w) = Allowed p"
  shows "\<exists>token dev row. credential ''Bearer'' h = Some token \<and> p = Device dev \<and>
        (d_id dev, row) \<in> set (devices (store w)) \<and>
        row_token_hash row = digest (crypto x) (utf8_bytes token)"
proof -
  from assms obtain token where t: "credential ''Bearer'' h = Some token"
    by (auto simp: authenticate_def split: option.splits)
  let ?hash = "token_hash (crypto x) token"
  let ?v = "fst (exec (with_store (paired_device_for_token_hash ?hash)) w)"
  from assms t obtain dev where d: "paired_device_for_token_hash ?hash (store w) = Some dev"
    and p: "p = Device (snd (exec (touch dev ?hash) ?v))"
    by (auto simp: authenticate_def Let_def split_beta with_store_def split: option.splits if_splits)
  from find_device_Some[OF d] obtain row where
    "(d_id dev, row) \<in> set (devices (store w))" "row_token_hash row = ?hash" by blast
  with t p touch_id show ?thesis by (auto simp: token_hash_def)
qed

lemma bearer_gate_witness:
  "\<exists>token dev row. credential ''Bearer'' (Some ''Bearer token'') = Some token \<and>
     Device demo_device = Device dev \<and> (d_id dev, row) \<in> set (devices (store demo_world)) \<and>
     row_token_hash row = digest (crypto demo_engine) (utf8_bytes token)"
  by (rule bearer_gate[of "Announce 7"]) (simp_all add: demo_gate)

text \<open> A failed read of the store at the gate is answered 500, never the 401 a phone takes for a
  revoke and unpairs on.\<close>

theorem failed_read_is_no_revoke:
  assumes "auth r = BearerAuth" and "credential ''Bearer'' h = Some token" and "fst (take_fault w)"
  shows "snd (exec (authenticate x r h) w) =
     Rejected (problem 500 (FailedOnComputer ''reading the device''))"
  using assms
  by (simp add: authenticate_def with_store_def split_beta Let_def internal_error_def)

lemma failed_read_is_no_revoke_witness:
  "snd (exec (authenticate demo_engine (Status 7) (Some ''Bearer token''))
     (demo_world\<lparr>store_faults := [True]\<rparr>)) =
   Rejected (problem 500 (FailedOnComputer ''reading the device''))"
proof -
  have "credential ''Bearer'' (Some (''Bearer'' @ CHR '' '' # ''token'')) = Some ''token''"
    by (rule credential_written)
      (simp_all add: ascii_white_space_def unicode_white_space_def)
  then show ?thesis
    by (intro failed_read_is_no_revoke[where token = "''token''"]) (simp_all add: take_fault_def)
qed

lemma exec_discard_all_own: "\<exists>b. exec (discard_all_own is dev) w = (w\<lparr>files := b\<rparr>, ())"
proof (induction "is" arbitrary: w)
  case Nil
  show ?case by (auto intro: exI[of _ "files w"])
next
  case (Cons i "is")
  have "\<exists>b. exec (discard_own i dev) w = (w\<lparr>files := b\<rparr>, ())"
    by (auto simp: discard_own_def discard_files_def intro: exI[of _ "files w"])
  then obtain b where "exec (discard_own i dev) w = (w\<lparr>files := b\<rparr>, ())" by blast
  with Cons.IH[of "w\<lparr>files := b\<rparr>"] show ?case by auto
qed

text \<open>What a revoke leaves of memory and of the store, with nothing else going on.\<close>

lemma exec_revoke:
  assumes "calm w"
  shows "exec (revoke dev) w = (fst (exec (revoke dev) w), True)"
    and "devices (store (fst (exec (revoke dev) w))) = bt_remove dev (devices (store w))"
    and "calm (fst (exec (revoke dev) w))"
proof -
  define v where "v = w\<lparr>revoked := insert dev (revoked w),
    revocations := (revocations w)(dev := Suc (revocations w dev)),
    active_receipts := bt_retain (\<lambda>_ r. device_id r \<noteq> dev) (active_receipts w)\<rparr>"
  let ?wr = "DeletePairedDevice dev"
  obtain "is" where state: "revoke_state dev w = (fst (next_write ?wr v), is, next_place w)"
    by (simp add: revoke_state_def v_def Let_def split_beta next_write_def)
  obtain b where files: "exec (discard_all_own is dev)
      (fst (next_write ?wr v)) = (fst (next_write ?wr v)\<lparr>files := b\<rparr>, ())"
    using exec_discard_all_own by blast
  have "fst (next_write ?wr v)\<lparr>files := b\<rparr> = fst (next_write ?wr (v\<lparr>files := b\<rparr>))"
    by (simp add: next_write_def)
  moreover have c: "calm (v\<lparr>files := b\<rparr>)" using assms by (simp add: v_def calm_def)
  moreover have "next_place w = next_place (v\<lparr>files := b\<rparr>)" by (simp add: v_def)
  ultimately have line: "commit_until (next_place w) (fst (next_write ?wr v)\<lparr>files := b\<rparr>) =
      v\<lparr>files := b, store := commit_write ?wr (store v), next_place := Suc (next_place v),
        written := (written v)(next_place v \<mapsto> True)\<rparr>"
    using commit_until_next_write[OF c, of ?wr]
    by (simp add: goes_through_def delete_paired_device_def)
  let ?u = "v\<lparr>files := b, store := commit_write ?wr (store v), next_place := Suc (next_place v),
        written := (written v)(next_place v \<mapsto> True)\<rparr>"
  have e: "exec (revoke dev) w = (?u\<lparr>published := receipts_snapshot ?u\<rparr>, True)"
    using state files line
    by (simp add: revoke_def in_order_def publish_receipts_def Let_def v_def)
  then show "exec (revoke dev) w = (fst (exec (revoke dev) w), True)" by simp
  show "devices (store (fst (exec (revoke dev) w))) = bt_remove dev (devices (store w))"
    by (simp add: e commit_write_def delete_paired_device_def v_def)
  show "calm (fst (exec (revoke dev) w))" using assms by (simp add: e v_def calm_def)
qed

lemma find_gone:
  assumes "db_ok d" and "bt_get (devices d) dev = Some row" and "row_token_hash row = h"
    and "devices d' = bt_remove dev (devices d)"
  shows "paired_device_for_token_hash h d' = None"
proof -
  have "row_token_hash b \<noteq> h" if "(j, b) \<in> set (devices d')" for j b
  proof -
    from that assms(4) have j: "(j, b) \<in> set (devices d)" "j \<noteq> dev" by (auto simp: bt_remove_def)
    then have "bt_get (devices d) j = Some b"
      using bt.entries_get[of "devices d"] db_okD(1)[OF assms(1)] by simp
    then show ?thesis using db_okD(3)[OF assms(1) _ assms(2), of j b] j(2) assms(3) by auto
  qed
  then show ?thesis
    by (auto simp: paired_device_for_token_hash_def find_None_iff)
qed

text \<open> Once a device is forgotten its token is answered 401 at the gate, on every bearer route.\<close>

theorem revoked_token_is_refused:
  assumes "calm w" and "db_ok (store w)" and "bt_get (devices (store w)) dev = Some row"
    and "row_token_hash row = token_hash (crypto x) token"
    and "credential ''Bearer'' h = Some token" and "auth r = BearerAuth"
  shows "snd (exec (revoke dev) w) \<and>
     snd (exec (authenticate x r h) (fst (exec (revoke dev) w))) = Rejected unauthorized"
proof -
  let ?w = "fst (exec (revoke dev) w)"
  have "paired_device_for_token_hash (token_hash (crypto x) token) (store ?w) = None"
    by (rule find_gone[OF assms(2-4)]) (rule exec_revoke(2)[OF assms(1)])
  with exec_revoke(1,3)[OF assms(1), of dev] assms(5,6) show ?thesis
    by (simp add: authenticate_def with_store_def Let_def) (metis snd_conv)
qed

lemma revoked_token_is_refused_witness:
  "snd (exec (revoke 5) demo_world) \<and>
   snd (exec (authenticate demo_engine (CompleteRoute 7) (Some ''Bearer token''))
     (fst (exec (revoke 5) demo_world))) = Rejected unauthorized"
proof -
  have "credential ''Bearer'' (Some (''Bearer'' @ CHR '' '' # ''token'')) = Some ''token''"
    by (rule credential_written)
      (simp_all add: ascii_white_space_def unicode_white_space_def)
  then show ?thesis
    by (intro revoked_token_is_refused[where token = "''token''" and row = "the (bt_get (devices demo_db) 5)"])
      (use demo_db_ok in \<open>simp_all add: stored_ok_def demo_db_def bt_get_def token_hash_def utf8_bytes_def
        del: demo_db_ok\<close>)
qed




section \<open>The pairing window\<close>

lemma commit_head_pairing [simp]:
  "pairing (commit_head w) = pairing w" "window (commit_head w) = window w"
  by (simp_all add: commit_head_def take_fault_def Let_def split: list.split)

lemma commit_heads_pairing [simp]: "pairing (commit_heads n w) = pairing w"
  by (induction n arbitrary: w) simp_all

lemma commit_heads_window [simp]: "window (commit_heads n w) = window w"
  by (induction n arbitrary: w) simp_all

lemma commit_until_pairing [simp]:
  "pairing (commit_until p w) = pairing w" "window (commit_until p w) = window w"
  by (simp_all add: commit_until_def del: commit_heads.simps)

lemma exec_pair_device_pairing:
  assumes "status (snd (exec (pair_device x win session i n) w)) = 200"
  shows "pairing (fst (exec (pair_device x win session i n) w)) = pairing w"
  using assms
  by (auto simp: pair_device_def draw_def save_device_place_def next_write_def in_order_def
      unrevoke_def put_session_back_def split_beta Let_def response_defs split: if_splits)

lemma take_session_cases:
  "(\<exists>e. take_session x win p w = (w, Inl e) \<and> status e \<noteq> 200) \<or>
   (\<exists>t. take_session x win p w = (w\<lparr>pairing := None\<rparr>, Inr t) \<and> window w = win)"
  by (auto simp: take_session_def response_defs split: option.split sum.split)

text \<open> A pairing window pairs one phone: once a pairing was answered 200, a second one authorised
  against the same window is answered 403 and changes nothing.\<close>

theorem window_pairs_once:
  assumes "exec (pair_route x rq) w = (w', response)" and "status response = 200"
    and "rq_principal rq' = PairingPrincipal win"
  shows "exec (pair_route x rq') w' = (w', pairing_rejected)"
proof -
  from assms(1,2) obtain win' where p: "rq_principal rq = PairingPrincipal win'"
    by (auto simp: pair_route_def response_defs split: principal.splits)
  have "pairing w' = None"
    using take_session_cases[of x win' "rq_body rq" w]
  proof (elim disjE exE conjE)
    fix e
    assume "take_session x win' (rq_body rq) w = (w, Inl e)" and "status e \<noteq> 200"
    with assms(1,2) p show ?thesis by (simp add: pair_route_def)
  next
    fix t
    assume t: "take_session x win' (rq_body rq) w = (w\<lparr>pairing := None\<rparr>, Inr t)"
    obtain s i n where "t = (s, i, n)" by (cases t)
    with t assms(1) p have e: "exec (pair_device x win' s i n) (w\<lparr>pairing := None\<rparr>) = (w', response)"
      by (simp add: pair_route_def)
    with exec_pair_device_pairing[of x win' s i n "w\<lparr>pairing := None\<rparr>"] assms(2) show ?thesis
      by simp
  qed
  with assms(3) show ?thesis by (simp add: pair_route_def take_session_def)
qed

text \<open>A window open on the demo engine, and the request of a phone that scanned it.\<close>

definition demo_window :: world where
  "demo_window = fst (exec (begin_pairing demo_engine) demo_world)"

definition demo_pair :: handover_request where
  "demo_pair = \<lparr>rq_route = Pair, rq_principal = PairingPrincipal 1, rq_headers = (\<lambda>_. None),
     rq_body = []\<rparr>"

lemma demo_window_eq:
  "demo_window = demo_world\<lparr>window := 1, draws := 1, pairing := Some \<lparr>p_mac_id = 9, p_mac_name = [83],
     p_fingerprint = [1], p_secret = [1], p_expires_at = 300000000000\<rparr>\<rparr>"
  by (simp add: demo_window_def begin_pairing_def draw_def Let_def open_session_def new_payload_def
      whole_second_def demo_world_def started_def demo_engine_def demo_conf_def demo_crypto_def)

lemma demo_paired: "\<exists>w r. exec (pair_route demo_engine demo_pair) demo_window = (w, r) \<and> status r = 200"
proof -
  have n: "device_name length [80] = Inr [80]"
    by (simp add: device_name_def trim_matches_def is_foundation_whitespace_def
        unicode_white_space_def max_device_name_length_def)
  have "take_session demo_engine 1 [] demo_window = (demo_window\<lparr>pairing := None\<rparr>,
      Inr (the (pairing demo_window), 5, [80]))"
    using n by (simp add: take_session_def demo_window_eq session_is_open_def demo_world_def
        started_def demo_engine_def)
  moreover have "status (snd (exec (pair_device demo_engine 1 s 5 [80]) (demo_window\<lparr>pairing := None\<rparr>))) = 200"
    for s
  proof -
    let ?u = "demo_window\<lparr>pairing := None, draws := Suc (Suc 0)\<rparr>"
    have c: "calm ?u" by (simp add: demo_window_eq demo_world_def started_def calm_def)
    have g: "goes_through (SavePairedDevice d h) (store ?u)" if "d_id d = 5" for d h
      using that by (simp add: goes_through_def save_paired_device_def demo_window_eq demo_db_def empty_db_def)
    have "written (commit_until (next_place ?u) (fst (next_write (SavePairedDevice d h) ?u)))
        (next_place ?u) = Some True" if "d_id d = 5" for d h
      using commit_until_next_write[OF c, of "SavePairedDevice d h"] g[OF that, of h] by simp
    then show ?thesis
      by (simp add: pair_device_def draw_def save_device_place_def Let_def split_beta in_order_def
          response_defs demo_window_eq next_write_def unrevoke_def)
  qed
  ultimately show ?thesis
    by (simp add: pair_route_def demo_pair_def) (metis prod.exhaust_sel)
qed

lemma window_pairs_once_witness:
  "\<exists>w. exec (pair_route demo_engine demo_pair) w = (w, pairing_rejected)"
proof -
  from demo_paired obtain w r where "exec (pair_route demo_engine demo_pair) demo_window = (w, r)"
    and "status r = 200" by blast
  from window_pairs_once[OF this, of demo_pair 1] show ?thesis by (auto simp: demo_pair_def)
qed


text \<open> A secret is let in only against the window it was shown for and before that window closes:
  the head carries a credential that decodes to bytes with the window's digest, and the clock is
  before the opening plus the configured window.\<close>

theorem pairing_gate:
  assumes "snd (exec (authenticate x Pair h) w) = Allowed p"
    and "pairing w = Some (open_session mac n fp (pairing_window c) opened secret)"
  shows "p = PairingPrincipal (window w) \<and> clock w < opened + pairing_window c \<and>
     (\<exists>presented b. credential ''Pairing'' h = Some presented \<and>
        (standard_decode (crypto x) presented = Some b \<or>
         base64url_decode (crypto x) presented = Some b) \<and>
        digest (crypto x) b = digest (crypto x) secret)"
proof -
  let ?s = "open_session mac n fp (pairing_window c) opened secret"
  from assms obtain presented where p: "credential ''Pairing'' h = Some presented"
    and m: "session_matches (crypto x) (clock w) presented ?s"
    and "p = PairingPrincipal (window w)"
    by (auto simp: authenticate_def bind_eq_Some_conv split: option.splits if_splits)
  moreover have "p_secret ?s = secret" by (simp add: open_session_def new_payload_def)
  with m have "\<exists>b. (standard_decode (crypto x) presented = Some b \<or>
         base64url_decode (crypto x) presented = Some b) \<and> digest (crypto x) b = digest (crypto x) secret"
    by (auto simp: session_matches_def split: if_splits option.splits)
  moreover have "clock w < opened + pairing_window c"
    by (rule open_session_bounds) (rule session_matches_open[OF m])
  ultimately show ?thesis by blast
qed

definition demo_scanned :: engine_ext where
  "demo_scanned = demo_engine\<lparr>crypto := demo_crypto\<lparr>standard_decode := (\<lambda>_. Some [1])\<rparr>\<rparr>"

lemma pairing_gate_witness:
  "clock demo_window < 0 + pairing_window demo_conf"
proof -
  have "credential ''Pairing'' (Some (''Pairing'' @ CHR '' '' # ''secret'')) = Some ''secret''"
    by (rule credential_written)
      (simp_all add: ascii_white_space_def unicode_white_space_def)
  then have "snd (exec (authenticate demo_scanned Pair (Some ''Pairing secret'')) demo_window) =
      Allowed (PairingPrincipal 1)"
    by (simp add: authenticate_def demo_scanned_def demo_window_eq session_matches_def
        session_is_open_def demo_world_def started_def)
  moreover have "pairing demo_window =
      Some (open_session 9 [83] [1] (pairing_window demo_conf) 0 [1])"
    by (simp add: demo_window_eq open_session_def new_payload_def whole_second_def demo_conf_def)
  ultimately show ?thesis using pairing_gate by blast
qed

section \<open>Connections\<close>

lemma collect_bound: "length acc \<le> limit \<Longrightarrow> collect limit acc fs = Collected b \<Longrightarrow> length b \<le> limit"
  by (induction limit acc fs rule: collect.induct) (auto simp: Let_def split: if_splits)

text \<open> A connection reads no body before the gate let the request in: when the gate rejects it,
  whatever body follows, the answer is the gate's, the connection closes, and nothing but the gate
  ran.\<close>

theorem rejected_body_is_not_read:
  assumes "matches (routing x) (h_method h) (h_uri h) = Some r"
    and "snd (exec (authenticate x r (h_authorization h)) w) = Rejected response"
    and "\<forall>n. declared_length h = Some n \<longrightarrow> n \<le> body_cap r (conf x)"
  shows "exec (serve_request fuel x h fs) w =
     (fst (exec (authenticate x r (h_authorization h)) w), Some (Respond response True))"
  using assms by (auto simp: serve_request_def Let_def split_beta split: option.split)

lemma demo_get_route:
  "matches (routing demo_engine) GET (slash [''v1'', ''recordings'', demo_id]) = Some (Status 7)"
proof -
  have "list_all (plain_segment (routing demo_engine)) [''v1'', ''recordings'', demo_id]"
    by (simp add: plain_segment_def demo_engine_def demo_id_def)
  from matches_slash[OF this, of GET] show ?thesis
    by (simp add: parse_uuid_def demo_engine_def demo_id_def)
qed

lemma rejected_body_is_not_read_witness:
  "snd (exec (serve_request 1 demo_engine
      ((demo_head GET [''v1'', ''recordings'', demo_id])\<lparr>h_authorization := None\<rparr>)
      [Data [1, 2, 3], FrameError]) demo_world) = Some (Respond unauthorized True)"
proof -
  have "credential ''Bearer'' None = None" by (simp add: credential_def)
  then have "exec (authenticate demo_engine (Status 7) None) demo_world =
      (demo_world, Rejected unauthorized)"
    by (simp add: authenticate_def)
  with rejected_body_is_not_read[of demo_engine
      "(demo_head GET [''v1'', ''recordings'', demo_id])\<lparr>h_authorization := None\<rparr>" "Status 7"
      demo_world unauthorized 1] demo_get_route
  show ?thesis by (simp add: demo_head_def declared_length_def)
qed

text \<open> The engine is handed at most the route's limit of body bytes; a body that grows past it is
  answered 413, one that breaks off is not answered, and neither reaches a handler.\<close>

theorem bodies_are_bounded:
  "(\<forall>b. collect (body_cap r c) [] fs = Collected b \<longrightarrow> length b \<le> body_cap r c) \<and>
   (collect (body_cap r c) [] fs = TooLarge \<longrightarrow>
      exec (dispatch_body fuel x h (body_cap r c) r p fs) w =
        (w, Some (Respond (problem 413 (BodyLimit (body_cap r c))) True))) \<and>
   (collect (body_cap r c) [] fs = Torn \<longrightarrow>
      exec (dispatch_body fuel x h (body_cap r c) r p fs) w = (w, Some TornBody))"
  using collect_bound[of "[]"] by (auto simp: dispatch_body_def too_large_def)

lemma bodies_are_bounded_witness:
  "exec (dispatch_body 1 demo_engine (demo_head GET []) (body_cap Hello demo_conf) Hello Anonymous
      [Data [1], FrameError]) demo_world = (demo_world, Some TornBody)"
  using bodies_are_bounded[of Hello demo_conf "[Data [1], FrameError]" 1 demo_engine
      "demo_head GET []" Anonymous demo_world]
  by (simp add: body_cap_def json_body_limit_def)

section \<open>The order of the store\<close>




section \<open>The start sweep\<close>

lemma recording_ids_discard:
  "set (recording_ids (discard i b)) = set (recording_ids b) - {i}"
  by (auto simp: in_recording_ids discard_def split: if_splits)

lemma exec_sweep_each:
  assumes "store_faults w = []"
  shows "\<exists>b. exec (sweep_each cutoff is) w = (w\<lparr>files := b\<rparr>, ()) \<and>
     set (recording_ids b) = set (recording_ids (files w)) -
       {i \<in> set is. swept cutoff (stored_receipt i (store w))}"
  using assms
proof (induction "is" arbitrary: w)
  case Nil
  show ?case by (auto intro: exI[of _ "files w"])
next
  case (Cons i "is")
  show ?case
  proof (cases "swept cutoff (stored_receipt i (store w))")
    case True
    from Cons.IH[of "w\<lparr>files := discard i (files w)\<rparr>"] Cons.prems True show ?thesis
      by (auto simp: with_store_def take_fault_def discard_files_def recording_ids_discard)
  next
    case False
    from Cons.IH[of w] Cons.prems False show ?thesis
      by (auto simp: with_store_def take_fault_def)
  qed
qed

text \<open> The start sweep leaves exactly the files of recordings whose stored receipt is unfinished and
  has moved within the last fourteen days: files no receipt accounts for, files a completed intake
  left behind and abandoned ones go.\<close>

theorem sweep_leaves_live_uploads:
  assumes "store_faults w = []"
  shows "set (recording_ids (files (fst (exec sweep_orphans w)))) =
     {i \<in> set (recording_ids (files w)). \<exists>r. stored_receipt i (store w) = Some r \<and>
        kind (state r) \<noteq> KComplete \<and> clock w - abandoned_after \<le> updated_at r}"
proof -
  from exec_sweep_each[OF assms, of "clock w - abandoned_after" "recording_ids (files w)"]
  obtain b where "exec (sweep_each (clock w - abandoned_after) (recording_ids (files w))) w =
      (w\<lparr>files := b\<rparr>, ())"
    and "set (recording_ids b) = set (recording_ids (files w)) - {i \<in> set (recording_ids (files w)).
       swept (clock w - abandoned_after) (stored_receipt i (store w))}" by blast
  then show ?thesis by (auto simp: sweep_orphans_def swept_def split: option.splits)
qed

lemma sweep_leaves_live_uploads_witness:
  "set (recording_ids (files (fst (exec sweep_orphans (demo_uploaded [1]))))) = {}"
  using sweep_leaves_live_uploads[of "demo_uploaded [1]"]
  by (simp add: demo_uploaded_def demo_world_def started_def stored_receipt_def
      handover_receipt_def demo_db_def empty_db_def)

end
