(* ===== verification/Handover_Laws.thy ===== *)
theory Handover_Laws
  imports Handover_Gate
begin

text \<open>
  Laws of the handover's parts: the completing mark, the admission ledger, what a stored receipt
  reads as, the routes, the chunk arithmetic and the constant-time comparison.
\<close>

section \<open>The completing mark\<close>

text \<open>Tasks that leave the set of completing recordings as it is.\<close>

abbreviation marks :: "uuid set \<Rightarrow> (world, 'a) task \<Rightarrow> bool" where
  "marks C t \<equiv> keeps (\<lambda>w. completing w = C) (\<lambda>_ _. True) (\<lambda>_. True) t"

lemma marks_atomically:
  "(\<And>w. completing (fst (f w)) = completing w) \<Longrightarrow> marks C (atomically f)"
  by (rule keeps_atomically) simp

named_theorems marks_intro \<open>operations that leave the completing set alone\<close>

lemma marks_reading [marks_intro]: "marks C (reading g)"
  by (rule keeps_reading) simp

lemma commit_until_completing [simp]: "completing (commit_until p w) = completing w"
proof -
  have "completing (commit_head v) = completing v" for v
    by (simp add: commit_head_def take_fault_def Let_def split: list.split)
  then have "completing (commit_heads n v) = completing v" for n v
    by (induction n arbitrary: v) simp_all
  then show ?thesis by (simp add: commit_until_def del: commit_heads.simps)
qed

lemma take_io_completing [simp]: "completing (snd (take_io w)) = completing w"
  by (simp add: take_io_def split: list.split)

lemma take_fault_completing [simp]: "completing (snd (take_fault w)) = completing w"
  by (simp add: take_fault_def split: list.split)

lemma change_completing: "completing (fst (change i pick edit t w)) = completing w"
  by (auto simp: change_def next_write_def Let_def split: sum.split)

lemma marks_basics [marks_intro]:
  "marks C (in_order p)" "marks C publish_receipts" "marks C (with_store q)"
  "marks C (discard_files i)" "marks C (atomically (forget_own_state i dev))"
  "marks C (begin_files m)" "marks C (atomically (change i pick edit t))"
  "marks C (open_partial i)" "marks C (promote_file i f)" "marks C (remove_file i f)"
  unfolding in_order_def publish_receipts_def with_store_def discard_files_def begin_files_def
    open_partial_def promote_file_def remove_file_def
  by (rule marks_atomically, simp add: Let_def split_beta forget_own_state_def change_completing)+

lemma marks_save [marks_intro]: "marks C (save p)"
  unfolding save_def by (intro keeps_seq marks_intro) simp

lemma marks_discard_own [marks_intro]: "marks C (discard_own i dev)"
  unfolding discard_own_def by (intro keeps_seq marks_intro keeps_if) simp

lemma marks_discard_own_while_revoked [marks_intro]: "marks C (discard_own_while_revoked i dev)"
  unfolding discard_own_while_revoked_def by (intro keeps_seq marks_intro keeps_if) simp

lemma marks_discard_and_forget_own [marks_intro]: "marks C (discard_and_forget_own i dev)"
  unfolding discard_and_forget_own_def by (intro keeps_seq marks_intro keeps_if) simp

lemma marks_forget_own [marks_intro]: "marks C (forget_own i dev)"
  unfolding forget_own_def by (intro keeps_seq marks_intro keeps_if) simp

lemma marks_update_receipt [marks_intro]: "marks C (update_receipt r s chunks)"
  unfolding update_receipt_def
  by (intro keeps_seq marks_intro) (auto split: sum.split option.split intro!: keeps_seq[OF marks_save])

lemma marks_transition [marks_intro]: "marks C (transition r s chunks)"
  unfolding transition_def by (intro marks_intro)

lemma marks_receipt [marks_intro]: "marks C (receipt i)"
  unfolding receipt_def
  by (intro keeps_seq marks_intro)
    (auto split: option.splits intro!: keeps_seq marks_intro marks_atomically)

lemma marks_owned_receipt [marks_intro]: "marks C (owned_receipt i dev)"
  unfolding owned_receipt_def
  by (intro keeps_seq marks_intro) (auto split: sum.split option.split)

lemma marks_refusal [marks_intro]: "marks C (refusal i dev n)"
  unfolding refusal_def revoked_since_def by (intro keeps_seq marks_intro keeps_if) simp_all

lemma marks_on_store [marks_intro]: "marks C (on_store t)"
proof (induction t rule: task_induct)
  case (Step f)
  then show ?case by (simp add: keeps_Step)
qed simp

lemma marks_run_intake [marks_intro]: "marks C (run_intake x i m dev)"
  unfolding run_intake_def
  by (intro keeps_seq marks_intro) (auto split: option.split intro!: marks_intro)

lemma marks_verify_open_file [marks_intro]: "marks C (verify_open_file x r n)"
  unfolding verify_open_file_def
  by (intro keeps_seq marks_atomically)
    (auto split: option.split bool.split intro!: marks_atomically simp: split_beta Let_def)

lemma marks_revoked_during_the_verify [marks_intro]: "marks C (revoked_during_the_verify i dev)"
  unfolding revoked_during_the_verify_def by (intro keeps_seq marks_intro) simp

lemma marks_replaced_during_the_verify [marks_intro]: "marks C (replaced_during_the_verify r)"
  unfolding replaced_during_the_verify_def by (intro keeps_seq marks_intro) auto

lemma marks_verify_and_promote [marks_intro]: "marks C (verify_and_promote x r m dev n identity)"
  unfolding verify_and_promote_def Let_def revoked_since_def partial_identity_def verified_identity_def
  by (intro keeps_seq marks_intro)
    (auto split: option.split intro!: keeps_if keeps_seq marks_intro)

lemma marks_verified_file [marks_intro]: "marks C (verified_file x r m dev n)"
proof -
  have "marks C (missing_chunks_answer r there)" for there
    unfolding missing_chunks_answer_def
    by (rule keeps_seq)
      (auto intro!: keeps_if keeps_seq[OF marks_update_receipt] split: bool.split option.split)
  then show ?thesis
    unfolding verified_file_def Let_def
    by (intro keeps_seq marks_intro)
      (auto split: option.split intro!: keeps_if keeps_seq marks_intro)
qed

lemma marks_admit [marks_intro]: "marks C (admit x m dev r)"
  unfolding admit_def Let_def
  by (intro keeps_seq marks_intro)
    (auto split: option.split intro!: keeps_if keeps_seq marks_intro)

lemma marks_complete_marked: "marks C (complete_marked x i dev n r)"
  unfolding complete_marked_def
  by (intro keeps_seq marks_intro)
    (auto split: option.split verification.split intro!: keeps_seq marks_intro)

text \<open>C24: Every way out of \<open>complete\<close> releases the completing mark it took, whatever fails: the set of
  recordings being completed is afterwards what it was before, so a retry is not locked out.\<close>

theorem completing_mark_is_released:
  "completing (fst (exec (complete_route x i dev) w)) = completing w"
proof -
  have frame: "completing (fst (exec t v)) = completing v" if "\<And>C. marks C t"
    for t :: "(world, 'a) task" and v
    using keeps_exec(1)[OF that, of v "completing v"] by simp
  have marked: "completing (fst (exec (complete_marked x i dev n r)
      (v\<lparr>completing := insert i (completing v)\<rparr>))) = insert i (completing v)" for n r v
    using frame[OF marks_complete_marked, of x i dev n r "v\<lparr>completing := insert i (completing v)\<rparr>"]
    by simp
  have rest: "completing (fst (exec (case found of
         Inl response \<Rightarrow> Done response
       | Inr r \<Rightarrow>
           (case meeting_id (state r) of
              Some meeting \<Rightarrow>
                await (revoked_since (d_id dev) n) (\<lambda>gone.
                await (if gone then forget_own i (d_id dev) else Done ())
                  (\<lambda>_. Done (json 200 (CompleteBody meeting))))
            | None \<Rightarrow>
                await (refusal i dev n) (\<lambda>refused. case refused of
                    Some response \<Rightarrow> Done response
                  | None \<Rightarrow>
                      await (atomically (begin_completing i)) (\<lambda>marked.
                        if \<not> marked then Done (status_answer 409 r)
                        else await (complete_marked x i dev n r) (\<lambda>response.
                          await (end_completing i) (\<lambda>_. Done response)))))) v)) = completing v"
    for found n v
  proof (cases found)
    case (Inr r)
    show ?thesis
    proof (cases "meeting_id (state r)")
      case (Some m)
      have "completing (fst (exec (forget_own i (d_id dev)) u)) = completing u" for u
        by (rule frame) (rule marks_intro)
      with Inr Some show ?thesis by (auto simp: revoked_since_def split_beta)
    next
      case None
      let ?u = "fst (exec (refusal i dev n) v)"
      have "completing ?u = completing v" by (rule frame) (rule marks_intro)
      with Inr None marked[of n r ?u] show ?thesis
        by (auto simp: split_beta begin_completing_def end_completing_def insert_absorb
            split: option.split)
    qed
  qed simp
  have own: "completing (fst (exec (owned_receipt i dev) v)) = completing v" for v
    by (rule frame) (rule marks_intro)
  show ?thesis
    unfolding complete_route_def
    by (auto simp: split_beta rest own split: option.split)
qed


section \<open>The admission ledger\<close>

text \<open> A recording admitted once is never forgotten: whatever writes the store commits after it,
  failing ones included, the ledger keeps a meeting for those bytes.\<close>

theorem ledger_never_forgets:
  assumes "admitted_meeting i n h d \<noteq> None"
  shows "admitted_meeting i n h (fold commit_write writes d) \<noteq> None"
  using ledger.writes_keep[of "(i, n, h)" d writes] assms by simp

text \<open>C18: The same bytes are admitted once: after an admission wrote its meeting, admitting them again
  with another meeting and another asset writes neither and answers with the first meeting.\<close>

theorem admitted_once:
  assumes "commit_admission_durably r meeting asset d = Inr (d1, Wrote)"
  shows "\<exists>d2. commit_admission_durably r meeting2 asset2 d1 = Inr (d2, Earlier (mt_id meeting) False) \<and>
     meetings d2 = meetings d1 \<and> assets d2 = assets d1 \<and>
     admitted_meeting (recording_id r) (byte_count r) (sha256 r) d2 = Some (mt_id meeting)"
proof -
  note w = commit_Wrote[OF assms]
  have "has_meeting d1 (mt_id meeting)" by (simp add: has_meeting_def w(3))
  moreover have "\<not> other_upload r d1" by (simp add: other_upload_def w(2) receipt_to_row_def)
  moreover have "bt_get (devices d1) (device_id r) \<noteq> None" using w(6,7) by simp
  ultimately show ?thesis
    using commit_again[OF w(1), of meeting2 asset2] w(1) by (simp add: admitted_meeting_def)
qed

definition demo_meeting :: "uuid \<Rightarrow> meeting_row" where
  "demo_meeting i = \<lparr>mt_id = i, mt_created_at = 0\<rparr>"

definition demo_asset :: "uuid \<Rightarrow> asset_row" where
  "demo_asset i = \<lparr>as_id = i, as_meeting_id = i\<rparr>"

lemma demo_admission:
  "\<exists>d1. commit_admission_durably (demo_receipt (Complete 42) [0]) (demo_meeting 42) (demo_asset 42) demo_db =
     Inr (d1, Wrote)"
  by (simp add: commit_admission_durably_def other_upload_def demo_db_def empty_db_def demo_receipt_def
      has_meeting_def save_receipt_def save_asset_def save_meeting_def bt_get_def Let_def)

lemma admitted_once_witness:
  "\<exists>d1 d2. commit_admission_durably (demo_receipt (Complete 42) [0]) (demo_meeting 43) (demo_asset 43) d1 =
     Inr (d2, Earlier 42 False)"
proof -
  from demo_admission obtain d1 where "commit_admission_durably (demo_receipt (Complete 42) [0])
    (demo_meeting 42) (demo_asset 42) demo_db = Inr (d1, Wrote)" by blast
  from admitted_once[OF this, of "demo_meeting 43" "demo_asset 43"] show ?thesis
    by (auto simp: demo_meeting_def)
qed

lemma ledger_never_forgets_witness:
  "\<exists>d. admitted_meeting 7 3 (demo_digest demo_bytes)
     (fold commit_write [DeletePairedDevice 5, SavePairedDevice demo_device [1]] d) \<noteq> None"
proof -
  from demo_admission obtain d1 where "commit_admission_durably (demo_receipt (Complete 42) [0])
    (demo_meeting 42) (demo_asset 42) demo_db = Inr (d1, Wrote)" by blast
  from commit_Wrote(1)[OF this] have "admitted_meeting 7 3 (demo_digest demo_bytes) d1 \<noteq> None"
    by (simp add: demo_receipt_def)
  from ledger_never_forgets[OF this] show ?thesis by blast
qed

text \<open> An admission never completes another upload: while the store holds a receipt of another
  device or of other bytes under the recording id, it is refused and the store stays as it is.\<close>

theorem other_upload_is_not_completed:
  assumes "receipts d (recording_id r) = Some row"
    and "row_device_id row \<noteq> device_id r \<or> row_byte_count row \<noteq> byte_count r \<or>
         row_sha256 row \<noteq> sha256 r"
  shows "commit_admission_durably r meeting asset d = Inl (ReceiptOfAnotherUpload (recording_id r)) \<and>
     commit_write (CommitAdmission r meeting asset) d = d"
  using assms by (auto simp: commit_admission_durably_def other_upload_def commit_write_def)

lemma other_upload_is_not_completed_witness:
  "commit_write (CommitAdmission (demo_receipt (Complete 42) [0]) (demo_meeting 42) (demo_asset 42))
     (demo_db\<lparr>receipts := [7 \<mapsto> receipt_to_row ((demo_receipt Receiving [])\<lparr>device_id := 6\<rparr>)]\<rparr>) =
   demo_db\<lparr>receipts := [7 \<mapsto> receipt_to_row ((demo_receipt Receiving [])\<lparr>device_id := 6\<rparr>)]\<rparr>"
  using other_upload_is_not_completed[of
      "demo_db\<lparr>receipts := [7 \<mapsto> receipt_to_row ((demo_receipt Receiving [])\<lparr>device_id := 6\<rparr>)]\<rparr>"
      "demo_receipt (Complete 42) [0]" "receipt_to_row ((demo_receipt Receiving [])\<lparr>device_id := 6\<rparr>)"]
  by (simp add: demo_receipt_def receipt_to_row_def)

text \<open> A stored receipt reads as complete exactly when its meeting exists or the ledger holds its
  bytes, and then with that meeting; a stored complete one with neither reads as failed, so its
  phone is never told a lost recording was admitted.\<close>

theorem stored_receipt_tells_admitted:
  assumes "receipts d i = Some row"
  shows "\<exists>r. stored_receipt i d = Some r \<and> recording_id r = i \<and>
     byte_count r = row_byte_count row \<and> sha256 r = row_sha256 row \<and>
     (\<forall>m. state r = Complete m \<longleftrightarrow>
        (state (receipt_from_row i row) = Complete m \<and> has_meeting d m) \<or>
        (\<not> (\<exists>m'. state (receipt_from_row i row) = Complete m' \<and> has_meeting d m') \<and>
         admitted_meeting i (row_byte_count row) (row_sha256 row) d = Some m))"
proof -
  let ?r = "receipt_from_row i row"
  have b: "byte_count ?r = row_byte_count row" "sha256 ?r = row_sha256 row"
    by (simp_all add: receipt_from_row_def)
  show ?thesis
  proof (cases "\<exists>m. state ?r = Complete m \<and> has_meeting d m")
    case True
    then have "stored_receipt i d = Some ?r"
      using assms by (auto simp: stored_receipt_def handover_receipt_def)
    with True b show ?thesis by auto
  next
    case False
    then have "stored_receipt i d = (case admitted_meeting i (row_byte_count row) (row_sha256 row) d of
          Some m \<Rightarrow> Some (?r\<lparr>state := Complete m\<rparr>)
        | None \<Rightarrow> if kind (state ?r) = KComplete then Some (?r\<lparr>state := Failed meeting_missing\<rparr>)
                  else Some ?r)"
      using assms b by (cases "state ?r") (auto simp: stored_receipt_def handover_receipt_def)
    with False b show ?thesis
      by (cases "admitted_meeting i (row_byte_count row) (row_sha256 row) d")
        (auto simp: kind_Complete_iff)
  qed
qed

lemma stored_receipt_tells_admitted_witness:
  "\<exists>r. stored_receipt 7 (demo_db\<lparr>receipts := [7 \<mapsto> receipt_to_row (demo_receipt (Complete 42) [0])]\<rparr>) =
     Some r \<and> (\<forall>m. state r \<noteq> Complete m)"
  using stored_receipt_tells_admitted[of
      "demo_db\<lparr>receipts := [7 \<mapsto> receipt_to_row (demo_receipt (Complete 42) [0])]\<rparr>" 7
      "receipt_to_row (demo_receipt (Complete 42) [0])"]
  by (auto simp: has_meeting_def demo_db_def empty_db_def admitted_meeting_def)

section \<open>Routes\<close>

text \<open> The path of a chunk names it one way only: for a segment that parses as a uuid, the chunk
  route matches exactly the canonical decimal text of an index that fits 64 bits, and gives the
  index back.\<close>

theorem chunk_route_roundtrip:
  assumes "list_all (plain_segment x) [''v1'', ''recordings'', seg, ''chunks'', num]"
    and "parse_uuid x seg = Some u"
  shows "matches x PUT (slash [''v1'', ''recordings'', seg, ''chunks'', num]) = Some (Chunk u n) \<longleftrightarrow>
     0 \<le> n \<and> n \<le> i64_max \<and> num = int_to_string n"
  using matches_slash[OF assms(1), of PUT] assms(2) chunk_index_Some[of num n]
  by (auto simp: bind_eq_Some_conv)

lemma chunk_route_roundtrip_witness:
  "matches (routing demo_engine) PUT (slash [''v1'', ''recordings'', demo_id, ''chunks'', int_to_string 12]) =
     Some (Chunk 7 12)"
proof -
  have "list_all (plain_segment (routing demo_engine))
      [''v1'', ''recordings'', demo_id, ''chunks'', int_to_string 12]"
    using int_to_string_no_slash int_to_string_no_question
    by (simp add: plain_segment_def demo_engine_def demo_id_def)
  moreover have "parse_uuid (routing demo_engine) demo_id = Some 7"
    by (simp add: parse_uuid_def demo_engine_def demo_id_def)
  ultimately show ?thesis by (simp only: chunk_route_roundtrip) (simp add: i64_max_def)
qed

section \<open>Chunks\<close>

lemma sum_chunks:
  assumes "sizes_ok b c" and "0 \<le> k" and "k < chunk_count b c"
  shows "(\<Sum>i \<leftarrow> [0..k]. chunk_length i b c) = k * c + chunk_length k b c"
  using assms(2,3)
proof (induction k rule: int_ge_induct)
  case base
  show ?case by simp
next
  case (step k)
  then have "[0..k + 1] = [0..k] @ [k + 1]" by (simp add: upto_rec2)
  with step chunk_length_full[OF assms(1), of k] show ?case
    by (simp add: distrib_right)
qed

text \<open> What an accepted announce promises about its chunks: there is at least one, each is within the
  announced chunk size, together they are the recording's bytes, and no offset or end computed
  for one, nor the count's own sum, leaves the 64-bit range.\<close>

theorem chunks_partition:
  assumes "metadata_problem g m c = None" and "conf_ok c"
  defines "n \<equiv> chunk_count (m_byte_count m) (m_chunk_size m)"
  shows "0 < n \<and> (\<Sum>i \<leftarrow> [0..n - 1]. chunk_length i (m_byte_count m) (m_chunk_size m)) = m_byte_count m \<and>
     m_byte_count m + m_chunk_size m - 1 \<le> i64_max \<and>
     (\<forall>i. 0 \<le> i \<longrightarrow> i < n \<longrightarrow> 0 < chunk_length i (m_byte_count m) (m_chunk_size m) \<and>
        chunk_length i (m_byte_count m) (m_chunk_size m) \<le> m_chunk_size m \<and>
        i * m_chunk_size m + chunk_length i (m_byte_count m) (m_chunk_size m) \<le> m_byte_count m)"
proof -
  have ok: "sizes_ok (m_byte_count m) (m_chunk_size m)"
    using metadata_problem_None[OF assms(1,2)] by (simp add: metadata_ok_def)
  have "0 < n" using chunk_count_pos[OF ok] by (simp add: n_def)
  moreover from this have "(\<Sum>i \<leftarrow> [0..n - 1]. chunk_length i (m_byte_count m) (m_chunk_size m)) = m_byte_count m"
    using sum_chunks[OF ok, of "n - 1"] chunk_length_last[OF ok] by (simp add: n_def)
  moreover have "m_byte_count m + m_chunk_size m - 1 \<le> i64_max"
    using ok by (simp add: sizes_ok_def)
  ultimately show ?thesis using chunk_length_bounds[OF ok] by (simp add: n_def)
qed

lemma chunks_partition_witness:
  "(\<Sum>i \<leftarrow> [0..chunk_count 3 65536 - 1]. chunk_length i 3 65536) = 3"
proof -
  have "metadata_problem length demo_metadata demo_conf = None"
    using demo_announces by (simp add: announces_def)
  from chunks_partition[OF this demo_conf_ok] show ?thesis by simp
qed

text \<open> Chunks may arrive in any order and more than once: once every index of the split was written at
  its offset, the partial is the recording, byte for byte.\<close>

theorem chunks_in_any_order:
  assumes "0 < c" and "\<forall>p < length bs. p div c \<in> set is"
  shows "foldl (\<lambda>f i. write_at (i * c) (chunk_of c bs i) f) [] is = bs"
proof -
  have "holds_chunks c bs {} []" by (simp add: holds_chunks_def)
  from holds_chunks_writes[OF assms(1) this, of "is"] assms(2) show ?thesis
    by (intro holds_chunks_all[of c bs "set is"]) simp_all
qed

lemma chunks_in_any_order_witness:
  "foldl (\<lambda>f i. write_at (i * 2) (chunk_of 2 [1, 2, 3, 4, 5] i) f) [] [2, 0, 2, 1] = [1, 2, 3, 4, 5]"
proof (rule chunks_in_any_order)
  show "\<forall>p < length [1 :: byte, 2, 3, 4, 5]. p div 2 \<in> set [2, 0, 2, 1]"
  proof (intro allI impI)
    fix p assume "p < length [1 :: byte, 2, 3, 4, 5]"
    then have "p div 2 = 0 \<or> p div 2 = 1 \<or> p div 2 = 2" by simp linarith
    then show "p div 2 \<in> set [2, 0, 2, 1]" by auto
  qed
qed simp

text \<open> The comparison whose time does not depend on the content is equality: it accepts two byte
  strings exactly when they have the same length and the same bytes.\<close>

theorem constant_time_equals_is_equality: "constant_time_equals a b \<longleftrightarrow> a = b"
  by (rule constant_time_equals_iff)

text \<open> A receipt saved and read back is the receipt, with its two dates rounded to the millisecond.\<close>

theorem saved_receipt_reads_back:
  assumes "save_receipt r d = Inr d'"
  shows "handover_receipt (recording_id r) d' =
     Some (r\<lparr>created_at := db_date (created_at r), updated_at := db_date (updated_at r)\<rparr>)"
  using assms by (auto simp: save_receipt_Inr handover_receipt_def receipt_row_roundtrip)

lemma saved_receipt_reads_back_witness:
  "\<exists>d. handover_receipt 7 d = Some (demo_receipt (Failed ''x'') [0])"
proof -
  have "\<exists>d. save_receipt (demo_receipt (Failed ''x'') [0]) demo_db = Inr d"
    using demo_device_paired by (auto simp: save_receipt_def demo_receipt_def)
  then obtain d where "save_receipt (demo_receipt (Failed ''x'') [0]) demo_db = Inr d" by blast
  from saved_receipt_reads_back[OF this] show ?thesis
    by (auto simp: demo_receipt_def db_date_def)
qed

end
