(* ===== verification/Identity_Decision.thy ===== *)
theory Identity_Decision
  imports Steno_Prelude
begin

text \<open>
  \<open>steno-handover/src/identity/decision.rs\<close>: from what the reads found, the handover serves an
  identity, mints one or waits, with the writes that go with it. The laws: an identity is minted
  only with nothing that could be lost, an adopted one is known to every paired phone, phones are
  removed only to finish a Pair again, and a stop after any of the writes decides the same again.
\<close>

section \<open>Observations and decisions\<close>

definition clock_slack :: int where "clock_slack = 1000000000"

text \<open>chrono's last instant, in nanoseconds.\<close>

definition max_utc :: instant where "max_utc = 8210266876799999999999"

datatype caller = Load | Import | Move

record found =
  f_fingerprint :: string
  f_start :: "instant option"

datatype identities = UnreadableSecret | MalformedSecret | Found "found list"

datatype fingerprint_record =
    NotOpened
  | DoesNotParse
  | Read "string option" "string option"

datatype phones = UnreadablePhones | Paired "instant list"

record observations =
  o_caller :: caller
  o_identities :: identities
  o_record :: fingerprint_record
  o_phones :: phones
  o_now :: instant

datatype reason =
    RecordNotOpened
  | RecordDoesNotParse
  | SecretUnreadable
  | Malformed
  | PhonesUnreadable
  | Missing
  | Replaced
  | PartlyReplaced
  | ClockBehind

datatype identity_outcome = Serve string | Mint | Wait reason

datatype identity_write = DropNote | RemovePhones | Record string

record decision =
  outcome :: identity_outcome
  writes :: "identity_write list"

section \<open>The pairing-time rule\<close>

text \<open>The index of the one newest start at or before the instant.\<close>

definition newest :: "instant list \<Rightarrow> instant \<Rightarrow> nat option" where
  "newest starts t =
     (case filter (\<lambda>s. s \<le> t) starts of
        [] \<Rightarrow> None
      | ss \<Rightarrow>
          (let start = Max (set ss)
           in case filter (\<lambda>i. starts ! i = start) [0..<length starts] of
                [i] \<Rightarrow> Some i
              | _ \<Rightarrow> None))"

definition judge :: "found list \<Rightarrow> phones \<Rightarrow> instant \<Rightarrow> reason + nat" where
  "judge fs ph now =
     (case ph of
        UnreadablePhones \<Rightarrow> Inl PhonesUnreadable
      | Paired paired \<Rightarrow>
          if \<exists>f \<in> set fs. f_start f = None then Inl Malformed
          else
            let starts = map (\<lambda>f. the (f_start f)) fs;
                latest = now + clock_slack
            in if \<exists>t \<in> set (starts @ paired). latest < t then Inl ClockBehind
               else
                 let known = (if paired = [] then [newest starts max_utc]
                              else map (newest starts) paired)
                 in case hd known of
                      Some only \<Rightarrow>
                        if \<forall>k \<in> set known. k = Some only then Inr only
                        else Inl PartlyReplaced
                    | None \<Rightarrow>
                        if \<exists>k \<in> set known. k \<noteq> None then Inl PartlyReplaced else Inl Replaced)"

section \<open>The decision\<close>

definition wait :: "reason \<Rightarrow> decision" where
  "wait r = \<lparr>outcome = Wait r, writes = []\<rparr>"

definition identities_found :: "identities \<Rightarrow> decision + found list" where
  "identities_found ids =
     (case ids of
        UnreadableSecret \<Rightarrow> Inl (wait SecretUnreadable)
      | MalformedSecret \<Rightarrow> Inl (wait Malformed)
      | Found fs \<Rightarrow> Inr fs)"

definition drop_note :: "string option \<Rightarrow> identity_write list" where
  "drop_note pending = (case pending of None \<Rightarrow> [] | Some _ \<Rightarrow> [DropNote])"

definition serve :: "string \<Rightarrow> identity_write list \<Rightarrow> decision" where
  "serve fp ws = \<lparr>outcome = Serve fp, writes = ws\<rparr>"

definition no_identity :: "string option \<Rightarrow> string option \<Rightarrow> phones \<Rightarrow> decision" where
  "no_identity current pending ph =
     \<lparr>outcome =
        (case (current, ph) of
           (Some _, _) \<Rightarrow> Wait Missing
         | (None, UnreadablePhones) \<Rightarrow> Wait PhonesUnreadable
         | (None, Paired paired) \<Rightarrow> if paired \<noteq> [] then Wait Missing else Mint),
      writes = drop_note pending\<rparr>"

definition load :: "observations \<Rightarrow> decision" where
  "load obs =
     (case o_record obs of
        NotOpened \<Rightarrow> wait RecordNotOpened
      | DoesNotParse \<Rightarrow> wait RecordDoesNotParse
      | Read current pending \<Rightarrow>
          (case identities_found (o_identities obs) of
             Inl waiting \<Rightarrow> waiting
           | Inr fs \<Rightarrow>
               (case fs of
                  [] \<Rightarrow> no_identity current pending (o_phones obs)
                | [identity] \<Rightarrow>
                    (let fp = f_fingerprint identity in
                     if pending = Some fp then
                       (if o_phones obs = UnreadablePhones then wait PhonesUnreadable
                        else serve fp [RemovePhones, Record fp])
                     else if current = Some fp then serve fp (drop_note pending)
                     else if current \<noteq> None \<or> pending \<noteq> None then wait Replaced
                     else case judge fs (o_phones obs) (o_now obs) of
                            Inr _ \<Rightarrow> serve fp [Record fp]
                          | Inl r \<Rightarrow> wait r)
                | _ \<Rightarrow> wait Replaced)))"

text \<open>Copies of one certificate count once, in the order they were found.\<close>

fun distinct_fingerprints :: "found list \<Rightarrow> string set \<Rightarrow> found list" where
  "distinct_fingerprints [] seen = []"
| "distinct_fingerprints (f # fs) seen =
     (if f_fingerprint f \<in> seen then distinct_fingerprints fs seen
      else f # distinct_fingerprints fs (insert (f_fingerprint f) seen))"

definition import_identity :: "observations \<Rightarrow> decision" where
  "import_identity obs =
     (case identities_found (o_identities obs) of
        Inl waiting \<Rightarrow> waiting
      | Inr fs \<Rightarrow>
          (let ds = distinct_fingerprints fs {}
           in case judge ds (o_phones obs) (o_now obs) of
                Inr index \<Rightarrow> serve (f_fingerprint (ds ! index)) []
              | Inl r \<Rightarrow> wait r))"

definition pin_identity :: "fingerprint_record \<Rightarrow> observations \<Rightarrow> decision" where
  "pin_identity none_recorded obs =
     (case identities_found (o_identities obs) of
        Inl waiting \<Rightarrow> waiting
      | Inr fs \<Rightarrow>
          (case fs of
             [identity] \<Rightarrow>
               (case judge fs (o_phones obs) (o_now obs) of
                  Inl Replaced \<Rightarrow> wait Replaced
                | _ \<Rightarrow> serve (f_fingerprint identity) [Record (f_fingerprint identity)])
           | _ \<Rightarrow> wait Replaced))"

definition pin :: "observations \<Rightarrow> decision" where
  "pin obs =
     (case o_record obs of
        NotOpened \<Rightarrow> wait RecordNotOpened
      | DoesNotParse \<Rightarrow> wait RecordDoesNotParse
      | Read (Some current) _ \<Rightarrow> serve current []
      | Read None pending \<Rightarrow> pin_identity (Read None pending) obs)"

definition decide :: "observations \<Rightarrow> decision" where
  "decide obs = (case o_caller obs of Load \<Rightarrow> load obs | Import \<Rightarrow> import_identity obs | Move \<Rightarrow> pin obs)"

section \<open>Facts\<close>

lemmas decision_defs = wait_def serve_def identities_found_def drop_note_def no_identity_def

text \<open>The newest start at or before an instant is one, and the others at or before it are older.\<close>

lemma newest_Some:
  assumes "newest starts t = Some i"
  shows "i < length starts" and "starts ! i \<le> t"
    and "\<And>j. j < length starts \<Longrightarrow> starts ! j \<le> t \<Longrightarrow> j \<noteq> i \<Longrightarrow> starts ! j < starts ! i"
proof -
  let ?ss = "filter (\<lambda>s. s \<le> t) starts"
  from assms have ne: "?ss \<noteq> []" by (auto simp: newest_def)
  let ?m = "Max (set ?ss)"
  from ne obtain a as' where c: "?ss = a # as'" by (cases ?ss) auto
  have m: "?m = Max (insert a (set as'))" unfolding c by simp
  have one: "filter (\<lambda>i. starts ! i = ?m) [0..<length starts] = [i]"
    unfolding m using assms c by (auto simp: newest_def Let_def split: list.splits)
  then have "set (filter (\<lambda>i. starts ! i = ?m) [0..<length starts]) = {i}" by simp
  then have i: "\<And>j. j < length starts \<and> starts ! j = ?m \<longleftrightarrow> j = i" by auto
  then show "i < length starts" by blast
  have m: "?m \<in> set ?ss" by (rule Max_in) (use ne in \<open>auto simp: filter_empty_conv\<close>)
  then have "?m \<le> t" by (simp only: set_filter mem_Collect_eq)
  moreover have eq: "starts ! i = ?m" using i[of i] by blast
  ultimately show "starts ! i \<le> t" by (simp only:)
  show "starts ! j < starts ! i" if "j < length starts" "starts ! j \<le> t" "j \<noteq> i" for j
  proof -
    have "starts ! j \<in> set ?ss" using that by simp
    then have "starts ! j \<le> ?m" by (intro Max_ge) (rule List.finite_set)
    moreover have "starts ! j \<noteq> ?m" using i[of j] that by blast
    ultimately show ?thesis unfolding eq by linarith
  qed
qed

lemma judge_Inr:
  assumes "judge fs (Paired paired) now = Inr i"
  shows "\<And>f. f \<in> set fs \<Longrightarrow> f_start f \<noteq> None"
    and "\<And>p. p \<in> set paired \<Longrightarrow> newest (map (\<lambda>f. the (f_start f)) fs) p = Some i"
    and "i < length fs"
proof -
  let ?starts = "map (\<lambda>f. the (f_start f)) fs"
  let ?known = "if paired = [] then [newest ?starts max_utc] else map (newest ?starts) paired"
  from assms have h: "hd ?known = Some i" and all: "\<forall>k \<in> set ?known. k = Some i"
    and s: "\<forall>f \<in> set fs. f_start f \<noteq> None"
    by (auto simp: judge_def Let_def split: if_splits option.splits)
  from s show "\<And>f. f \<in> set fs \<Longrightarrow> f_start f \<noteq> None" by blast
  from all show "newest ?starts p = Some i" if "p \<in> set paired" for p
    using that by (auto split: if_splits)
  from h have "\<exists>t. newest ?starts t = Some i" by (auto simp: hd_map split: if_splits)
  then show "i < length fs" using newest_Some(1) by fastforce
qed

text \<open> A new identity is minted only by the load, and only when no identity is found, the record was
  read and holds none, and the phones were read and none is paired: no decision mints over
  something it could not read or that a phone knows.\<close>

theorem mint_loses_nothing:
  assumes "outcome (decide obs) = Mint"
  shows "o_caller obs = Load \<and> o_identities obs = Found [] \<and> o_phones obs = Paired [] \<and>
     (\<exists>pending. o_record obs = Read None pending)"
  using assms
  by (auto simp: decide_def load_def import_identity_def pin_def pin_identity_def decision_defs Let_def
      split: caller.splits fingerprint_record.splits identities.splits list.splits if_splits
        option.splits phones.splits sum.splits reason.splits)

definition demo_found :: found where
  "demo_found = \<lparr>f_fingerprint = ''a'', f_start = Some 10\<rparr>"

definition demo_observed :: "identities \<Rightarrow> fingerprint_record \<Rightarrow> instant list \<Rightarrow> observations" where
  "demo_observed ids rec paired =
     \<lparr>o_caller = Load, o_identities = ids, o_record = rec, o_phones = Paired paired, o_now = 100\<rparr>"

lemma mint_loses_nothing_witness:
  "o_phones (demo_observed (Found []) (Read None (Some ''b'')) []) = Paired []"
  using mint_loses_nothing[of "demo_observed (Found []) (Read None (Some ''b'')) []"]
  by (simp add: demo_observed_def decide_def load_def decision_defs)

text \<open> An identity with nothing recorded is adopted by the load only when every paired phone knows it:
  it started at or before each phone paired. The import serves among several only the one every
  paired phone knows, the newest that had started when it paired.\<close>

theorem adopted_identity_is_known:
  assumes "outcome (decide obs) = Serve fp" and "o_phones obs = Paired paired"
    and "o_caller obs = Load \<and> o_record obs = Read None None \<or> o_caller obs = Import"
  shows "\<exists>fs f s. o_identities obs = Found fs \<and> f \<in> set fs \<and> f_fingerprint f = fp \<and>
     f_start f = Some s \<and> (\<forall>p \<in> set paired. s \<le> p \<and>
       (\<forall>g \<in> set fs. \<forall>s'. f_start g = Some s' \<longrightarrow> f_fingerprint g \<noteq> fp \<longrightarrow>
          (\<forall>g' \<in> set fs. f_fingerprint g' = f_fingerprint g \<longrightarrow> g' = g) \<longrightarrow> s' \<le> p \<longrightarrow> s' < s))"
proof -
  have sub: "set (distinct_fingerprints fs seen) \<subseteq> set fs" for fs seen
    by (induction fs seen rule: distinct_fingerprints.induct) auto
  have rep: "\<exists>g \<in> set (distinct_fingerprints fs seen). f_fingerprint g = f_fingerprint f"
    if "f \<in> set fs" "f_fingerprint f \<notin> seen" for f fs seen
    using that by (induction fs seen rule: distinct_fingerprints.induct) (auto, metis)
  have known: "\<exists>f s. f \<in> set fs \<and> f_fingerprint f = fp \<and> f_start f = Some s \<and>
      (\<forall>p \<in> set paired. s \<le> p \<and>
       (\<forall>g \<in> set fs. \<forall>s'. f_start g = Some s' \<longrightarrow> f_fingerprint g \<noteq> fp \<longrightarrow>
          (\<forall>g' \<in> set fs. f_fingerprint g' = f_fingerprint g \<longrightarrow> g' = g) \<longrightarrow> s' \<le> p \<longrightarrow> s' < s))"
    if j: "judge ds (Paired paired) now = Inr i" and fp: "f_fingerprint (ds ! i) = fp"
      and ds: "set ds \<subseteq> set fs" "\<And>g. g \<in> set fs \<Longrightarrow> \<exists>h \<in> set ds. f_fingerprint h = f_fingerprint g"
    for ds fs now i
  proof -
    let ?starts = "map (\<lambda>f. the (f_start f)) ds"
    note J = judge_Inr[OF j]
    have mem: "ds ! i \<in> set ds" using J(3) by simp
    then obtain s where s: "f_start (ds ! i) = Some s" using J(1) by fastforce
    then have si: "?starts ! i = s" using J(3) by simp
    have "s' < s" if "p \<in> set paired" "g \<in> set fs" "f_start g = Some s'" "f_fingerprint g \<noteq> fp"
      "\<forall>g' \<in> set fs. f_fingerprint g' = f_fingerprint g \<longrightarrow> g' = g" "s' \<le> p" for p g s'
    proof -
      from ds(2)[OF that(2)] obtain h where "h \<in> set ds" "f_fingerprint h = f_fingerprint g" by blast
      with that(5) ds(1) have "g \<in> set ds" by auto
      then obtain k where k: "k < length ds" "ds ! k = g" by (auto simp: in_set_conv_nth)
      with that(4) fp have "k \<noteq> i" by auto
      with newest_Some(3)[OF J(2)[OF that(1)], of k] k that(3,6) si show ?thesis by simp
    qed
    moreover have "s \<le> p" if "p \<in> set paired" for p
      using newest_Some(2)[OF J(2)[OF that]] si by simp
    ultimately show ?thesis using mem ds(1) fp s by blast
  qed
  show ?thesis
  proof (cases "o_caller obs")
    case Import
    with assms obtain fs i where fs: "o_identities obs = Found fs"
      and "judge (distinct_fingerprints fs {}) (Paired paired) (o_now obs) = Inr i"
      and "f_fingerprint (distinct_fingerprints fs {} ! i) = fp"
      by (auto simp: decide_def import_identity_def decision_defs Let_def
          split: identities.splits sum.splits)
    from known[OF this(2,3) sub rep] fs show ?thesis by auto
  next
    case Load
    with assms obtain f i where fs: "o_identities obs = Found [f]" and "f_fingerprint f = fp"
      and j: "judge [f] (Paired paired) (o_now obs) = Inr i"
      by (auto simp: decide_def load_def decision_defs Let_def
          split: identities.splits sum.splits list.splits if_splits)
    moreover have "i = 0" using judge_Inr(3)[OF j] by simp
    ultimately show ?thesis using known[OF j, of "[f]"] by auto
  qed (use assms in simp)
qed

lemma adopted_identity_is_known_witness:
  "\<exists>fs f s. Found [demo_found] = Found fs \<and> f \<in> set fs \<and> f_start f = Some s \<and>
     (\<forall>p \<in> set [20, 30]. s \<le> p)"
proof -
  have "outcome (decide (demo_observed (Found [demo_found]) (Read None None) [20, 30])) = Serve ''a''"
    by (simp add: demo_observed_def demo_found_def decide_def load_def judge_def newest_def
        decision_defs clock_slack_def Let_def)
  from adopted_identity_is_known[OF this, of "[20, 30]"] show ?thesis
    by (auto simp: demo_observed_def)
qed

text \<open> Paired phones are removed only to finish a Pair again: by the load, with the one identity found
  the one the note names, and never when the phones could not be read.\<close>

theorem phones_removed_only_to_finish_pairing_again:
  assumes "RemovePhones \<in> set (writes (decide obs))"
  shows "o_caller obs = Load \<and> o_phones obs \<noteq> UnreadablePhones \<and>
     (\<exists>identity current. o_identities obs = Found [identity] \<and>
        o_record obs = Read current (Some (f_fingerprint identity)) \<and>
        outcome (decide obs) = Serve (f_fingerprint identity))"
  using assms
  by (auto simp: decide_def load_def import_identity_def pin_def pin_identity_def decision_defs Let_def
      split: caller.splits fingerprint_record.splits identities.splits list.splits if_splits
        option.splits phones.splits sum.splits reason.splits)

lemma phones_removed_only_to_finish_pairing_again_witness:
  "o_phones (demo_observed (Found [demo_found]) (Read None (Some ''a'')) [20]) \<noteq> UnreadablePhones"
  using phones_removed_only_to_finish_pairing_again[of
      "demo_observed (Found [demo_found]) (Read None (Some ''a'')) [20]"]
  by (simp add: demo_observed_def demo_found_def decide_def load_def decision_defs Let_def)

section \<open>Stopping between the writes\<close>

text \<open>What a write does to what the next read observes.\<close>

fun apply_write :: "identity_write \<Rightarrow> observations \<Rightarrow> observations" where
  "apply_write DropNote obs =
     (case o_record obs of Read current _ \<Rightarrow> obs\<lparr>o_record := Read current None\<rparr> | _ \<Rightarrow> obs)"
| "apply_write RemovePhones obs = obs\<lparr>o_phones := Paired []\<rparr>"
| "apply_write (Record fp) obs = obs\<lparr>o_record := Read (Some fp) None\<rparr>"

text \<open> A stop after any of the decision's writes decides the same at the next read: whatever prefix of
  them was applied, the outcome is the same identity, mint or wait.\<close>

theorem stopping_between_writes:
  assumes "k \<le> length (writes (decide obs))"
  shows "outcome (decide (fold apply_write (take k (writes (decide obs))) obs)) = outcome (decide obs)"
proof (cases k)
  case (Suc j)
  show ?thesis
  proof (cases "o_caller obs")
    case Import
    then have "writes (decide obs) = []"
      by (auto simp: decide_def import_identity_def decision_defs Let_def
          split: identities.splits sum.splits)
    with assms Suc show ?thesis by simp
  next
    case Move
    with assms Suc show ?thesis
      by (auto simp: decide_def pin_def pin_identity_def decision_defs le_Suc_eq
          split: fingerprint_record.splits option.splits identities.splits list.splits sum.splits
            reason.splits)
  next
    case Load
    then have d: "decide obs = load obs" by (simp add: decide_def)
    show ?thesis
    proof (cases "writes (load obs) = []")
      case True
      with assms Suc d show ?thesis by simp
    next
      case False
      then obtain current pending fs where r: "o_record obs = Read current pending"
        and f: "o_identities obs = Found fs"
        by (auto simp: load_def decision_defs split: fingerprint_record.splits identities.splits)
      show ?thesis
      proof (cases fs)
        case Nil
        with assms Suc d r f Load show ?thesis
          by (cases pending) (auto simp: load_def decision_defs decide_def le_Suc_eq)
      next
        case (Cons identity rest)
        with False r f have one: "fs = [identity]"
          by (auto simp: load_def decision_defs split: list.splits)
        let ?fp = "f_fingerprint identity"
        consider "pending = Some ?fp" "o_phones obs \<noteq> UnreadablePhones"
          | "pending \<noteq> Some ?fp" "current = Some ?fp"
          | "pending = None" "current = None"
          using False r f one by (auto simp: load_def decision_defs Let_def split: if_splits)
        then show ?thesis
        proof cases
          case 1
          with assms Suc d r f one Load show ?thesis
            by (auto simp: load_def decision_defs decide_def Let_def le_Suc_eq)
        next
          case 2
          with assms Suc d r f one Load show ?thesis
            by (cases pending) (auto simp: load_def decision_defs decide_def Let_def le_Suc_eq)
        next
          case 3
          with assms Suc d r f one Load show ?thesis
            by (auto simp: load_def decision_defs decide_def Let_def le_Suc_eq split: sum.splits)
        qed
      qed
    qed
  qed
qed simp

lemma stopping_between_writes_witness:
  "outcome (decide (fold apply_write (take 1 (writes (decide
       (demo_observed (Found [demo_found]) (Read None (Some ''a'')) [20]))))
       (demo_observed (Found [demo_found]) (Read None (Some ''a'')) [20]))) =
   outcome (decide (demo_observed (Found [demo_found]) (Read None (Some ''a'')) [20]))"
  by (rule stopping_between_writes)
    (simp add: demo_observed_def demo_found_def decide_def load_def decision_defs Let_def)

end
