(* ===== verification/Lane_Ring.thy ===== *)
theory Lane_Ring
  imports Steno_Prelude
begin

text \<open>
  \<open>steno-audio/src/realtime/ring.rs\<close> and \<open>rings.rs\<close>: the ring of samples between the audio callback
  and the processing thread, and the rings of a stream's channels advanced together. Samples are
  of any type; the zero sample and \<open>f32::midpoint\<close> are arguments. An operation is what it does
  between its index loads and its index store, with the other side idle. The interface a client
  relies on is the locale \<open>sample_queue\<close>: a queue that takes a block whole or not at all and
  gives its samples back in order.
\<close>

unbundle bit_operations_syntax

section \<open>A queue of samples\<close>

datatype 'a queue_op = Push "'a list" | Pull nat | Skip nat

locale sample_queue =
  fixes queued :: "'r \<Rightarrow> 'a list"
    and push :: "'a list \<Rightarrow> 'r \<Rightarrow> 'r \<times> bool"
    and pull :: "nat \<Rightarrow> 'r \<Rightarrow> 'r \<times> 'a list option"
    and skip :: "nat \<Rightarrow> 'r \<Rightarrow> 'r \<times> nat"
    and limit :: "'r \<Rightarrow> nat"
    and ok :: "'r \<Rightarrow> bool"
  assumes push_ok: "ok r \<Longrightarrow> ok (fst (push xs r)) \<and> limit (fst (push xs r)) = limit r"
    and push_queued: "ok r \<Longrightarrow> queued (fst (push xs r)) =
          (if length (queued r) + length xs \<le> limit r then queued r @ xs else queued r)"
    and push_told: "ok r \<Longrightarrow> snd (push xs r) \<longleftrightarrow> xs = [] \<or> length (queued r) + length xs \<le> limit r"
    and pull_ok: "ok r \<Longrightarrow> ok (fst (pull n r)) \<and> limit (fst (pull n r)) = limit r"
    and pull_queued: "ok r \<Longrightarrow> n \<le> length (queued r) \<Longrightarrow>
          queued (fst (pull n r)) = drop n (queued r) \<and> snd (pull n r) = Some (take n (queued r))"
    and pull_short: "ok r \<Longrightarrow> length (queued r) < n \<Longrightarrow>
          queued (fst (pull n r)) = queued r \<and> snd (pull n r) = None"
    and skip_ok: "ok r \<Longrightarrow> ok (fst (skip n r)) \<and> limit (fst (skip n r)) = limit r"
    and skip_queued: "ok r \<Longrightarrow> queued (fst (skip n r)) = drop n (queued r) \<and>
          snd (skip n r) = min n (length (queued r))"
    and within: "ok r \<Longrightarrow> length (queued r) \<le> limit r"
begin

text \<open>What one operation took in and let out.\<close>

fun operate :: "'a queue_op \<Rightarrow> 'r \<Rightarrow> 'r \<times> 'a list \<times> 'a list" where
  "operate (Push xs) r = (let (r', told) = push xs r in (r', if told then xs else [], []))"
| "operate (Pull n) r = (let (r', got) = pull n r in (r', [], case got of None \<Rightarrow> [] | Some xs \<Rightarrow> xs))"
| "operate (Skip n) r = (let (r', k) = skip n r in (r', [], take k (queued r)))"

fun operate_all :: "'a queue_op list \<Rightarrow> 'r \<Rightarrow> 'r \<times> 'a list \<times> 'a list" where
  "operate_all [] r = (r, [], [])"
| "operate_all (e # es) r =
     (let (r1, i1, o1) = operate e r; (r2, i2, o2) = operate_all es r1 in (r2, i1 @ i2, o1 @ o2))"

lemma operate_ok: "ok r \<Longrightarrow> ok (fst (operate e r))"
  using push_ok pull_ok skip_ok by (cases e) (auto simp: split_beta Let_def)

lemma operate_fifo:
  assumes "ok r"
  shows "queued r @ fst (snd (operate e r)) = snd (snd (operate e r)) @ queued (fst (operate e r))"
proof (cases e)
  case (Push xs)
  then show ?thesis
    using push_queued[OF assms, of xs] push_told[OF assms, of xs] within[OF assms]
    by (auto simp: split_beta Let_def)
next
  case (Pull n)
  then show ?thesis
    using pull_queued[OF assms, of n] pull_short[OF assms, of n]
    by (cases "n \<le> length (queued r)") (auto simp: split_beta Let_def)
next
  case (Skip n)
  then show ?thesis using skip_queued[OF assms, of n]
    by (auto simp: split_beta Let_def min_def)
qed

text \<open>What comes out, and then what is queued, is what was queued and what was taken, in order.\<close>

lemma operate_all_fifo:
  "ok r \<Longrightarrow> ok (fst (operate_all es r)) \<and>
     queued r @ fst (snd (operate_all es r)) =
       snd (snd (operate_all es r)) @ queued (fst (operate_all es r))"
proof (induction es arbitrary: r)
  case (Cons e es)
  let ?r = "fst (operate e r)"
  from Cons.IH[OF operate_ok[OF Cons.prems]] operate_fifo[OF Cons.prems, of e]
  show ?case by (auto simp: split_beta Let_def) (metis append.assoc)
qed simp

end

section \<open>The ring\<close>

definition usize_max :: nat where "usize_max = 2 ^ 64 - 1"

definition saturating_add :: "nat \<Rightarrow> nat \<Rightarrow> nat" where
  "saturating_add a b = min usize_max (a + b)"

record 'a lane_ring =
  capacity :: nat
  mask :: nat
  storage :: "'a list"
  write_index :: nat
  read_index :: nat
  dropped :: nat
  filled :: nat
  unfilled :: nat

function next_power_of_two_from :: "nat \<Rightarrow> nat \<Rightarrow> nat" where
  "next_power_of_two_from p n = (if p = 0 \<or> n \<le> p then p else next_power_of_two_from (2 * p) n)"
  by auto
termination by (relation "measure (\<lambda>(p, n). n - p)") auto

declare next_power_of_two_from.simps [simp del]

definition next_power_of_two :: "nat \<Rightarrow> nat" where
  "next_power_of_two n = next_power_of_two_from 1 n"

definition new_ring :: "'a \<Rightarrow> nat \<Rightarrow> 'a lane_ring" where
  "new_ring zero cap =
     (let size = next_power_of_two (max cap 2)
      in \<lparr>capacity = size, mask = size - 1, storage = replicate size zero, write_index = 0,
          read_index = 0, dropped = 0, filled = 0, unfilled = 0\<rparr>)"

definition available_to_read :: "'a lane_ring \<Rightarrow> nat" where
  "available_to_read r = write_index r - read_index r"

definition available_to_write :: "'a lane_ring \<Rightarrow> nat" where
  "available_to_write r = capacity r - available_to_read r"

definition has_room :: "nat \<Rightarrow> 'a lane_ring \<Rightarrow> bool" where
  "has_room count r \<longleftrightarrow> capacity r - (write_index r - read_index r) \<ge> count"

definition record_drop :: "nat \<Rightarrow> 'a lane_ring \<Rightarrow> 'a lane_ring" where
  "record_drop count r = r\<lparr>dropped := (dropped r + count) mod 2 ^ 64\<rparr>"

definition record_filled :: "nat \<Rightarrow> 'a lane_ring \<Rightarrow> 'a lane_ring" where
  "record_filled count r = r\<lparr>filled := saturating_add (filled r) count\<rparr>"

definition record_unfilled :: "nat \<Rightarrow> 'a lane_ring \<Rightarrow> 'a lane_ring" where
  "record_unfilled count r = r\<lparr>unfilled := saturating_add (unfilled r) count\<rparr>"

text \<open>The write index when the samples fit; else the drop counted.\<close>

definition reserve :: "nat \<Rightarrow> 'a lane_ring \<Rightarrow> 'a lane_ring \<times> nat option" where
  "reserve count r =
     (if capacity r - (write_index r - read_index r) \<ge> count then (r, Some (write_index r))
      else (record_drop count r, None))"

fun put_samples :: "nat \<Rightarrow> nat \<Rightarrow> 'a list \<Rightarrow> 'a list \<Rightarrow> 'a list" where
  "put_samples m position [] st = st"
| "put_samples m position (x # xs) st = put_samples m ((position + 1) AND m) xs (st[position := x])"

fun get_samples :: "nat \<Rightarrow> nat \<Rightarrow> nat \<Rightarrow> 'a list \<Rightarrow> 'a list" where
  "get_samples m position 0 st = []"
| "get_samples m position (Suc n) st = st ! position # get_samples m ((position + 1) AND m) n st"

definition write_samples :: "'a list \<Rightarrow> 'a lane_ring \<Rightarrow> 'a lane_ring \<times> bool" where
  "write_samples xs r =
     (if xs = [] then (r, True)
      else case reserve (length xs) r of
             (r, None) \<Rightarrow> (r, False)
           | (r, Some w) \<Rightarrow>
               (r\<lparr>storage := put_samples (mask r) (w AND mask r) xs (storage r),
                  write_index := w + length xs\<rparr>, True))"

text \<open>\<open>count\<close> samples from every \<open>stride\<close>-th place of the source; the average of two channels.\<close>

definition ring_write :: "'a list \<Rightarrow> nat \<Rightarrow> nat \<Rightarrow> 'a lane_ring \<Rightarrow> 'a lane_ring \<times> bool" where
  "ring_write source count stride r =
     write_samples (map (\<lambda>index. source ! (index * stride)) [0..<count]) r"

definition write_mixed ::
  "('a \<Rightarrow> 'a \<Rightarrow> 'a) \<Rightarrow> 'a list \<Rightarrow> 'a list \<Rightarrow> nat \<Rightarrow> nat \<Rightarrow> nat \<Rightarrow> 'a lane_ring \<Rightarrow> 'a lane_ring \<times> bool"
where
  "write_mixed midpoint left right count left_stride right_stride r =
     write_samples (map (\<lambda>index. midpoint (left ! (index * left_stride)) (right ! (index * right_stride)))
       [0..<count]) r"

definition write_slice :: "'a list \<Rightarrow> 'a lane_ring \<Rightarrow> 'a lane_ring \<times> bool" where
  "write_slice source r = ring_write source (length source) 1 r"

definition write_zeros :: "'a \<Rightarrow> nat \<Rightarrow> 'a lane_ring \<Rightarrow> 'a lane_ring \<times> bool" where
  "write_zeros zero count r = ring_write [zero] count 0 r"

definition ring_read :: "nat \<Rightarrow> 'a lane_ring \<Rightarrow> 'a lane_ring \<times> 'a list option" where
  "ring_read count r =
     (if count = 0 then (r, Some [])
      else if write_index r - read_index r < count then (r, None)
      else (r\<lparr>read_index := read_index r + count\<rparr>,
            Some (get_samples (mask r) (read_index r AND mask r) count (storage r))))"

definition ring_discard :: "nat \<Rightarrow> 'a lane_ring \<Rightarrow> 'a lane_ring \<times> nat" where
  "ring_discard count r =
     (let skipped = min count (write_index r - read_index r)
      in (r\<lparr>read_index := read_index r + skipped\<rparr>, skipped))"

definition drain_all :: "'a lane_ring \<Rightarrow> 'a lane_ring \<times> 'a list" where
  "drain_all r =
     (let count = available_to_read r
      in case ring_read count r of (r, Some xs) \<Rightarrow> (r, xs) | (r, None) \<Rightarrow> (r, []))"

definition clear :: "'a \<Rightarrow> 'a lane_ring \<Rightarrow> 'a lane_ring" where
  "clear zero r =
     r\<lparr>storage := map (\<lambda>_. zero) (storage r), read_index := 0, write_index := 0, dropped := 0,
       filled := 0, unfilled := 0\<rparr>"

section \<open>Facts\<close>

lemma next_power_of_two_from_pow:
  "\<exists>k. p = 2 ^ k \<Longrightarrow> \<exists>k. next_power_of_two_from p n = 2 ^ k \<and> n \<le> 2 ^ k \<and> p \<le> 2 ^ k"
proof (induction p n rule: next_power_of_two_from.induct)
  case (1 p n)
  then obtain k where p: "p = 2 ^ k" by blast
  show ?case
  proof (cases "n \<le> p")
    case True
    then show ?thesis using p by (auto simp: next_power_of_two_from.simps)
  next
    case False
    have "\<exists>j. 2 * p = 2 ^ j" using p by (intro exI[of _ "Suc k"]) simp
    with False p "1.IH" obtain j where "next_power_of_two_from (2 * p) n = 2 ^ j" "n \<le> 2 ^ j" "2 * p \<le> 2 ^ j"
      by (metis power_not_zero zero_neq_numeral)
    moreover have "next_power_of_two_from p n = next_power_of_two_from (2 * p) n"
      using False p by (subst next_power_of_two_from.simps) simp
    ultimately show ?thesis by (intro exI[of _ j]) simp
  qed
qed

definition ring_ok :: "'a lane_ring \<Rightarrow> bool" where
  "ring_ok r \<longleftrightarrow> (\<exists>k. 0 < k \<and> capacity r = 2 ^ k) \<and> mask r = capacity r - 1 \<and>
     length (storage r) = capacity r \<and> read_index r \<le> write_index r \<and>
     write_index r - read_index r \<le> capacity r"

text \<open>The queued samples, oldest first.\<close>

definition ring_queue :: "'a lane_ring \<Rightarrow> 'a list" where
  "ring_queue r = map (\<lambda>i. storage r ! (i mod capacity r)) [read_index r..<write_index r]"

lemma length_ring_queue [simp]: "length (ring_queue r) = write_index r - read_index r"
  by (simp add: ring_queue_def)

lemma ring_okD:
  assumes "ring_ok r"
  shows "0 < capacity r" and "n AND mask r = n mod capacity r"
    and "length (storage r) = capacity r" and "read_index r \<le> write_index r"
    and "write_index r \<le> read_index r + capacity r" and "2 \<le> capacity r"
proof -
  from assms obtain k where k: "0 < k" "capacity r = 2 ^ k" "mask r = 2 ^ k - 1"
    by (auto simp: ring_ok_def)
  then show "0 < capacity r" by simp
  have "mask r = Bit_Operations.mask k" using k(3) by (simp add: mask_eq_exp_minus_1)
  then have "n AND mask r = take_bit k n" by (simp add: take_bit_eq_mask)
  then show "n AND mask r = n mod capacity r" using k(2) by (simp add: take_bit_eq_mod)
  show "2 \<le> capacity r" using k(1,2) by (cases k) simp_all
qed (use assms in \<open>auto simp: ring_ok_def\<close>)

lemma new_ring_ok: "ring_ok (new_ring zero cap)" and new_ring_room: "cap \<le> capacity (new_ring zero cap)"
proof -
  obtain k where k: "next_power_of_two (max cap 2) = 2 ^ k" "max cap 2 \<le> 2 ^ k"
    using next_power_of_two_from_pow[of 1 "max cap 2"] unfolding next_power_of_two_def
    by (metis power_0)
  moreover from k(2) have "0 < k" by (cases k) simp_all
  ultimately show "ring_ok (new_ring zero cap)"
    by (auto simp: ring_ok_def new_ring_def Let_def)
  from k show "cap \<le> capacity (new_ring zero cap)" by (simp add: new_ring_def Let_def)
qed

lemma mod_apart: "q < p \<Longrightarrow> p < q + c \<Longrightarrow> q mod c \<noteq> p mod (c :: nat)"
  using mod_eq_dvd_iff_nat[of q p c] by (auto dest: dvd_imp_le)

lemma put_samples_mod:
  assumes m: "\<And>n. n AND m = n mod c" and "length xs \<le> c" and "length st = c" and c: "0 < c"
  shows "length (put_samples m (p mod c) xs st) = c"
    and "p \<le> q \<Longrightarrow> q < p + length xs \<Longrightarrow> put_samples m (p mod c) xs st ! (q mod c) = xs ! (q - p)"
    and "q < p \<Longrightarrow> p + length xs \<le> q + c \<Longrightarrow> put_samples m (p mod c) xs st ! (q mod c) = st ! (q mod c)"
proof -
  have "length (put_samples m (p mod c) xs st) = c \<and>
      (\<forall>q. p \<le> q \<longrightarrow> q < p + length xs \<longrightarrow> put_samples m (p mod c) xs st ! (q mod c) = xs ! (q - p)) \<and>
      (\<forall>q. q < p \<longrightarrow> p + length xs \<le> q + c \<longrightarrow>
        put_samples m (p mod c) xs st ! (q mod c) = st ! (q mod c))"
    using assms(2,3)
  proof (induction xs arbitrary: p st)
    case (Cons x xs)
    let ?st = "st[p mod c := x]"
    have step: "put_samples m (p mod c) (x # xs) st = put_samples m (Suc p mod c) xs ?st"
      by (simp add: m mod_Suc_eq)
    from Cons.IH[of ?st "Suc p"] Cons.prems
    have len: "length (put_samples m (Suc p mod c) xs ?st) = c"
      and new: "\<And>q. Suc p \<le> q \<Longrightarrow> q < Suc p + length xs \<Longrightarrow>
        put_samples m (Suc p mod c) xs ?st ! (q mod c) = xs ! (q - Suc p)"
      and old: "\<And>q. q < Suc p \<Longrightarrow> Suc p + length xs \<le> q + c \<Longrightarrow>
        put_samples m (Suc p mod c) xs ?st ! (q mod c) = ?st ! (q mod c)" by simp_all
    show ?case
      unfolding step
    proof (intro conjI allI impI)
      fix q assume q: "p \<le> q" "q < p + length (x # xs)"
      show "put_samples m (Suc p mod c) xs ?st ! (q mod c) = (x # xs) ! (q - p)"
      proof (cases "q = p")
        case True
        then show ?thesis using old[of p] Cons.prems c by simp
      next
        case False
        with q new[of q] show ?thesis by (simp add: nth_Cons' Suc_diff_Suc)
      qed
    next
      fix q assume q: "q < p" "p + length (x # xs) \<le> q + c"
      with mod_apart[of q p c] old[of q] show "put_samples m (Suc p mod c) xs ?st ! (q mod c) = st ! (q mod c)"
        by simp
    qed (rule len)
  qed simp
  then show "length (put_samples m (p mod c) xs st) = c"
    and "p \<le> q \<Longrightarrow> q < p + length xs \<Longrightarrow> put_samples m (p mod c) xs st ! (q mod c) = xs ! (q - p)"
    and "q < p \<Longrightarrow> p + length xs \<le> q + c \<Longrightarrow> put_samples m (p mod c) xs st ! (q mod c) = st ! (q mod c)"
    by blast+
qed

lemma get_samples_mod:
  assumes "\<And>n. n AND m = n mod c"
  shows "get_samples m (p mod c) n st = map (\<lambda>i. st ! (i mod c)) [p..<p + n]"
proof (induction n arbitrary: p)
  case (Suc n)
  have "[p..<p + Suc n] = p # [Suc p..<Suc p + n]" by (simp add: upt_conv_Cons)
  with Suc.IH[of "Suc p"] show ?case by (simp add: assms mod_Suc_eq)
qed simp

lemma ring_queue_write:
  assumes r: "ring_ok r" and fits: "write_index r - read_index r + length xs \<le> capacity r"
  defines "r' \<equiv> r\<lparr>storage := put_samples (mask r) (write_index r AND mask r) xs (storage r),
                  write_index := write_index r + length xs\<rparr>"
  shows "ring_ok r' \<and> ring_queue r' = ring_queue r @ xs"
proof -
  note d = ring_okD[OF r]
  let ?c = "capacity r" and ?w = "write_index r" and ?st = "storage r'"
  have le: "length xs \<le> ?c" using fits by simp
  have st: "?st = put_samples (mask r) (?w mod ?c) xs (storage r)" by (simp add: r'_def d(2))
  note put = put_samples_mod[OF d(2) le d(3) d(1), where p = ?w, folded st]
  have "[read_index r..<?w + length xs] = [read_index r..<?w] @ [?w..<?w + length xs]"
    using d(4) by (rule upt_add_eq_append)
  moreover have "map (\<lambda>i. ?st ! (i mod ?c)) [read_index r..<?w] = ring_queue r"
    using put(3) fits d(4) by (auto simp: ring_queue_def)
  moreover have "map (\<lambda>i. ?st ! (i mod ?c)) [?w..<?w + length xs] = xs"
    by (rule nth_equalityI) (simp_all add: put(2))
  ultimately have "ring_queue r' = ring_queue r @ xs"
    unfolding ring_queue_def[of r'] by (simp add: r'_def)
  moreover have "ring_ok r'"
  proof -
    have "length (storage r') = ?c" by (rule put(1))
    moreover have "read_index r' \<le> write_index r'" "write_index r' - read_index r' \<le> ?c"
      using fits d(4) by (simp_all add: r'_def)
    moreover have "capacity r' = ?c" "mask r' = mask r" by (simp_all add: r'_def)
    ultimately show ?thesis using r unfolding ring_ok_def by metis
  qed
  ultimately show ?thesis by simp
qed

lemma ring_ok_drop [simp]: "ring_ok (record_drop n r) = ring_ok r"
  by (simp add: ring_ok_def record_drop_def)

lemma record_drop_fields [simp]:
  "ring_queue (record_drop n r) = ring_queue r" "capacity (record_drop n r) = capacity r"
  by (simp_all add: record_drop_def ring_queue_def)

lemma write_samples_cases:
  assumes "ring_ok r"
  shows "ring_ok (fst (write_samples xs r))"
    and "capacity (fst (write_samples xs r)) = capacity r"
    and "ring_queue (fst (write_samples xs r)) =
           (if length (ring_queue r) + length xs \<le> capacity r then ring_queue r @ xs else ring_queue r)"
    and "snd (write_samples xs r) \<longleftrightarrow> xs = [] \<or> length (ring_queue r) + length xs \<le> capacity r"
proof -
  let ?fits = "length (ring_queue r) + length xs \<le> capacity r"
  have room: "length xs \<le> capacity r - (write_index r - read_index r) \<longleftrightarrow> ?fits"
    using ring_okD(4,5)[OF assms] by (simp add: le_diff_conv2) linarith
  have cases: "write_samples xs r =
      (if xs = [] then (r, True)
       else if ?fits then
         (r\<lparr>storage := put_samples (mask r) (write_index r AND mask r) xs (storage r),
            write_index := write_index r + length xs\<rparr>, True)
       else (record_drop (length xs) r, False))"
    unfolding write_samples_def reserve_def room by simp
  note written = ring_queue_write[OF assms, of xs, folded length_ring_queue]
  show "ring_ok (fst (write_samples xs r))"
    unfolding cases using written assms by simp
  show "capacity (fst (write_samples xs r)) = capacity r"
    unfolding cases by simp
  show "ring_queue (fst (write_samples xs r)) = (if ?fits then ring_queue r @ xs else ring_queue r)"
    unfolding cases using written by (simp del: length_ring_queue)
  show "snd (write_samples xs r) \<longleftrightarrow> xs = [] \<or> ?fits"
    unfolding cases by simp
qed

lemma ring_read_cases:
  assumes "ring_ok r"
  shows "ring_ok (fst (ring_read n r))" and "capacity (fst (ring_read n r)) = capacity r"
    and "n \<le> length (ring_queue r) \<Longrightarrow> ring_queue (fst (ring_read n r)) = drop n (ring_queue r) \<and>
           snd (ring_read n r) = Some (take n (ring_queue r))"
    and "length (ring_queue r) < n \<Longrightarrow> ring_read n r = (r, None)"
proof -
  note d = ring_okD[OF assms]
  have got: "get_samples (mask r) (read_index r AND mask r) n (storage r) =
      map (\<lambda>i. storage r ! (i mod capacity r)) [read_index r..<read_index r + n]"
    unfolding d(2) by (rule get_samples_mod) (rule d(2))
  show "ring_ok (fst (ring_read n r))" "capacity (fst (ring_read n r)) = capacity r"
    using assms d(4) unfolding ring_read_def ring_ok_def by auto
  show "n \<le> length (ring_queue r) \<Longrightarrow> ring_queue (fst (ring_read n r)) = drop n (ring_queue r) \<and>
      snd (ring_read n r) = Some (take n (ring_queue r))"
    using d(4) by (auto simp: ring_read_def got ring_queue_def drop_map take_map drop_upt take_upt)
  show "length (ring_queue r) < n \<Longrightarrow> ring_read n r = (r, None)"
    by (simp add: ring_read_def)
qed

lemma ring_discard_cases:
  assumes "ring_ok r"
  shows "ring_ok (fst (ring_discard n r))" and "capacity (fst (ring_discard n r)) = capacity r"
    and "ring_queue (fst (ring_discard n r)) = drop n (ring_queue r)"
    and "snd (ring_discard n r) = min n (length (ring_queue r))"
  using assms ring_okD(4)[OF assms]
  by (auto simp: ring_discard_def Let_def ring_ok_def ring_queue_def drop_map drop_upt min_def)

interpretation ring: sample_queue ring_queue write_samples ring_read ring_discard capacity ring_ok
proof
  fix r :: "'a lane_ring" and xs :: "'a list" and n
  assume r: "ring_ok r"
  show "ring_ok (fst (write_samples xs r)) \<and> capacity (fst (write_samples xs r)) = capacity r"
    "ring_queue (fst (write_samples xs r)) =
       (if length (ring_queue r) + length xs \<le> capacity r then ring_queue r @ xs else ring_queue r)"
    "snd (write_samples xs r) \<longleftrightarrow> xs = [] \<or> length (ring_queue r) + length xs \<le> capacity r"
    using write_samples_cases[OF r] by simp_all
  show "ring_ok (fst (ring_read n r)) \<and> capacity (fst (ring_read n r)) = capacity r"
    "n \<le> length (ring_queue r) \<Longrightarrow> ring_queue (fst (ring_read n r)) = drop n (ring_queue r) \<and>
       snd (ring_read n r) = Some (take n (ring_queue r))"
    "length (ring_queue r) < n \<Longrightarrow>
       ring_queue (fst (ring_read n r)) = ring_queue r \<and> snd (ring_read n r) = None"
    using ring_read_cases[OF r] by simp_all
  show "ring_ok (fst (ring_discard n r)) \<and> capacity (fst (ring_discard n r)) = capacity r"
    "ring_queue (fst (ring_discard n r)) = drop n (ring_queue r) \<and>
       snd (ring_discard n r) = min n (length (ring_queue r))"
    using ring_discard_cases[OF r] by simp_all
  show "length (ring_queue r) \<le> capacity r" using ring_okD(5)[OF r] by simp
qed

section \<open>Rings advanced together\<close>

text \<open>\<open>pending\<close> is the wake's count of blocks the consumer was not yet woken for.\<close>

record 'a lane_rings =
  rings :: "'a lane_ring list"
  pending :: nat

definition new_rings :: "'a \<Rightarrow> nat \<Rightarrow> nat \<Rightarrow> 'a lane_rings" where
  "new_rings zero count cap = \<lparr>rings = replicate count (new_ring zero cap), pending = 0\<rparr>"

definition rings_have_room :: "nat \<Rightarrow> 'a lane_rings \<Rightarrow> bool" where
  "rings_have_room count l \<longleftrightarrow> list_all (has_room count) (rings l)"

definition rings_reserve :: "nat \<Rightarrow> 'a lane_rings \<Rightarrow> 'a lane_rings \<times> bool" where
  "rings_reserve count l =
     (if rings_have_room count l then (l, True)
      else (l\<lparr>rings := map (record_drop count) (rings l)\<rparr>, False))"

definition signal :: "nat \<Rightarrow> nat" where
  "signal p = (p + 1) mod 2 ^ 32"

definition try_take :: "nat \<Rightarrow> nat \<times> bool" where
  "try_take p = (if p > 0 then (p - 1, True) else (p, False))"

definition commit :: "'a lane_rings \<Rightarrow> 'a lane_rings" where
  "commit l = l\<lparr>pending := signal (pending l)\<rparr>"

definition rings_available_to_read :: "'a lane_rings \<Rightarrow> nat" where
  "rings_available_to_read l =
     (case map available_to_read (rings l) of [] \<Rightarrow> 0 | n # ns \<Rightarrow> fold min ns n)"

definition rings_clear :: "'a \<Rightarrow> 'a lane_rings \<Rightarrow> 'a lane_rings" where
  "rings_clear zero l = l\<lparr>rings := map (clear zero) (rings l)\<rparr>"

text \<open>One operation on one ring of the rings.\<close>

definition on_ring :: "nat \<Rightarrow> ('a lane_ring \<Rightarrow> 'a lane_ring) \<Rightarrow> 'a lane_rings \<Rightarrow> 'a lane_rings" where
  "on_ring channel f l = l\<lparr>rings := (rings l)[channel := f (rings l ! channel)]\<rparr>"

definition rings_ok :: "'a lane_rings \<Rightarrow> bool" where
  "rings_ok l \<longleftrightarrow> list_all ring_ok (rings l)"

lemma clear_ok: "ring_ok r \<Longrightarrow> ring_ok (clear zero r)"
  by (simp add: ring_ok_def clear_def)

lemma clear_empty [simp]: "ring_queue (clear zero r) = []"
  by (simp add: ring_queue_def clear_def)

lemma new_rings_ok: "rings_ok (new_rings zero count cap)"
  by (simp add: rings_ok_def new_rings_def list_all_iff new_ring_ok)

lemma has_room_queue:
  "ring_ok r \<Longrightarrow> has_room n r \<longleftrightarrow> length (ring_queue r) + n \<le> capacity r"
  using ring_okD(4,5)[of r] by (simp add: has_room_def le_diff_conv2) linarith

lemma rings_have_room_queue:
  "rings_ok l \<Longrightarrow> rings_have_room n l \<longleftrightarrow> (\<forall>r\<in>set (rings l). length (ring_queue r) + n \<le> capacity r)"
  by (auto simp: rings_ok_def rings_have_room_def list_all_iff has_room_queue)

lemma rings_reserve_ok: "rings_ok l \<Longrightarrow> rings_ok (fst (rings_reserve n l))"
  by (auto simp: rings_ok_def rings_reserve_def list_all_iff)

end
