(* ===== verification/Ring_Interleaving.thy ===== *)
theory Ring_Interleaving
  imports Lane_Ring
begin

text \<open>
  The ring of \<open>steno-audio/src/realtime/ring.rs\<close> with its two threads at work at once: \<open>write\<close>,
  \<open>read\<close> and \<open>discard\<close> cut at every access to what the threads share (an index load, one sample,
  an index store), run in any order of turns. An Acquire load sees the other side's last Release
  store. The lemmas carry the module's safety model, that the two sides own disjoint positions,
  over every turn; the section at the end holds the ring's properties.
\<close>

section \<open>The two sides\<close>

text \<open>
  Where the producer is: outside \<open>write\<close>; its own index loaded; at \<open>index\<close> of the copy. The
  samples are those the call was given.
\<close>

datatype 'a writer = Outside | Loaded "'a list" nat | Copying "'a list" nat nat nat

text \<open>
  Where the consumer is: outside; in \<open>read\<close> with its own index loaded, then at the next position
  with the samples copied so far; in \<open>discard\<close> with its own index loaded, then with what to skip.
\<close>

datatype 'a reader =
    Away | ReadLoaded nat nat | Taking nat nat nat "'a list" | SkipLoaded nat nat | Skipping nat nat

text \<open>\<open>sent\<close> and \<open>taken\<close> are for the statements: what was published, what was read or skipped.\<close>

record 'a rig =
  shared :: "'a lane_ring"
  writer :: "'a writer"
  reader :: "'a reader"
  sent :: "'a list"
  taken :: "'a list"

datatype 'a ring_turn = Writer "'a list" | Reader nat | Skipper nat

text \<open>One turn of the producer; outside a call it begins one with the given samples.\<close>

definition writer_turn :: "'a list \<Rightarrow> 'a rig \<Rightarrow> 'a rig" where
  "writer_turn next s =
     (let r = shared s
      in case writer s of
           Outside \<Rightarrow> if next = [] then s else s\<lparr>writer := Loaded next (write_index r)\<rparr>
         | Loaded xs w \<Rightarrow>
             if capacity r - (w - read_index r) \<ge> length xs
             then s\<lparr>writer := Copying xs w (w AND mask r) 0\<rparr>
             else s\<lparr>writer := Outside, shared := record_drop (length xs) r\<rparr>
         | Copying xs w position index \<Rightarrow>
             if index < length xs
             then s\<lparr>writer := Copying xs w ((position + 1) AND mask r) (index + 1),
                    shared := r\<lparr>storage := (storage r)[position := xs ! index]\<rparr>\<rparr>
             else s\<lparr>writer := Outside, shared := r\<lparr>write_index := w + length xs\<rparr>, sent := sent s @ xs\<rparr>)"

definition begin_reading :: "nat \<Rightarrow> 'a rig \<Rightarrow> 'a rig" where
  "begin_reading count s =
     (if count = 0 then s else s\<lparr>reader := ReadLoaded count (read_index (shared s))\<rparr>)"

definition begin_skipping :: "nat \<Rightarrow> 'a rig \<Rightarrow> 'a rig" where
  "begin_skipping count s = s\<lparr>reader := SkipLoaded count (read_index (shared s))\<rparr>"

text \<open>One turn of the consumer; outside a call it begins the one given.\<close>

definition reader_turn :: "('a rig \<Rightarrow> 'a rig) \<Rightarrow> 'a rig \<Rightarrow> 'a rig" where
  "reader_turn next s =
     (let r = shared s
      in case reader s of
           Away \<Rightarrow> next s
         | ReadLoaded count i \<Rightarrow>
             if write_index r - i < count then s\<lparr>reader := Away\<rparr>
             else s\<lparr>reader := Taking count i (i AND mask r) []\<rparr>
         | Taking count i position samples \<Rightarrow>
             if length samples < count
             then s\<lparr>reader := Taking count i ((position + 1) AND mask r) (samples @ [storage r ! position])\<rparr>
             else s\<lparr>reader := Away, shared := r\<lparr>read_index := i + count\<rparr>, taken := taken s @ samples\<rparr>
         | SkipLoaded count i \<Rightarrow> s\<lparr>reader := Skipping i (min count (write_index r - i))\<rparr>
         | Skipping i skipped \<Rightarrow>
             s\<lparr>reader := Away, shared := r\<lparr>read_index := i + skipped\<rparr>,
               taken := taken s @ take skipped (ring_queue r)\<rparr>)"

fun take_turn :: "'a ring_turn \<Rightarrow> 'a rig \<Rightarrow> 'a rig" where
  "take_turn (Writer xs) s = writer_turn xs s"
| "take_turn (Reader n) s = reader_turn (begin_reading n) s"
| "take_turn (Skipper n) s = reader_turn (begin_skipping n) s"

definition turns :: "'a ring_turn list \<Rightarrow> 'a rig \<Rightarrow> 'a rig" where
  "turns ts s = fold take_turn ts s"

definition new_rig :: "'a \<Rightarrow> nat \<Rightarrow> 'a rig" where
  "new_rig zero cap =
     \<lparr>shared = new_ring zero cap, writer = Outside, reader = Away, sent = [], taken = []\<rparr>"

text \<open>The positions of the next unsynchronised access of each side.\<close>

definition writing_at :: "'a rig \<Rightarrow> nat option" where
  "writing_at s = (case writer s of Copying xs w position index \<Rightarrow>
     if index < length xs then Some position else None | _ \<Rightarrow> None)"

definition reading_at :: "'a rig \<Rightarrow> nat option" where
  "reading_at s = (case reader s of Taking count i position samples \<Rightarrow>
     if length samples < count then Some position else None | _ \<Rightarrow> None)"

section \<open>What every turn keeps\<close>

definition writer_ok :: "'a lane_ring \<Rightarrow> 'a writer \<Rightarrow> bool" where
  "writer_ok r p \<longleftrightarrow> (case p of
     Outside \<Rightarrow> True
   | Loaded xs w \<Rightarrow> w = write_index r
   | Copying xs w position index \<Rightarrow>
       w = write_index r \<and> index \<le> length xs \<and> w + length xs \<le> read_index r + capacity r \<and>
       position = (w + index) mod capacity r \<and>
       (\<forall>i<index. storage r ! ((w + i) mod capacity r) = xs ! i))"

definition reader_ok :: "'a lane_ring \<Rightarrow> 'a reader \<Rightarrow> bool" where
  "reader_ok r p \<longleftrightarrow> (case p of
     Away \<Rightarrow> True
   | ReadLoaded count i \<Rightarrow> i = read_index r
   | Taking count i position samples \<Rightarrow>
       i = read_index r \<and> length samples \<le> count \<and> i + count \<le> write_index r \<and>
       position = (i + length samples) mod capacity r \<and>
       samples = take (length samples) (ring_queue r)
   | SkipLoaded count i \<Rightarrow> i = read_index r
   | Skipping i skipped \<Rightarrow> i = read_index r \<and> i + skipped \<le> write_index r)"

definition rig_ok :: "'a rig \<Rightarrow> bool" where
  "rig_ok s \<longleftrightarrow> ring_ok (shared s) \<and> writer_ok (shared s) (writer s) \<and>
     reader_ok (shared s) (reader s) \<and> sent s = taken s @ ring_queue (shared s)"

lemma rig_okD:
  assumes "rig_ok s"
  shows "ring_ok (shared s)" and "writer_ok (shared s) (writer s)"
    and "reader_ok (shared s) (reader s)" and "sent s = taken s @ ring_queue (shared s)"
  using assms by (simp_all add: rig_ok_def)

lemma copying_okD:
  assumes "writer_ok r (Copying xs w position index)"
  shows "w = write_index r" and "index \<le> length xs" and "w + length xs \<le> read_index r + capacity r"
    and "position = (w + index) mod capacity r"
    and "\<forall>i<index. storage r ! ((w + i) mod capacity r) = xs ! i"
  using assms by (auto simp: writer_ok_def)

lemma taking_okD:
  assumes "reader_ok r (Taking count i position samples)"
  shows "i = read_index r" and "length samples \<le> count" and "i + count \<le> write_index r"
    and "position = (i + length samples) mod capacity r"
    and "samples = take (length samples) (ring_queue r)"
  using assms unfolding reader_ok_def by simp_all

text \<open>A free place written is no queued sample.\<close>

lemma queue_beside_write:
  assumes "ring_ok r" and "write_index r \<le> q" and "q < read_index r + capacity r"
  shows "ring_queue (r\<lparr>storage := (storage r)[q mod capacity r := x]\<rparr>) = ring_queue r"
proof -
  have "i mod capacity r \<noteq> q mod capacity r" if "read_index r \<le> i" "i < write_index r" for i
    using that assms(2,3) by (intro mod_apart) simp_all
  then show ?thesis
    unfolding ring_queue_def by (intro map_cong) (auto simp: nth_list_update_neq[OF not_sym])
qed

lemma copied_so_far:
  assumes "ring_ok r" and "w = write_index r" and "index < length xs"
    and "w + length xs \<le> read_index r + capacity r"
    and "\<forall>i<index. storage r ! ((w + i) mod capacity r) = xs ! i"
  shows "\<forall>i<Suc index. (storage r)[(w + index) mod capacity r := xs ! index] ! ((w + i) mod capacity r) = xs ! i"
proof (intro allI impI)
  note d = ring_okD[OF assms(1)]
  fix i assume i: "i < Suc index"
  show "(storage r)[(w + index) mod capacity r := xs ! index] ! ((w + i) mod capacity r) = xs ! i"
  proof (cases "i = index")
    case True
    then show ?thesis using d(1,3) by simp
  next
    case False
    with i have "i < index" by simp
    moreover from this have "(w + i) mod capacity r \<noteq> (w + index) mod capacity r"
      using assms(2-4) d(4) by (intro mod_apart) simp_all
    ultimately show ?thesis using assms(5) by simp
  qed
qed

lemma queue_published:
  assumes "ring_ok r" and "w = write_index r" and "w + length xs \<le> read_index r + capacity r"
    and "\<forall>i<length xs. storage r ! ((w + i) mod capacity r) = xs ! i"
  shows "ring_queue (r\<lparr>write_index := w + length xs\<rparr>) = ring_queue r @ xs"
proof -
  have "[read_index r..<w + length xs] = [read_index r..<w] @ [w..<w + length xs]"
    using ring_okD(4)[OF assms(1)] assms(2) by (intro upt_add_eq_append) simp
  moreover have "map (\<lambda>i. storage r ! (i mod capacity r)) [w..<w + length xs] = xs"
    using assms(4) by (intro nth_equalityI) simp_all
  ultimately show ?thesis using assms(2) by (simp add: ring_queue_def)
qed

lemma queue_consumed:
  "n \<le> write_index r - read_index r \<Longrightarrow>
     ring_queue (r\<lparr>read_index := read_index r + n\<rparr>) = drop n (ring_queue r)"
  by (simp add: ring_queue_def drop_map drop_upt)

lemma reader_stays:
  assumes "reader_ok r p" and "read_index r' = read_index r" and "capacity r' = capacity r"
    and "write_index r \<le> write_index r'" and "\<exists>xs. ring_queue r' = ring_queue r @ xs"
  shows "reader_ok r' p"
  using assms by (cases p) (auto simp: reader_ok_def)

lemma writer_turn_ok:
  assumes ok: "rig_ok s"
  shows "rig_ok (writer_turn next s)"
proof (cases "writer s")
  case Outside
  then show ?thesis using ok by (auto simp: writer_turn_def rig_ok_def writer_ok_def Let_def)
next
  case (Loaded xs w)
  let ?r = "shared s"
  note d = ring_okD[OF rig_okD(1)[OF ok]]
  have w: "w = write_index ?r" using ok Loaded by (simp add: rig_ok_def writer_ok_def)
  have "reader_ok (record_drop (length xs) ?r) (reader s)"
    using rig_okD(3)[OF ok] by (rule reader_stays) (simp_all add: record_drop_def ring_queue_def)
  moreover have "w + length xs \<le> read_index ?r + capacity ?r"
    if "length xs \<le> capacity ?r - (w - read_index ?r)"
    using that d(4,5) w by linarith
  ultimately show ?thesis
    using ok w d(2) by (simp add: writer_turn_def Loaded Let_def rig_ok_def writer_ok_def)
next
  case (Copying xs w position index)
  let ?r = "shared s"
  note d = ring_okD[OF rig_okD(1)[OF ok]]
  have at: "w = write_index ?r" "index \<le> length xs" "w + length xs \<le> read_index ?r + capacity ?r"
    "position = (w + index) mod capacity ?r"
    "\<forall>i<index. storage ?r ! ((w + i) mod capacity ?r) = xs ! i"
    using copying_okD[OF rig_okD(2)[OF ok, unfolded Copying]] by blast+
  show ?thesis
  proof (cases "index < length xs")
    case True
    let ?n = "?r\<lparr>storage := (storage ?r)[position := xs ! index]\<rparr>"
    have queue: "ring_queue ?n = ring_queue ?r"
      unfolding at(4) using queue_beside_write[OF rig_okD(1)[OF ok]] at(1,3) True by simp
    have "ring_ok ?n" using rig_okD(1)[OF ok] by (simp add: ring_ok_def)
    moreover have "writer_ok ?n (Copying xs w ((position + 1) AND mask ?r) (index + 1))"
      using copied_so_far[OF rig_okD(1)[OF ok] at(1) True at(3,5)] True at(1-4) d(2)
      by (simp add: writer_ok_def mod_Suc_eq)
    moreover have "reader_ok ?n (reader s)"
      using rig_okD(3)[OF ok] by (rule reader_stays) (simp_all add: queue)
    ultimately show ?thesis
      using rig_okD(4)[OF ok] True queue by (simp add: writer_turn_def Copying Let_def rig_ok_def)
  next
    case False
    let ?n = "?r\<lparr>write_index := w + length xs\<rparr>"
    have queue: "ring_queue ?n = ring_queue ?r @ xs"
      using queue_published[OF rig_okD(1)[OF ok] at(1,3)] at(5) False by simp
    have "ring_ok ?n" using rig_okD(1)[OF ok] at(1,3) by (auto simp: ring_ok_def)
    moreover have "reader_ok ?n (reader s)"
      using rig_okD(3)[OF ok] by (rule reader_stays) (use queue at(1) in simp_all)
    ultimately show ?thesis
      using rig_okD(4)[OF ok] False queue
      by (simp add: writer_turn_def Copying Let_def rig_ok_def writer_ok_def)
  qed
qed

lemma writer_stays:
  assumes "writer_ok r p" and "read_index r \<le> n"
  shows "writer_ok (r\<lparr>read_index := n\<rparr>) p"
  using assms by (cases p) (auto simp: writer_ok_def)

text \<open>The consumer's index moves past samples it has copied or skips.\<close>

lemma consumed_ok:
  assumes ok: "rig_ok s" and "n \<le> write_index (shared s) - read_index (shared s)"
  shows "rig_ok (s\<lparr>reader := Away, shared := (shared s)\<lparr>read_index := read_index (shared s) + n\<rparr>,
                  taken := taken s @ take n (ring_queue (shared s))\<rparr>)"
proof -
  let ?r = "shared s"
  have "ring_ok (?r\<lparr>read_index := read_index ?r + n\<rparr>)"
    using rig_okD(1)[OF ok] assms(2) by (auto simp: ring_ok_def)
  moreover have "writer_ok (?r\<lparr>read_index := read_index ?r + n\<rparr>) (writer s)"
    using rig_okD(2)[OF ok] by (rule writer_stays) simp
  ultimately show ?thesis
    using rig_okD(4)[OF ok] queue_consumed[OF assms(2)] by (simp add: rig_ok_def reader_ok_def)
qed

lemma reader_turn_ok:
  assumes ok: "rig_ok s" and begins: "reader s = Away \<Longrightarrow> rig_ok (next s)"
  shows "rig_ok (reader_turn next s)"
proof (cases "reader s")
  case Away
  then show ?thesis using begins by (simp add: reader_turn_def Let_def)
next
  case (ReadLoaded count i)
  then show ?thesis
    using ok ring_okD(2,4)[OF rig_okD(1)[OF ok]]
    by (auto simp: reader_turn_def rig_ok_def reader_ok_def Let_def)
next
  case (Taking count i position samples)
  let ?r = "shared s"
  note d = ring_okD[OF rig_okD(1)[OF ok]]
  have at: "i = read_index ?r" "length samples \<le> count" "i + count \<le> write_index ?r"
    "position = (i + length samples) mod capacity ?r" "samples = take (length samples) (ring_queue ?r)"
    using taking_okD[OF rig_okD(3)[OF ok, unfolded Taking]] by blast+
  show ?thesis
  proof (cases "length samples < count")
    case True
    have "storage ?r ! position = ring_queue ?r ! length samples"
      using True at(1,3,4) by (simp add: ring_queue_def nth_upt less_diff_conv)
    then have "samples @ [storage ?r ! position] = take (Suc (length samples)) (ring_queue ?r)"
      using True at(1,3,5) by (simp add: take_Suc_conv_app_nth)
    then show ?thesis
      using ok True at(1-4) d(2)
      by (simp add: reader_turn_def Taking Let_def rig_ok_def reader_ok_def mod_Suc_eq)
  next
    case False
    then have "count = length samples" using at(2) by simp
    then show ?thesis
      using consumed_ok[OF ok, of count] at(1,3,5) False
      by (simp add: reader_turn_def Taking Let_def)
  qed
next
  case (SkipLoaded count i)
  then show ?thesis
    using ok ring_okD(4)[OF rig_okD(1)[OF ok]]
    by (auto simp: reader_turn_def rig_ok_def reader_ok_def Let_def)
next
  case (Skipping i skipped)
  then have "i = read_index (shared s)" "i + skipped \<le> write_index (shared s)"
    using rig_okD(3)[OF ok] by (simp_all add: reader_ok_def)
  then show ?thesis
    using consumed_ok[OF ok, of skipped] by (simp add: reader_turn_def Skipping Let_def)
qed

lemma begin_turn_ok:
  assumes "rig_ok s"
  shows "rig_ok (begin_reading n s)" and "rig_ok (begin_skipping n s)"
  using assms by (simp_all add: begin_reading_def begin_skipping_def rig_ok_def reader_ok_def)

lemma take_turn_ok:
  assumes "rig_ok s"
  shows "rig_ok (take_turn t s)"
proof (cases t)
  case (Writer xs)
  then show ?thesis using writer_turn_ok[OF assms] by simp
next
  case (Reader n)
  then show ?thesis
    using reader_turn_ok[of s "begin_reading n", OF assms begin_turn_ok(1)[OF assms]] by simp
next
  case (Skipper n)
  then show ?thesis
    using reader_turn_ok[of s "begin_skipping n", OF assms begin_turn_ok(2)[OF assms]] by simp
qed

lemma turns_ok: "rig_ok s \<Longrightarrow> rig_ok (turns ts s)"
  unfolding turns_def by (induction ts arbitrary: s) (simp_all add: take_turn_ok)

lemma take_turn_capacity: "capacity (shared (take_turn t s)) = capacity (shared s)"
  by (cases t; cases "writer s"; cases "reader s")
    (simp_all add: writer_turn_def reader_turn_def begin_reading_def begin_skipping_def Let_def
      record_drop_def)

lemma turns_capacity: "capacity (shared (turns ts s)) = capacity (shared s)"
  unfolding turns_def by (induction ts arbitrary: s) (simp_all add: take_turn_capacity)

lemma new_rig_ok: "rig_ok (new_rig zero cap)"
  by (simp add: new_rig_def rig_ok_def writer_ok_def reader_ok_def new_ring_ok)
    (simp add: ring_queue_def new_ring_def Let_def)

lemma no_shared_position:
  assumes ok: "rig_ok s" and "writing_at s = Some p" and "reading_at s = Some q"
  shows "p \<noteq> q"
proof -
  let ?r = "shared s"
  obtain xs w index where p: "writer s = Copying xs w p index" "index < length xs"
    using assms(2) by (auto simp: writing_at_def split: writer.splits if_splits)
  obtain count i samples where q: "reader s = Taking count i q samples" "length samples < count"
    using assms(3) by (auto simp: reading_at_def split: reader.splits if_splits)
  have "p = (w + index) mod capacity ?r" "w = write_index ?r" "w + length xs \<le> read_index ?r + capacity ?r"
    using rig_okD(2)[OF ok] p by (simp_all add: writer_ok_def)
  moreover have "q = (i + length samples) mod capacity ?r" "i = read_index ?r" "i + count \<le> write_index ?r"
    using rig_okD(3)[OF ok] q by (simp_all add: reader_ok_def)
  moreover have "(i + length samples) mod capacity ?r \<noteq> (w + index) mod capacity ?r"
    using calculation p(2) q(2) by (intro mod_apart) simp_all
  ultimately show ?thesis by simp
qed

section \<open>Properties of the ring\<close>

text \<open>
  C12: whatever the order in which the producer's and the consumer's steps fall, the consumer has
  read or skipped, in order, a prefix of the samples the producer published, the rest of which is
  queued; no more than the capacity is queued; and the two are never about to touch one position.
\<close>

theorem ring_hands_over_in_order:
  "let s = turns ts (new_rig zero cap); r = shared s
   in sent s = taken s @ ring_queue r \<and> available_to_read r \<le> capacity r \<and> cap \<le> capacity r \<and>
      \<not> (\<exists>p. writing_at s = Some p \<and> reading_at s = Some p)"
proof -
  let ?s = "turns ts (new_rig zero cap)"
  have ok: "rig_ok ?s" by (intro turns_ok new_rig_ok)
  have "available_to_read (shared ?s) \<le> capacity (shared ?s)"
    using ring_okD(5)[OF rig_okD(1)[OF ok]] by (simp add: available_to_read_def)
  moreover have "cap \<le> capacity (shared ?s)"
    using new_ring_room[where zero = zero] by (simp add: turns_capacity new_rig_def)
  ultimately show ?thesis
    using rig_okD(4)[OF ok] no_shared_position[OF ok] unfolding Let_def by blast
qed

end
