(* ===== verification/Cycle_Clock.thy ===== *)
theory Cycle_Clock
  imports Lane_Ring
begin

text \<open>
  \<open>steno-audio/src/realtime/missed.rs\<close>: how a capture thread reads from its clock the audio it
  missed. Positions are 64-bit words and wrap; frame counts are numbers that stop at \<open>u64::MAX\<close> or
  \<open>usize::MAX\<close>, as \<open>saturating_add\<close> and the \<open>try_from\<close>s do. A sample rate that is no finite number
  is \<open>None\<close>.
\<close>

section \<open>The clock\<close>

type_synonym tick = "64 word"

record missed =
  fill :: nat
  missed_unfilled :: nat

definition no_missed :: missed where
  "no_missed = \<lparr>fill = 0, missed_unfilled = 0\<rparr>"

definition is_none :: "missed \<Rightarrow> bool" where
  "is_none m \<longleftrightarrow> fill m = 0 \<and> missed_unfilled m = 0"

definition of_jump :: "nat \<Rightarrow> nat \<Rightarrow> nat \<Rightarrow> missed" where
  "of_jump gap before limit =
     (if before = 0 \<or> gap \<le> before div 2 then no_missed
      else let frames = min gap usize_max
           in if gap \<le> limit then \<lparr>fill = frames, missed_unfilled = 0\<rparr>
              else \<lparr>fill = 0, missed_unfilled = frames\<rparr>)"

record ratio =
  ratio_frames :: nat
  ratio_ticks :: nat

definition ratio_one :: ratio where
  "ratio_one = \<lparr>ratio_frames = 1, ratio_ticks = 1\<rparr>"

text \<open>The product and the sum fit the \<open>u128\<close> they are formed in.\<close>

definition ratio_read :: "ratio \<Rightarrow> nat \<Rightarrow> nat" where
  "ratio_read q ticks =
     (if ratio_ticks q = 0 then 0
      else min usize_max ((ticks * ratio_frames q + ratio_ticks q div 2) div ratio_ticks q))"

record cycle_clock =
  scale :: ratio
  fill_limit :: nat
  origin :: "tick option"
  delivered_end :: nat
  last_frames :: nat

definition missed_fill_limit_seconds :: nat where
  "missed_fill_limit_seconds = 1"

text \<open>The cast stops at \<open>usize::MAX\<close>.\<close>

definition new_clock :: "rat option \<Rightarrow> cycle_clock" where
  "new_clock sample_rate =
     \<lparr>scale = ratio_one,
      fill_limit = (case sample_rate of
          Some rate \<Rightarrow>
            if rate > 0 then min usize_max (nat \<lfloor>rate * of_nat missed_fill_limit_seconds\<rfloor>) else 0
        | None \<Rightarrow> 0),
      origin = None, delivered_end = 0, last_frames = 0\<rparr>"

definition clock_reset :: "cycle_clock \<Rightarrow> cycle_clock" where
  "clock_reset c = c\<lparr>origin := None\<rparr>"

definition rescale :: "nat \<Rightarrow> nat \<Rightarrow> cycle_clock \<Rightarrow> cycle_clock" where
  "rescale frames ticks c =
     (let q = \<lparr>ratio_frames = frames, ratio_ticks = ticks\<rparr>
      in if frames = 0 \<or> ticks = 0 \<or> q = scale c then c else clock_reset (c\<lparr>scale := q\<rparr>))"

definition abs_diff :: "nat \<Rightarrow> nat \<Rightarrow> nat" where
  "abs_diff a b = (a - b) + (b - a)"

definition resized :: "nat \<Rightarrow> cycle_clock \<Rightarrow> bool" where
  "resized frames c \<longleftrightarrow>
     origin c \<noteq> None \<and> min usize_max (abs_diff (last_frames c) frames * 8) > last_frames c"

definition place :: "cycle_clock \<Rightarrow> tick \<Rightarrow> nat option" where
  "place c position =
     (case origin c of
        None \<Rightarrow> None
      | Some start \<Rightarrow>
          let since = unat (position - start)
          in if since \<le> (2 ^ 64 - 1) div 2 then Some (ratio_read (scale c) since) else None)"

definition jump :: "cycle_clock \<Rightarrow> nat \<Rightarrow> nat \<Rightarrow> missed" where
  "jump c gap before = of_jump gap before (fill_limit c)"

definition advance :: "tick \<Rightarrow> nat \<Rightarrow> cycle_clock \<Rightarrow> cycle_clock \<times> missed" where
  "advance position frames c0 =
     (let before = last_frames c0; c = c0\<lparr>last_frames := frames\<rparr>
      in case place c position of
           None \<Rightarrow> (c\<lparr>origin := Some position, delivered_end := frames\<rparr>, no_missed)
         | Some p \<Rightarrow>
             let (c', missed) =
               (if p > delivered_end c
                then (c\<lparr>delivered_end := p\<rparr>, jump c (p - delivered_end c) before)
                else if delivered_end c - p > fill_limit c
                then (c\<lparr>origin := Some position, delivered_end := 0\<rparr>, no_missed)
                else (c, no_missed))
             in (c'\<lparr>delivered_end := saturating_add (delivered_end c') frames\<rparr>, missed))"

definition missed_until :: "cycle_clock \<Rightarrow> tick \<Rightarrow> missed" where
  "missed_until c position =
     (case place c position of
        None \<Rightarrow> no_missed
      | Some p \<Rightarrow>
          let in_flight = saturating_add (delivered_end c) (last_frames c)
          in if p \<le> in_flight then no_missed else jump c (p - in_flight) (last_frames c))"

text \<open>A stream's callbacks, and what each was told it missed.\<close>

fun run_clock :: "(tick \<times> nat) list \<Rightarrow> cycle_clock \<Rightarrow> cycle_clock \<times> missed list" where
  "run_clock [] c = (c, [])"
| "run_clock ((position, frames) # cs) c =
     (let (c, m) = advance position frames c; (c, ms) = run_clock cs c in (c, m # ms))"

section \<open>Facts\<close>

lemma of_jump_sum:
  assumes "gap \<le> usize_max"
  shows "of_jump gap before limit = no_missed \<and> (before = 0 \<or> 2 * gap \<le> before) \<or>
    fill (of_jump gap before limit) + missed_unfilled (of_jump gap before limit) = gap"
  using assms by (auto simp: of_jump_def no_missed_def Let_def)

lemma of_jump_limit: "fill (of_jump gap before limit) \<le> limit"
  by (auto simp: of_jump_def no_missed_def Let_def)

lemma of_jump_one_kind: "fill (of_jump gap before limit) = 0 \<or> missed_unfilled (of_jump gap before limit) = 0"
  by (simp add: of_jump_def no_missed_def Let_def)

lemma ratio_read_bound: "ratio_read q n \<le> usize_max"
  by (simp add: ratio_read_def)

lemma ratio_read_one: "n \<le> usize_max \<Longrightarrow> ratio_read ratio_one n = n"
  by (simp add: ratio_read_def ratio_one_def)

lemma place_bound: "place c position = Some p \<Longrightarrow> p \<le> usize_max"
  by (auto simp: place_def Let_def ratio_read_bound split: option.splits if_splits)

text \<open>A callback on the clock's side of the end that it continues: not a clock that went back.\<close>

definition follows :: "cycle_clock \<Rightarrow> tick \<times> nat \<Rightarrow> bool" where
  "follows c cycle \<longleftrightarrow> 0 < snd cycle \<and>
     (case place c (fst cycle) of
        None \<Rightarrow> False
      | Some p \<Rightarrow> delivered_end c \<le> p + fill_limit c \<and> max p (delivered_end c) + snd cycle \<le> usize_max)"

fun steady :: "(tick \<times> nat) list \<Rightarrow> cycle_clock \<Rightarrow> bool" where
  "steady [] c \<longleftrightarrow> True"
| "steady (cycle # cs) c \<longleftrightarrow> follows c cycle \<and> steady cs (fst (advance (fst cycle) (snd cycle) c))"

text \<open>What one callback moves the end by: its frames, what it was told it missed, and what was too
  little to be told.\<close>

lemma advance_steady:
  assumes "follows c (position, frames)" and "0 < last_frames c" and "advance position frames c = (c', m)"
  shows "\<exists>slack. delivered_end c' = delivered_end c + frames + fill m + missed_unfilled m + slack \<and>
      2 * slack \<le> last_frames c"
    and "last_frames c' = frames" and "fill_limit c' = fill_limit c"
proof -
  from assms(1) obtain p where p: "place c position = Some p" "delivered_end c \<le> p + fill_limit c"
    "max p (delivered_end c) + frames \<le> usize_max"
    by (auto simp: follows_def split: option.splits)
  have place: "place (c\<lparr>last_frames := frames\<rparr>) position = Some p"
    using p(1) by (cases "origin c") (simp_all add: place_def Let_def split: if_splits)
  let ?j = "jump c (p - delivered_end c) (last_frames c)"
  have jump: "jump (c\<lparr>last_frames := frames\<rparr>) = jump c" by (auto simp: jump_def fun_eq_iff)
  have result: "(c', m) =
      (if delivered_end c < p
       then (c\<lparr>last_frames := frames, delivered_end := p + frames\<rparr>, ?j)
       else (c\<lparr>last_frames := frames, delivered_end := delivered_end c + frames\<rparr>, no_missed))"
  proof -
    have "\<not> fill_limit c < delivered_end c - p" using p(2) by simp
    then show ?thesis
      using assms(3) p(3) unfolding advance_def Let_def place
      by (auto simp: jump saturating_add_def)
  qed
  then show "last_frames c' = frames" and "fill_limit c' = fill_limit c"
    by (auto split: if_splits)
  show "\<exists>slack. delivered_end c' = delivered_end c + frames + fill m + missed_unfilled m + slack \<and>
      2 * slack \<le> last_frames c"
  proof (cases "delivered_end c < p")
    case True
    then have c: "delivered_end c' = p + frames" and m: "m = ?j" using result by auto
    consider "?j = no_missed" "2 * (p - delivered_end c) \<le> last_frames c"
      | "fill ?j + missed_unfilled ?j = p - delivered_end c"
      using of_jump_sum[OF order_trans[OF diff_le_self place_bound[OF p(1)]],
          of "delivered_end c" "last_frames c" "fill_limit c"] assms(2)
      unfolding jump_def by auto
    then show ?thesis
    proof cases
      case 1
      then show ?thesis using True c m
        by (intro exI[of _ "p - delivered_end c"]) (simp add: no_missed_def)
    next
      case 2
      then show ?thesis using True c m by (intro exI[of _ 0]) simp
    qed
  next
    case False
    then show ?thesis using result by (auto simp: no_missed_def)
  qed
qed

definition frames_missed :: "missed list \<Rightarrow> nat" where
  "frames_missed ms = sum_list (map (\<lambda>m. fill m + missed_unfilled m) ms)"

lemma run_clock_steady:
  assumes "steady cs c" and "0 < last_frames c"
  shows "\<exists>slack. delivered_end (fst (run_clock cs c)) =
      delivered_end c + sum_list (map snd cs) + frames_missed (snd (run_clock cs c)) + slack \<and>
    2 * slack \<le> last_frames c + sum_list (map snd (butlast cs))"
  using assms
proof (induction cs arbitrary: c)
  case Nil
  then show ?case by (simp add: frames_missed_def)
next
  case (Cons cycle cs)
  obtain position frames where cycle: "cycle = (position, frames)" by (cases cycle)
  obtain c' m where step: "advance position frames c = (c', m)" by (cases "advance position frames c")
  from Cons.prems cycle step have here: "follows c (position, frames)" and later: "steady cs c'" by auto
  note one = advance_steady[OF here Cons.prems(2) step]
  from one(1) obtain s1 where s1: "delivered_end c' = delivered_end c + frames + fill m + missed_unfilled m + s1"
    "2 * s1 \<le> last_frames c" by blast
  have "0 < last_frames c'" using here one(2) by (simp add: follows_def)
  from Cons.IH[OF later this] obtain s2 where s2: "delivered_end (fst (run_clock cs c')) =
      delivered_end c' + sum_list (map snd cs) + frames_missed (snd (run_clock cs c')) + s2"
    "2 * s2 \<le> last_frames c' + sum_list (map snd (butlast cs))" by blast
  show ?case
  proof (cases "cs = []")
    case True
    then show ?thesis using s1 cycle step
      by (intro exI[of _ s1]) (simp add: frames_missed_def)
  next
    case False
    then show ?thesis using s1 s2 cycle step one(2)
      by (intro exI[of _ "s1 + s2"]) (simp add: frames_missed_def split_beta Let_def)
  qed
qed

text \<open>Where the positions start does not matter.\<close>

definition shifted :: "tick \<Rightarrow> cycle_clock \<Rightarrow> cycle_clock" where
  "shifted d c = c\<lparr>origin := map_option (\<lambda>start. start + d) (origin c)\<rparr>"

lemma advance_shifted:
  "advance (position + d) frames (shifted d c) =
     (let (c', m) = advance position frames c in (shifted d c', m))"
proof -
  have "place (shifted d c\<lparr>last_frames := frames\<rparr>) (position + d) = place (c\<lparr>last_frames := frames\<rparr>) position"
    by (cases "origin c") (simp_all add: place_def shifted_def Let_def)
  moreover have "jump (shifted d c\<lparr>last_frames := frames\<rparr>) = jump (c\<lparr>last_frames := frames\<rparr>)"
    by (auto simp: jump_def shifted_def fun_eq_iff)
  ultimately show ?thesis
    unfolding advance_def Let_def
    by (auto simp: shifted_def split: option.splits if_splits)
qed

lemma run_clock_shifted:
  "run_clock (map (\<lambda>(position, frames). (position + d, frames)) cs) (shifted d c) =
     (let (c', ms) = run_clock cs c in (shifted d c', ms))"
  by (induction cs arbitrary: c) (auto simp: split_beta Let_def advance_shifted)

end
