(* ===== verification/Capture_Sink.thy ===== *)
theory Capture_Sink
  imports Cycle_Clock
begin

text \<open>
  \<open>steno-audio/src/realtime/sink.rs\<close>, \<open>relay.rs\<close> and \<open>io_proc.rs\<close> with \<open>capture/layout.rs\<close>: the
  rings as a capture backend writes them, one block per callback on every lane or on none; the
  hand-off to the writer thread; where a callback's buffers hold each lane; and the body of the
  callback. A pointer to samples is the list that starts there.
\<close>

section \<open>The sink\<close>

datatype audio_lane = Mic | System | Mixed

record 'a frame_sink =
  lanes :: "audio_lane list"
  sink_rings :: "'a lane_rings"
  device_change_reported :: bool
  pending_frames :: nat
  frames_offered :: nat
  started :: bool
  before_first :: "nat list"

text \<open>\<open>cap\<close> is the rate times the seconds of headroom, in whole samples.\<close>

definition new_sink :: "'a \<Rightarrow> audio_lane list \<Rightarrow> nat \<Rightarrow> 'a frame_sink" where
  "new_sink zero ls cap =
     \<lparr>lanes = ls, sink_rings = new_rings zero (length ls) cap, device_change_reported = False,
      pending_frames = 0, frames_offered = 0, started = False, before_first = map (\<lambda>_. 0) ls\<rparr>"

definition on_lane :: "nat \<Rightarrow> ('a lane_ring \<Rightarrow> 'a lane_ring) \<Rightarrow> 'a frame_sink \<Rightarrow> 'a frame_sink" where
  "on_lane lane f s = s\<lparr>sink_rings := on_ring lane f (sink_rings s)\<rparr>"

definition begin_callback :: "nat \<Rightarrow> 'a frame_sink \<Rightarrow> 'a frame_sink \<times> bool" where
  "begin_callback frames s =
     (let s = s\<lparr>frames_offered := (frames_offered s + frames) mod 2 ^ 64\<rparr>
      in case rings_reserve frames (sink_rings s) of
           (l, False) \<Rightarrow> (s\<lparr>sink_rings := l\<rparr>, False)
         | (l, True) \<Rightarrow> (s\<lparr>sink_rings := l, pending_frames := frames\<rparr>, True))"

definition sink_write :: "nat \<Rightarrow> 'a list \<Rightarrow> nat \<Rightarrow> 'a frame_sink \<Rightarrow> 'a frame_sink" where
  "sink_write lane source step s =
     on_lane lane (\<lambda>r. fst (ring_write source (pending_frames s) step r)) s"

definition sink_write_slice :: "nat \<Rightarrow> 'a list \<Rightarrow> 'a frame_sink \<Rightarrow> 'a frame_sink" where
  "sink_write_slice lane source s =
     on_lane lane (\<lambda>r. fst (write_slice (take (pending_frames s) source) r)) s"

definition sink_write_mixed ::
  "('a \<Rightarrow> 'a \<Rightarrow> 'a) \<Rightarrow> nat \<Rightarrow> 'a list \<Rightarrow> 'a list \<Rightarrow> nat \<Rightarrow> nat \<Rightarrow> 'a frame_sink \<Rightarrow> 'a frame_sink"
where
  "sink_write_mixed midpoint lane left right left_stride right_stride s =
     on_lane lane
       (\<lambda>r. fst (write_mixed midpoint left right (pending_frames s) left_stride right_stride r)) s"

definition write_silence :: "'a \<Rightarrow> nat \<Rightarrow> 'a frame_sink \<Rightarrow> 'a frame_sink" where
  "write_silence zero lane s = on_lane lane (\<lambda>r. fst (write_zeros zero (pending_frames s) r)) s"

definition end_callback :: "'a frame_sink \<Rightarrow> 'a frame_sink" where
  "end_callback s = s\<lparr>sink_rings := commit (sink_rings s)\<rparr>"

definition fill_missed :: "'a \<Rightarrow> nat \<Rightarrow> 'a frame_sink \<Rightarrow> 'a frame_sink \<times> bool" where
  "fill_missed zero frames s =
     (if frames = 0 then (s, False)
      else case begin_callback frames s of
             (s, False) \<Rightarrow> (s, False)
           | (s, True) \<Rightarrow>
               (end_callback
                  (fold (\<lambda>lane s. on_lane lane (record_filled frames) (write_silence zero lane s))
                     [0..<length (lanes s)] s), True))"

definition write_missed :: "'a \<Rightarrow> missed \<Rightarrow> 'a frame_sink \<Rightarrow> 'a frame_sink" where
  "write_missed zero m s =
     (let (s, _) = fill_missed zero (fill m) s
      in if missed_unfilled m > 0
         then fold (\<lambda>lane. on_lane lane (record_unfilled (missed_unfilled m))) [0..<length (lanes s)] s
         else s)"

definition report_device_change :: "'a frame_sink \<Rightarrow> 'a frame_sink \<times> bool" where
  "report_device_change s = (s\<lparr>device_change_reported := True\<rparr>, \<not> device_change_reported s)"

definition rearm_device_change :: "'a frame_sink \<Rightarrow> 'a frame_sink" where
  "rearm_device_change s = s\<lparr>device_change_reported := False\<rparr>"

definition first_start :: "'a frame_sink \<Rightarrow> 'a frame_sink \<times> bool" where
  "first_start s = (s\<lparr>started := True\<rparr>, \<not> started s)"

definition count_before_first :: "nat \<Rightarrow> (nat \<times> nat) option \<Rightarrow> 'a frame_sink \<Rightarrow> 'a frame_sink" where
  "count_before_first master follower s =
     s\<lparr>before_first := map (\<lambda>(lane, count).
         (count + (case follower of
                     Some (index, frames) \<Rightarrow> if index = lane then frames else master
                   | None \<Rightarrow> master)) mod 2 ^ 64) (enumerate 0 (before_first s))\<rparr>"

text \<open>A later pair for a lane replaces an earlier one, as the \<open>BTreeMap\<close>'s \<open>collect\<close> does.\<close>

definition by_lane :: "'a frame_sink \<Rightarrow> nat list \<Rightarrow> audio_lane \<rightharpoonup> nat" where
  "by_lane s counts = map_of (rev (filter (\<lambda>(lane, count). count > 0) (zip (lanes s) counts)))"

definition dropped_samples :: "'a frame_sink \<Rightarrow> audio_lane \<rightharpoonup> nat" where
  "dropped_samples s = by_lane s (map dropped (rings (sink_rings s)))"

definition filled_samples :: "'a frame_sink \<Rightarrow> audio_lane \<rightharpoonup> nat" where
  "filled_samples s = by_lane s (map filled (rings (sink_rings s)))"

definition unfilled_samples :: "'a frame_sink \<Rightarrow> audio_lane \<rightharpoonup> nat" where
  "unfilled_samples s = by_lane s (map unfilled (rings (sink_rings s)))"

definition before_first_samples :: "'a frame_sink \<Rightarrow> audio_lane \<rightharpoonup> nat" where
  "before_first_samples s = by_lane s (before_first s)"

definition sink_clear :: "'a \<Rightarrow> 'a frame_sink \<Rightarrow> 'a frame_sink" where
  "sink_clear zero s =
     s\<lparr>sink_rings := rings_clear zero (sink_rings s), before_first := map (\<lambda>_. 0) (before_first s)\<rparr>"

section \<open>The hand-off to the writer\<close>

record 'a frame_relay =
  relay_channels :: nat
  frame_size :: nat
  relay_rings :: "'a lane_rings"
  capacity_frames :: nat

definition new_relay :: "'a \<Rightarrow> nat \<Rightarrow> nat \<Rightarrow> nat \<Rightarrow> 'a frame_relay" where
  "new_relay zero count width frames =
     \<lparr>relay_channels = count, frame_size = width,
      relay_rings = new_rings zero count (width * frames), capacity_frames = frames\<rparr>"

definition relay_has_room :: "'a frame_relay \<Rightarrow> bool" where
  "relay_has_room f \<longleftrightarrow> rings_have_room (frame_size f) (relay_rings f)"

definition begin_frame :: "'a frame_relay \<Rightarrow> 'a frame_relay \<times> bool" where
  "begin_frame f =
     (let (l, fits) = rings_reserve (frame_size f) (relay_rings f)
      in (f\<lparr>relay_rings := l\<rparr>, fits))"

definition relay_write :: "nat \<Rightarrow> 'a list \<Rightarrow> 'a frame_relay \<Rightarrow> 'a frame_relay" where
  "relay_write channel source f =
     f\<lparr>relay_rings := on_ring channel (\<lambda>r. fst (write_slice (take (frame_size f) source) r))
         (relay_rings f)\<rparr>"

definition end_frame :: "'a frame_relay \<Rightarrow> 'a frame_relay" where
  "end_frame f = f\<lparr>relay_rings := commit (relay_rings f)\<rparr>"

definition available_frames :: "'a frame_relay \<Rightarrow> nat" where
  "available_frames f = rings_available_to_read (relay_rings f) div frame_size f"

definition relay_read :: "nat \<Rightarrow> 'a frame_relay \<Rightarrow> 'a frame_relay \<times> 'a list option" where
  "relay_read channel f =
     (let (r, got) = ring_read (frame_size f) (rings (relay_rings f) ! channel)
      in (f\<lparr>relay_rings := on_ring channel (\<lambda>_. r) (relay_rings f)\<rparr>, got))"

definition dropped_frames :: "'a frame_relay \<Rightarrow> nat list" where
  "dropped_frames f = map (\<lambda>r. dropped r div frame_size f) (rings (relay_rings f))"

section \<open>Where the buffers hold each lane\<close>

record channel_ref =
  buffer_index :: nat
  offset :: nat
  stride :: nat

record lane_source =
  source_lane :: audio_lane
  left :: channel_ref
  right :: "channel_ref option"

record stream_layout =
  sources :: "lane_source list"
  tap_first :: bool

definition channel_at :: "nat \<Rightarrow> nat \<Rightarrow> nat \<Rightarrow> channel_ref" where
  "channel_at b o' n = \<lparr>buffer_index = b, offset = o', stride = n\<rparr>"

text \<open>\<open>None\<close> is \<open>CaptureError::UnexpectedStreamLayout\<close>.\<close>

definition resolve_lane ::
  "nat \<Rightarrow> nat \<Rightarrow> nat list list \<Rightarrow> nat list \<Rightarrow> nat option \<Rightarrow> audio_lane \<Rightarrow> lane_source option"
where
  "resolve_lane tap_offset sub_device_offset sub_devices tap mic lane =
     (case lane of
        System \<Rightarrow>
          (case tap of
             [] \<Rightarrow> None
           | n # _ \<Rightarrow>
               Some \<lparr>source_lane = lane, left = channel_at tap_offset 0 n,
                     right = (if n \<ge> 2 then Some (channel_at tap_offset 1 n)
                              else if length tap \<ge> 2 then Some (channel_at (tap_offset + 1) 0 1)
                              else None)\<rparr>)
      | _ \<Rightarrow>
          (case mic of
             None \<Rightarrow> None
           | Some index \<Rightarrow>
               if index < length sub_devices
               then (case sub_devices ! index of
                       [] \<Rightarrow> None
                     | n # _ \<Rightarrow>
                         Some \<lparr>source_lane = lane,
                               left = channel_at
                                 (sub_device_offset + sum_list (map length (take index sub_devices))) 0 n,
                               right = None\<rparr>)
               else None))"

definition resolve_layout ::
  "audio_lane list \<Rightarrow> nat list \<Rightarrow> nat list list \<Rightarrow> nat list \<Rightarrow> nat option \<Rightarrow> stream_layout option"
where
  "resolve_layout ls aggregate sub_devices tap mic =
     (let flat = concat sub_devices
      in case (if aggregate = flat @ tap then Some False
               else if aggregate = tap @ flat then Some True else None) of
           None \<Rightarrow> None
         | Some first \<Rightarrow>
             let tap_offset = if first then 0 else length flat;
                 sub_device_offset = if first then length tap else 0
             in map_option (\<lambda>found. \<lparr>sources = found, tap_first = first\<rparr>)
                  (those (map (resolve_lane tap_offset sub_device_offset sub_devices tap mic) ls)))"

section \<open>The body of the callback\<close>

record 'a buffer_view =
  channels :: nat
  data :: "'a list option"
  byte_size :: nat

definition float_size :: nat where "float_size = 4"

definition samples :: "channel_ref \<Rightarrow> 'a buffer_view list \<Rightarrow> nat \<Rightarrow> 'a list option" where
  "samples channel buffers frames =
     (if buffer_index channel < length buffers then
        let b = buffers ! buffer_index channel
        in case data b of
             None \<Rightarrow> None
           | Some first \<Rightarrow>
               if offset channel \<ge> channels b \<or> stride channel \<noteq> channels b \<or>
                  byte_size b < frames * channels b * float_size
               then None else Some (drop (offset channel) first)
      else None)"

fun callback_frames :: "'a buffer_view list \<Rightarrow> lane_source list \<Rightarrow> nat" where
  "callback_frames buffers [] = 0"
| "callback_frames buffers (source # rest) =
     (let i = buffer_index (left source)
      in if i < length buffers \<and> channels (buffers ! i) > 0 \<and>
            byte_size (buffers ! i) div (channels (buffers ! i) * float_size) > 0
         then byte_size (buffers ! i) div (channels (buffers ! i) * float_size)
         else callback_frames buffers rest)"

definition deliver_lane ::
  "('a \<Rightarrow> 'a \<Rightarrow> 'a) \<Rightarrow> 'a \<Rightarrow> 'a buffer_view list \<Rightarrow> nat \<Rightarrow> nat \<times> lane_source \<Rightarrow> 'a frame_sink \<Rightarrow> 'a frame_sink"
where
  "deliver_lane midpoint zero buffers frames = (\<lambda>(lane, source) s.
     case samples (left source) buffers frames of
       None \<Rightarrow> write_silence zero lane s
     | Some l \<Rightarrow>
         case (case right source of
                 None \<Rightarrow> None
               | Some c \<Rightarrow> map_option (\<lambda>p. (p, stride c)) (samples c buffers frames)) of
           Some (r, right_stride) \<Rightarrow>
             sink_write_mixed midpoint lane l r (stride (left source)) right_stride s
         | None \<Rightarrow> sink_write lane l (stride (left source)) s)"

definition deliver ::
  "('a \<Rightarrow> 'a \<Rightarrow> 'a) \<Rightarrow> 'a \<Rightarrow> 'a buffer_view list \<Rightarrow> lane_source list \<Rightarrow> 'a frame_sink \<Rightarrow> 'a frame_sink \<times> bool"
where
  "deliver midpoint zero buffers ss s =
     (let frames = callback_frames buffers ss
      in if frames = 0 then (s, False)
         else case begin_callback frames s of
                (s, False) \<Rightarrow> (s, False)
              | (s, True) \<Rightarrow>
                  (end_callback (fold (deliver_lane midpoint zero buffers frames) (enumerate 0 ss) s), True))"

record 'a slice_view =
  slice_channels :: nat
  slice_frames :: nat
  slice_samples :: "'a list option"

definition max_slice_buffers :: nat where "max_slice_buffers = 4"

definition view_of_slice :: "'a slice_view \<Rightarrow> 'a buffer_view" where
  "view_of_slice b =
     (let wanted = slice_frames b * slice_channels b
      in \<lparr>channels = slice_channels b,
          data = (case slice_samples b of
                    None \<Rightarrow> None
                  | Some xs \<Rightarrow> if length xs \<ge> wanted then Some xs else None),
          byte_size = wanted * float_size\<rparr>)"

definition deliver_slices ::
  "('a \<Rightarrow> 'a \<Rightarrow> 'a) \<Rightarrow> 'a \<Rightarrow> 'a slice_view list \<Rightarrow> lane_source list \<Rightarrow> 'a frame_sink \<Rightarrow> 'a frame_sink \<times> bool"
where
  "deliver_slices midpoint zero buffers ss s =
     deliver midpoint zero (map view_of_slice (take max_slice_buffers buffers)) ss s"

end
