(* ===== verification/Capture_Accounting.thy ===== *)
theory Capture_Accounting
  imports Capture_Sink
begin

text \<open>
  What the sink, the clock and the callback body do together: the macOS IOProc of
  \<open>steno-audio/src/capture/live/backend.rs\<close> (\<open>missed_before\<close>, \<open>io_proc\<close>) with the consumer
  reading between callbacks. The lemmas say what a block does to every lane's ring; the properties
  are that the lanes stay aligned, that they hold the clock's audio, and that a callback reads
  inside its buffers.
\<close>

section \<open>The IOProc\<close>

record 'a callback_context =
  context_sink :: "'a frame_sink"
  context_clock :: cycle_clock

text \<open>A stamp with a valid sample time is that time rounded to a frame; any other is \<open>None\<close>.\<close>

definition missed_before :: "tick option \<Rightarrow> nat \<Rightarrow> cycle_clock \<Rightarrow> cycle_clock \<times> missed" where
  "missed_before stamp frames c =
     (case stamp of Some position \<Rightarrow> advance position frames c | None \<Rightarrow> (clock_reset c, no_missed))"

definition io_proc ::
  "('a \<Rightarrow> 'a \<Rightarrow> 'a) \<Rightarrow> 'a \<Rightarrow> lane_source list \<Rightarrow> tick option \<Rightarrow> 'a buffer_view list \<Rightarrow>
     'a callback_context \<Rightarrow> 'a callback_context"
where
  "io_proc midpoint zero ss stamp views ctx =
     (let frames = callback_frames views ss;
          (c, missed) = missed_before stamp frames (context_clock ctx);
          s = write_missed zero missed (context_sink ctx);
          (s, _) = deliver midpoint zero views ss s
      in ctx\<lparr>context_sink := s, context_clock := c\<rparr>)"

text \<open>A callback, or the consumer taking samples off one lane.\<close>

datatype 'a capture_event = Callback "tick option" "'a buffer_view list" | Consume nat nat

fun capture_step ::
  "('a \<Rightarrow> 'a \<Rightarrow> 'a) \<Rightarrow> 'a \<Rightarrow> lane_source list \<Rightarrow> 'a capture_event \<Rightarrow> 'a callback_context \<Rightarrow>
     'a callback_context"
where
  "capture_step midpoint zero ss (Callback stamp views) ctx = io_proc midpoint zero ss stamp views ctx"
| "capture_step midpoint zero ss (Consume lane n) ctx =
     ctx\<lparr>context_sink := on_lane lane (\<lambda>r. fst (ring_read n r)) (context_sink ctx)\<rparr>"

definition capture_run ::
  "('a \<Rightarrow> 'a \<Rightarrow> 'a) \<Rightarrow> 'a \<Rightarrow> lane_source list \<Rightarrow> 'a capture_event list \<Rightarrow> 'a callback_context \<Rightarrow>
     'a callback_context"
where
  "capture_run midpoint zero ss es ctx = fold (capture_step midpoint zero ss) es ctx"

definition new_context :: "'a \<Rightarrow> audio_lane list \<Rightarrow> nat \<Rightarrow> rat option \<Rightarrow> 'a callback_context" where
  "new_context zero ls cap rate =
     \<lparr>context_sink = new_sink zero ls cap, context_clock = new_clock rate\<rparr>"

section \<open>What a block does to a ring\<close>

abbreviation lane_rings_of :: "'a frame_sink \<Rightarrow> 'a lane_ring list" where
  "lane_rings_of s \<equiv> rings (sink_rings s)"

definition sink_ok :: "'a frame_sink \<Rightarrow> bool" where
  "sink_ok s \<longleftrightarrow> rings_ok (sink_rings s) \<and> length (lane_rings_of s) = length (lanes s)"

definition takes :: "nat \<Rightarrow> (nat \<Rightarrow> nat) \<Rightarrow> 'a lane_ring \<Rightarrow> 'a lane_ring \<Rightarrow> bool" where
  "takes n f r r' \<longleftrightarrow> ring_ok r' \<and> capacity r' = capacity r \<and> write_index r' = write_index r + n \<and>
     read_index r' = read_index r \<and> dropped r' = dropped r \<and> unfilled r' = unfilled r \<and>
     filled r' = f (filled r)"

lemma write_samples_takes:
  assumes "ring_ok r" and "has_room (length xs) r"
  shows "takes (length xs) id r (fst (write_samples xs r))"
proof -
  have "write_samples xs r = (r\<lparr>storage := put_samples (mask r) (write_index r AND mask r) xs (storage r),
                  write_index := write_index r + length xs\<rparr>, True)"
    using assms(2) by (cases "xs = []") (simp_all add: write_samples_def reserve_def has_room_def)
  then show ?thesis
    using write_samples_cases(1,2)[OF assms(1), of xs] by (simp add: takes_def)
qed

lemma ring_writes_take:
  assumes "ring_ok r" and "has_room n r"
  shows "takes n id r (fst (ring_write source n step r))"
    and "takes n id r (fst (write_mixed midpoint source source' n step step' r))"
    and "takes n id r (fst (write_zeros zero n r))"
  using assms write_samples_takes[of r "map _ [0..<n]"]
  by (simp_all add: ring_write_def write_mixed_def write_zeros_def)

text \<open>One operation on every lane, each with what concerns it.\<close>

lemma fold_lanes:
  assumes step: "\<And>i x s. f (i, x) s = on_lane i (g (pending_frames s) x) s"
  shows "length (lane_rings_of s) = k + length xs \<Longrightarrow>
    fold f (enumerate k xs) s =
      s\<lparr>sink_rings := (sink_rings s)\<lparr>rings :=
          take k (lane_rings_of s) @ map2 (g (pending_frames s)) xs (drop k (lane_rings_of s))\<rparr>\<rparr>"
proof (induction xs arbitrary: k s)
  case (Cons x xs)
  let ?R = "lane_rings_of s" and ?s = "on_lane k (g (pending_frames s) x) s"
  have k: "k < length ?R" using Cons.prems by simp
  have R: "lane_rings_of ?s = ?R[k := g (pending_frames s) x (?R ! k)]"
    by (simp add: on_lane_def on_ring_def)
  have "take (Suc k) (lane_rings_of ?s) = take k ?R @ [g (pending_frames s) x (?R ! k)]"
    using k by (simp add: R take_Suc_conv_app_nth)
  moreover have "drop k ?R = ?R ! k # drop (Suc k) ?R" using k by (simp add: Cons_nth_drop_Suc)
  moreover have "drop (Suc k) (lane_rings_of ?s) = drop (Suc k) ?R" by (simp add: R)
  moreover have "pending_frames ?s = pending_frames s" by (simp add: on_lane_def)
  moreover have "length (lane_rings_of ?s) = Suc k + length xs" using Cons.prems by (simp add: R)
  ultimately show ?case
    using Cons.IH[of ?s "Suc k"] by (simp add: step) (simp add: on_lane_def on_ring_def)
qed simp

lemma fold_lane_indices:
  assumes "\<And>i s. f i s = on_lane i (g (pending_frames s)) s" and "length (lane_rings_of s) = n"
  shows "fold f [0..<n] s =
    s\<lparr>sink_rings := (sink_rings s)\<lparr>rings := map (g (pending_frames s)) (lane_rings_of s)\<rparr>\<rparr>"
proof -
  let ?xs = "replicate n ()"
  have "fold f [0..<n] s = fold (\<lambda>(i, _). f i) (enumerate 0 ?xs) s"
    using fold_map[of f fst "enumerate 0 ?xs"]
    by (simp add: map_fst_enumerate comp_def case_prod_beta')
  also have "\<dots> = s\<lparr>sink_rings := (sink_rings s)\<lparr>rings :=
      map2 (\<lambda>_. g (pending_frames s)) ?xs (lane_rings_of s)\<rparr>\<rparr>"
    using fold_lanes[of "\<lambda>(i, _). f i" "\<lambda>p _. g p" s 0 ?xs] assms by simp
  also have "map2 (\<lambda>_. g (pending_frames s)) ?xs (lane_rings_of s) = map (g (pending_frames s)) (lane_rings_of s)"
    using assms(2) by (simp add: list_eq_iff_nth_eq)
  finally show ?thesis .
qed

definition block :: "nat \<Rightarrow> (nat \<Rightarrow> nat) \<Rightarrow> 'a lane_ring list \<Rightarrow> 'a lane_ring list \<Rightarrow> bool" where
  "block n f R R' \<longleftrightarrow> length R' = length R \<and>
     (if list_all (has_room n) R then \<forall>i<length R. takes n f (R ! i) (R' ! i)
      else R' = map (record_drop n) R)"

lemma begin_callback_cases:
  "begin_callback n s =
     (let s' = s\<lparr>frames_offered := (frames_offered s + n) mod 2 ^ 64\<rparr>
      in if list_all (has_room n) (lane_rings_of s) then (s'\<lparr>pending_frames := n\<rparr>, True)
         else (s'\<lparr>sink_rings := (sink_rings s)\<lparr>rings := map (record_drop n) (lane_rings_of s)\<rparr>\<rparr>, False))"
  by (simp add: begin_callback_def rings_reserve_def rings_have_room_def Let_def)

lemma sink_okD:
  assumes "sink_ok s" and "i < length (lanes s)"
  shows "ring_ok (lane_rings_of s ! i)"
  using assms by (simp add: sink_ok_def rings_ok_def list_all_length)

lemma block_ok:
  assumes "block n f R R'" and "list_all ring_ok R"
  shows "list_all ring_ok R'"
  using assms unfolding block_def
  by (auto simp: list_all_length takes_def split: if_splits)

lemma block_length: "block n f R R' \<Longrightarrow> length R' = length R"
  by (simp add: block_def)

lemma deliver_lane_is_on_lane:
  "deliver_lane midpoint zero views n (lane, source) s = on_lane lane
     (\<lambda>r. case samples (left source) views n of
            None \<Rightarrow> fst (write_zeros zero (pending_frames s) r)
          | Some l \<Rightarrow>
              (case (case right source of None \<Rightarrow> None
                     | Some c \<Rightarrow> map_option (\<lambda>p. (p, stride c)) (samples c views n)) of
                 None \<Rightarrow> fst (ring_write l (pending_frames s) (stride (left source)) r)
               | Some (x, step) \<Rightarrow>
                   fst (write_mixed midpoint l x (pending_frames s) (stride (left source)) step r))) s"
  by (auto simp: deliver_lane_def write_silence_def sink_write_def sink_write_mixed_def
      split: option.splits)

lemma deliver_block:
  assumes ok: "sink_ok s" and ss: "length ss = length (lanes s)"
    and n: "callback_frames views ss = n" "0 < n"
    and s'_def: "s' = fst (deliver midpoint zero views ss s)"
  shows "lanes s' = lanes s" and "block n id (lane_rings_of s) (lane_rings_of s')"
proof -
  let ?R = "lane_rings_of s"
  let ?s = "s\<lparr>frames_offered := (frames_offered s + n) mod 2 ^ 64, pending_frames := n\<rparr>"
  have len: "length ?R = length ss" using ok ss by (simp add: sink_ok_def)
  define g where "g = (\<lambda>p (source :: lane_source) r. case samples (left source) views n of
            None \<Rightarrow> fst (write_zeros zero p r)
          | Some l \<Rightarrow>
              (case (case right source of None \<Rightarrow> None
                     | Some c \<Rightarrow> map_option (\<lambda>p. (p, stride c)) (samples c views n)) of
                 None \<Rightarrow> fst (ring_write l p (stride (left source)) r)
               | Some (x, step) \<Rightarrow> fst (write_mixed midpoint l x p (stride (left source)) step r)))"
  have g: "takes n id r (g n source r)" if "ring_ok r" "has_room n r" for source r
    unfolding g_def using ring_writes_take[OF that] by (simp split: option.splits prod.splits)
  have folded: "fold (deliver_lane midpoint zero views n) (enumerate 0 ss) ?s =
      ?s\<lparr>sink_rings := (sink_rings s)\<lparr>rings := map2 (g n) ss ?R\<rparr>\<rparr>"
    using fold_lanes[of "deliver_lane midpoint zero views n" g ?s 0 ss] len
    by (simp add: deliver_lane_is_on_lane g_def)
  have s': "s' = (if list_all (has_room n) ?R
      then end_callback (?s\<lparr>sink_rings := (sink_rings s)\<lparr>rings := map2 (g n) ss ?R\<rparr>\<rparr>)
      else fst (begin_callback n s))"
    using n folded by (simp add: s'_def deliver_def begin_callback_cases Let_def)
  then show "lanes s' = lanes s" by (simp add: end_callback_def begin_callback_cases Let_def)
  show "block n id ?R (lane_rings_of s')"
  proof (cases "list_all (has_room n) ?R")
    case True
    then show ?thesis
      using s' len g sink_okD[OF ok] ss
      by (simp add: block_def end_callback_def commit_def list_all_length)
  next
    case False
    then show ?thesis using s' by (simp add: block_def begin_callback_cases Let_def)
  qed
qed

lemma fill_block:
  assumes ok: "sink_ok s" and n: "0 < n"
    and s'_def: "s' = fst (fill_missed zero n s)"
  shows "lanes s' = lanes s" and "block n (\<lambda>x. saturating_add x n) (lane_rings_of s) (lane_rings_of s')"
proof -
  let ?R = "lane_rings_of s"
  let ?s = "s\<lparr>frames_offered := (frames_offered s + n) mod 2 ^ 64, pending_frames := n\<rparr>"
  let ?g = "\<lambda>p r. record_filled n (fst (write_zeros zero p r))"
  have "on_lane i (record_filled n) (write_silence zero i t) = on_lane i (?g (pending_frames t)) t" for i t
    by (cases "i < length (lane_rings_of t)") (simp_all add: on_lane_def on_ring_def write_silence_def list_update_beyond)
  then have folded: "fold (\<lambda>lane t. on_lane lane (record_filled n) (write_silence zero lane t))
      [0..<length (lanes s)] ?s = ?s\<lparr>sink_rings := (sink_rings s)\<lparr>rings := map (?g n) ?R\<rparr>\<rparr>"
    using fold_lane_indices[of "\<lambda>lane t. on_lane lane (record_filled n) (write_silence zero lane t)"
        ?g ?s "length (lanes s)"] ok
    by (simp add: sink_ok_def)
  have s': "s' = (if list_all (has_room n) ?R
      then end_callback (?s\<lparr>sink_rings := (sink_rings s)\<lparr>rings := map (?g n) ?R\<rparr>\<rparr>)
      else fst (begin_callback n s))"
    using n folded by (simp add: s'_def fill_missed_def begin_callback_cases Let_def)
  then show "lanes s' = lanes s" by (simp add: end_callback_def begin_callback_cases Let_def)
  show "block n (\<lambda>x. saturating_add x n) ?R (lane_rings_of s')"
  proof (cases "list_all (has_room n) ?R")
    case True
    have "takes n (\<lambda>x. saturating_add x n) r (?g n r)" if "ring_ok r" "has_room n r" for r
      using ring_writes_take(3)[OF that, of zero]
      by (auto simp: takes_def record_filled_def ring_ok_def)
    then show ?thesis
      using True s' sink_okD[OF ok] ok
      by (simp add: block_def end_callback_def commit_def list_all_length sink_ok_def)
  next
    case False
    then show ?thesis using s' by (simp add: block_def begin_callback_cases Let_def)
  qed
qed

lemma unfilled_on_every_lane:
  assumes "sink_ok s"
  shows "fold (\<lambda>lane. on_lane lane (record_unfilled n)) [0..<length (lanes s)] s =
    s\<lparr>sink_rings := (sink_rings s)\<lparr>rings := map (record_unfilled n) (lane_rings_of s)\<rparr>\<rparr>"
  using fold_lane_indices[of "\<lambda>lane. on_lane lane (record_unfilled n)" "\<lambda>_. record_unfilled n" s] assms
  by (simp add: sink_ok_def)

text \<open>The counts every lane shares, and that a block moves them alike on every lane.\<close>

definition counts :: "'a lane_ring \<Rightarrow> nat \<times> nat \<times> nat \<times> nat" where
  "counts r = (write_index r, dropped r, filled r, unfilled r)"

definition alike :: "'a lane_ring list \<Rightarrow> bool" where
  "alike R \<longleftrightarrow> (\<exists>c. map counts R = replicate (length R) c)"

lemma alike_member:
  assumes "alike R"
  shows "\<exists>c. \<forall>r\<in>set R. counts r = c"
proof -
  obtain c where c: "map counts R = replicate (length R) c" using assms by (auto simp: alike_def)
  have "counts r = c" if "r \<in> set R" for r
  proof -
    have "counts r \<in> set (map counts R)" using that by simp
    then show ?thesis unfolding c by (simp split: if_splits)
  qed
  then show ?thesis by blast
qed

lemma alike_map: "map counts R' = map h (map counts R) \<Longrightarrow> alike R \<Longrightarrow> alike R'"
  unfolding alike_def by (metis length_map map_replicate)

text \<open>Everything that reached a lane's ring or is counted in its place.\<close>

definition lane_total :: "'a lane_ring \<Rightarrow> nat" where
  "lane_total r = write_index r + dropped r + unfilled r"

lemma block_alike:
  assumes b: "block n f R R'" and "alike R"
  shows "alike R'"
proof (cases "list_all (has_room n) R")
  case True
  have "counts (R' ! i) = (\<lambda>(w, d, x, u). (w + n, d, f x, u)) (counts (R ! i))" if "i < length R" for i
    using b True that by (simp add: block_def takes_def counts_def)
  then have "map counts R' = map (\<lambda>(w, d, x, u). (w + n, d, f x, u)) (map counts R)"
    using block_length[OF b] by (intro nth_equalityI) simp_all
  then show ?thesis by (rule alike_map) (rule assms(2))
next
  case False
  then have "map counts R' = map (\<lambda>(w, d, x, u). (w, (d + n) mod 2 ^ 64, x, u)) (map counts R)"
    using b by (simp add: block_def counts_def record_drop_def)
  then show ?thesis by (rule alike_map) (rule assms(2))
qed

lemma block_total:
  assumes "block n f R R'" and "i < length R" and "lane_total (R ! i) + n \<le> usize_max"
  shows "lane_total (R' ! i) = lane_total (R ! i) + n"
  using assms unfolding block_def
  by (cases "list_all (has_room n) R") (auto simp: takes_def lane_total_def record_drop_def usize_max_def)

lemma unfilled_ok: "list_all ring_ok R \<Longrightarrow> list_all ring_ok (map (record_unfilled n) R)"
  by (auto simp: list_all_iff record_unfilled_def ring_ok_def)

lemma write_missed_cases:
  assumes ok: "sink_ok s"
  shows "sink_ok (write_missed zero m s) \<and> lanes (write_missed zero m s) = lanes s \<and>
    (\<exists>R. (if fill m = 0 then R = lane_rings_of s
          else block (fill m) (\<lambda>x. saturating_add x (fill m)) (lane_rings_of s) R) \<and>
      lane_rings_of (write_missed zero m s) =
        (if missed_unfilled m = 0 then R else map (record_unfilled (missed_unfilled m)) R))"
proof -
  let ?s = "fst (fill_missed zero (fill m) s)"
  have fill: "lanes ?s = lanes s \<and>
      (if fill m = 0 then lane_rings_of ?s = lane_rings_of s
       else block (fill m) (\<lambda>x. saturating_add x (fill m)) (lane_rings_of s) (lane_rings_of ?s))"
    using fill_block[OF ok, of "fill m" ?s zero] by (simp add: fill_missed_def)
  have ok': "sink_ok ?s"
  proof (cases "fill m = 0")
    case True
    then show ?thesis using fill ok by (simp add: sink_ok_def rings_ok_def)
  next
    case False
    with fill have b: "block (fill m) (\<lambda>x. saturating_add x (fill m)) (lane_rings_of s) (lane_rings_of ?s)"
      by simp
    show ?thesis using block_ok[OF b] block_length[OF b] fill ok by (simp add: sink_ok_def rings_ok_def)
  qed
  have w: "write_missed zero m s = (if missed_unfilled m = 0 then ?s
      else ?s\<lparr>sink_rings := (sink_rings ?s)\<lparr>rings :=
        map (record_unfilled (missed_unfilled m)) (lane_rings_of ?s)\<rparr>\<rparr>)"
    using unfilled_on_every_lane[OF ok', of "missed_unfilled m"]
    by (simp add: write_missed_def split_beta Let_def)
  have "sink_ok (write_missed zero m s)" unfolding w
    using ok' by (simp add: sink_ok_def rings_ok_def unfilled_ok)
  moreover have "lanes (write_missed zero m s) = lanes s" unfolding w using fill by simp
  moreover have "lane_rings_of (write_missed zero m s) =
      (if missed_unfilled m = 0 then lane_rings_of ?s
       else map (record_unfilled (missed_unfilled m)) (lane_rings_of ?s))" unfolding w by simp
  ultimately show ?thesis using fill by (metis (no_types, lifting))
qed

lemma unfilled_alike: "alike R \<Longrightarrow> alike (map (record_unfilled n) R)"
  by (rule alike_map[where h = "\<lambda>(w, d, x, u). (w, d, x, saturating_add u n)"])
    (simp_all add: counts_def record_unfilled_def)

lemma write_missed_alike:
  assumes "sink_ok s" and "alike (lane_rings_of s)"
  shows "alike (lane_rings_of (write_missed zero m s))"
proof -
  obtain R where R: "if fill m = 0 then R = lane_rings_of s
      else block (fill m) (\<lambda>x. saturating_add x (fill m)) (lane_rings_of s) R"
    "lane_rings_of (write_missed zero m s) =
      (if missed_unfilled m = 0 then R else map (record_unfilled (missed_unfilled m)) R)"
    using write_missed_cases[OF assms(1), of zero m] by blast
  have "alike R" using R(1) assms(2) block_alike by (cases "fill m = 0") auto
  then show ?thesis unfolding R(2) by (simp add: unfilled_alike)
qed

lemma deliver_ok:
  assumes ok: "sink_ok s" and ss: "length ss = length (lanes s)"
  shows "sink_ok (fst (deliver midpoint zero views ss s)) \<and>
    lanes (fst (deliver midpoint zero views ss s)) = lanes s"
proof (cases "callback_frames views ss = 0")
  case True
  then show ?thesis using ok by (simp add: deliver_def)
next
  case False
  then have "0 < callback_frames views ss" by simp
  note d = deliver_block[OF ok ss refl this, of _ midpoint zero, OF refl]
  have "list_all ring_ok (lane_rings_of (fst (deliver midpoint zero views ss s)))"
    using block_ok[OF d(2)] ok by (simp add: sink_ok_def rings_ok_def)
  then show ?thesis using d(1) block_length[OF d(2)] ok by (simp add: sink_ok_def rings_ok_def)
qed

lemma deliver_alike:
  assumes ok: "sink_ok s" and ss: "length ss = length (lanes s)" and "alike (lane_rings_of s)"
  shows "alike (lane_rings_of (fst (deliver midpoint zero views ss s)))"
proof (cases "callback_frames views ss = 0")
  case True
  then show ?thesis using assms(3) by (simp add: deliver_def)
next
  case False
  then show ?thesis
    using deliver_block(2)[OF ok ss refl, of views _ midpoint zero] block_alike[OF _ assms(3)] by blast
qed

section \<open>Runs\<close>

definition context_ok :: "lane_source list \<Rightarrow> 'a callback_context \<Rightarrow> bool" where
  "context_ok ss ctx \<longleftrightarrow> sink_ok (context_sink ctx) \<and> length ss = length (lanes (context_sink ctx))"

lemma io_proc_parts:
  "io_proc midpoint zero ss stamp views ctx =
     (let (c, m) = missed_before stamp (callback_frames views ss) (context_clock ctx)
      in ctx\<lparr>context_sink := fst (deliver midpoint zero views ss (write_missed zero m (context_sink ctx))),
             context_clock := c\<rparr>)"
  by (simp add: io_proc_def split_beta Let_def)

lemma consume_ring:
  assumes "sink_ok s"
  shows "sink_ok (on_lane lane (\<lambda>r. fst (ring_read n r)) s)"
    and "map counts (lane_rings_of (on_lane lane (\<lambda>r. fst (ring_read n r)) s)) = map counts (lane_rings_of s)"
proof -
  have read: "counts (fst (ring_read n r)) = counts r" for r :: "'a lane_ring"
    by (simp add: ring_read_def counts_def)
  let ?R = "lane_rings_of s"
  have R: "lane_rings_of (on_lane lane (\<lambda>r. fst (ring_read n r)) s) = ?R[lane := fst (ring_read n (?R ! lane))]"
    by (simp add: on_lane_def on_ring_def)
  show "map counts (lane_rings_of (on_lane lane (\<lambda>r. fst (ring_read n r)) s)) = map counts ?R"
    unfolding R by (rule nth_equalityI) (simp, metis length_list_update length_map nth_list_update_eq
        nth_list_update_neq nth_map read)
  have "\<forall>i<length ?R. ring_ok (?R ! i)"
    using assms by (simp add: sink_ok_def rings_ok_def list_all_length)
  then have "\<forall>i<length ?R. ring_ok (?R[lane := fst (ring_read n (?R ! lane))] ! i)"
    by (metis nth_list_update_eq nth_list_update_neq ring_read_cases(1))
  then show "sink_ok (on_lane lane (\<lambda>r. fst (ring_read n r)) s)"
    using assms by (simp add: sink_ok_def rings_ok_def list_all_length R on_lane_def on_ring_def)
qed

lemma alike_counts: "map counts R = map counts R' \<Longrightarrow> alike R = alike R'"
  unfolding alike_def by (metis length_map)

lemma capture_step_ok:
  assumes "context_ok ss ctx"
  shows "context_ok ss (capture_step midpoint zero ss e ctx)"
    and "alike (lane_rings_of (context_sink ctx)) \<Longrightarrow>
      alike (lane_rings_of (context_sink (capture_step midpoint zero ss e ctx)))"
proof -
  let ?s = "context_sink ctx"
  from assms have ok: "sink_ok ?s" and ss: "length ss = length (lanes ?s)"
    by (simp_all add: context_ok_def)
  have both: "context_ok ss (capture_step midpoint zero ss e ctx) \<and>
    (alike (lane_rings_of (context_sink ctx)) \<longrightarrow>
      alike (lane_rings_of (context_sink (capture_step midpoint zero ss e ctx))))"
  proof (cases e)
    case (Callback stamp views)
    obtain c m where m: "missed_before stamp (callback_frames views ss) (context_clock ctx) = (c, m)"
      by (cases "missed_before stamp (callback_frames views ss) (context_clock ctx)")
    let ?w = "write_missed zero m ?s"
    have w: "sink_ok ?w" "lanes ?w = lanes ?s" using write_missed_cases[OF ok] by blast+
    then have ss': "length ss = length (lanes ?w)" using ss by simp
    have step: "capture_step midpoint zero ss e ctx =
        ctx\<lparr>context_sink := fst (deliver midpoint zero views ss ?w), context_clock := c\<rparr>"
      by (simp add: Callback io_proc_parts m)
    show ?thesis unfolding step
      using deliver_ok[OF w(1) ss', of midpoint zero views] ss w(2)
        deliver_alike[OF w(1) ss', of midpoint zero views] write_missed_alike[OF ok, of zero m]
      by (simp add: context_ok_def)
  next
    case (Consume lane n)
    then have step: "context_sink (capture_step midpoint zero ss e ctx) =
        on_lane lane (\<lambda>r. fst (ring_read n r)) ?s" by simp
    then show ?thesis unfolding context_ok_def step
      using consume_ring(1)[OF ok, of lane n] alike_counts[OF consume_ring(2)[OF ok, of lane n]] ss
      by (simp add: on_lane_def)
  qed
  then show "context_ok ss (capture_step midpoint zero ss e ctx)"
    and "alike (lane_rings_of (context_sink ctx)) \<Longrightarrow>
      alike (lane_rings_of (context_sink (capture_step midpoint zero ss e ctx)))" by blast+
qed

lemma capture_run_ok:
  assumes "context_ok ss ctx"
  shows "context_ok ss (capture_run midpoint zero ss es ctx)"
    and "alike (lane_rings_of (context_sink ctx)) \<Longrightarrow>
      alike (lane_rings_of (context_sink (capture_run midpoint zero ss es ctx)))"
  unfolding capture_run_def using assms
  by (induction es arbitrary: ctx) (simp_all add: capture_step_ok)

lemma new_context_ok:
  assumes "length ss = length ls"
  shows "context_ok ss (new_context zero ls cap rate)"
    and "alike (lane_rings_of (context_sink (new_context zero ls cap rate)))"
    and "r \<in> set (lane_rings_of (context_sink (new_context zero ls cap rate))) \<Longrightarrow> lane_total r = 0"
  using assms new_rings_ok[of zero "length ls" cap]
  by (auto simp: context_ok_def sink_ok_def new_context_def new_sink_def new_rings_def alike_def
      lane_total_def new_ring_def Let_def map_replicate_const counts_def)

text \<open>Every lane holds, or counts, the clock's audio but for \<open>slack\<close> frames.\<close>

definition on_the_clock :: "nat \<Rightarrow> 'a callback_context \<Rightarrow> bool" where
  "on_the_clock slack ctx \<longleftrightarrow> delivered_end (context_clock ctx) \<le> usize_max \<and>
     (\<forall>i<length (lane_rings_of (context_sink ctx)).
        lane_total (lane_rings_of (context_sink ctx) ! i) + slack = delivered_end (context_clock ctx))"

lemma advance_end_bound: "delivered_end (fst (advance position frames c)) \<le> usize_max \<or>
    fst (advance position frames c) = c\<lparr>last_frames := frames, origin := Some position, delivered_end := frames\<rparr>"
  by (auto simp: advance_def Let_def saturating_add_def split: option.splits prod.splits)

lemma missed_total:
  assumes ok: "sink_ok s" and i: "i < length (lanes s)"
    and bound: "lane_total (lane_rings_of s ! i) + fill m + missed_unfilled m \<le> usize_max"
  shows "lane_total (lane_rings_of (write_missed zero m s) ! i) =
    lane_total (lane_rings_of s ! i) + fill m + missed_unfilled m"
proof -
  let ?R = "lane_rings_of s"
  have len: "i < length ?R" using ok i by (simp add: sink_ok_def)
  obtain R where R: "if fill m = 0 then R = ?R
      else block (fill m) (\<lambda>x. saturating_add x (fill m)) ?R R"
    "lane_rings_of (write_missed zero m s) =
      (if missed_unfilled m = 0 then R else map (record_unfilled (missed_unfilled m)) R)"
    using write_missed_cases[OF ok, of zero m] by blast
  have "length R = length ?R" using R(1) block_length by (cases "fill m = 0") auto
  moreover have "lane_total (R ! i) = lane_total (?R ! i) + fill m"
  proof (cases "fill m = 0")
    case False
    with R(1) have b: "block (fill m) (\<lambda>x. saturating_add x (fill m)) ?R R" by simp
    show ?thesis using block_total[OF b len] bound by simp
  qed (use R(1) in simp)
  ultimately show ?thesis
    using len bound unfolding R(2)
    by (simp add: record_unfilled_def lane_total_def saturating_add_def)
qed

lemma deliver_total:
  assumes ok: "sink_ok s" and ss: "length ss = length (lanes s)" and i: "i < length (lanes s)"
    and bound: "lane_total (lane_rings_of s ! i) + callback_frames views ss \<le> usize_max"
  shows "lane_total (lane_rings_of (fst (deliver midpoint zero views ss s)) ! i) =
    lane_total (lane_rings_of s ! i) + callback_frames views ss"
proof (cases "callback_frames views ss = 0")
  case True
  then show ?thesis by (simp add: deliver_def)
next
  case False
  then have "0 < callback_frames views ss" by simp
  note d = deliver_block(2)[OF ok ss refl this refl, of midpoint zero]
  show ?thesis using block_total[OF d _ bound] i ok by (simp add: sink_ok_def)
qed

lemma io_proc_total:
  assumes ctx: "context_ok ss ctx" and clock: "on_the_clock slack ctx"
    and follows: "follows (context_clock ctx) (position, callback_frames views ss)"
    and last: "0 < last_frames (context_clock ctx)"
  shows "\<exists>more. 2 * more \<le> last_frames (context_clock ctx) \<and>
    on_the_clock (slack + more) (io_proc midpoint zero ss (Some position) views ctx)"
proof -
  let ?n = "callback_frames views ss" and ?c = "context_clock ctx" and ?s = "context_sink ctx"
  obtain c m where adv: "advance position ?n ?c = (c, m)" by (cases "advance position ?n ?c")
  obtain more where more: "delivered_end c = delivered_end ?c + ?n + fill m + missed_unfilled m + more"
    "2 * more \<le> last_frames ?c"
    using advance_steady(1)[OF follows last adv] by blast
  have "?n \<le> usize_max" using follows by (auto simp: follows_def split: option.splits)
  then have bound: "delivered_end c \<le> usize_max"
    using advance_end_bound[of position ?n ?c] adv by auto
  have ok: "sink_ok ?s" and ss: "length ss = length (lanes ?s)" using ctx by (simp_all add: context_ok_def)
  let ?w = "write_missed zero m ?s"
  have w: "sink_ok ?w" "lanes ?w = lanes ?s" using write_missed_cases[OF ok] by blast+
  have step: "io_proc midpoint zero ss (Some position) views ctx =
      ctx\<lparr>context_sink := fst (deliver midpoint zero views ss ?w), context_clock := c\<rparr>"
    by (simp add: io_proc_parts missed_before_def adv)
  have "lane_total (lane_rings_of (fst (deliver midpoint zero views ss ?w)) ! i) + (slack + more) = delivered_end c"
    if i: "i < length (lanes ?s)" for i
  proof -
    have before: "lane_total (lane_rings_of ?s ! i) + slack = delivered_end ?c"
      using clock i ok by (simp add: on_the_clock_def sink_ok_def)
    have "lane_total (lane_rings_of ?w ! i) = lane_total (lane_rings_of ?s ! i) + fill m + missed_unfilled m"
      using missed_total[OF ok i, of m zero] before more(1) bound by simp
    moreover from this have "lane_total (lane_rings_of (fst (deliver midpoint zero views ss ?w)) ! i) =
        lane_total (lane_rings_of ?w ! i) + ?n"
      using deliver_total[OF w(1), of ss i views midpoint zero] w(2) ss i before more(1) bound by simp
    ultimately show ?thesis using before more(1) by simp
  qed
  moreover have "length (lane_rings_of (fst (deliver midpoint zero views ss ?w))) = length (lanes ?s)"
    using deliver_ok[OF w(1), of ss midpoint zero views] w(2) ss by (simp add: sink_ok_def)
  ultimately have "on_the_clock (slack + more) (io_proc midpoint zero ss (Some position) views ctx)"
    using bound by (simp add: step on_the_clock_def)
  with more(2) show ?thesis by blast
qed

lemma consume_total:
  assumes "context_ok ss ctx" and "on_the_clock slack ctx"
  shows "on_the_clock slack (capture_step midpoint zero ss (Consume lane n) ctx)"
proof -
  let ?s = "context_sink ctx" and ?s' = "on_lane lane (\<lambda>r. fst (ring_read n r)) (context_sink ctx)"
  have ok: "sink_ok ?s" using assms(1) by (simp add: context_ok_def)
  have same: "map counts (lane_rings_of ?s') = map counts (lane_rings_of ?s)" by (rule consume_ring(2)[OF ok])
  then have len: "length (lane_rings_of ?s') = length (lane_rings_of ?s)" by (metis length_map)
  have "lane_total (lane_rings_of ?s' ! i) = lane_total (lane_rings_of ?s ! i)"
    if "i < length (lane_rings_of ?s)" for i
  proof -
    have "counts (lane_rings_of ?s' ! i) = counts (lane_rings_of ?s ! i)"
      using same that len by (metis nth_map)
    then show ?thesis by (simp add: counts_def lane_total_def)
  qed
  then show ?thesis using assms(2) len by (simp add: on_the_clock_def)
qed

text \<open>The callbacks of a run, as the clock sees them; whether every one carries a sample time.\<close>

fun cycles :: "lane_source list \<Rightarrow> 'a capture_event list \<Rightarrow> (tick \<times> nat) list" where
  "cycles ss [] = []"
| "cycles ss (Callback (Some position) views # es) = (position, callback_frames views ss) # cycles ss es"
| "cycles ss (Callback None views # es) = cycles ss es"
| "cycles ss (Consume lane n # es) = cycles ss es"

fun stamped :: "'a capture_event \<Rightarrow> bool" where
  "stamped (Callback stamp views) \<longleftrightarrow> stamp \<noteq> None"
| "stamped (Consume lane n) \<longleftrightarrow> True"

lemma run_total:
  assumes "context_ok ss ctx" and "on_the_clock slack ctx" and "list_all stamped es"
    and "steady (cycles ss es) (context_clock ctx)" and "0 < last_frames (context_clock ctx)"
  shows "\<exists>more. 2 * more \<le> sum_list (map snd (butlast ((0, last_frames (context_clock ctx)) # cycles ss es))) \<and>
    on_the_clock (slack + more) (capture_run midpoint zero ss es ctx)"
  using assms
proof (induction es arbitrary: ctx slack)
  case Nil
  then show ?case by (intro exI[of _ 0]) (simp add: capture_run_def)
next
  case (Cons e es)
  let ?next = "capture_step midpoint zero ss e ctx" and ?c = "context_clock ctx"
  have run: "capture_run midpoint zero ss (e # es) ctx = capture_run midpoint zero ss es ?next"
    by (simp add: capture_run_def)
  have next_ok: "context_ok ss ?next" using capture_step_ok(1)[OF Cons.prems(1)] .
  show ?case
  proof (cases e)
    case (Consume lane n)
    have same: "context_clock ?next = ?c" by (simp add: Consume)
    have "on_the_clock slack ?next"
      using consume_total[OF Cons.prems(1,2)] unfolding Consume .
    from Cons.IH[OF next_ok this] Cons.prems(3-5) show ?thesis
      unfolding run same by (simp add: Consume)
  next
    case (Callback stamp views)
    with Cons.prems(3) obtain position where stamp: "stamp = Some position" by auto
    let ?n = "callback_frames views ss"
    from Cons.prems(4) have follows: "follows ?c (position, ?n)"
      and later: "steady (cycles ss es) (fst (advance position ?n ?c))"
      by (simp_all add: Callback stamp)
    obtain more where more: "2 * more \<le> last_frames ?c" "on_the_clock (slack + more) ?next"
      using io_proc_total[OF Cons.prems(1,2) follows Cons.prems(5), of midpoint zero]
      by (auto simp: Callback stamp)
    have clock: "context_clock ?next = fst (advance position ?n ?c)"
      by (simp add: Callback stamp io_proc_parts missed_before_def split_beta Let_def)
    have last: "last_frames (context_clock ?next) = ?n"
      unfolding clock using advance_steady(2)[OF follows Cons.prems(5)] by (metis prod.collapse)
    have "0 < last_frames (context_clock ?next)" unfolding last using follows by (simp add: follows_def)
    from Cons.IH[OF next_ok more(2) _ later[folded clock] this] Cons.prems(3)
    obtain more' where "2 * more' \<le> sum_list (map snd (butlast ((0, ?n) # cycles ss es)))"
      "on_the_clock (slack + more + more') (capture_run midpoint zero ss es ?next)"
      unfolding last by auto
    with more(1) show ?thesis
      unfolding run by (intro exI[of _ "more + more'"]) (auto simp: Callback stamp add.assoc)
  qed
qed

section \<open>A callback reads inside its buffers\<close>

text \<open>Two views of one buffer that may differ only past the bytes it says it holds.\<close>

definition same_inside :: "'a buffer_view \<Rightarrow> 'a buffer_view \<Rightarrow> bool" where
  "same_inside b b' \<longleftrightarrow> channels b = channels b' \<and> byte_size b = byte_size b' \<and>
     rel_option (\<lambda>xs ys. byte_size b div float_size \<le> length xs \<and> byte_size b div float_size \<le> length ys \<and>
       take (byte_size b div float_size) xs = take (byte_size b div float_size) ys) (data b) (data b')"

lemma callback_frames_inside:
  assumes "list_all2 same_inside views views'"
  shows "callback_frames views ss = callback_frames views' ss"
proof (induction ss)
  case (Cons source ss)
  have "same_inside (views ! i) (views' ! i)" if "i < length views" for i
    using list_all2_nthD[OF assms that] .
  then show ?case
    using Cons list_all2_lengthD[OF assms] by (auto simp: Let_def same_inside_def)
qed simp

lemma samples_inside:
  assumes "list_all2 same_inside views views'"
  shows "rel_option (\<lambda>xs ys. \<forall>index<n. xs ! (index * stride channel) = ys ! (index * stride channel))
    (samples channel views n) (samples channel views' n)"
proof (cases "buffer_index channel < length views")
  case True
  let ?b = "views ! buffer_index channel" and ?b' = "views' ! buffer_index channel"
  have same: "same_inside ?b ?b'" using list_all2_nthD[OF assms True] .
  have len: "length views' = length views" using list_all2_lengthD[OF assms] by simp
  show ?thesis
  proof (cases "data ?b")
    case None
    then have "data ?b' = None" using same by (auto simp: same_inside_def)
    then show ?thesis using None True len by (simp add: samples_def)
  next
    case (Some xs)
    then obtain ys where ys: "data ?b' = Some ys" "byte_size ?b div float_size \<le> length xs"
      "byte_size ?b div float_size \<le> length ys"
      "take (byte_size ?b div float_size) xs = take (byte_size ?b div float_size) ys"
      using same by (auto simp: same_inside_def option_rel_Some1)
    have "drop (offset channel) xs ! (index * stride channel) = drop (offset channel) ys ! (index * stride channel)"
      if shape: "offset channel < channels ?b" "stride channel = channels ?b"
        "n * channels ?b * float_size \<le> byte_size ?b" and "index < n" for index
    proof -
      have "offset channel + index * stride channel < Suc index * channels ?b"
        using shape(1,2) by simp
      also have "\<dots> \<le> n * channels ?b" using \<open>index < n\<close> by (intro mult_right_mono) simp_all
      also have "\<dots> \<le> byte_size ?b div float_size"
        using shape(3) by (simp add: float_size_def less_eq_div_iff_mult_less_eq)
      finally have inside: "offset channel + index * stride channel < byte_size ?b div float_size" .
      then have "xs ! (offset channel + index * stride channel) = ys ! (offset channel + index * stride channel)"
        using ys(4) by (metis nth_take)
      then show ?thesis using inside ys(2,3) by simp
    qed
    then show ?thesis
      using True len same Some ys(1)
      by (auto simp: samples_def Let_def same_inside_def not_le not_less)
  qed
next
  case False
  then show ?thesis using list_all2_lengthD[OF assms] by (simp add: samples_def)
qed

lemma deliver_lane_inside:
  assumes "list_all2 same_inside views views'" and "pending_frames s = n"
  shows "deliver_lane midpoint zero views n (lane, source) s = deliver_lane midpoint zero views' n (lane, source) s"
proof -
  have plain: "ring_write xs n step = ring_write ys n step"
    if "\<forall>index<n. xs ! (index * step) = ys ! (index * step)" for xs ys :: "'a list" and step
    using that by (auto simp: ring_write_def fun_eq_iff intro!: arg_cong2[where f = write_samples])
  have mixed: "write_mixed midpoint xs us n step step' = write_mixed midpoint ys vs n step step'"
    if "\<forall>index<n. xs ! (index * step) = ys ! (index * step)"
      "\<forall>index<n. us ! (index * step') = vs ! (index * step')" for xs ys us vs :: "'a list" and step step'
    using that by (auto simp: write_mixed_def fun_eq_iff intro!: arg_cong2[where f = write_samples])
  note left = samples_inside[OF assms(1), of n "left source"]
  show ?thesis
  proof (cases "samples (left source) views n")
    case None
    then have "samples (left source) views' n = None" using left by simp
    with None show ?thesis by (simp add: deliver_lane_def)
  next
    case (Some xs)
    then obtain ys where ys: "samples (left source) views' n = Some ys"
      "\<forall>index<n. xs ! (index * stride (left source)) = ys ! (index * stride (left source))"
      using left by (auto simp: option_rel_Some1)
    show ?thesis
    proof (cases "right source")
      case None
      then show ?thesis
        using Some ys plain[OF ys(2)] assms(2) by (simp add: deliver_lane_def sink_write_def)
    next
      case (Some c)
      note right = samples_inside[OF assms(1), of n c]
      show ?thesis
      proof (cases "samples c views n")
        case None
        then have "samples c views' n = None" using right by simp
        then show ?thesis
          using Some None \<open>samples (left source) views n = Some xs\<close> ys plain[OF ys(2)] assms(2)
          by (simp add: deliver_lane_def sink_write_def)
      next
        case (Some us)
        then obtain vs where vs: "samples c views' n = Some vs"
          "\<forall>index<n. us ! (index * stride c) = vs ! (index * stride c)"
          using right by (auto simp: option_rel_Some1)
        show ?thesis
          using Some \<open>right source = Some c\<close> \<open>samples (left source) views n = Some xs\<close> ys(1) vs(1) assms(2)
          by (simp add: deliver_lane_def sink_write_mixed_def mixed[OF ys(2) vs(2)])
      qed
    qed
  qed
qed

lemma deliver_lane_pending:
  "pending_frames (deliver_lane midpoint zero views n (lane, source) s) = pending_frames s"
  by (simp add: deliver_lane_is_on_lane on_lane_def)

lemma deliver_lanes_inside:
  assumes "list_all2 same_inside views views'"
  shows "pending_frames s = n \<Longrightarrow>
    fold (deliver_lane midpoint zero views n) es s = fold (deliver_lane midpoint zero views' n) es s"
proof (induction es arbitrary: s)
  case (Cons e es)
  obtain lane source where e: "e = (lane, source)" by (cases e)
  have "pending_frames (deliver_lane midpoint zero views' n e s) = n"
    using Cons.prems by (simp add: e deliver_lane_pending)
  from Cons.IH[OF this] show ?case
    using deliver_lane_inside[OF assms Cons.prems, of midpoint zero lane source] by (simp add: e)
qed simp

section \<open>Properties of a capture\<close>

text \<open>
  C30: whatever a run of callbacks and reads is (stamps without a sample time, buffers missing or
  misshaped, full rings), every lane's ring has taken in, dropped, filled and missed the same number of
  samples as every other: the lanes stay aligned.
\<close>

theorem lanes_stay_aligned:
  assumes "length ss = length ls"
  shows "\<exists>c. \<forall>r\<in>set (rings (sink_rings (context_sink
      (capture_run midpoint zero ss es (new_context zero ls cap rate))))).
    (write_index r, dropped r, filled r, unfilled r) = c"
proof -
  have "alike (lane_rings_of (context_sink (capture_run midpoint zero ss es (new_context zero ls cap rate))))"
    by (rule capture_run_ok(2)[OF new_context_ok(1)[OF assms] new_context_ok(2)[OF assms]])
  then show ?thesis using alike_member unfolding counts_def by blast
qed

text \<open>
  C7: while no callback falls behind the clock by more than the fill limit, each lane's samples, with
  those dropped at a full ring and those missed and counted, are the clock's reading of where the
  audio ends, less at most half of all the callbacks' frames but the last's (jumps too short to be
  missed cycles). So the lanes stay on wall time.
\<close>

theorem lanes_follow_the_clock:
  assumes "length ss = length ls" and "list_all stamped es"
    and "0 < callback_frames views ss" and "callback_frames views ss \<le> usize_max"
    and "steady (cycles ss es) (fst (advance position (callback_frames views ss) (new_clock rate)))"
  shows "let ctx = capture_run midpoint zero ss (Callback (Some position) views # es) (new_context zero ls cap rate)
    in \<exists>slack. 2 * slack \<le> sum_list (map snd (butlast (cycles ss (Callback (Some position) views # es)))) \<and>
      (\<forall>i<length ls. let r = rings (sink_rings (context_sink ctx)) ! i
        in write_index r + dropped r + unfilled r + slack = delivered_end (context_clock ctx))"
proof -
  let ?n = "callback_frames views ss" and ?start = "new_context zero ls cap rate"
  let ?first = "capture_step midpoint zero ss (Callback (Some position) views) ?start"
  let ?final = "capture_run midpoint zero ss es ?first"
  note new = new_context_ok[OF assms(1), where zero = zero and cap = cap and rate = rate]
  have ok: "context_ok ss ?first" by (rule capture_step_ok(1)[OF new(1)])
  have adv: "advance position ?n (new_clock rate) =
      ((new_clock rate)\<lparr>last_frames := ?n, origin := Some position, delivered_end := ?n\<rparr>, no_missed)"
    by (simp add: advance_def place_def new_clock_def Let_def)
  have same: "write_missed zero no_missed s = s" for s :: "'a frame_sink"
    by (simp add: write_missed_def fill_missed_def no_missed_def)
  have first: "?first = ?start\<lparr>context_sink := fst (deliver midpoint zero views ss (context_sink ?start)),
      context_clock := fst (advance position ?n (new_clock rate))\<rparr>"
    by (simp add: io_proc_parts missed_before_def new_context_def adv same)
  have s: "sink_ok (context_sink ?start)" "length ss = length (lanes (context_sink ?start))"
    using new(1) by (simp_all add: context_ok_def)
  have "lane_total (lane_rings_of (context_sink ?first) ! i) = ?n" if "i < length (lanes (context_sink ?start))" for i
  proof -
    have "lane_total (lane_rings_of (context_sink ?start) ! i) = 0"
      using that s by (intro new(3)) (simp add: sink_ok_def)
    then show ?thesis unfolding first
      using deliver_total[OF s that, of views midpoint zero] assms(4) by simp
  qed
  moreover have "length (lane_rings_of (context_sink ?first)) = length (lanes (context_sink ?start))"
    using ok s(2) by (simp add: context_ok_def sink_ok_def)
  moreover have "delivered_end (context_clock ?first) = ?n" by (simp only: first adv) simp
  ultimately have "on_the_clock 0 ?first" using assms(4) by (simp add: on_the_clock_def)
  moreover have clock: "context_clock ?first = fst (advance position ?n (new_clock rate))"
    by (simp only: first) simp
  moreover have last: "last_frames (context_clock ?first) = ?n" by (simp only: clock adv) simp
  ultimately obtain slack where "2 * slack \<le> sum_list (map snd (butlast ((0, ?n) # cycles ss es)))"
    "on_the_clock (0 + slack) ?final"
    using run_total[OF ok _ assms(2), of 0 midpoint zero] assms(3,5) by metis
  moreover have "capture_run midpoint zero ss (Callback (Some position) views # es) ?start = ?final"
    by (simp add: capture_run_def)
  moreover have "length (lane_rings_of (context_sink ?final)) = length ls"
    using capture_run_ok(1)[OF ok] assms(1) by (simp add: context_ok_def sink_ok_def)
  ultimately show ?thesis
    by (auto simp: on_the_clock_def lane_total_def Let_def)
qed

text \<open>
  C32: a callback reads no sample past the bytes its buffers say they hold: two lists of buffers that
  differ only there are delivered alike, to the same lanes with the same samples.
\<close>

theorem deliver_reads_inside_the_buffers:
  assumes "list_all2 same_inside views views'"
  shows "deliver midpoint zero views ss s = deliver midpoint zero views' ss s"
proof -
  have "pending_frames s' = n" if "begin_callback n s = (s', True)" for n s'
    using that by (auto simp: begin_callback_cases Let_def split: if_splits)
  then have lanes: "fold (deliver_lane midpoint zero views n) (enumerate 0 ss) s' =
      fold (deliver_lane midpoint zero views' n) (enumerate 0 ss) s'"
    if "begin_callback n s = (s', True)" for n s'
    using deliver_lanes_inside[OF assms] that by blast
  show ?thesis
    unfolding deliver_def callback_frames_inside[OF assms] Let_def
    by (auto simp: lanes split: prod.splits bool.splits)
qed

text \<open>A microphone of one channel, three callbacks, the second after two cycles missed.\<close>

definition demo_sources :: "lane_source list" where
  "demo_sources = [\<lparr>source_lane = Mic, left = channel_at 0 0 1, right = None\<rparr>]"

definition demo_views :: "int buffer_view list" where
  "demo_views = [\<lparr>channels = 1, data = Some [1, 2], byte_size = 8\<rparr>]"

definition demo_events :: "int capture_event list" where
  "demo_events = [Consume 0 1, Callback (Some 6) demo_views, Callback (Some 8) demo_views]"

lemmas demo_capture = demo_sources_def demo_views_def demo_events_def channel_at_def float_size_def
  usize_max_def

lemma lanes_stay_aligned_witness:
  "\<exists>c. \<forall>r\<in>set (rings (sink_rings (context_sink
      (capture_run (\<lambda>a b. a) 0 demo_sources demo_events (new_context 0 [Mic] 8 (Some 10)))))).
    (write_index r, dropped r, filled r, unfilled r) = c"
  by (rule lanes_stay_aligned) (simp add: demo_sources_def)

lemma demo_steady: "steady (cycles demo_sources demo_events)
    (fst (advance 0 (callback_frames demo_views demo_sources) (new_clock (Some 10))))"
  by (simp add: demo_capture Let_def advance_def place_def new_clock_def ratio_read_def ratio_one_def
      follows_def saturating_add_def missed_fill_limit_seconds_def)

lemma lanes_follow_the_clock_witness:
  "let ctx = capture_run (\<lambda>a b. a) 0 demo_sources (Callback (Some 0) demo_views # demo_events)
      (new_context (0 :: int) [Mic] 8 (Some 10))
    in \<exists>slack. 2 * slack \<le> sum_list (map snd (butlast
        (cycles demo_sources (Callback (Some 0) demo_views # demo_events)))) \<and>
      (\<forall>i<length [Mic]. let r = rings (sink_rings (context_sink ctx)) ! i
        in write_index r + dropped r + unfilled r + slack = delivered_end (context_clock ctx))"
proof (rule lanes_follow_the_clock)
  show "steady (cycles demo_sources demo_events)
      (fst (advance 0 (callback_frames demo_views demo_sources) (new_clock (Some 10))))"
    by (rule demo_steady)
qed (simp_all add: demo_capture Let_def)

lemma deliver_reads_inside_the_buffers_witness:
  "deliver (\<lambda>a b. a) 0 demo_views demo_sources (new_sink 0 [Mic] 8) =
     deliver (\<lambda>a b. a) 0 [\<lparr>channels = 1, data = Some [1, 2, 99], byte_size = 8\<rparr>] demo_sources
       (new_sink 0 [Mic] 8)"
  by (rule deliver_reads_inside_the_buffers) (simp add: demo_capture same_inside_def)

end
