(* ===== verification/Call_Watch.thy ===== *)
theory Call_Watch
  imports Steno_Prelude
begin

text \<open>
  The auto-stop after a call ends: \<open>steno-services/src/auto_stop.rs\<close> (\<open>CallWatch\<close>) and the part of
  \<open>recorder.rs\<close> that drives it (\<open>microphone_activity\<close>, \<open>arm_auto_stop\<close>, \<open>resume_auto_stop\<close>,
  \<open>call_ended\<close>, \<open>begin_stop\<close>, \<open>start\<close>, \<open>keep_recording\<close>). A \<open>Duration\<close> is its nanoseconds. A
  countdown's \<open>Cancel\<close> is named by the countdown's number; the flags raised are a set. Every step is
  taken under the recorder's lock. Saving the recording, and what else a start and a stop do, is
  not here: a start that succeeds is the event \<open>Began\<close>.
\<close>

section \<open>The watch\<close>

definition auto_stop_grace :: nat where "auto_stop_grace = 90 * 10 ^ 9"

datatype microphone_activity = Opened "ustring option" | Released

record auto_stop =
  auto_app_name :: "ustring option"
  deadline :: nat
  number :: nat
  postponable :: bool

record call_watch =
  saw_foreign :: bool
  call_app :: "ustring option"
  armed :: "auto_stop option"
  arms :: nat
  raised :: "nat set"

definition no_calls :: call_watch where
  "no_calls = \<lparr>saw_foreign = False, call_app = None, armed = None, arms = 0, raised = {}\<rparr>"

definition disarm :: "call_watch \<Rightarrow> call_watch" where
  "disarm w = (case armed w of
     None \<Rightarrow> w
   | Some a \<Rightarrow> w\<lparr>armed := None, raised := insert (number a) (raised w)\<rparr>)"

definition watch_reset :: "call_watch \<Rightarrow> call_watch" where
  "watch_reset w = (disarm w)\<lparr>saw_foreign := False, call_app := None\<rparr>"

definition watch_begin :: "ustring option \<Rightarrow> call_watch \<Rightarrow> call_watch" where
  "watch_begin app w = (watch_reset w)\<lparr>saw_foreign := (app \<noteq> None), call_app := app\<rparr>"

definition opened :: "ustring option \<Rightarrow> call_watch \<Rightarrow> call_watch" where
  "opened app w = disarm (w\<lparr>saw_foreign := True, call_app := app\<rparr>)"

text \<open>The countdown armed is its number.\<close>

definition arm :: "nat \<Rightarrow> bool \<Rightarrow> call_watch \<Rightarrow> call_watch \<times> nat option" where
  "arm now postpones w =
     (if \<not> saw_foreign w then (w, None)
      else let n = arms w + 1
           in (w\<lparr>arms := n, armed := Some \<lparr>auto_app_name = call_app w, deadline = now + auto_stop_grace,
                                     number = n, postponable = postpones\<rparr>\<rparr>, Some n))"

definition released :: "nat \<Rightarrow> call_watch \<Rightarrow> call_watch \<times> nat option" where
  "released now w = (if armed w \<noteq> None then (w, None) else arm now True w)"

definition resume_watch :: "nat \<Rightarrow> call_watch \<Rightarrow> call_watch \<times> nat option" where
  "resume_watch now w =
     (if \<not> (case armed w of Some a \<Rightarrow> postponable a | None \<Rightarrow> False) then (w, None)
      else arm now False (disarm w))"

definition postpone :: "nat \<Rightarrow> bool \<Rightarrow> nat \<Rightarrow> call_watch \<Rightarrow> call_watch \<times> nat option" where
  "postpone n recovers now w =
     (if \<not> (recovers \<and> (case armed w of Some a \<Rightarrow> number a = n \<and> postponable a | None \<Rightarrow> False))
      then (w, None) else arm now False (disarm w))"

definition watch_keep_recording :: "call_watch \<Rightarrow> call_watch \<times> bool" where
  "watch_keep_recording w =
     (if armed w = None then (w, False) else ((disarm w)\<lparr>saw_foreign := False\<rparr>, True))"

datatype recording_end_reason = Manual | CallEnded "ustring option" | DeviceLost | Quit | Failed

definition elapsed :: "nat \<Rightarrow> call_watch \<Rightarrow> call_watch \<times> recording_end_reason option" where
  "elapsed n w =
     (case armed w of
        Some a \<Rightarrow> if number a = n then (w\<lparr>armed := None\<rparr>, Some (CallEnded (auto_app_name a))) else (w, None)
      | None \<Rightarrow> (w, None))"

text \<open>The app, the seconds left rounded up and those in all.\<close>

definition watch_status :: "nat \<Rightarrow> bool \<Rightarrow> call_watch \<Rightarrow> (ustring option \<times> nat \<times> nat) option" where
  "watch_status now recovers w =
     (case armed w of
        None \<Rightarrow> None
      | Some a \<Rightarrow>
          if recovers \<and> postponable a then None
          else Some (auto_app_name a, (deadline a - now + (10 ^ 9 - 1)) div 10 ^ 9, auto_stop_grace div 10 ^ 9))"

section \<open>The recorder that drives it\<close>

datatype recording_state = Idle | Starting | Recording | Stopping

datatype capture_mode = Call | InPerson

text \<open>\<open>timers\<close>: the sleeping threads, each its countdown's number and when it began to sleep.\<close>

record call_recorder =
  rstate :: recording_state
  active_mode :: "capture_mode option"
  recovering :: bool
  calls :: call_watch
  timers :: "(nat \<times> nat) list"

definition idle_recorder :: call_recorder where
  "idle_recorder = \<lparr>rstate = Idle, active_mode = None, recovering = False, calls = no_calls, timers = []\<rparr>"

text \<open>\<open>spawned\<close>: whether the countdown's thread could be started.\<close>

definition arm_auto_stop ::
  "nat \<Rightarrow> bool \<Rightarrow> (nat \<Rightarrow> call_watch \<Rightarrow> call_watch \<times> nat option) \<Rightarrow> call_recorder \<Rightarrow> call_recorder \<times> bool"
where
  "arm_auto_stop now spawned arms_it r =
     (if \<not> (rstate r = Recording \<and> active_mode r = Some Call) then (r, False)
      else case arms_it now (calls r) of
             (w, None) \<Rightarrow> (r\<lparr>calls := w\<rparr>, False)
           | (w, Some n) \<Rightarrow>
               if spawned then (r\<lparr>calls := w, timers := (n, now) # timers r\<rparr>, True)
               else (r\<lparr>calls := fst (watch_keep_recording w)\<rparr>, True))"

definition on_microphone_activity :: "nat \<Rightarrow> bool \<Rightarrow> microphone_activity \<Rightarrow> call_recorder \<Rightarrow> call_recorder" where
  "on_microphone_activity now spawned activity r =
     (case activity of
        Opened app \<Rightarrow>
          if rstate r = Starting \<or> rstate r = Recording then r\<lparr>calls := opened app (calls r)\<rparr> else r
      | Released \<Rightarrow> fst (arm_auto_stop now spawned released r))"

definition resume_auto_stop :: "nat \<Rightarrow> bool \<Rightarrow> call_recorder \<Rightarrow> call_recorder" where
  "resume_auto_stop now spawned r = fst (arm_auto_stop now spawned resume_watch r)"

definition begin_stop :: "call_recorder \<Rightarrow> call_recorder \<times> bool" where
  "begin_stop r =
     (if active_mode r = None then (r, False)
      else (r\<lparr>active_mode := None, calls := watch_reset (calls r), rstate := Stopping\<rparr>, True))"

definition call_ended :: "nat \<Rightarrow> bool \<Rightarrow> nat \<Rightarrow> call_recorder \<Rightarrow> call_recorder \<times> recording_end_reason option" where
  "call_ended now spawned n r =
     (if rstate r \<noteq> Recording then (r, None)
      else case arm_auto_stop now spawned (\<lambda>now w. postpone n (active_mode r \<noteq> None \<and> recovering r) now w) r of
             (r, True) \<Rightarrow> (r, None)
           | (r, False) \<Rightarrow>
               (case elapsed n (calls r) of
                  (w, None) \<Rightarrow> (r\<lparr>calls := w\<rparr>, None)
                | (w, Some reason) \<Rightarrow>
                    case begin_stop (r\<lparr>calls := w\<rparr>) of
                      (r, True) \<Rightarrow> (r, Some reason)
                    | (r, False) \<Rightarrow> (r, None)))"

definition recorder_start :: "ustring option \<Rightarrow> call_recorder \<Rightarrow> call_recorder" where
  "recorder_start app r =
     (if rstate r \<noteq> Idle then r else r\<lparr>rstate := Starting, calls := watch_begin app (calls r)\<rparr>)"

definition recorder_idle :: "call_recorder \<Rightarrow> call_recorder" where
  "recorder_idle r = r\<lparr>rstate := Idle, calls := watch_reset (calls r)\<rparr>"

definition recorder_keep_recording :: "call_recorder \<Rightarrow> call_recorder" where
  "recorder_keep_recording r = r\<lparr>calls := fst (watch_keep_recording (calls r))\<rparr>"

section \<open>A recorder's history\<close>

text \<open>
  What can happen to a recorder; a countdown's thread calls back only for a timer that was begun and
  no sooner than a grace later. \<open>Began\<close> and \<open>StartFailed\<close> end a start, \<open>Saved\<close> a stop.
\<close>

datatype call_event =
    Start "ustring option" | Began capture_mode | StartFailed | Activity microphone_activity bool
  | Recovers bool | Resume bool | Keep | Stop | Saved | TimedOut nat bool

fun happen :: "call_recorder \<Rightarrow> nat \<times> call_event \<Rightarrow> call_recorder" where
  "happen r (now, Start app) = recorder_start app r"
| "happen r (now, Began mode) =
     (if rstate r = Starting then r\<lparr>rstate := Recording, active_mode := Some mode, recovering := False\<rparr> else r)"
| "happen r (now, StartFailed) = (if rstate r = Starting then r\<lparr>rstate := Idle\<rparr> else r)"
| "happen r (now, Activity activity spawned) = on_microphone_activity now spawned activity r"
| "happen r (now, Recovers b) = r\<lparr>recovering := b\<rparr>"
| "happen r (now, Resume spawned) = resume_auto_stop now spawned r"
| "happen r (now, Keep) = recorder_keep_recording r"
| "happen r (now, Stop) = fst (begin_stop r)"
| "happen r (now, Saved) = (if rstate r = Stopping then recorder_idle r else r)"
| "happen r (now, TimedOut n spawned) =
     (if \<exists>(m, began)\<in>set (timers r). m = n \<and> began + auto_stop_grace \<le> now
      then fst (call_ended now spawned n r) else r)"

definition history :: "(nat \<times> call_event) list \<Rightarrow> call_recorder" where
  "history es = foldl happen idle_recorder es"

section \<open>What every step keeps\<close>

definition timers_ok :: "call_recorder \<Rightarrow> bool" where
  "timers_ok r \<longleftrightarrow> (\<forall>(n, began)\<in>set (timers r). n \<le> arms (calls r) \<and>
     (case armed (calls r) of Some a \<Rightarrow> number a = n \<longrightarrow> began + auto_stop_grace = deadline a | None \<Rightarrow> True))"

definition armed_ok :: "call_recorder \<Rightarrow> bool" where
  "armed_ok r \<longleftrightarrow> (case armed (calls r) of
     None \<Rightarrow> True
   | Some a \<Rightarrow> rstate r = Recording \<and> active_mode r = Some Call \<and> saw_foreign (calls r) \<and>
       number a \<le> arms (calls r) \<and> number a \<notin> raised (calls r))"

definition recorder_ok :: "call_recorder \<Rightarrow> bool" where
  "recorder_ok r \<longleftrightarrow> timers_ok r \<and> armed_ok r \<and> (rstate r = Recording \<longleftrightarrow> active_mode r \<noteq> None) \<and>
     (\<forall>n\<in>raised (calls r). n \<le> arms (calls r))"

lemmas watch_ops = disarm_def watch_reset_def watch_begin_def opened_def arm_def released_def
  resume_watch_def postpone_def watch_keep_recording_def elapsed_def

lemmas recorder_ops = arm_auto_stop_def on_microphone_activity_def resume_auto_stop_def begin_stop_def
  recorder_start_def recorder_idle_def recorder_keep_recording_def

lemma disarmed_ok:
  assumes "recorder_ok r" and "armed w = None" and "arms (calls r) \<le> arms w" and "raised w \<subseteq> {..arms w}"
  shows "recorder_ok (r\<lparr>calls := w\<rparr>)"
  using assms by (fastforce simp: recorder_ok_def timers_ok_def armed_ok_def)

lemma recorder_okD:
  assumes "recorder_ok r"
  shows "armed (calls r) = Some a \<Longrightarrow> rstate r = Recording \<and> active_mode r = Some Call \<and>
      saw_foreign (calls r) \<and> number a \<le> arms (calls r) \<and> number a \<notin> raised (calls r)"
    and "raised (calls r) \<subseteq> {..arms (calls r)}"
    and "(n, began) \<in> set (timers r) \<Longrightarrow> n \<le> arms (calls r)"
    and "armed (calls r) = Some a \<Longrightarrow> (number a, began) \<in> set (timers r) \<Longrightarrow>
      began + auto_stop_grace = deadline a"
    and "rstate r = Recording \<longleftrightarrow> active_mode r \<noteq> None"
  using assms by (auto simp: recorder_ok_def timers_ok_def armed_ok_def)

lemma disarm_facts:
  assumes "recorder_ok r"
  shows "armed (disarm (calls r)) = None" and "arms (disarm (calls r)) = arms (calls r)"
    and "raised (disarm (calls r)) \<subseteq> {..arms (calls r)}"
    and "saw_foreign (disarm (calls r)) = saw_foreign (calls r)"
  using recorder_okD(1,2)[OF assms] by (auto simp: disarm_def split: option.splits)

text \<open>Every way of arming leaves the watch, or arms it once nothing is armed.\<close>

definition arming :: "(nat \<Rightarrow> call_watch \<Rightarrow> call_watch \<times> nat option) \<Rightarrow> call_watch \<Rightarrow> bool" where
  "arming f w \<longleftrightarrow> (\<forall>now. f now w = (w, None) \<or>
     (\<exists>p w0. f now w = arm now p w0 \<and> (w0 = disarm w \<or> w0 = w \<and> armed w = None)))"

lemma arming_ways: "arming released w" "arming resume_watch w" "arming (\<lambda>now w. postpone n b now w) w"
  by (auto simp: arming_def released_def resume_watch_def postpone_def)

lemma arm_cases:
  "arm now p w = (if saw_foreign w
     then (w\<lparr>arms := arms w + 1, armed := Some \<lparr>auto_app_name = call_app w, deadline = now + auto_stop_grace,
             number = arms w + 1, postponable = p\<rparr>\<rparr>, Some (arms w + 1)) else (w, None))"
  by (simp add: arm_def Let_def)

lemma armed_fresh_ok:
  assumes ok: "recorder_ok r" and "rstate r = Recording" and "active_mode r = Some Call"
    and w: "saw_foreign w" "armed w = None" "arms w = arms (calls r)" "raised w \<subseteq> {..arms (calls r)}"
    and a: "number a = arms w + 1" "deadline a = now + auto_stop_grace"
  shows "recorder_ok (r\<lparr>calls := w\<lparr>arms := arms w + 1, armed := Some a\<rparr>, timers := (arms w + 1, now) # timers r\<rparr>)"
proof -
  have "timers_ok (r\<lparr>calls := w\<lparr>arms := arms w + 1, armed := Some a\<rparr>, timers := (arms w + 1, now) # timers r\<rparr>)"
    using recorder_okD(3)[OF ok] w a by (fastforce simp: timers_ok_def)
  then show ?thesis using assms by (fastforce simp: recorder_ok_def armed_ok_def)
qed

lemma arm_auto_stop_ok:
  assumes ok: "recorder_ok r" and "arming f (calls r)"
  shows "recorder_ok (fst (arm_auto_stop now spawned f r))"
proof (cases "rstate r = Recording \<and> active_mode r = Some Call")
  case True
  from assms(2) consider "f now (calls r) = (calls r, None)"
    | p w0 where "f now (calls r) = arm now p w0" "w0 = disarm (calls r) \<or> w0 = calls r \<and> armed (calls r) = None"
    unfolding arming_def by blast
  then show ?thesis
  proof cases
    case 1
    then show ?thesis using True ok by (simp add: arm_auto_stop_def)
  next
    case 2
    have w0: "armed w0 = None" "arms w0 = arms (calls r)" "raised w0 \<subseteq> {..arms (calls r)}"
      using 2(2) disarm_facts[OF ok] recorder_okD(2)[OF ok] by auto
    show ?thesis
    proof (cases "saw_foreign w0")
      case foreign: True
      show ?thesis
      proof (cases spawned)
        case True
        then show ?thesis
          using \<open>rstate r = Recording \<and> active_mode r = Some Call\<close> foreign 2(1)
            armed_fresh_ok[OF ok _ _ foreign w0, of
              "\<lparr>auto_app_name = call_app w0, deadline = now + auto_stop_grace, number = arms w0 + 1,
                postponable = p\<rparr>" now]
          by (simp add: arm_auto_stop_def arm_cases)
      next
        case False
        then show ?thesis
          using \<open>rstate r = Recording \<and> active_mode r = Some Call\<close> foreign 2(1) w0
          by (auto simp: arm_auto_stop_def arm_cases watch_keep_recording_def disarm_def
              intro!: disarmed_ok[OF ok])
      qed
    next
      case False
      then show ?thesis using True 2(1) w0 by (auto simp: arm_auto_stop_def arm_cases intro!: disarmed_ok[OF ok])
    qed
  qed
qed (use ok in \<open>simp add: arm_auto_stop_def\<close>)

lemma begin_stop_ok:
  assumes "recorder_ok r"
  shows "recorder_ok (fst (begin_stop r))"
proof -
  have "recorder_ok (r\<lparr>calls := watch_reset (calls r)\<rparr>)"
    using disarm_facts[OF assms] by (intro disarmed_ok[OF assms]) (auto simp: watch_reset_def)
  moreover have "armed (watch_reset (calls r)) = None"
    using disarm_facts[OF assms] by (simp add: watch_reset_def)
  ultimately show ?thesis
    using assms by (cases "active_mode r = None")
      (auto simp: begin_stop_def recorder_ok_def timers_ok_def armed_ok_def)
qed

lemma elapsed_ok:
  assumes "recorder_ok r"
  shows "recorder_ok (r\<lparr>calls := fst (elapsed n (calls r))\<rparr>)"
proof (cases "fst (elapsed n (calls r)) = calls r")
  case True
  then show ?thesis using assms by simp
next
  case False
  then show ?thesis
    using recorder_okD(2)[OF assms] by (intro disarmed_ok[OF assms]) (auto simp: elapsed_def split: option.splits if_splits)
qed

lemma call_ended_ok:
  assumes "recorder_ok r"
  shows "recorder_ok (fst (call_ended now spawned n r))"
proof -
  let ?p = "\<lambda>now w. postpone n (active_mode r \<noteq> None \<and> recovering r) now w"
  obtain r1 armed_it where r1: "arm_auto_stop now spawned ?p r = (r1, armed_it)"
    by (cases "arm_auto_stop now spawned ?p r")
  have ok1: "recorder_ok r1"
    using arm_auto_stop_ok[OF assms arming_ways(3)[of n "active_mode r \<noteq> None \<and> recovering r"], of now spawned] r1 by simp
  obtain w reason where w: "elapsed n (calls r1) = (w, reason)" by (cases "elapsed n (calls r1)")
  have okw: "recorder_ok (r1\<lparr>calls := w\<rparr>)" using elapsed_ok[OF ok1, of n] w by simp
  have "recorder_ok (fst (begin_stop (r1\<lparr>calls := w\<rparr>)))" by (rule begin_stop_ok[OF okw])
  then show ?thesis
    using assms ok1 okw unfolding call_ended_def r1
    by (auto simp: w split: bool.splits option.splits prod.splits)
qed

lemma happen_ok:
  assumes ok: "recorder_ok r"
  shows "recorder_ok (happen r e)"
proof -
  obtain now what where e: "e = (now, what)" by (cases e)
  note d = disarm_facts[OF ok]
  show ?thesis
  proof (cases what)
    case (Start app)
    have "recorder_ok (r\<lparr>calls := watch_begin app (calls r)\<rparr>)"
      using d by (intro disarmed_ok[OF ok]) (auto simp: watch_begin_def watch_reset_def)
    moreover have "armed (watch_begin app (calls r)) = None" using d by (simp add: watch_begin_def watch_reset_def)
    ultimately show ?thesis using ok
      by (auto simp: e Start recorder_start_def recorder_ok_def timers_ok_def armed_ok_def)
  next
    case (Began mode)
    then show ?thesis using ok
      by (auto simp: e recorder_ok_def timers_ok_def armed_ok_def split: option.splits)
  next
    case StartFailed
    then show ?thesis using ok
      by (auto simp: e recorder_ok_def timers_ok_def armed_ok_def split: option.splits)
  next
    case (Activity activity spawned)
    show ?thesis
    proof (cases activity)
      case (Opened app)
      let ?w = "(calls r)\<lparr>saw_foreign := True, call_app := app\<rparr>"
      have "recorder_ok (r\<lparr>calls := opened app (calls r)\<rparr>)"
        using recorder_okD(1,2)[OF ok]
        by (intro disarmed_ok[OF ok]) (auto simp: opened_def disarm_def split: option.splits)
      then show ?thesis using ok by (simp add: e Activity Opened on_microphone_activity_def)
    next
      case Released
      then show ?thesis using arm_auto_stop_ok[OF ok arming_ways(1)]
        by (simp add: e Activity on_microphone_activity_def)
    qed
  next
    case (Recovers b)
    then show ?thesis using ok by (auto simp: e recorder_ok_def timers_ok_def armed_ok_def split: option.splits)
  next
    case (Resume spawned)
    then show ?thesis using arm_auto_stop_ok[OF ok arming_ways(2)]
      by (simp add: e resume_auto_stop_def)
  next
    case Keep
    show ?thesis
    proof (cases "armed (calls r)")
      case None
      then show ?thesis using ok by (simp add: e Keep recorder_keep_recording_def watch_keep_recording_def)
    next
      case (Some a)
      then show ?thesis using d
        by (auto simp: e Keep recorder_keep_recording_def watch_keep_recording_def intro!: disarmed_ok[OF ok])
    qed
  next
    case Stop
    then show ?thesis using begin_stop_ok[OF ok] by (simp add: e)
  next
    case Saved
    have "recorder_ok (r\<lparr>calls := watch_reset (calls r)\<rparr>)"
      using d by (intro disarmed_ok[OF ok]) (auto simp: watch_reset_def)
    moreover have "armed (watch_reset (calls r)) = None" using d by (simp add: watch_reset_def)
    ultimately show ?thesis using ok
      by (auto simp: e Saved recorder_idle_def recorder_ok_def timers_ok_def armed_ok_def)
  next
    case (TimedOut n spawned)
    then show ?thesis using ok call_ended_ok[OF ok] by (simp add: e)
  qed
qed

interpretation watch: invariant_machine happen recorder_ok
  by unfold_locales (rule happen_ok)

lemma history_ok: "recorder_ok (history es)"
  unfolding history_def
  by (rule watch.run_invar) (simp add: recorder_ok_def timers_ok_def armed_ok_def idle_recorder_def no_calls_def)

section \<open>Where an armed countdown comes from\<close>

text \<open>What leaves a countdown armed: no other app opened the microphone, no user kept or stopped it.\<close>

fun quiet :: "call_event \<Rightarrow> bool" where
  "quiet (Activity (Opened app) spawned) \<longleftrightarrow> False"
| "quiet Keep \<longleftrightarrow> False"
| "quiet Stop \<longleftrightarrow> False"
| "quiet e \<longleftrightarrow> True"

lemma keep_disarms [simp]: "armed (fst (watch_keep_recording w)) = None"
  by (auto simp: watch_keep_recording_def disarm_def split: option.splits)

text \<open>The release's countdown, and the one that takes its place.\<close>

definition armed_at :: "nat \<Rightarrow> bool \<Rightarrow> auto_stop \<Rightarrow> bool" where
  "armed_at now p a \<longleftrightarrow> deadline a = now + auto_stop_grace \<and> postponable a = p"

lemma armed_by_release:
  assumes "armed (calls (fst (arm_auto_stop now spawned released r))) = Some a"
  shows "armed (calls r) = Some a \<or> armed_at now True a"
  using assms by (auto simp: arm_auto_stop_def released_def arm_cases armed_at_def split: if_splits)

lemma armed_again:
  assumes "armed (calls (fst (arm_auto_stop now spawned f r))) = Some a"
    and "f = resume_watch \<or> (\<exists>n b. f = (\<lambda>now w. postpone n b now w))"
  shows "armed (calls r) = Some a \<or>
    (\<exists>a0. armed (calls r) = Some a0 \<and> postponable a0 \<and> armed_at now False a)"
  using assms
  by (cases "armed (calls r)") (auto simp: arm_auto_stop_def resume_watch_def postpone_def arm_cases armed_at_def
      disarm_def split: if_splits)

lemma armed_by_call_ended:
  assumes "armed (calls (fst (call_ended now spawned n r))) = Some a" and "recorder_ok r"
  shows "armed (calls r) = Some a \<or>
    (\<exists>a0. armed (calls r) = Some a0 \<and> postponable a0 \<and> armed_at now False a)"
proof -
  let ?p = "\<lambda>now w. postpone n (active_mode r \<noteq> None \<and> recovering r) now w"
  obtain r1 b where r1: "arm_auto_stop now spawned ?p r = (r1, b)" by (cases "arm_auto_stop now spawned ?p r")
  have "armed (calls r) = Some a \<or> armed (calls r1) = Some a"
    using assms(1) unfolding call_ended_def r1
    by (cases b) (auto simp: elapsed_def begin_stop_def watch_reset_def disarm_def
        split: if_splits option.splits prod.splits bool.splits)
  then show ?thesis using armed_again[of now spawned ?p r a] r1 by auto
qed

text \<open>After a step, an armed countdown was armed before, or by a release, or in the place of a
  release's.\<close>

lemma armed_step:
  assumes "armed (calls (happen r (now, e))) = Some a" and ok: "recorder_ok r"
  shows "armed (calls r) = Some a \<and> quiet e \<or>
    (\<exists>spawned. e = Activity Released spawned \<and> armed_at now True a) \<or>
    (\<exists>a0. armed (calls r) = Some a0 \<and> postponable a0 \<and> quiet e \<and> armed_at now False a)"
proof (cases e)
  case (Start app)
  then show ?thesis using assms(1) disarm_facts(1)[OF ok]
    by (auto simp: recorder_start_def watch_begin_def watch_reset_def split: if_splits)
next
  case (Activity activity spawned)
  show ?thesis
  proof (cases activity)
    case (Opened app)
    then show ?thesis using assms(1) recorder_okD(1)[OF ok]
      by (auto simp: Activity on_microphone_activity_def opened_def disarm_def split: if_splits option.splits)
  next
    case Released
    then show ?thesis using assms(1) armed_by_release[of now spawned r a]
      by (auto simp: Activity on_microphone_activity_def)
  qed
next
  case (Resume spawned)
  then show ?thesis using assms(1) armed_again[of now spawned resume_watch r a]
    by (auto simp: resume_auto_stop_def)
next
  case Stop
  then show ?thesis using assms(1) disarm_facts(1)[OF ok] recorder_okD(1)[OF ok]
    by (auto simp: begin_stop_def watch_reset_def split: if_splits)
next
  case Saved
  then show ?thesis using assms(1) disarm_facts(1)[OF ok]
    by (auto simp: recorder_idle_def watch_reset_def split: if_splits)
next
  case (TimedOut n spawned)
  then show ?thesis using assms(1) armed_by_call_ended[OF _ ok, of now spawned n a]
    by (auto split: if_splits)
qed (use assms(1) in \<open>auto simp: recorder_keep_recording_def split: if_splits\<close>)

text \<open>
  Every step comes while the armed countdown runs or as it runs out: its thread is not late.
\<close>

fun prompt :: "call_recorder \<Rightarrow> (nat \<times> call_event) list \<Rightarrow> bool" where
  "prompt r [] \<longleftrightarrow> True"
| "prompt r (e # es) \<longleftrightarrow>
     (case armed (calls r) of Some a \<Rightarrow> fst e \<le> deadline a | None \<Rightarrow> True) \<and> prompt (happen r e) es"

lemma prompt_snoc:
  "prompt r (es @ [e]) \<longleftrightarrow> prompt r es \<and>
     (case armed (calls (foldl happen r es)) of Some a \<Rightarrow> fst e \<le> deadline a | None \<Rightarrow> True)"
  by (induction es arbitrary: r) auto

text \<open>The release a countdown goes back to: how long ago, and nothing since that disarms.\<close>

definition goes_back_to ::
  "(nat \<times> call_event) list \<Rightarrow> nat \<Rightarrow> bool"
where
  "goes_back_to es t0 \<longleftrightarrow> (\<exists>before spawned after. es = before @ (t0, Activity Released spawned) # after \<and>
     list_all (quiet \<circ> snd) after)"

lemma goes_back_now: "goes_back_to (es @ [(now, Activity Released spawned)]) now"
  unfolding goes_back_to_def by (intro exI[of _ es] exI[of _ spawned] exI[of _ "[]"]) simp

lemma goes_back_on:
  assumes "goes_back_to es t0" and "quiet e"
  shows "goes_back_to (es @ [(now, e)]) t0"
proof -
  obtain before spawned after where "es = before @ (t0, Activity Released spawned) # after"
    "list_all (quiet \<circ> snd) after" using assms(1) by (auto simp: goes_back_to_def)
  then show ?thesis using assms(2) unfolding goes_back_to_def
    by (intro exI[of _ before] exI[of _ spawned] exI[of _ "after @ [(now, e)]"]) simp
qed

lemma goes_back_sorted:
  "goes_back_to es t0 \<Longrightarrow> sorted (map fst (es @ [(now, e)])) \<Longrightarrow> t0 \<le> now"
  by (auto simp: goes_back_to_def sorted_append)

lemma armed_origin:
  assumes "sorted (map fst es)" and "armed (calls (history es)) = Some a"
  shows "\<exists>t0. goes_back_to es t0 \<and> t0 + auto_stop_grace \<le> deadline a \<and>
    (postponable a \<longrightarrow> deadline a = t0 + auto_stop_grace) \<and>
    (prompt idle_recorder es \<longrightarrow> deadline a \<le> t0 + 2 * auto_stop_grace)"
  using assms
proof (induction es arbitrary: a rule: rev_induct)
  case Nil
  then show ?case by (simp add: history_def idle_recorder_def no_calls_def)
next
  case (snoc e es)
  obtain now what where e: "e = (now, what)" by (cases e)
  have sorted: "sorted (map fst es)" using snoc.prems(1) by (simp add: sorted_append)
  have "armed (calls (happen (history es) (now, what))) = Some a"
    using snoc.prems(2) by (simp add: e history_def)
  from armed_step[OF this history_ok] show ?case
  proof (elim disjE exE conjE)
    assume kept: "armed (calls (history es)) = Some a" "quiet what"
    from snoc.IH[OF sorted kept(1)] obtain t0 where "goes_back_to es t0" "t0 + auto_stop_grace \<le> deadline a"
      "postponable a \<longrightarrow> deadline a = t0 + auto_stop_grace"
      "prompt idle_recorder es \<longrightarrow> deadline a \<le> t0 + 2 * auto_stop_grace" by blast
    then show ?thesis using goes_back_on[OF _ kept(2)] unfolding e prompt_snoc
      by (intro exI[of _ t0]) auto
  next
    fix spawned assume "what = Activity Released spawned" "armed_at now True a"
    then show ?thesis using goes_back_now by (intro exI[of _ now]) (simp add: e armed_at_def)
  next
    fix a0 assume again: "armed (calls (history es)) = Some a0" "postponable a0" "quiet what" "armed_at now False a"
    from snoc.IH[OF sorted again(1)] again(2) obtain t0 where t0: "goes_back_to es t0"
      "deadline a0 = t0 + auto_stop_grace" by blast
    have "t0 \<le> now" using goes_back_sorted[OF t0(1)] snoc.prems(1) by (simp add: e)
    moreover have "prompt idle_recorder (es @ [e]) \<Longrightarrow> now \<le> t0 + auto_stop_grace"
      using again(1) t0(2) by (simp add: prompt_snoc e history_def)
    ultimately show ?thesis using again(4) goes_back_on[OF t0(1) again(3)]
      by (intro exI[of _ t0]) (auto simp: e armed_at_def)
  qed
qed

section \<open>Properties of the auto-stop\<close>

text \<open>
  C25: a recording the auto-stop ends was a call in which another app let go of the microphone at
  least one grace earlier, and since then no app opened it and the user neither kept nor stopped
  the recording; the reason it ends with is the call's.
\<close>

theorem auto_stop_waits_a_grace:
  assumes "sorted (map fst es)" and "(n, began) \<in> set (timers (history es))"
    and "began + auto_stop_grace \<le> now"
    and "snd (call_ended now spawned n (history es)) = Some reason"
  shows "(\<exists>before t0 b after. es = before @ (t0, Activity Released b) # after \<and>
      t0 + auto_stop_grace \<le> now \<and> list_all (quiet \<circ> snd) after) \<and>
    (\<exists>app. reason = CallEnded app)"
proof -
  let ?r = "history es"
  have "\<exists>a. armed (calls ?r) = Some a \<and> number a = n \<and> reason = CallEnded (auto_app_name a)"
    using assms(4) unfolding call_ended_def arm_auto_stop_def
    by (auto simp: postpone_def elapsed_def arm_cases begin_stop_def disarm_def
        split: if_splits option.splits prod.splits bool.splits)
  then obtain a where a: "armed (calls ?r) = Some a" "number a = n" "reason = CallEnded (auto_app_name a)" by blast
  have "began + auto_stop_grace = deadline a"
    using recorder_okD(4)[OF history_ok a(1)] assms(2) a(2) by blast
  moreover obtain t0 where "goes_back_to es t0" "t0 + auto_stop_grace \<le> deadline a"
    using armed_origin[OF assms(1) a(1)] by blast
  ultimately have "goes_back_to es t0 \<and> t0 + auto_stop_grace \<le> now" using assms(3) by simp
  then show ?thesis using a(3) unfolding goes_back_to_def by blast
qed

text \<open>
  C28: when no countdown's thread is late, an armed countdown runs out within two graces of the release
  it goes back to, and then the recording stops, with the capture recovering or not, unless it is the
  first one and the capture recovers.
\<close>

theorem auto_stop_within_two_graces:
  assumes "sorted (map fst es)" and "prompt idle_recorder es" and "armed (calls (history es)) = Some a"
  shows "\<exists>before t0 b after. es = before @ (t0, Activity Released b) # after \<and> list_all (quiet \<circ> snd) after \<and>
    deadline a \<le> t0 + 2 * auto_stop_grace \<and>
    (snd (call_ended (deadline a) spawned (number a) (history es)) = Some (CallEnded (auto_app_name a)) \<or>
     recovering (history es) \<and> deadline a = t0 + auto_stop_grace)"
proof -
  let ?r = "history es"
  have r: "rstate ?r = Recording" "active_mode ?r = Some Call" using recorder_okD(1)[OF history_ok assms(3)] by simp_all
  obtain t0 where t0: "goes_back_to es t0" "deadline a \<le> t0 + 2 * auto_stop_grace"
    "postponable a \<longrightarrow> deadline a = t0 + auto_stop_grace"
    using armed_origin[OF assms(1,3)] assms(2) by blast
  have "snd (call_ended (deadline a) spawned (number a) ?r) = Some (CallEnded (auto_app_name a))"
    if "\<not> (recovering ?r \<and> postponable a)"
    using that r assms(3) by (auto simp: call_ended_def arm_auto_stop_def postpone_def elapsed_def begin_stop_def)
  then show ?thesis using t0 unfolding goes_back_to_def by blast
qed

text \<open>A call that opened and released the microphone, and its countdown running out.\<close>

definition demo_call :: "(nat \<times> call_event) list" where
  "demo_call = [(0, Start None), (1, Began Call), (2, Activity (Opened None) True),
     (5, Activity Released True)]"

lemmas demo_call_defs = demo_call_def history_def recorder_ops watch_ops no_calls_def idle_recorder_def
  call_ended_def auto_stop_grace_def

lemma auto_stop_waits_a_grace_witness:
  "(\<exists>before t0 b after. demo_call = before @ (t0, Activity Released b) # after \<and>
      t0 + auto_stop_grace \<le> 5 + auto_stop_grace \<and> list_all (quiet \<circ> snd) after) \<and>
    (\<exists>app. CallEnded None = CallEnded app)"
  by (rule auto_stop_waits_a_grace[of demo_call 1 5 "5 + auto_stop_grace" True])
    (simp_all add: demo_call_defs)

lemma auto_stop_within_two_graces_witness:
  "\<exists>before t0 b after. demo_call = before @ (t0, Activity Released b) # after \<and> list_all (quiet \<circ> snd) after \<and>
    5 + auto_stop_grace \<le> t0 + 2 * auto_stop_grace \<and>
    (snd (call_ended (5 + auto_stop_grace) True 1 (history demo_call)) = Some (CallEnded None) \<or>
     recovering (history demo_call) \<and> 5 + auto_stop_grace = t0 + auto_stop_grace)"
  using auto_stop_within_two_graces[of demo_call "\<lparr>auto_app_name = None, deadline = 5 + auto_stop_grace,
      number = 1, postponable = True\<rparr>" True]
  by (simp add: demo_call_defs)

end
