(* ===== verification/Tdt_Decoder.thy ===== *)
theory Tdt_Decoder
  imports Steno_Prelude
begin

text \<open>
  \<open>steno-speech/src/decoder.rs\<close> with the data of \<open>backend.rs\<close>: the greedy TDT decode of one encoder
  window. An \<open>f32\<close> is a rational, or \<open>None\<close> when it is no finite number. The model's calls, their
  state and their errors are the fields of \<open>speech_backend\<close>; the shape is read from the state each
  time, as the trait's \<open>shape\<close> is. The loop is total: its measure is the frames left, then the
  symbols left on the frame.
\<close>

section \<open>The backend\<close>

type_synonym f32 = "rat option"

definition sample_rate :: nat where "sample_rate = 16000"

definition frame_samples :: nat where "frame_samples = sample_rate * 8 div 100"

record model_shape =
  vocab_size :: nat
  blank_id :: nat
  durations :: "nat list"
  decoder_layers :: nat
  decoder_hidden :: nat
  encoder_hidden :: nat

record encoder_output =
  hidden :: nat
  valid_frames :: nat
  encoder_data :: "f32 list"

definition encoder_frame :: "encoder_output \<Rightarrow> nat \<Rightarrow> f32 list" where
  "encoder_frame e t = take (hidden e) (drop (t * hidden e) (encoder_data e))"

record decoder_state =
  state_h :: "f32 list"
  state_c :: "f32 list"

definition zeros :: "nat \<Rightarrow> nat \<Rightarrow> decoder_state" where
  "zeros layers width =
     \<lparr>state_h = replicate (layers * width) (Some 0), state_c = replicate (layers * width) (Some 0)\<rparr>"

record decoder_step =
  projection :: "f32 list"
  step_state :: decoder_state

record joint_decision =
  decided_token :: nat
  probability :: f32
  duration_bin :: nat

datatype 'e speech_error = BinOutside nat nat | FrameWidth nat nat | ModelError 'e

record ('b, 'e) speech_backend =
  shape :: "'b \<Rightarrow> model_shape"
  run_decoder :: "nat \<Rightarrow> decoder_state \<Rightarrow> 'b \<Rightarrow> 'b \<times> ('e speech_error + decoder_step)"
  run_joint :: "f32 list \<Rightarrow> f32 list \<Rightarrow> 'b \<Rightarrow> 'b \<times> ('e speech_error + joint_decision)"

section \<open>The decode\<close>

record token =
  token_id :: nat
  frame :: nat
  phase :: nat
  confidence :: rat
  token_duration :: nat

definition sample :: "token \<Rightarrow> nat" where
  "sample k = frame k * frame_samples + phase k"

record decoder_config =
  max_symbols_per_frame :: nat
  tokens_per_second :: nat

definition default_config :: decoder_config where
  "default_config = \<lparr>max_symbols_per_frame = 10, tokens_per_second = 40\<rparr>"

record decode_stats =
  windows :: nat
  decoder_calls :: nat
  joint_calls :: nat
  recoveries_tried :: nat
  recoveries_accepted :: nat
  runaways :: nat

definition no_stats :: decode_stats where
  "no_stats = \<lparr>windows = 0, decoder_calls = 0, joint_calls = 0, recoveries_tried = 0,
     recoveries_accepted = 0, runaways = 0\<rparr>"

definition add_stats :: "decode_stats \<Rightarrow> decode_stats \<Rightarrow> decode_stats" where
  "add_stats s t =
     \<lparr>windows = windows s + windows t, decoder_calls = decoder_calls s + decoder_calls t,
      joint_calls = joint_calls s + joint_calls t,
      recoveries_tried = recoveries_tried s + recoveries_tried t,
      recoveries_accepted = recoveries_accepted s + recoveries_accepted t,
      runaways = runaways s + runaways t\<rparr>"

definition confidence_of :: "f32 \<Rightarrow> rat" where
  "confidence_of p = (case p of Some x \<Rightarrow> min 1 (max 0 x) | None \<Rightarrow> 0)"

definition duration :: "model_shape \<Rightarrow> nat \<Rightarrow> 'e speech_error + nat" where
  "duration s bin =
     (if bin < length (durations s) then Inr (durations s ! bin)
      else Inl (BinOutside bin (length (durations s))))"

text \<open>The loop's variables.\<close>

record 'b decoding =
  model :: 'b
  time :: nat
  symbols_here :: nat
  last_step :: decoder_step
  tokens :: "token list"
  stats :: decode_stats

definition token_budget :: "decoder_config \<Rightarrow> nat \<Rightarrow> nat" where
  "token_budget config frames = tokens_per_second config * frames div 12 + 16"

text \<open>One turn of the loop; whether the loop goes on.\<close>

definition decode_turn ::
  "('b, 'e) speech_backend \<Rightarrow> encoder_output \<Rightarrow> nat \<Rightarrow> decoder_config \<Rightarrow> nat \<Rightarrow> nat \<Rightarrow>
     'b decoding \<Rightarrow> 'b decoding \<times> ('e speech_error + bool)"
where
  "decode_turn B encoder start config blank frames d =
     (case run_joint B (encoder_frame encoder (time d)) (projection (last_step d)) (model d) of
        (b, Inl e) \<Rightarrow> (d\<lparr>model := b\<rparr>, Inl e)
      | (b, Inr decision) \<Rightarrow>
          let d = d\<lparr>model := b, stats := (stats d)\<lparr>joint_calls := joint_calls (stats d) + 1\<rparr>\<rparr>
          in case duration (shape B b) (duration_bin decision) of
               Inl e \<Rightarrow> (d, Inl e)
             | Inr n \<Rightarrow>
                 if decided_token decision = blank
                 then (d\<lparr>time := time d + max n 1, symbols_here := 0\<rparr>, Inr True)
                 else
                   let here = time d;
                       advance = (if n = 0 \<and> symbols_here d + 1 < max_symbols_per_frame config then 0
                                  else max n 1);
                       d = d\<lparr>time := time d + advance,
                             tokens := tokens d @ [\<lparr>token_id = decided_token decision,
                                frame = start div frame_samples + here, phase = start mod frame_samples,
                                confidence = confidence_of (probability decision), token_duration = n\<rparr>]\<rparr>
                   in if length (tokens d) > token_budget config frames
                      then (d\<lparr>stats := (stats d)\<lparr>runaways := runaways (stats d) + 1\<rparr>\<rparr>, Inr False)
                      else case run_decoder B (decided_token decision) (step_state (last_step d)) (model d) of
                             (b, Inl e) \<Rightarrow> (d\<lparr>model := b\<rparr>, Inl e)
                           | (b, Inr step) \<Rightarrow>
                               (d\<lparr>model := b, last_step := step,
                                  stats := (stats d)\<lparr>decoder_calls := decoder_calls (stats d) + 1\<rparr>,
                                  symbols_here := (if advance > 0 then 0 else symbols_here d + 1)\<rparr>, Inr True))"

lemma decode_turn_time:
  assumes "decode_turn B encoder start config blank frames d = (d', Inr True)"
  shows "time d < time d' \<and> symbols_here d' = 0 \<or>
    time d' = time d \<and> symbols_here d' = symbols_here d + 1 \<and> symbols_here d' < max_symbols_per_frame config"
  using assms unfolding decode_turn_def Let_def
  by (auto split: prod.splits sum.splits if_splits)

function decode_loop ::
  "('b, 'e) speech_backend \<Rightarrow> encoder_output \<Rightarrow> nat \<Rightarrow> decoder_config \<Rightarrow> nat \<Rightarrow> nat \<Rightarrow>
     'b decoding \<Rightarrow> 'b decoding \<times> ('e speech_error + unit)"
where
  "decode_loop B encoder start config blank frames d =
     (if time d < frames
      then case decode_turn B encoder start config blank frames d of
             (d', Inl e) \<Rightarrow> (d', Inl e)
           | (d', Inr goes_on) \<Rightarrow>
               if goes_on then decode_loop B encoder start config blank frames d' else (d', Inr ())
      else (d, Inr ()))"
  by pat_completeness auto
termination
  by (relation "measures [\<lambda>(B, encoder, start, config, blank, frames, d). frames - time d,
      \<lambda>(B, encoder, start, config, blank, frames, d). max_symbols_per_frame config - symbols_here d]")
    (auto dest!: decode_turn_time[OF HOL.sym])

declare decode_loop.simps [simp del]

definition decode_window ::
  "('b, 'e) speech_backend \<Rightarrow> 'b \<Rightarrow> encoder_output \<Rightarrow> nat \<Rightarrow> decoder_config \<Rightarrow> decode_stats \<Rightarrow>
     'b \<times> decode_stats \<times> ('e speech_error + token list)"
where
  "decode_window B b encoder start config s =
     (if hidden encoder \<noteq> encoder_hidden (shape B b)
      then (b, s, Inl (FrameWidth (hidden encoder) (encoder_hidden (shape B b))))
      else
        let frames = min (valid_frames encoder) (length (encoder_data encoder) div max (hidden encoder) 1);
            s = s\<lparr>windows := windows s + 1\<rparr>
        in if frames = 0 then (b, s, Inr [])
           else let blank = blank_id (shape B b)
                in case run_decoder B blank (zeros (decoder_layers (shape B b)) (decoder_hidden (shape B b))) b of
                     (b, Inl e) \<Rightarrow> (b, s, Inl e)
                   | (b, Inr step) \<Rightarrow>
                       (case decode_loop B encoder start config blank frames
                               \<lparr>model = b, time = 0, symbols_here = 0, last_step = step, tokens = [],
                                stats = s\<lparr>decoder_calls := decoder_calls s + 1\<rparr>\<rparr> of
                          (d, Inl e) \<Rightarrow> (model d, stats d, Inl e)
                        | (d, Inr _) \<Rightarrow> (model d, stats d, Inr (tokens d))))"

section \<open>Facts\<close>

definition on_frame :: "nat \<Rightarrow> token list \<Rightarrow> nat" where
  "on_frame f ks = length (filter (\<lambda>k. frame k = f) ks)"

lemma on_frame_snoc: "on_frame f (ks @ [k]) = on_frame f ks + (if frame k = f then 1 else 0)"
  by (simp add: on_frame_def)

text \<open>Tokens in order within the window, each with its window's phase and a confidence in \<open>0..=1\<close>,
  no frame with more than the symbol limit.\<close>

definition tokens_ok :: "nat \<Rightarrow> decoder_config \<Rightarrow> nat \<Rightarrow> token list \<Rightarrow> bool" where
  "tokens_ok start config frames ks \<longleftrightarrow> sorted (map frame ks) \<and>
     (\<forall>k\<in>set ks. start div frame_samples \<le> frame k \<and> frame k < start div frame_samples + frames \<and>
        phase k = start mod frame_samples \<and> 0 \<le> confidence k \<and> confidence k \<le> 1) \<and>
     (\<forall>f. on_frame f ks \<le> max 1 (max_symbols_per_frame config))"

definition decoding_ok :: "nat \<Rightarrow> decoder_config \<Rightarrow> nat \<Rightarrow> 'b decoding \<Rightarrow> bool" where
  "decoding_ok start config frames d \<longleftrightarrow> tokens_ok start config frames (tokens d) \<and>
     (\<forall>k\<in>set (tokens d). frame k \<le> start div frame_samples + time d) \<and>
     symbols_here d < max 1 (max_symbols_per_frame config) \<and>
     on_frame (start div frame_samples + time d) (tokens d) \<le> symbols_here d \<and>
     length (tokens d) \<le> token_budget config frames"

lemma confidence_range: "0 \<le> confidence_of p \<and> confidence_of p \<le> 1"
  by (auto simp: confidence_of_def split: option.splits)

lemma on_frame_later:
  assumes "\<forall>k\<in>set ks. frame k \<le> n" and "n < m"
  shows "on_frame m ks = 0"
  using assms by (auto simp: on_frame_def filter_empty_conv)

lemma tokens_ok_snoc:
  assumes ok: "decoding_ok start config frames d" and time: "time d < frames"
    and k: "frame k = start div frame_samples + time d" "phase k = start mod frame_samples"
      "confidence k = confidence_of p"
  shows "tokens_ok start config frames (tokens d @ [k])"
proof -
  have "on_frame f (tokens d @ [k]) \<le> max 1 (max_symbols_per_frame config)" for f
    using ok k(1) by (cases "f = frame k") (auto simp: decoding_ok_def tokens_ok_def on_frame_snoc)
  then show ?thesis
    using ok time k confidence_range[of p] by (auto simp: decoding_ok_def tokens_ok_def sorted_append)
qed

text \<open>What one turn does to the variables the bounds speak of.\<close>

lemma decode_turn_cases:
  assumes "decode_turn B encoder start config blank frames d = (d', r)"
  obtains (error) e where "r = Inl e" "decoder_calls (stats d') = decoder_calls (stats d)"
      "joint_calls (stats d) \<le> joint_calls (stats d')" "joint_calls (stats d') \<le> joint_calls (stats d) + 1"
  | (blank) n where "r = Inr True" "time d' = time d + max n 1" "symbols_here d' = 0" "tokens d' = tokens d"
      "stats d' = (stats d)\<lparr>joint_calls := joint_calls (stats d) + 1\<rparr>"
  | (runaway) k p where "r = Inr False" "tokens d' = tokens d @ [k]"
      "frame k = start div frame_samples + time d" "phase k = start mod frame_samples"
      "confidence k = confidence_of p" "length (tokens d') > token_budget config frames"
      "stats d' = (stats d)\<lparr>joint_calls := joint_calls (stats d) + 1, runaways := runaways (stats d) + 1\<rparr>"
  | (token) k p advance where "r = Inr True" "tokens d' = tokens d @ [k]"
      "frame k = start div frame_samples + time d" "phase k = start mod frame_samples"
      "confidence k = confidence_of p" "length (tokens d') \<le> token_budget config frames"
      "time d' = time d + advance"
      "if advance > 0 then symbols_here d' = 0
       else symbols_here d' = symbols_here d + 1 \<and> symbols_here d + 1 < max_symbols_per_frame config"
      "stats d' = (stats d)\<lparr>joint_calls := joint_calls (stats d) + 1, decoder_calls := decoder_calls (stats d) + 1\<rparr>"
proof -
  obtain b j where j: "run_joint B (encoder_frame encoder (time d)) (projection (last_step d)) (model d) = (b, j)"
    by (cases "run_joint B (encoder_frame encoder (time d)) (projection (last_step d)) (model d)")
  note turn = assms[unfolded decode_turn_def j, simplified]
  show thesis
  proof (cases j)
    case (Inl e)
    with turn show thesis by (intro error[of e]) auto
  next
    case (Inr decision)
    show thesis
    proof (cases "duration (shape B b) (duration_bin decision) :: 'b speech_error + nat")
      case (Inl e)
      with turn \<open>j = Inr decision\<close> show thesis by (intro error[of e]) (auto simp: Let_def)
    next
      case n: (Inr n)
      show thesis
      proof (cases "decided_token decision = blank")
        case True
        with turn \<open>j = Inr decision\<close> n show thesis by (intro blank[of n]) (auto simp: Let_def)
      next
        case False
        let ?k = "\<lparr>token_id = decided_token decision, frame = start div frame_samples + time d,
            phase = start mod frame_samples, confidence = confidence_of (probability decision),
            token_duration = n\<rparr>"
        show thesis
        proof (cases "length (tokens d @ [?k]) > token_budget config frames")
          case True
          with turn \<open>j = Inr decision\<close> n False show thesis
            by (intro runaway[of ?k "probability decision"]) (auto simp: Let_def)
        next
          case fits: False
          obtain b' s where s: "run_decoder B (decided_token decision) (step_state (last_step d)) b = (b', s)"
            by (cases "run_decoder B (decided_token decision) (step_state (last_step d)) b")
          show thesis
          proof (cases s)
            case (Inl e)
            with turn \<open>j = Inr decision\<close> n False fits s show thesis
              by (intro error[of e]) (auto simp: Let_def)
          next
            case (Inr step)
            with turn \<open>j = Inr decision\<close> n False fits s show thesis
              by (intro token[of ?k "probability decision"
                    "if n = 0 \<and> symbols_here d + 1 < max_symbols_per_frame config then 0 else max n 1"])
                (auto simp: Let_def split: if_splits)
          qed
        qed
      qed
    qed
  qed
qed

text \<open>A loop that ends leaves the tokens in order; one abandoned has passed the budget by a token.\<close>

definition decoded_ok :: "nat \<Rightarrow> decoder_config \<Rightarrow> nat \<Rightarrow> nat \<Rightarrow> 'b decoding \<Rightarrow> bool" where
  "decoded_ok start config frames before d \<longleftrightarrow> tokens_ok start config frames (tokens d) \<and>
     (length (tokens d) \<le> token_budget config frames \<and> runaways (stats d) = before \<or>
      length (tokens d) = token_budget config frames + 1 \<and> runaways (stats d) = before + 1)"

lemma decode_turn_ok:
  assumes "decode_turn B encoder start config blank frames d = (d', r)"
    and ok: "decoding_ok start config frames d" and time: "time d < frames"
  shows "r = Inr True \<Longrightarrow> decoding_ok start config frames d' \<and> runaways (stats d') = runaways (stats d)"
    and "r = Inr False \<Longrightarrow> decoded_ok start config frames (runaways (stats d)) d'"
proof -
  have early: "\<forall>k\<in>set (tokens d). frame k \<le> start div frame_samples + time d"
    using ok by (simp add: decoding_ok_def)
  have "(r = Inr True \<longrightarrow> decoding_ok start config frames d' \<and> runaways (stats d') = runaways (stats d)) \<and>
      (r = Inr False \<longrightarrow> decoded_ok start config frames (runaways (stats d)) d')"
    using assms(1)
  proof (cases rule: decode_turn_cases)
    case (blank n)
    have "on_frame (start div frame_samples + time d') (tokens d) = 0"
      using early by (rule on_frame_later) (simp add: blank)
    then show ?thesis using ok blank by (force simp: decoding_ok_def)
  next
    case (runaway k p)
    then show ?thesis using tokens_ok_snoc[OF ok time runaway(3-5)] ok
      by (auto simp: decoded_ok_def decoding_ok_def)
  next
    case (token k p advance)
    have ks: "tokens_ok start config frames (tokens d')"
      using tokens_ok_snoc[OF ok time token(3-5)] token(2) by simp
    have early': "\<forall>k\<in>set (tokens d'). frame k \<le> start div frame_samples + time d"
      using early token(2,3) by auto
    show ?thesis
    proof (cases "advance > 0")
      case True
      have "on_frame (start div frame_samples + time d') (tokens d') = 0"
        using early' by (rule on_frame_later) (simp add: token(7) True)
      then show ?thesis using ks early' token True by (force simp: decoding_ok_def)
    next
      case False
      then show ?thesis using ks early' token ok
        by (auto simp: decoding_ok_def on_frame_snoc)
    qed
  qed simp
  then show "r = Inr True \<Longrightarrow> decoding_ok start config frames d' \<and> runaways (stats d') = runaways (stats d)"
    and "r = Inr False \<Longrightarrow> decoded_ok start config frames (runaways (stats d)) d'" by blast+
qed

lemma decode_loop_ok:
  "decode_loop B encoder start config blank frames d = (d', Inr u) \<Longrightarrow> decoding_ok start config frames d \<Longrightarrow>
     decoded_ok start config frames (runaways (stats d)) d'"
proof (induction B encoder start config blank frames d rule: decode_loop.induct)
  case (1 B encoder start config blank frames d)
  show ?case
  proof (cases "time d < frames")
    case False
    then show ?thesis using 1(2,3)
      by (subst (asm) decode_loop.simps) (auto simp: decoded_ok_def decoding_ok_def)
  next
    case True
    obtain d1 r where turn: "decode_turn B encoder start config blank frames d = (d1, r)"
      by (cases "decode_turn B encoder start config blank frames d")
    note ok = decode_turn_ok[OF turn 1(3) True]
    have loop: "decode_loop B encoder start config blank frames d =
        (case r of Inl e \<Rightarrow> (d1, Inl e)
         | Inr goes_on \<Rightarrow> if goes_on then decode_loop B encoder start config blank frames d1 else (d1, Inr ()))"
      using True by (subst decode_loop.simps) (simp add: turn)
    show ?thesis
    proof (cases r)
      case (Inl e)
      then show ?thesis using 1(2) loop by simp
    next
      case (Inr goes_on)
      show ?thesis
      proof (cases goes_on)
        case more: True
        then have "decode_loop B encoder start config blank frames d1 = (d', Inr u)"
          using 1(2) loop Inr by simp
        from 1(1)[OF True turn[symmetric] Inr more this] ok(1) more Inr show ?thesis by simp
      next
        case stop: False
        then show ?thesis using 1(2) loop Inr ok(2) by simp
      qed
    qed
  qed
qed

text \<open>The model's calls: a joint call a turn, a decoder call a token fed.\<close>

lemma decode_turn_calls:
  assumes "decode_turn B encoder start config blank frames d = (d', r)"
  shows "joint_calls (stats d') \<le> joint_calls (stats d) + 1"
    and "decoder_calls (stats d') + joint_calls (stats d) \<le> decoder_calls (stats d) + joint_calls (stats d')"
proof -
  show "joint_calls (stats d') \<le> joint_calls (stats d) + 1"
    using assms by (cases rule: decode_turn_cases) simp_all
  show "decoder_calls (stats d') + joint_calls (stats d) \<le> decoder_calls (stats d) + joint_calls (stats d')"
    using assms by (cases rule: decode_turn_cases) simp_all
qed

text \<open>No more joint calls than the symbol limit allows on every frame.\<close>

lemma decode_loop_calls:
  assumes "decode_loop B encoder start config blank frames d = (d', r)"
    and "symbols_here d < max 1 (max_symbols_per_frame config)"
    and "joint_calls (stats d) \<le> base + time d * max 1 (max_symbols_per_frame config) + symbols_here d"
    and "joint_calls (stats d) \<le> base + frames * max 1 (max_symbols_per_frame config)"
  shows "joint_calls (stats d') \<le> base + frames * max 1 (max_symbols_per_frame config)"
    and "decoder_calls (stats d') + joint_calls (stats d) \<le> decoder_calls (stats d) + joint_calls (stats d')"
proof -
  let ?M = "max 1 (max_symbols_per_frame config)"
  have "joint_calls (stats d') \<le> base + frames * ?M \<and>
      decoder_calls (stats d') + joint_calls (stats d) \<le> decoder_calls (stats d) + joint_calls (stats d')"
    using assms
  proof (induction B encoder start config blank frames d rule: decode_loop.induct)
    case (1 B encoder start config blank frames d)
    let ?M = "max 1 (max_symbols_per_frame config)"
    show ?case
    proof (cases "time d < frames")
      case False
      then show ?thesis using "1.prems" by (subst (asm) decode_loop.simps) auto
    next
      case True
      obtain d1 r1 where turn: "decode_turn B encoder start config blank frames d = (d1, r1)"
        by (cases "decode_turn B encoder start config blank frames d")
      note calls = decode_turn_calls[OF turn]
      have "Suc (time d) * ?M \<le> frames * ?M" using True by (intro mult_right_mono) simp_all
      then have here: "joint_calls (stats d1) \<le> base + frames * ?M"
        using calls(1) "1.prems"(2,3) by simp
      have loop: "decode_loop B encoder start config blank frames d =
          (case r1 of Inl e \<Rightarrow> (d1, Inl e)
           | Inr goes_on \<Rightarrow> if goes_on then decode_loop B encoder start config blank frames d1 else (d1, Inr ()))"
        using True by (subst decode_loop.simps) (simp add: turn)
      show ?thesis
      proof (cases "r1 = Inr True")
        case goes_on: True
        note moved = decode_turn_time[OF turn[unfolded goes_on]]
        have "joint_calls (stats d1) \<le> base + time d1 * ?M + symbols_here d1"
        proof (cases "time d < time d1")
          case True
          then have "Suc (time d) * ?M \<le> time d1 * ?M" by (intro mult_right_mono) simp_all
          then show ?thesis using calls(1) "1.prems"(2,3) by simp
        next
          case False
          then show ?thesis using moved calls(1) "1.prems"(3) by auto
        qed
        moreover have "symbols_here d1 < ?M" using moved by auto
        moreover have "decode_loop B encoder start config blank frames d1 = (d', r)"
          using "1.prems"(1) loop goes_on by simp
        ultimately show ?thesis
          using "1.IH"[OF True turn[symmetric] goes_on] here calls(2) by fastforce
      next
        case False
        then have "d' = d1" using "1.prems"(1) loop by (auto split: sum.splits if_splits)
        then show ?thesis using here calls(2) by simp
      qed
    qed
  qed
  then show "joint_calls (stats d') \<le> base + frames * ?M"
    and "decoder_calls (stats d') + joint_calls (stats d) \<le> decoder_calls (stats d) + joint_calls (stats d')"
    by simp_all
qed

section \<open>Properties of the decode\<close>

definition window_frames :: "encoder_output \<Rightarrow> nat" where
  "window_frames e = min (valid_frames e) (length (encoder_data e) div max (hidden e) 1)"

text \<open>
   whatever the model answers, a window's decode returns, after no more joint calls than its frames
  times the symbol limit and one more decoder call than joint calls.
\<close>

theorem decode_work_is_bounded:
  "case decode_window B b encoder start config s of (b', s', r) \<Rightarrow>
     joint_calls s' \<le> joint_calls s + window_frames encoder * max 1 (max_symbols_per_frame config) \<and>
     decoder_calls s' + joint_calls s \<le> decoder_calls s + joint_calls s' + 1"
proof -
  have "joint_calls (stats d') \<le> joint_calls s + window_frames encoder * max 1 (max_symbols_per_frame config) \<and>
      decoder_calls (stats d') + joint_calls s \<le> decoder_calls s + 1 + joint_calls (stats d')"
    if "decode_loop B encoder start config blank (window_frames encoder)
      \<lparr>model = m, time = 0, symbols_here = 0, last_step = step, tokens = [],
       stats = s\<lparr>windows := n, decoder_calls := decoder_calls s + 1\<rparr>\<rparr> = (d', r)" for m step n blank d' r
    using decode_loop_calls[OF that, of "joint_calls s"] by simp
  then show ?thesis
    unfolding decode_window_def Let_def window_frames_def[symmetric]
    by (auto split: prod.splits sum.splits)
qed

text \<open>
  C33: a window decoded without an error gives tokens in the order of their frames, all inside the
  window, no frame with more of them than the symbol limit, each with a confidence in \<open>0..=1\<close>; they
  are within the token budget, or the window is counted as a runaway and they pass it by one.
\<close>

theorem decoded_tokens_fit_the_window:
  assumes "decode_window B b encoder start config s = (b', s', Inr ks)"
  shows "sorted (map frame ks) \<and>
    (\<forall>k\<in>set ks. start div frame_samples \<le> frame k \<and>
       frame k < start div frame_samples + window_frames encoder \<and>
       phase k = start mod frame_samples \<and> 0 \<le> confidence k \<and> confidence k \<le> 1) \<and>
    (\<forall>f. on_frame f ks \<le> max 1 (max_symbols_per_frame config)) \<and>
    (length ks \<le> token_budget config (window_frames encoder) \<and> runaways s' = runaways s \<or>
     length ks = token_budget config (window_frames encoder) + 1 \<and> runaways s' = runaways s + 1)"
proof (cases "window_frames encoder = 0")
  case True
  then have "ks = [] \<and> runaways s' = runaways s"
    using assms unfolding decode_window_def Let_def window_frames_def[symmetric] by (auto split: if_splits)
  then show ?thesis by (simp add: on_frame_def)
next
  case False
  then obtain m step blank d u where loop: "decode_loop B encoder start config blank (window_frames encoder)
      \<lparr>model = m, time = 0, symbols_here = 0, last_step = step, tokens = [],
       stats = s\<lparr>windows := windows s + 1, decoder_calls := decoder_calls s + 1\<rparr>\<rparr> = (d, Inr u)"
    and d: "ks = tokens d" "s' = stats d"
    using assms unfolding decode_window_def Let_def window_frames_def[symmetric]
    by (auto split: prod.splits sum.splits if_splits)
  have "decoded_ok start config (window_frames encoder) (runaways s) d"
    using decode_loop_ok[OF loop] by (simp add: decoding_ok_def tokens_ok_def on_frame_def)
  then show ?thesis by (simp add: decoded_ok_def tokens_ok_def d)
qed

text \<open>A model of one piece and the blank, answering the piece, then the blank.\<close>

definition demo_backend :: "(nat, unit) speech_backend" where
  "demo_backend =
     \<lparr>shape = \<lambda>_. \<lparr>vocab_size = 2, blank_id = 1, durations = [0, 1], decoder_layers = 1,
                   decoder_hidden = 1, encoder_hidden = 1\<rparr>,
      run_decoder = \<lambda>token st n. (n, Inr \<lparr>projection = [], step_state = st\<rparr>),
      run_joint = \<lambda>f p n. (n + 1, Inr \<lparr>decided_token = n mod 2, probability = Some 1, duration_bin = n mod 2\<rparr>)\<rparr>"

definition demo_encoder :: encoder_output where
  "demo_encoder = \<lparr>hidden = 1, valid_frames = 1, encoder_data = [Some 0]\<rparr>"

lemma demo_decode:
  "decode_window demo_backend 0 demo_encoder 1281 default_config no_stats =
     (2, no_stats\<lparr>windows := 1, decoder_calls := 2, joint_calls := 2\<rparr>,
      Inr [\<lparr>token_id = 0, frame = 1, phase = 1, confidence = 1, token_duration = 0\<rparr>])"
  by (simp add: decode_window_def demo_backend_def demo_encoder_def default_config_def no_stats_def
      decode_loop.simps decode_turn_def duration_def token_budget_def frame_samples_def sample_rate_def
      confidence_of_def Let_def)

lemma decoded_tokens_fit_the_window_witness:
  "let ks = [\<lparr>token_id = 0, frame = 1, phase = 1, confidence = 1, token_duration = 0\<rparr>] in
   sorted (map frame ks) \<and>
    (\<forall>k\<in>set ks. 1281 div frame_samples \<le> frame k \<and>
       frame k < 1281 div frame_samples + window_frames demo_encoder \<and>
       phase k = 1281 mod frame_samples \<and> 0 \<le> confidence k \<and> confidence k \<le> 1) \<and>
    (\<forall>f. on_frame f ks \<le> max 1 (max_symbols_per_frame default_config)) \<and>
    (length ks \<le> token_budget default_config (window_frames demo_encoder) \<and>
       runaways (no_stats\<lparr>windows := 1, decoder_calls := 2, joint_calls := 2\<rparr>) = runaways no_stats \<or>
     length ks = token_budget default_config (window_frames demo_encoder) + 1 \<and>
       runaways (no_stats\<lparr>windows := 1, decoder_calls := 2, joint_calls := 2\<rparr>) = runaways no_stats + 1)"
  unfolding Let_def by (rule decoded_tokens_fit_the_window[OF demo_decode])

end
