(* ===== verification/Chunk_Layout.thy ===== *)
theory Chunk_Layout
  imports Tdt_Decoder
begin

text \<open>
  \<open>steno-speech/src/chunker.rs\<close>: how a recording is laid out in chunks over the speech its voice
  detection found, and the spans that own it. A range is its first sample and the one past its last.
  Samples are of any type; the energy of a frame, in the code the \<open>f32\<close> sum of its squares, is an
  argument, \<open>None\<close> when it is no finite number. Seconds are exact. The loop of \<open>layout\<close> returns its
  chunks as a list; that it ends is its termination proof.
\<close>

section \<open>The data\<close>

type_synonym range = "nat \<times> nat"

definition range_len :: "range \<Rightarrow> nat" where
  "range_len r = snd r - fst r"

definition inside :: "nat \<Rightarrow> range \<Rightarrow> bool" where
  "inside i r \<longleftrightarrow> fst r \<le> i \<and> i < snd r"

definition nat_midpoint :: "nat \<Rightarrow> nat \<Rightarrow> nat" where
  "nat_midpoint a b = (a + b) div 2"

fun sample_count :: "f64 \<Rightarrow> nat" where
  "sample_count (Finite x) = min (2 ^ 64 - 1) (nat \<lfloor>max x 0 * of_nat sample_rate\<rfloor>)"
| "sample_count Infinity = 2 ^ 64 - 1"
| "sample_count NegInfinity = 0"
| "sample_count NaN = 0"

datatype cut = Pause | LongPause | Energy | Tail

record chunk =
  chunk_range :: range
  chunk_cut :: cut

datatype gaps = NoGaps | TailGap | AllGaps

record chunker_config =
  target_seconds :: f64
  search_seconds :: f64
  overlap_seconds :: f64
  long_pause_seconds :: f64
  max_seconds :: f64
  pad_seconds :: f64
  min_chunk_seconds :: f64
  decode_gaps :: gaps
  from_start :: bool

definition default_chunker :: chunker_config where
  "default_chunker =
     \<lparr>target_seconds = Finite 25, search_seconds = Finite 4, overlap_seconds = Finite 2,
      long_pause_seconds = Finite 3, max_seconds = Finite 60, pad_seconds = Finite (1/4),
      min_chunk_seconds = Finite 2, decode_gaps = NoGaps, from_start = False\<rparr>"

section \<open>Pauses and quiet points\<close>

fun pauses_from :: "nat \<Rightarrow> range list \<Rightarrow> nat \<Rightarrow> range list" where
  "pauses_from cursor [] n = (if n > cursor then [(cursor, n)] else [])"
| "pauses_from cursor (r # rs) n =
     (if fst r > cursor then [(cursor, fst r)] else []) @ pauses_from (max cursor (snd r)) rs n"

definition pauses :: "range list \<Rightarrow> nat \<Rightarrow> range list" where
  "pauses speech n = pauses_from 0 speech n"

definition energy_frame :: nat where "energy_frame = sample_rate div 10"

text \<open>\<open>best\<close> is the least energy seen, \<open>f32::MAX\<close> before any, with its point.\<close>

function quiet_loop :: "('a list \<Rightarrow> rat option) \<Rightarrow> 'a list \<Rightarrow> nat \<Rightarrow> nat \<Rightarrow> rat \<times> nat \<Rightarrow> rat \<times> nat" where
  "quiet_loop energy audio hi p best =
     (if p + energy_frame \<le> hi
      then quiet_loop energy audio hi (p + energy_frame)
             (case energy (take energy_frame (drop p audio)) of
                Some e \<Rightarrow> if e < fst best then (e, p + energy_frame div 2) else best
              | None \<Rightarrow> best)
      else best)"
  by pat_completeness auto
termination
  by (relation "measure (\<lambda>(energy, audio, hi, p, best). hi - p)")
    (auto simp: energy_frame_def sample_rate_def)

declare quiet_loop.simps [simp del]

definition f32_max :: rat where "f32_max = (2 - 1 / 2 ^ 23) * 2 ^ 127"

definition quietest_point :: "('a list \<Rightarrow> rat option) \<Rightarrow> 'a list \<Rightarrow> nat \<Rightarrow> nat \<Rightarrow> nat" where
  "quietest_point energy audio lo hi =
     (let hi = min hi (length audio)
      in snd (quiet_loop energy audio hi lo (f32_max, nat_midpoint lo hi)))"

section \<open>The layout\<close>

text \<open>The numbers the loop reads; \<open>longest\<close> is the code's \<open>max\<close>.\<close>

record layout_plan =
  audio_total :: nat
  plan_pauses :: "range list"
  target :: nat
  longest :: nat
  search :: nat
  overlap :: nat
  long_pause :: nat
  pad :: nat
  min_chunk :: nat
  speech_end :: nat

definition plan_layout :: "'a list \<Rightarrow> range list \<Rightarrow> chunker_config \<Rightarrow> layout_plan" where
  "plan_layout audio speech c =
     (let longest = max (sample_count (max_seconds c)) 1
      in \<lparr>audio_total = length audio, plan_pauses = pauses speech (length audio),
          target = sample_count (target_seconds c), longest = longest,
          search = min (sample_count (search_seconds c)) longest,
          overlap = sample_count (overlap_seconds c), long_pause = sample_count (long_pause_seconds c),
          pad = sample_count (pad_seconds c),
          min_chunk = min (max (sample_count (min_chunk_seconds c)) 1) longest,
          speech_end = min (snd (last speech)) (length audio)\<rparr>)"

text \<open>A start inside a pause snaps to just before the next speech; \<open>None\<close> ends the layout.\<close>

definition snap :: "layout_plan \<Rightarrow> bool \<Rightarrow> nat \<Rightarrow> nat option" where
  "snap L snaps start =
     (let moved = (case (if snaps then find (inside start) (plan_pauses L) else None) of
                     None \<Rightarrow> Some start
                   | Some p \<Rightarrow> if snd p \<ge> audio_total L then None else Some (max start (snd p - pad L)))
      in case moved of None \<Rightarrow> None | Some s \<Rightarrow> if s \<ge> speech_end L then None else Some s)"

definition want :: "layout_plan \<Rightarrow> nat \<Rightarrow> nat" where
  "want L start = start + min (target L) (longest L - search L)"

definition far_end :: "layout_plan \<Rightarrow> nat \<Rightarrow> nat" where
  "far_end L start = want L start + search L"

definition low :: "layout_plan \<Rightarrow> nat \<Rightarrow> nat \<Rightarrow> nat" where
  "low L start previous_end =
     max (max (want L start - search L) (start + min_chunk L)) (previous_end + 1)"

definition high :: "layout_plan \<Rightarrow> nat \<Rightarrow> nat \<Rightarrow> nat" where
  "high L start previous_end = max (far_end L start) (low L start previous_end + 1)"

definition ending_pause :: "layout_plan \<Rightarrow> nat \<Rightarrow> nat \<Rightarrow> range option" where
  "ending_pause L start previous_end =
     (let far = min (max (far_end L start + min_chunk L) (high L start previous_end)) (start + longest L)
      in find (\<lambda>p. fst p > start \<and> fst p < min far (speech_end L) \<and> range_len p \<ge> long_pause L)
           (plan_pauses L))"

definition longest_pause :: "nat \<Rightarrow> nat \<Rightarrow> range list \<Rightarrow> range option" where
  "longest_pause lo hi ps =
     fold (\<lambda>p best.
         let clipped = (max (fst p) lo, min (snd p) hi)
         in if snd clipped > fst clipped \<and>
               (case best of None \<Rightarrow> True | Some b \<Rightarrow> range_len clipped > range_len b)
            then Some clipped else best) ps None"

definition layout_cut ::
  "('a list \<Rightarrow> rat option) \<Rightarrow> 'a list \<Rightarrow> layout_plan \<Rightarrow> nat \<Rightarrow> nat \<Rightarrow> nat \<times> cut"
where
  "layout_cut energy audio L start previous_end =
     (let lo = low L start previous_end; hi = high L start previous_end;
          (e, k) = (case longest_pause lo hi (plan_pauses L) of
                      Some p \<Rightarrow> (nat_midpoint (fst p) (snd p), Pause)
                    | None \<Rightarrow> (quietest_point energy audio lo hi, Energy))
      in (min (max (start + min_chunk L) (min e (start + longest L))) (audio_total L), k))"

datatype layout_next = Finished | LastChunk chunk | NextChunk chunk nat nat

definition layout_turn ::
  "('a list \<Rightarrow> rat option) \<Rightarrow> 'a list \<Rightarrow> layout_plan \<Rightarrow> bool \<Rightarrow> nat \<Rightarrow> nat \<Rightarrow> layout_next"
where
  "layout_turn energy audio L snaps start0 previous_end =
     (case snap L snaps start0 of
        None \<Rightarrow> Finished
      | Some start \<Rightarrow>
          (case ending_pause L start previous_end of
             Some p \<Rightarrow>
               let e = min (min (fst p + pad L) (start + longest L)) (audio_total L)
               in NextChunk \<lparr>chunk_range = (start, e), chunk_cut = LongPause\<rparr> (max (snd p - pad L) e) e
           | None \<Rightarrow>
               if far_end L start \<ge> speech_end L
               then LastChunk \<lparr>chunk_range =
                      (start, min (min (speech_end L + pad L) (audio_total L)) (start + longest L)),
                      chunk_cut = Tail\<rparr>
               else let (e, k) = layout_cut energy audio L start previous_end
                    in NextChunk \<lparr>chunk_range = (start, e), chunk_cut = k\<rparr>
                         (max (e - overlap L) (start + min_chunk L)) e))"

text \<open>A clamp's bounds are in order, as \<open>clamp\<close> requires: \<open>min_chunk\<close> is at most \<open>longest\<close>.\<close>

lemma layout_plan_bounds:
  "1 \<le> longest (plan_layout audio speech c)" "1 \<le> min_chunk (plan_layout audio speech c)"
  "min_chunk (plan_layout audio speech c) \<le> longest (plan_layout audio speech c)"
  "search (plan_layout audio speech c) \<le> longest (plan_layout audio speech c)"
  "speech_end (plan_layout audio speech c) \<le> audio_total (plan_layout audio speech c)"
  by (simp_all add: plan_layout_def Let_def)

lemma snap_start: "snap L snaps start0 = Some start \<Longrightarrow> start0 \<le> start \<and> start < speech_end L"
  by (auto simp: snap_def Let_def split: option.splits if_splits)

lemma find_some: "find P xs = Some x \<Longrightarrow> x \<in> set xs \<and> P x"
  by (induction xs) (auto split: if_splits)

lemma layout_turn_progress:
  assumes "layout_turn energy audio L snaps start0 previous_end = NextChunk k start' end'"
    and "1 \<le> longest L" and "1 \<le> min_chunk L" and "speech_end L \<le> audio_total L"
  shows "start0 < start' \<and> start0 < speech_end L"
proof -
  obtain start where start: "snap L snaps start0 = Some start"
    using assms(1) by (auto simp: layout_turn_def split: option.splits)
  note s = snap_start[OF start]
  show ?thesis
  proof (cases "ending_pause L start previous_end")
    case None
    then show ?thesis using assms s
      by (auto simp: layout_turn_def start Let_def split: if_splits prod.splits)
  next
    case (Some p)
    then have "fst p > start" using find_some unfolding ending_pause_def Let_def by fastforce
    then have "start < min (min (fst p + pad L) (start + longest L)) (audio_total L)"
      using assms(2,4) s by simp
    then show ?thesis using assms(1) s Some
      by (simp only: layout_turn_def start Let_def option.case layout_next.inject) linarith
  qed
qed

text \<open>\<open>first\<close>: no chunk is laid yet.\<close>

function layout_from ::
  "('a list \<Rightarrow> rat option) \<Rightarrow> 'a list \<Rightarrow> range list \<Rightarrow> chunker_config \<Rightarrow> bool \<Rightarrow> nat \<Rightarrow> nat \<Rightarrow> chunk list"
where
  "layout_from energy audio speech c first start previous_end =
     (case layout_turn energy audio (plan_layout audio speech c) (\<not> (from_start c \<and> first)) start previous_end of
        Finished \<Rightarrow> []
      | LastChunk k \<Rightarrow> [k]
      | NextChunk k start' end' \<Rightarrow> k # layout_from energy audio speech c False start' end')"
  by pat_completeness auto
termination
proof (relation "measure (\<lambda>(energy, audio, speech, c, first, start, previous_end).
    speech_end (plan_layout audio speech c) - start)", goal_cases)
  case (2 energy audio speech c first start previous_end k start' end')
  then show ?case
    using layout_turn_progress[of energy audio "plan_layout audio speech c" _ start previous_end k start' end']
      layout_plan_bounds[of audio speech c] by fastforce
qed simp

declare layout_from.simps [simp del]

definition layout ::
  "('a list \<Rightarrow> rat option) \<Rightarrow> 'a list \<Rightarrow> range list \<Rightarrow> chunker_config \<Rightarrow> chunk list"
where
  "layout energy audio speech c =
     (if speech = [] then []
      else layout_from energy audio speech c True
             (if from_start c then 0 else fst (hd speech) - sample_count (pad_seconds c)) 0)"

section \<open>The spans\<close>

definition min_gap_seconds :: f64 where "min_gap_seconds = Finite (5 / 2)"

record span =
  owned :: range
  window :: range
  reach :: range
  is_chunk :: bool

text \<open>The fewest equal windows of at most \<open>most\<close> samples that share \<open>shared\<close> with the next.\<close>

definition split_gap :: "range \<Rightarrow> nat \<Rightarrow> nat \<Rightarrow> range list" where
  "split_gap r most shared =
     (let stride = range_len r - shared;
          count = max ((stride + (most - shared) - 1) div (most - shared)) 1
      in map (\<lambda>i. (fst r + i * stride div count,
                   min (fst r + (i + 1) * stride div count + shared) (snd r))) [0..<count])"

text \<open>\<open>sounds\<close>: a sample that is not exactly zero.\<close>

definition gap_windows ::
  "('a \<Rightarrow> bool) \<Rightarrow> 'a list \<Rightarrow> chunker_config \<Rightarrow> bool \<Rightarrow> nat \<Rightarrow> nat \<Rightarrow> (range \<times> bool) list"
where
  "gap_windows sounds audio c decoded covered next =
     (let most = max (sample_count (max_seconds c)) 1;
          shared = min (sample_count (overlap_seconds c)) (most - 1)
      in if decoded \<and> next \<ge> covered + sample_count min_gap_seconds
         then map (\<lambda>w. (w, False))
                (filter (\<lambda>w. list_ex sounds (take (range_len w) (drop (fst w) audio)))
                   (split_gap (covered, next) most shared))
         else [])"

fun windows_from ::
  "('a \<Rightarrow> bool) \<Rightarrow> 'a list \<Rightarrow> chunker_config \<Rightarrow> bool \<Rightarrow> nat \<Rightarrow> chunk list \<Rightarrow> (range \<times> bool) list"
where
  "windows_from sounds audio c any_chunk covered [] =
     gap_windows sounds audio c
       (decode_gaps c = AllGaps \<or> decode_gaps c = TailGap \<and> any_chunk) covered (length audio)"
| "windows_from sounds audio c any_chunk covered (k # ks) =
     gap_windows sounds audio c (decode_gaps c = AllGaps) covered (fst (chunk_range k)) @
     (chunk_range k, True) #
     windows_from sounds audio c any_chunk (max covered (snd (chunk_range k))) ks"

definition span_reach :: "nat \<Rightarrow> chunker_config \<Rightarrow> range \<Rightarrow> bool \<Rightarrow> range" where
  "span_reach n c w chunk =
     (let around = sample_count (overlap_seconds c)
      in if chunk
         then ((fst w - around) div frame_samples * frame_samples,
               min (((snd w + around) div frame_samples + 1) * frame_samples) n)
         else w)"

fun spans_from :: "nat \<Rightarrow> chunker_config \<Rightarrow> nat \<Rightarrow> (range \<times> bool) list \<Rightarrow> span list" where
  "spans_from n c start [] = []"
| "spans_from n c start ((w, chunk) # ws) =
     (let e = (case ws of [] \<Rightarrow> n | (v, _) # _ \<Rightarrow> nat_midpoint (snd w) (fst v))
      in \<lparr>owned = (start, e), window = w, reach = span_reach n c w chunk, is_chunk = chunk\<rparr> #
         spans_from n c e ws)"

definition spans :: "('a \<Rightarrow> bool) \<Rightarrow> 'a list \<Rightarrow> chunk list \<Rightarrow> chunker_config \<Rightarrow> span list" where
  "spans sounds audio ks c =
     spans_from (length audio) c 0 (windows_from sounds audio c (ks \<noteq> []) 0 ks)"

definition partition_audio ::
  "('a list \<Rightarrow> rat option) \<Rightarrow> ('a \<Rightarrow> bool) \<Rightarrow> 'a list \<Rightarrow> range list \<Rightarrow> chunker_config \<Rightarrow> span list"
where
  "partition_audio energy sounds audio speech c = spans sounds audio (layout energy audio speech c) c"

section \<open>Facts\<close>






lemma ending_pause_some:
  assumes "ending_pause L start previous_end = Some p"
  shows "p \<in> set (plan_pauses L)" and "start < fst p" and "fst p < start + longest L" and "fst p < speech_end L"
  using find_some[OF assms[unfolded ending_pause_def Let_def]] by simp_all



text \<open>One turn's chunk: not empty, inside the audio, no longer than the clamp.\<close>

definition chunk_fits :: "nat \<Rightarrow> nat \<Rightarrow> range \<Rightarrow> bool" where
  "chunk_fits most n r \<longleftrightarrow> fst r < snd r \<and> snd r \<le> n \<and> range_len r \<le> most"

lemma layout_cut_bounds:
  assumes "layout_cut energy audio L start previous_end = (e, k)"
    and "1 \<le> longest L" and "1 \<le> min_chunk L" and "min_chunk L \<le> longest L" and "start < audio_total L"
  shows "start < e" and "e \<le> audio_total L" and "e \<le> start + longest L"
    and "e = audio_total L \<or> start + min_chunk L \<le> e"
  using assms by (auto simp: layout_cut_def Let_def split: prod.splits)

lemma turn_fits:
  fixes energy :: "'a list \<Rightarrow> rat option" and audio :: "'a list" and speech c
  defines "L \<equiv> plan_layout audio speech c"
  shows "case layout_turn energy audio L snaps begins previous_end of
      Finished \<Rightarrow> True
    | LastChunk k \<Rightarrow> begins \<le> fst (chunk_range k) \<and> chunk_fits (longest L) (length audio) (chunk_range k)
    | NextChunk k start' end' \<Rightarrow> begins \<le> fst (chunk_range k) \<and> fst (chunk_range k) < start' \<and>
        snd (chunk_range k) = end' \<and> chunk_fits (longest L) (length audio) (chunk_range k)"
proof -
  note b = layout_plan_bounds[of audio speech c, folded L_def]
  have n: "audio_total L = length audio" by (simp add: L_def plan_layout_def Let_def)
  show ?thesis
  proof (cases "snap L snaps begins")
    case None
    then show ?thesis by (simp add: layout_turn_def)
  next
    case (Some start)
    note s = snap_start[OF Some]
    show ?thesis
    proof (cases "ending_pause L start previous_end")
      case p: (Some p)
      show ?thesis using ending_pause_some[OF p] b s
        by (simp add: layout_turn_def Some p Let_def chunk_fits_def range_len_def n[symmetric])
          linarith
    next
      case None
      obtain e k where cut: "layout_cut energy audio L start previous_end = (e, k)"
        by (cases "layout_cut energy audio L start previous_end")
      have "start < audio_total L" using s b(5) by simp
      note cb = layout_cut_bounds[OF cut b(1-3) this]
      show ?thesis using cb b s
        by (simp add: layout_turn_def Some None cut chunk_fits_def range_len_def n[symmetric])
          linarith
    qed
  qed
qed

lemma layout_from_fits:
  assumes "k \<in> set (layout_from energy audio speech c first start previous_end)"
  shows "start \<le> fst (chunk_range k) \<and>
    chunk_fits (longest (plan_layout audio speech c)) (length audio) (chunk_range k)"
  using assms
proof (induction energy audio speech c first start previous_end rule: layout_from.induct)
  case (1 energy audio speech c first start previous_end)
  note turn = turn_fits[where energy = energy and audio = audio and speech = speech and c = c and
      snaps = "\<not> (from_start c \<and> first)" and begins = start and previous_end = previous_end]
  show ?case
  proof (cases "layout_turn energy audio (plan_layout audio speech c) (\<not> (from_start c \<and> first)) start previous_end")
    case Finished
    then show ?thesis using "1.prems" by (subst (asm) layout_from.simps) simp
  next
    case (LastChunk k')
    then show ?thesis using turn "1.prems" by (subst (asm) layout_from.simps) simp
  next
    case (NextChunk k' start' end')
    then show ?thesis using turn "1.IH"[OF NextChunk] "1.prems"
      by (subst (asm) layout_from.simps) auto
  qed
qed

lemma layout_fits:
  "k \<in> set (layout energy audio speech c) \<Longrightarrow>
    chunk_fits (max (sample_count (max_seconds c)) 1) (length audio) (chunk_range k)"
  using layout_from_fits by (fastforce simp: layout_def plan_layout_def Let_def split: if_splits)

section \<open>No speech is left out\<close>


definition demo_speech :: "range list" where "demo_speech = [(1000, 3000), (5000, 9000)]"

definition demo_audio :: "bool list" where "demo_audio = replicate 9500 False"


section \<open>Chunks move on\<close>

text \<open>
  A configuration whose overlap and shortest chunk fit in the search window, as the default's do. Then
  a cut never goes back behind the last one, the tail included.
\<close>

lemma nat_midpoint_between: "min a b \<le> nat_midpoint a b \<and> nat_midpoint a b \<le> max a b"
  by (simp add: nat_midpoint_def) linarith

lemma nat_midpoint_mono: "a \<le> a' \<Longrightarrow> b \<le> b' \<Longrightarrow> nat_midpoint a b \<le> nat_midpoint a' b'"
  by (simp add: nat_midpoint_def div_le_mono)

definition steady :: "layout_plan \<Rightarrow> bool" where
  "steady L \<longleftrightarrow>
     (let far = min (target L) (longest L - search L) + search L
      in overlap L < far \<and> min_chunk L \<le> far)"

definition moves_on :: "layout_plan \<Rightarrow> nat \<Rightarrow> nat \<Rightarrow> bool" where
  "moves_on L start previous_end \<longleftrightarrow>
     previous_end \<le> start + longest L \<and> previous_end \<le> start + overlap L \<and>
     previous_end \<le> speech_end L + pad L \<and> previous_end \<le> audio_total L \<and>
     (\<forall>p\<in>set (plan_pauses L). start < fst p \<and> fst p < previous_end \<and> fst p < speech_end L \<longrightarrow>
        range_len p < long_pause L)"

lemma moves_on_later: "moves_on L start0 previous_end \<Longrightarrow> start0 \<le> start \<Longrightarrow> moves_on L start previous_end"
  unfolding moves_on_def by auto

lemma longest_pause_inside:
  "longest_pause lo hi ps = Some p \<Longrightarrow> lo \<le> fst p \<and> fst p < snd p \<and> snd p \<le> hi"
proof -
  have step: "(case fold (\<lambda>p best.
         let clipped = (max (fst p) lo, min (snd p) hi)
         in if snd clipped > fst clipped \<and>
               (case best of None \<Rightarrow> True | Some b \<Rightarrow> range_len clipped > range_len b)
            then Some clipped else best) ps best of None \<Rightarrow> True
      | Some p \<Rightarrow> lo \<le> fst p \<and> fst p < snd p \<and> snd p \<le> hi)"
    if "case best of None \<Rightarrow> True | Some p \<Rightarrow> lo \<le> fst p \<and> fst p < snd p \<and> snd p \<le> hi" for best
    using that
  proof (induction ps arbitrary: best)
    case (Cons p ps)
    show ?case unfolding fold_Cons o_apply
      by (rule Cons.IH) (use Cons.prems in \<open>auto simp: Let_def split: option.splits\<close>)
  qed simp
  assume "longest_pause lo hi ps = Some p"
  then show ?thesis using step[of None] unfolding longest_pause_def by simp
qed

lemma quiet_loop_inside:
  "lo \<le> p \<Longrightarrow> lo \<le> snd best \<and> snd best \<le> hi \<Longrightarrow>
    lo \<le> snd (quiet_loop energy audio hi p best) \<and> snd (quiet_loop energy audio hi p best) \<le> hi"
proof (induction energy audio hi p best rule: quiet_loop.induct)
  case (1 energy audio hi p best)
  show ?case
  proof (cases "p + energy_frame \<le> hi")
    case True
    show ?thesis using "1.IH"[OF True] "1.prems" True
      by (subst (1 2) quiet_loop.simps) (auto simp: energy_frame_def split: option.splits)
  next
    case False
    then show ?thesis using "1.prems" by (subst (1 2) quiet_loop.simps) simp
  qed
qed

lemma quietest_point_bounds:
  "lo \<le> hi \<Longrightarrow> quietest_point energy audio lo hi \<le> hi"
  "lo \<le> hi \<Longrightarrow> min lo (length audio) \<le> quietest_point energy audio lo hi"
proof -
  have far: "quietest_point energy audio lo hi = nat_midpoint lo (min hi (length audio))"
    if "min hi (length audio) < lo"
    using that unfolding quietest_point_def Let_def by (subst quiet_loop.simps) auto
  have near: "lo \<le> quietest_point energy audio lo hi \<and> quietest_point energy audio lo hi \<le> min hi (length audio)"
    if "lo \<le> min hi (length audio)"
    using quiet_loop_inside[where lo = lo and p = lo and hi = "min hi (length audio)" and energy = energy
      and audio = audio and best = "(f32_max, nat_midpoint lo (min hi (length audio)))"]
      nat_midpoint_between[of lo "min hi (length audio)"] that
    by (simp add: quietest_point_def Let_def)
  note mid = nat_midpoint_between[of lo "min hi (length audio)"]
  show "lo \<le> hi \<Longrightarrow> quietest_point energy audio lo hi \<le> hi"
    using near far mid by (cases "lo \<le> min hi (length audio)") (simp, linarith)
  show "lo \<le> hi \<Longrightarrow> min lo (length audio) \<le> quietest_point energy audio lo hi"
    using near far mid by (cases "lo \<le> min hi (length audio)") (simp, linarith)
qed

text \<open>A cut falls after the last chunk's end, inside the search window and before the speech ends.\<close>

lemma layout_cut_moves_on:
  assumes cut: "layout_cut energy audio L start previous_end = (e, k)" and L: "L = plan_layout audio speech c"
    and moves: "moves_on L start previous_end" and steady: "steady L"
    and far: "far_end L start < speech_end L"
  shows "previous_end \<le> e" and "e \<le> max (start + min_chunk L) (high L start previous_end)"
    and "e \<le> speech_end L"
proof -
  note b = layout_plan_bounds[of audio speech c, folded L]
  have n: "audio_total L = length audio" by (simp add: L plan_layout_def Let_def)
  let ?lo = "low L start previous_end" and ?hi = "high L start previous_end"
  have lohi: "?lo < ?hi" by (simp add: high_def)
  obtain e0 where e: "e = min (max (start + min_chunk L) (min e0 (start + longest L))) (audio_total L)"
    and e0: "min ?lo (audio_total L) \<le> e0" "e0 \<le> ?hi"
  proof (cases "longest_pause ?lo ?hi (plan_pauses L)")
    case None
    with cut that[of "quietest_point energy audio ?lo ?hi"] quietest_point_bounds(1)[of ?lo ?hi energy audio]
      quietest_point_bounds(2)[of ?lo ?hi audio energy] lohi
    show ?thesis by (simp add: layout_cut_def Let_def n)
  next
    case (Some p)
    note inside = longest_pause_inside[OF Some]
    show ?thesis
    proof (rule that[of "nat_midpoint (fst p) (snd p)"])
      show "e = min (max (start + min_chunk L) (min (nat_midpoint (fst p) (snd p)) (start + longest L))) (audio_total L)"
        using cut by (simp add: layout_cut_def Let_def Some)
    qed (use inside nat_midpoint_between[of "fst p" "snd p"] in linarith)+
  qed
  have lo: "previous_end < ?lo" by (simp add: low_def)
  show "previous_end \<le> e" using e e0(1) lo moves unfolding moves_on_def by linarith
  show "e \<le> max (start + min_chunk L) ?hi" using e e0(2) by linarith
  have st: "start + min_chunk L < speech_end L" "start + overlap L + 1 \<le> far_end L start"
    using steady far unfolding steady_def far_end_def want_def Let_def by linarith+
  have "?hi \<le> speech_end L \<or> ?hi = ?lo + 1" using far unfolding high_def by linarith
  moreover have "?lo + 1 \<le> speech_end L"
    using st far moves unfolding low_def moves_on_def far_end_def by linarith
  ultimately have "?hi \<le> speech_end L" by linarith
  then show "e \<le> speech_end L" using e e0(2) st(1) by linarith
qed

lemma turn_moves_on:
  fixes audio :: "'a list"
  assumes L: "L = plan_layout audio speech c" and moves0: "moves_on L begins previous_end" and steady: "steady L"
  shows "case layout_turn energy audio L snaps begins previous_end of
      Finished \<Rightarrow> True
    | LastChunk k \<Rightarrow> previous_end \<le> snd (chunk_range k)
    | NextChunk k start' end' \<Rightarrow> previous_end \<le> end' \<and> moves_on L start' end'"
proof (cases "snap L snaps begins")
  case None
  then show ?thesis by (simp add: layout_turn_def)
next
  case (Some start)
  note s = snap_start[OF Some]
  note b = layout_plan_bounds[of audio speech c, folded L]
  have moves: "moves_on L start previous_end" using moves_on_later[OF moves0] s by blast
  show ?thesis
  proof (cases "ending_pause L start previous_end")
    case p: (Some p)
    note ep = ending_pause_some[OF p]
    have long: "\<not> range_len p < long_pause L"
      using find_some[OF p[unfolded ending_pause_def Let_def]] by simp
    then have "previous_end \<le> fst p" using moves ep unfolding moves_on_def by (meson not_le)
    then have m: "previous_end \<le> fst p" "previous_end \<le> start + longest L" "previous_end \<le> audio_total L"
      using moves unfolding moves_on_def by simp_all
    let ?e = "min (min (fst p + pad L) (start + longest L)) (audio_total L)"
    have "?e \<le> speech_end L + pad L" using ep(4) by simp
    then have "moves_on L (max (snd p - pad L) ?e) ?e" unfolding moves_on_def by auto
    moreover have "previous_end \<le> ?e" using m by simp
    ultimately show ?thesis unfolding layout_turn_def Some p Let_def option.case layout_next.case by blast
  next
    case None
    show ?thesis
    proof (cases "far_end L start \<ge> speech_end L")
      case True
      then show ?thesis using moves by (simp add: layout_turn_def Some None moves_on_def)
    next
      case False
      obtain e k where cut: "layout_cut energy audio L start previous_end = (e, k)"
        by (cases "layout_cut energy audio L start previous_end")
      have "far_end L start < speech_end L" using False by simp
      note cm = layout_cut_moves_on[OF cut L moves steady this]
      have "start < audio_total L" using s b(5) by simp
      note cb = layout_cut_bounds[OF cut b(1-3) this]
      let ?start' = "max (e - overlap L) (start + min_chunk L)"
      have short: "range_len p < long_pause L"
        if p: "p \<in> set (plan_pauses L)" "?start' < fst p" "fst p < e" "fst p < speech_end L" for p
      proof -
        have "start < fst p" using p(2) by simp
        moreover have "start + min_chunk L \<le> high L start previous_end" by (simp add: high_def low_def)
        then have "fst p < min (min (max (far_end L start + min_chunk L) (high L start previous_end)) (start + longest L)) (speech_end L)"
          using p(3,4) cm(2) cb(3) by linarith
        ultimately show ?thesis using None p(1) unfolding ending_pause_def Let_def find_None_iff
          by (meson not_le)
      qed
      have "e \<le> ?start' + longest L" "e \<le> ?start' + overlap L" "e \<le> speech_end L + pad L" "e \<le> audio_total L"
        using cb(2,3) cm(3) by linarith+
      then have "moves_on L ?start' e" unfolding moves_on_def using short by blast
      then show ?thesis using False cm(1) by (simp add: layout_turn_def Some None cut)
    qed
  qed
qed

lemma layout_from_moves_on:
  assumes "moves_on (plan_layout audio speech c) start previous_end" and "steady (plan_layout audio speech c)"
  shows "(\<forall>k\<in>set (layout_from energy audio speech c first start previous_end). previous_end \<le> snd (chunk_range k)) \<and>
    sorted_wrt (\<lambda>j k. fst (chunk_range j) < fst (chunk_range k) \<and> snd (chunk_range j) \<le> snd (chunk_range k))
      (layout_from energy audio speech c first start previous_end)"
  using assms
proof (induction energy audio speech c first start previous_end rule: layout_from.induct)
  case (1 energy audio speech c first start previous_end)
  note turn = turn_fits[where energy = energy and audio = audio and speech = speech and c = c and
      snaps = "\<not> (from_start c \<and> first)" and begins = start and previous_end = previous_end]
  note moves = turn_moves_on[OF refl "1.prems", of energy "\<not> (from_start c \<and> first)"]
  show ?case
  proof (cases "layout_turn energy audio (plan_layout audio speech c) (\<not> (from_start c \<and> first)) start previous_end")
    case Finished
    then show ?thesis by (subst (1 2) layout_from.simps) simp
  next
    case (LastChunk k')
    then show ?thesis using moves by (subst (1 2) layout_from.simps) simp
  next
    case (NextChunk k' start' end')
    note IH = "1.IH"[OF NextChunk _ "1.prems"(2)]
    have later: "\<forall>k\<in>set (layout_from energy audio speech c False start' end'). start' \<le> fst (chunk_range k)"
      using layout_from_fits by blast
    show ?thesis using turn moves IH later NextChunk
      by (subst (1 2) layout_from.simps) fastforce
  qed
qed

section \<open>Windows in order\<close>

definition precedes :: "range \<Rightarrow> range \<Rightarrow> bool" where
  "precedes v w \<longleftrightarrow> fst v \<le> fst w \<and> snd v \<le> snd w"

lemma layout_in_order:
  assumes "steady (plan_layout audio speech c)"
  shows "sorted_wrt precedes (map chunk_range (layout energy audio speech c))"
proof -
  have begins: "moves_on (plan_layout audio speech c) start 0" for start by (simp add: moves_on_def)
  have "sorted_wrt (\<lambda>j k. precedes (chunk_range j) (chunk_range k)) (layout_from energy audio speech c first start 0)"
    for energy :: "'a list \<Rightarrow> rat option" and first start
    by (rule sorted_wrt_mono_rel[OF _ conjunct2[OF layout_from_moves_on[OF begins assms]]])
      (simp add: precedes_def)
  then show ?thesis by (simp add: layout_def sorted_wrt_map)
qed

lemma split_gap_windows:
  assumes "w \<in> set (split_gap r most shared)" and "shared < most"
  shows "fst r \<le> fst w" and "snd w \<le> snd r" and "range_len w \<le> most"
proof -
  let ?stride = "range_len r - shared"
  let ?count = "max ((?stride + (most - shared) - 1) div (most - shared)) 1"
  obtain i where w: "w = (fst r + i * ?stride div ?count, min (fst r + (i + 1) * ?stride div ?count + shared) (snd r))"
    using assms(1) by (auto simp: split_gap_def Let_def)
  show "fst r \<le> fst w" "snd w \<le> snd r" by (simp_all add: w)
  have "a \<le> (a + b - 1) div b * b" if "0 < b" for a b :: nat
    using div_mult_mod_eq[of "a + b - 1" b] mod_less_divisor[OF that, of "a + b - 1"] by linarith
  from this[of "most - shared" ?stride]
  have "?stride \<le> (?stride + (most - shared) - 1) div (most - shared) * (most - shared)"
    using assms(2) by simp
  then have "?stride \<le> ?count * (most - shared)"
    by (meson le_trans max.cobounded1 mult_le_mono1)
  then have "(i + 1) * ?stride \<le> i * ?stride + ?count * (most - shared)" by simp
  then have "(i + 1) * ?stride div ?count \<le> (i * ?stride + ?count * (most - shared)) div ?count"
    by (rule div_le_mono)
  also have "\<dots> = i * ?stride div ?count + (most - shared)" by (subst div_mult_self2) auto
  finally have step: "(i + 1) * ?stride div ?count + shared \<le> i * ?stride div ?count + most" using assms(2) by linarith
  have "B + shared \<le> A + most \<Longrightarrow> min (f + B + shared) g - (f + A) \<le> most" for A B f g :: nat
    by simp
  from this[OF step] show "range_len w \<le> most" unfolding w range_len_def fst_conv snd_conv .
qed

lemma split_gap_in_order: "sorted_wrt precedes (split_gap r most shared)"
proof -
  have "precedes (fst r + i * a div k, min (fst r + (i + 1) * a div k + shared) (snd r))
      (fst r + j * a div k, min (fst r + (j + 1) * a div k + shared) (snd r))" if "i < j" for i j a k
    using that div_le_mono[of "i * a" "j * a" k] div_le_mono[of "(i + 1) * a" "(j + 1) * a" k]
    by (auto simp: precedes_def)
  then show ?thesis unfolding split_gap_def Let_def sorted_wrt_map
    by (intro sorted_wrt_mono_rel[OF _ sorted_wrt_upt]) blast
qed

lemma gap_windows_facts:
  assumes "(w, k) \<in> set (gap_windows sounds audio c decoded covered next)"
  shows "\<not> k" and "precedes (covered, covered) w" and "snd w \<le> next"
    and "fst w < snd w" and "range_len w \<le> max (sample_count (max_seconds c)) 1"
proof -
  let ?most = "max (sample_count (max_seconds c)) 1"
  let ?shared = "min (sample_count (overlap_seconds c)) (?most - 1)"
  have "\<not> k" and w: "w \<in> set (split_gap (covered, next) ?most ?shared)"
    and sound: "list_ex sounds (take (range_len w) (drop (fst w) audio))"
    using assms by (auto simp: gap_windows_def Let_def split: if_splits)
  have "?shared < ?most" by simp
  note s = split_gap_windows[OF w this]
  have "range_len w \<noteq> 0" using sound by (cases "range_len w = 0") auto
  then have "fst w < snd w" by (simp add: range_len_def)
  then show "precedes (covered, covered) w" using s(1) by (simp add: precedes_def)
  show "\<not> k" "snd w \<le> next" "fst w < snd w" "range_len w \<le> ?most"
    using \<open>\<not> k\<close> \<open>fst w < snd w\<close> s(2,3) by simp_all
qed

lemma gap_windows_in_order: "sorted_wrt precedes (map fst (gap_windows sounds audio c decoded covered next))"
  unfolding gap_windows_def Let_def by (auto simp: comp_def split_gap_in_order sorted_wrt_filter)

lemma precedes_trans: "precedes u v \<Longrightarrow> precedes v w \<Longrightarrow> precedes u w"
  by (auto simp: precedes_def)

lemma windows_fit:
  assumes "\<forall>k\<in>set ks. chunk_fits (max (sample_count (max_seconds c)) 1) (length audio) (chunk_range k)"
    and "w \<in> set (windows_from sounds audio c any covered ks)"
  shows "chunk_fits (max (sample_count (max_seconds c)) 1) (length audio) (fst w)"
  using assms
proof (induction ks arbitrary: covered)
  case Nil
  let ?g = "gap_windows sounds audio c (decode_gaps c = AllGaps \<or> decode_gaps c = TailGap \<and> any) covered (length audio)"
  have "(fst w, snd w) \<in> set ?g" using Nil.prems(2) by simp
  from gap_windows_facts[OF this] show ?case by (simp add: chunk_fits_def)
next
  case (Cons k ks)
  then consider "w \<in> set (gap_windows sounds audio c (decode_gaps c = AllGaps) covered (fst (chunk_range k)))"
    | "w = (chunk_range k, True)"
    | "w \<in> set (windows_from sounds audio c any (max covered (snd (chunk_range k))) ks)" by auto
  then show ?case
  proof cases
    case 1
    then have "(fst w, snd w) \<in> set (gap_windows sounds audio c (decode_gaps c = AllGaps) covered (fst (chunk_range k)))"
      by simp
    from gap_windows_facts[OF this] show ?thesis using Cons.prems(1) by (simp add: chunk_fits_def)
  qed (use Cons in simp_all)
qed

lemma windows_in_order:
  assumes "\<forall>k\<in>set ks. fst (chunk_range k) < snd (chunk_range k)" and "sorted_wrt precedes (map chunk_range ks)"
    and "precedes b (covered, covered)" and "\<forall>k\<in>set ks. precedes b (chunk_range k)"
  shows "sorted_wrt precedes (map fst (windows_from sounds audio c any covered ks)) \<and>
    (\<forall>w\<in>set (windows_from sounds audio c any covered ks). precedes b (fst w))"
  using assms
proof (induction ks arbitrary: covered b)
  case Nil
  let ?g = "gap_windows sounds audio c (decode_gaps c = AllGaps \<or> decode_gaps c = TailGap \<and> any) covered (length audio)"
  have "precedes b (fst w)" if "w \<in> set ?g" for w
    using precedes_trans[OF Nil.prems(3) gap_windows_facts(2)[of "fst w" "snd w"]] that by simp
  then show ?case by (simp add: gap_windows_in_order)
next
  case (Cons k ks)
  let ?g = "gap_windows sounds audio c (decode_gaps c = AllGaps) covered (fst (chunk_range k))"
  have IH: "sorted_wrt precedes (map fst (windows_from sounds audio c any (max covered (snd (chunk_range k))) ks)) \<and>
    (\<forall>w\<in>set (windows_from sounds audio c any (max covered (snd (chunk_range k))) ks). precedes (chunk_range k) (fst w))"
    by (rule Cons.IH) (use Cons.prems in \<open>auto simp: precedes_def\<close>)
  have g: "precedes b (fst w) \<and> precedes (fst w) (chunk_range k)" if "w \<in> set ?g" for w
  proof -
    have "(fst w, snd w) \<in> set ?g" using that by simp
    note f = gap_windows_facts[OF this]
    have "fst (chunk_range k) < snd (chunk_range k)" using Cons.prems(1) by simp
    then have "precedes (fst w) (chunk_range k)" using f(3,4) by (simp add: precedes_def)
    then show ?thesis using precedes_trans[OF Cons.prems(3) f(2)] by blast
  qed
  have b: "precedes b (chunk_range k)" using Cons.prems(4) by simp
  have later: "precedes b (fst w)"
    if "w \<in> set (windows_from sounds audio c any (max covered (snd (chunk_range k))) ks)" for w
    using precedes_trans[OF b] IH that by blast
  have across: "precedes (fst v) (fst w)"
    if "v \<in> set ?g" "w \<in> set (windows_from sounds audio c any (max covered (snd (chunk_range k))) ks)" for v w
    using precedes_trans[of "fst v" "chunk_range k" "fst w"] g[OF that(1)] IH that(2) by blast
  have "sorted_wrt precedes (map fst (windows_from sounds audio c any covered (k # ks)))"
    unfolding windows_from.simps map_append list.map fst_conv sorted_wrt_append sorted_wrt.simps
    using IH g across gap_windows_in_order by auto
  moreover have "\<forall>w\<in>set (windows_from sounds audio c any covered (k # ks)). precedes b (fst w)"
    unfolding windows_from.simps set_append list.set using g b later by auto
  ultimately show ?case by blast
qed

section \<open>Every sample has one owner\<close>

definition owners :: "nat \<Rightarrow> span list \<Rightarrow> nat" where
  "owners x ss = length (filter (\<lambda>s. inside x (owned s)) ss)"

lemma spans_from_owners:
  assumes "sorted_wrt precedes (map fst ws)" and "\<forall>w\<in>set ws. fst (fst w) \<le> n \<and> snd (fst w) \<le> n"
    and "\<forall>w\<in>set ws. b \<le> fst (fst w) \<and> a \<le> snd (fst w)" and "start = nat_midpoint a b" and "ws \<noteq> []"
  shows "owners x (spans_from n c start ws) = (if start \<le> x \<and> x < n then 1 else 0)"
  using assms
proof (induction ws arbitrary: a b start)
  case (Cons w ws)
  obtain r chunk where w: "w = (r, chunk)" by (cases w)
  have "a \<le> n" "b \<le> n" using Cons.prems(2,3) by force+
  then have "start \<le> nat_midpoint n n" unfolding Cons.prems(4) by (rule nat_midpoint_mono)
  then have n: "start \<le> n" by (simp add: nat_midpoint_def)
  show ?case
  proof (cases ws)
    case Nil
    then show ?thesis by (simp add: w owners_def inside_def)
  next
    case (Cons v vs)
    let ?e = "nat_midpoint (snd r) (fst (fst v))"
    have "start \<le> ?e" using Cons.prems(3,4) Cons w by (auto intro!: nat_midpoint_mono)
    moreover have "?e \<le> nat_midpoint n n"
      using Cons.prems(2) Cons w by (auto intro!: nat_midpoint_mono)
    then have "?e \<le> n" by (simp add: nat_midpoint_def)
    moreover have "owners x (spans_from n c ?e ws) = (if ?e \<le> x \<and> x < n then 1 else 0)"
      by (rule Cons.IH[where a = "snd r" and b = "fst (fst v)"])
        (use Cons.prems Cons w in \<open>auto simp: precedes_def\<close>)
    moreover have "\<exists>s. spans_from n c start (w # ws) = s # spans_from n c ?e ws \<and> owned s = (start, ?e)"
      unfolding w spans_from.simps(2) Let_def by (simp add: Cons split: prod.split)
    then obtain s where "spans_from n c start (w # ws) = s # spans_from n c ?e ws" "owned s = (start, ?e)" by blast
    ultimately show ?thesis by (auto simp: owners_def inside_def)
  qed
qed simp

lemma spans_from_windows:
  "s \<in> set (spans_from n c start ws) \<Longrightarrow> window s \<in> fst ` set ws"
  by (induction n c start ws rule: spans_from.induct) (auto simp: Let_def image_iff)

text \<open>
  C21: The partition gives every sample of the recording to exactly one span, so no stretch is decoded
  for nobody and no word is kept twice: the spans' owned ranges cover the recording without overlap,
  whatever the energies, for any speech and any choice of gaps to decode. The overlap and the shortest
  chunk must fit in the search window, as they do in the default configuration. An empty partition
  (no chunk and no gap to decode) owns nothing.
\<close>

theorem every_sample_has_one_owner:
  assumes "steady (plan_layout audio speech c)" and "partition_audio energy sounds audio speech c \<noteq> []"
    and "x < length audio"
  shows "owners x (partition_audio energy sounds audio speech c) = 1"
proof -
  let ?ks = "layout energy audio speech c"
  let ?ws = "windows_from sounds audio c (?ks \<noteq> []) 0 ?ks"
  have fits: "\<forall>k\<in>set ?ks. chunk_fits (max (sample_count (max_seconds c)) 1) (length audio) (chunk_range k)"
    using layout_fits by blast
  have "sorted_wrt precedes (map fst ?ws)"
    by (rule conjunct1[OF windows_in_order[where b = "(0, 0)"]])
      (use fits layout_in_order[OF assms(1)] in \<open>auto simp: chunk_fits_def precedes_def\<close>)
  moreover have "\<forall>w\<in>set ?ws. fst (fst w) \<le> length audio \<and> snd (fst w) \<le> length audio"
    using windows_fit[OF fits] by (fastforce simp: chunk_fits_def)
  moreover have "?ws \<noteq> []" using assms(2) by (auto simp: partition_audio_def spans_def)
  ultimately show ?thesis
    using spans_from_owners[where a = 0 and b = 0 and start = 0] assms(3)
    by (simp add: partition_audio_def spans_def nat_midpoint_def)
qed

lemma demo_plan:
  "plan_layout demo_audio demo_speech default_chunker =
     \<lparr>audio_total = 9500, plan_pauses = [(0, 1000), (3000, 5000), (9000, 9500)], target = 400000,
      longest = 960000, search = 64000, overlap = 32000, long_pause = 48000, pad = 4000,
      min_chunk = 32000, speech_end = 9000\<rparr>"
  by (simp add: plan_layout_def default_chunker_def demo_speech_def demo_audio_def pauses_def sample_rate_def)

lemma demo_layout:
  "layout (\<lambda>_. None) demo_audio demo_speech default_chunker = [\<lparr>chunk_range = (0, 9500), chunk_cut = Tail\<rparr>]"
  unfolding layout_def
  by (subst layout_from.simps, unfold demo_plan)
    (simp add: layout_turn_def snap_def inside_def ending_pause_def range_len_def far_end_def want_def
      high_def low_def demo_speech_def default_chunker_def sample_rate_def)

lemma demo_partition:
  "partition_audio (\<lambda>_. None) (\<lambda>s. s) demo_audio demo_speech default_chunker =
     [\<lparr>owned = (0, 9500), window = (0, 9500), reach = (0, 9500), is_chunk = True\<rparr>]"
  unfolding partition_audio_def demo_layout
  by (simp add: spans_def gap_windows_def default_chunker_def span_reach_def demo_audio_def sample_rate_def
      frame_samples_def)

lemma every_sample_has_one_owner_witness:
  "owners 1200 (partition_audio (\<lambda>_. None) (\<lambda>s. s) demo_audio demo_speech default_chunker) = 1"
proof (rule every_sample_has_one_owner)
  show "1200 < length demo_audio" by (simp add: demo_audio_def)
qed (simp_all add: demo_plan steady_def demo_partition)

text \<open>
   What a span decodes is never empty, never longer than \<open>max_seconds\<close> (the memory clamp of the ONNX
  session, the fixed window of the Core ML one) and inside the recording, for every configuration.
\<close>

theorem windows_stay_inside_the_clamp:
  assumes "s \<in> set (partition_audio energy sounds audio speech c)"
  shows "fst (window s) < snd (window s) \<and> snd (window s) \<le> length audio \<and>
    range_len (window s) \<le> max (sample_count (max_seconds c)) 1"
proof -
  obtain w where w: "w \<in> set (windows_from sounds audio c (layout energy audio speech c \<noteq> []) 0 (layout energy audio speech c))"
    and s: "window s = fst w"
    using spans_from_windows assms unfolding partition_audio_def spans_def by fastforce
  show ?thesis using windows_fit[OF _ w] layout_fits unfolding s chunk_fits_def by fastforce
qed

lemma windows_stay_inside_the_clamp_witness:
  "fst (window \<lparr>owned = (0, 9500), window = (0, 9500), reach = (0, 9500), is_chunk = True\<rparr>) < (9500::nat) \<and>
    9500 \<le> length demo_audio"
  using windows_stay_inside_the_clamp[of "\<lparr>owned = (0, 9500), window = (0, 9500), reach = (0, 9500), is_chunk = True\<rparr>"
      "\<lambda>_. None" "\<lambda>s. s" demo_audio demo_speech default_chunker]
  by (simp add: demo_partition)

end
