(* ===== verification/Window_Merge.thy ===== *)
theory Window_Merge
  imports Tdt_Decoder
begin

text \<open>
  \<open>steno-speech/src/merge.rs\<close>: how the tokens of neighbouring windows are joined. Times are exact
  fractions where the code has \<open>f64\<close>. The table of the longest common subsequence is the function
  \<open>lcs\<close> of the rows and columns that are left, each entry computed as the code fills it from the end.
  Which tokens a window may be cut before (\<open>Vocab::is_splice_safe\<close>) is an argument.
\<close>

section \<open>The overlap\<close>

definition frame_seconds :: rat where "frame_seconds = 8 / 100"

definition seconds :: "token \<Rightarrow> rat" where
  "seconds t = of_nat (frame t) * frame_seconds"

definition token_matches :: "rat \<Rightarrow> token list \<Rightarrow> token list \<Rightarrow> nat \<Rightarrow> nat \<Rightarrow> bool" where
  "token_matches tolerance left right a b \<longleftrightarrow>
     token_id (left ! a) = token_id (right ! b) \<and>
     \<bar>seconds (left ! a) - seconds (right ! b)\<bar> < tolerance"

fun lcs :: "(nat \<Rightarrow> nat \<Rightarrow> bool) \<Rightarrow> nat list \<Rightarrow> nat list \<Rightarrow> nat" where
  "lcs m (x # xs) (y # ys) = (if m x y then lcs m xs ys + 1 else max (lcs m xs (y # ys)) (lcs m (x # xs) ys))"
| "lcs m _ _ = 0"

fun common_pairs :: "(nat \<Rightarrow> nat \<Rightarrow> bool) \<Rightarrow> nat list \<Rightarrow> nat list \<Rightarrow> (nat \<times> nat) list" where
  "common_pairs m (x # xs) (y # ys) =
     (if m x y then (x, y) # common_pairs m xs ys
      else if lcs m xs (y # ys) \<ge> lcs m (x # xs) ys then common_pairs m xs (y # ys)
      else common_pairs m (x # xs) ys)"
| "common_pairs m _ _ = []"

section \<open>Joining\<close>

text \<open>\<open>slice xs a b\<close> is \<open>xs[a..b]\<close>, with \<open>a \<le> b \<le> length xs\<close> wherever the code takes it.\<close>

definition slice :: "'a list \<Rightarrow> nat \<Rightarrow> nat \<Rightarrow> 'a list" where
  "slice xs a b = take (b - a) (drop a xs)"

fun stitch :: "token list \<Rightarrow> token list \<Rightarrow> (nat \<times> nat) list \<Rightarrow> token list" where
  "stitch left right [] = []"
| "stitch left right ((li, ri) # ps) =
     left ! li #
     (case ps of
        [] \<Rightarrow> []
      | (next_left, next_right) # _ \<Rightarrow>
          let gap_left = slice left (li + 1) next_left; gap_right = slice right (ri + 1) next_right
          in if length gap_right > length gap_left then gap_right else gap_left) @
     stitch left right ps"

text \<open>What follows the last pair: the left's rest of the seam word, then the right.\<close>

definition merge_tail :: "(nat \<Rightarrow> bool) \<Rightarrow> token list \<Rightarrow> token list \<Rightarrow> token list" where
  "merge_tail safe left_rest tail =
     (let next = index_of (\<lambda>t. safe (token_id t)) tail
      in if \<not> list_ex (\<lambda>t. safe (token_id t)) left_rest \<and>
            (case next of None \<Rightarrow> length tail | Some n \<Rightarrow> n) > length left_rest
         then tail
         else (case next of
                 Some 0 \<Rightarrow> tail
               | Some n \<Rightarrow> takeWhile (\<lambda>t. \<not> safe (token_id t)) left_rest @ drop n tail
               | None \<Rightarrow> left_rest))"

definition merge_by_midpoint ::
  "(nat \<Rightarrow> bool) \<Rightarrow> token list \<Rightarrow> token list \<Rightarrow> rat \<Rightarrow> rat \<Rightarrow> token list"
where
  "merge_by_midpoint safe left right left_end right_start =
     (if right_start \<ge> left_end then left @ right
      else
        let cutoff = (left_end + right_start) / 2;
            index = (\<lambda>ts. case index_of (\<lambda>t. seconds t \<ge> cutoff) ts of None \<Rightarrow> length ts | Some n \<Rightarrow> n);
            left_end_index = index left;
            right_start_index = index right;
            resume = index_of (\<lambda>t. safe (token_id t)) (drop right_start_index right)
        in if resume = None \<and> left_end_index > 0 then left
           else
             let right_from = (case resume of None \<Rightarrow> right_start_index | Some n \<Rightarrow> right_start_index + n);
                 left_to = (if left_end_index > 0
                            then left_end_index +
                              length (takeWhile (\<lambda>t. \<not> safe (token_id t)) (drop left_end_index left))
                            else left_end_index)
             in take left_to left @ drop right_from right)"

definition overlap_pairs :: "token list \<Rightarrow> token list \<Rightarrow> rat \<Rightarrow> rat \<Rightarrow> rat \<Rightarrow> rat \<Rightarrow> (nat \<times> nat) list" where
  "overlap_pairs left right tolerance reach left_end right_start =
     common_pairs (token_matches tolerance left right)
       (filter (\<lambda>i. seconds (left ! i) + frame_seconds > right_start - reach) [0..<length left])
       (filter (\<lambda>i. seconds (right ! i) < left_end + reach) [0..<length right])"

definition merge_windows :: "(nat \<Rightarrow> bool) \<Rightarrow> rat \<Rightarrow> token list \<Rightarrow> token list \<Rightarrow> token list" where
  "merge_windows safe overlap_seconds left right =
     (if left = [] \<or> right = [] then left @ right
      else
        let left_end = seconds (last left) + frame_seconds;
            right_start = seconds (hd right);
            tolerance = max (overlap_seconds / 2) (1 / 2)
        in if right_start \<ge> left_end + tolerance then left @ right
           else
             let reach = max overlap_seconds tolerance;
                 pairs = overlap_pairs left right tolerance reach left_end right_start
             in if pairs = [] then merge_by_midpoint safe left right left_end right_start
                else take (fst (hd pairs)) left @ stitch left right pairs @
                     merge_tail safe (drop (fst (last pairs) + 1) left) (drop (snd (last pairs) + 1) right))"

fun enforce_monotonic :: "nat \<times> nat \<Rightarrow> token list \<Rightarrow> token list" where
  "enforce_monotonic most [] = []"
| "enforce_monotonic most (t # ts) =
     (let most = (if fst most < frame t \<or> fst most = frame t \<and> snd most \<le> phase t
                  then (frame t, phase t) else most)
      in t\<lparr>frame := fst most, phase := snd most\<rparr> # enforce_monotonic most ts)"

fun merge_rest :: "(nat \<Rightarrow> bool) \<Rightarrow> rat \<Rightarrow> token list \<Rightarrow> token list list \<Rightarrow> token list" where
  "merge_rest safe overlap_seconds merged [] = merged"
| "merge_rest safe overlap_seconds merged (w # ws) =
     merge_rest safe overlap_seconds (enforce_monotonic (0, 0) (merge_windows safe overlap_seconds merged w)) ws"

definition merge_all :: "(nat \<Rightarrow> bool) \<Rightarrow> rat \<Rightarrow> token list list \<Rightarrow> token list" where
  "merge_all safe overlap_seconds token_windows =
     (case token_windows of [] \<Rightarrow> [] | w # ws \<Rightarrow> merge_rest safe overlap_seconds w ws)"

section \<open>The pairs are a longest common subsequence\<close>

text \<open>A common subsequence: pairs that match, both sides strictly onwards.\<close>

inductive common :: "(nat \<Rightarrow> nat \<Rightarrow> bool) \<Rightarrow> nat list \<Rightarrow> nat list \<Rightarrow> (nat \<times> nat) list \<Rightarrow> bool"
  for m :: "nat \<Rightarrow> nat \<Rightarrow> bool"
where
  common_end: "common m xs ys []"
| common_pair: "m x y \<Longrightarrow> common m xs ys ps \<Longrightarrow> common m (x # xs) (y # ys) ((x, y) # ps)"
| common_left: "common m xs ys ps \<Longrightarrow> common m (x # xs) ys ps"
| common_right: "common m xs ys ps \<Longrightarrow> common m xs (y # ys) ps"

inductive_cases common_both: "common m (x # xs) (y # ys) ps"

lemma common_pairs_common: "common m xs ys (common_pairs m xs ys)"
  by (induction m xs ys rule: common_pairs.induct) (auto intro: common.intros)

lemma common_pairs_length: "length (common_pairs m xs ys) = lcs m xs ys"
  by (induction m xs ys rule: common_pairs.induct) auto

lemma common_empty: "common m xs ys ps \<Longrightarrow> xs = [] \<or> ys = [] \<Longrightarrow> ps = []"
  by (induction rule: common.induct) auto

text \<open>Giving up a row or a column costs at most one pair.\<close>

lemma common_without_column:
  "common m xs zs ps \<Longrightarrow> zs = y # ys \<Longrightarrow> \<exists>ps'. common m xs ys ps' \<and> length ps \<le> length ps' + 1"
proof (induction arbitrary: y ys rule: common.induct)
  case (common_pair x y' xs ys' ps)
  then show ?case by (auto intro: common.intros)
next
  case (common_left xs ys' ps x)
  from common_left.IH[OF common_left.prems] obtain ps' where "common m xs ys ps'" "length ps \<le> length ps' + 1"
    by blast
  then show ?case using common.common_left by blast
qed (auto intro: common.intros)

lemma common_without_row:
  "common m zs ys ps \<Longrightarrow> zs = x # xs \<Longrightarrow> \<exists>ps'. common m xs ys ps' \<and> length ps \<le> length ps' + 1"
proof (induction arbitrary: x xs rule: common.induct)
  case (common_pair x' y xs' ys ps)
  then show ?case by (auto intro: common.intros)
next
  case (common_right xs' ys ps y)
  from common_right.IH[OF common_right.prems] obtain ps' where "common m xs ys ps'" "length ps \<le> length ps' + 1"
    by blast
  then show ?case using common.common_right by blast
qed (auto intro: common.intros)

lemma lcs_longest: "common m xs ys ps \<Longrightarrow> length ps \<le> lcs m xs ys"
proof (induction m xs ys arbitrary: ps rule: lcs.induct)
  case (1 m x xs y ys)
  note IH = "1.IH"
  show ?case
  proof (cases "m x y")
    case True
    from "1.prems" have "\<exists>ps'. common m xs ys ps' \<and> length ps \<le> length ps' + 1"
      by (cases rule: common_both)
        (use common_without_column common_without_row in \<open>fastforce intro: common.intros\<close>)+
    then show ?thesis using IH(1)[OF True] True by fastforce
  next
    case False
    from "1.prems" show ?thesis
      by (cases rule: common_both) (use IH(2,3)[OF False] False in force)+
  qed
qed (auto dest: common_empty)

lemma common_in_order:
  assumes "common m xs ys ps"
  shows "sorted_wrt (<) xs \<Longrightarrow> sorted_wrt (<) ys \<Longrightarrow>
    sorted_wrt (\<lambda>p q. fst p < fst q \<and> snd p < snd q) ps \<and>
    (\<forall>p\<in>set ps. fst p \<in> set xs \<and> snd p \<in> set ys)"
  using assms by (induction rule: common.induct) auto

section \<open>Where the merged tokens come from\<close>

text \<open>\<open>out\<close> takes tokens of the left and of the right, each at most once and each side in its order.\<close>

inductive drawn_from :: "'a list \<Rightarrow> 'a list \<Rightarrow> 'a list \<Rightarrow> bool" where
  drawn_done: "drawn_from [] [] []"
| drawn_left: "drawn_from l r out \<Longrightarrow> drawn_from (x # l) r (x # out)"
| drawn_right: "drawn_from l r out \<Longrightarrow> drawn_from l (x # r) (x # out)"
| left_out: "drawn_from l r out \<Longrightarrow> drawn_from (x # l) r out"
| right_out: "drawn_from l r out \<Longrightarrow> drawn_from l (x # r) out"

lemma drawn_append:
  "drawn_from l r out \<Longrightarrow> drawn_from l' r' out' \<Longrightarrow> drawn_from (l @ l') (r @ r') (out @ out')"
  by (induction rule: drawn_from.induct) (auto intro: drawn_from.intros)

lemma drawn_none: "drawn_from l r []"
proof -
  have "drawn_from l [] []" by (induction l) (auto intro: drawn_from.intros)
  then show ?thesis by (induction r) (auto intro: drawn_from.intros)
qed

lemma drawn_all_left: "drawn_from l r l"
  by (induction l) (auto intro: drawn_from.intros drawn_none)

lemma drawn_all_right: "drawn_from l r r"
  by (induction r) (auto intro: drawn_from.intros drawn_none)

lemma drawn_all: "drawn_from l r (l @ r)"
  using drawn_append[OF drawn_all_left[of l "[]"] drawn_all_right[of "[]" r]] by simp

lemma drawn_cut: "drawn_from l r (take a l @ drop b r)"
  using drawn_append[OF drawn_all_left[of "take a l" "take b r"] drawn_all_right[of "drop a l" "drop b r"]]
  by simp

lemma merge_tail_drawn: "drawn_from rest tail (merge_tail safe rest tail)"
  using drawn_all_left[of rest tail] drawn_all_right[of rest tail]
    drawn_cut[of rest tail "length (takeWhile (\<lambda>t. \<not> safe (token_id t)) rest)"]
  unfolding merge_tail_def Let_def by (auto simp: takeWhile_eq_take[symmetric] split: option.splits nat.splits)

lemma merge_by_midpoint_drawn: "drawn_from left right (merge_by_midpoint safe left right left_end right_start)"
  unfolding merge_by_midpoint_def Let_def by (auto simp: drawn_all drawn_all_left drawn_cut split: option.splits)

lemma slice_first: "a < b \<Longrightarrow> b \<le> length xs \<Longrightarrow> slice xs a b = xs ! a # slice xs (a + 1) b"
  by (simp add: slice_def Cons_nth_drop_Suc[symmetric] Suc_diff_Suc[symmetric] take_Suc_Cons)

lemma slice_append: "a \<le> b \<Longrightarrow> b \<le> c \<Longrightarrow> slice xs a c = slice xs a b @ slice xs b c"
  using take_add[of "b - a" "c - b" "drop a xs"] by (simp add: slice_def)

lemma onwards_last:
  fixes ps :: "(nat \<times> nat) list"
  assumes "sorted_wrt (\<lambda>p q. fst p < fst q \<and> snd p < snd q) ps" and "ps \<noteq> []"
  shows "fst (hd ps) \<le> fst (last ps) \<and> snd (hd ps) \<le> snd (last ps)"
proof (cases ps)
  case (Cons p qs)
  show ?thesis
  proof (cases "qs = []")
    case False
    then have "fst p < fst (last qs) \<and> snd p < snd (last qs)"
      using assms(1) last_in_set[OF False] unfolding Cons sorted_wrt.simps by blast
    then show ?thesis using False by (auto simp: Cons)
  qed (simp add: Cons)
qed (use assms(2) in simp)

lemma stitch_drawn:
  assumes "sorted_wrt (\<lambda>p q. fst p < fst q \<and> snd p < snd q) ps" and "ps \<noteq> []"
    and "\<forall>p\<in>set ps. fst p < length left \<and> snd p < length right"
  shows "drawn_from (slice left (fst (hd ps)) (fst (last ps) + 1)) (slice right (snd (hd ps)) (snd (last ps) + 1))
    (stitch left right ps)"
  using assms
proof (induction left right ps rule: stitch.induct)
  case (2 left right li ri ps)
  note in_range = "2.prems"(3)
  show ?case
  proof (cases ps)
    case Nil
    then show ?thesis using in_range
      by (simp add: slice_first) (simp add: slice_def drawn_left drawn_none)
  next
    case (Cons q qs)
    obtain nl nr where q: "q = (nl, nr)" by (cases q)
    let ?L = "fst (last ps) + 1" and ?R = "snd (last ps) + 1"
    let ?gap = "if length (slice right (ri + 1) nr) > length (slice left (li + 1) nl)
      then slice right (ri + 1) nr else slice left (li + 1) nl"
    have IH: "drawn_from (slice left nl ?L) (slice right nr ?R) (stitch left right ps)"
      using "2.IH" "2.prems" Cons q by simp
    have onwards: "li < nl" "ri < nr" using "2.prems"(1) Cons q by auto
    have last: "last ps \<in> set ps" using Cons by simp
    have "nl < ?L" "nr < ?R"
      using onwards_last[of ps] "2.prems"(1) by (simp_all add: Cons q)
    moreover have "?L \<le> length left" "?R \<le> length right" using in_range last by (auto simp: Suc_le_eq)
    ultimately have l: "slice left li ?L = left ! li # slice left (li + 1) nl @ slice left nl ?L"
      and r: "slice right ri ?R = right ! ri # slice right (ri + 1) nr @ slice right nr ?R"
      using onwards slice_first[of li ?L left] slice_append[of "li + 1" nl ?L left]
        slice_first[of ri ?R right] slice_append[of "ri + 1" nr ?R right] by simp_all
    have "drawn_from (slice left (li + 1) nl) (slice right (ri + 1) nr) ?gap"
      by (simp add: drawn_all_left drawn_all_right)
    from drawn_append[OF this IH] have "drawn_from (slice left li ?L) (slice right ri ?R) (left ! li # ?gap @ stitch left right ps)"
      unfolding l r by (intro drawn_left right_out) simp
    moreover have "stitch left right ((li, ri) # ps) = left ! li # ?gap @ stitch left right ps"
      by (simp add: Cons q Let_def)
    moreover have "last ((li, ri) # ps) = last ps" using Cons by simp
    ultimately show ?thesis by (simp only: list.sel fst_conv snd_conv)
  qed
qed simp

lemma overlap_pairs_in_order:
  assumes "ps = overlap_pairs left right tolerance reach left_end right_start"
  shows "sorted_wrt (\<lambda>p q. fst p < fst q \<and> snd p < snd q) ps"
    and "\<forall>p\<in>set ps. fst p < length left \<and> snd p < length right"
  using common_in_order[OF common_pairs_common, of
      "filter (\<lambda>i. seconds (left ! i) + frame_seconds > right_start - reach) [0..<length left]"
      "filter (\<lambda>i. seconds (right ! i) < left_end + reach) [0..<length right]"]
  unfolding assms overlap_pairs_def by (auto simp: sorted_wrt_filter)

text \<open>
   Merging makes no word up. The tokens of two merged windows are tokens of the windows, each taken
  at most once, and the tokens of each window stay in its order, on every path of the merge: windows
  apart, the longest common subsequence with its gaps and its seam word, and the midpoint cut.
\<close>

theorem merge_draws_from_its_windows:
  "drawn_from left right (merge_windows safe overlap_seconds left right)"
proof -
  have "drawn_from left right
      (take (fst (hd ps)) left @ stitch left right ps @
       merge_tail safe (drop (fst (last ps) + 1) left) (drop (snd (last ps) + 1) right))"
    if "ps = overlap_pairs left right tolerance reach left_end right_start" and "ps \<noteq> []"
    for ps tolerance reach left_end right_start
  proof -
    note o = overlap_pairs_in_order[OF that(1)]
    have ends: "fst (hd ps) \<le> fst (last ps) + 1" "snd (hd ps) \<le> snd (last ps) + 1"
      using onwards_last[OF o(1) that(2)] by simp_all
    have cut: "xs = take a xs @ slice xs a b @ drop b xs" if "a \<le> b" for xs :: "token list" and a b
      using that by (simp add: slice_def) (metis append_take_drop_id drop_drop le_add_diff_inverse2)
    show ?thesis
      by (subst (1) cut[OF ends(1), of left], subst (1) cut[OF ends(2), of right])
        (intro drawn_append drawn_all_left stitch_drawn o that(2) merge_tail_drawn)
  qed
  then show ?thesis
    unfolding merge_windows_def Let_def by (auto simp: drawn_all merge_by_midpoint_drawn)
qed

text \<open>
  C29: What two windows are found to share is the most they share: the pairs the merge walks are a
  common subsequence of the two overlaps (same token within the tolerance, both sides onwards), and no
  common subsequence is longer, though tokens match within a tolerance and not as equals.
\<close>

theorem overlap_pairs_are_longest:
  assumes "common (token_matches tolerance left right)
      (filter (\<lambda>i. seconds (left ! i) + frame_seconds > right_start - reach) [0..<length left])
      (filter (\<lambda>i. seconds (right ! i) < left_end + reach) [0..<length right]) ps"
  shows "length ps \<le> length (overlap_pairs left right tolerance reach left_end right_start) \<and>
    common (token_matches tolerance left right)
      (filter (\<lambda>i. seconds (left ! i) + frame_seconds > right_start - reach) [0..<length left])
      (filter (\<lambda>i. seconds (right ! i) < left_end + reach) [0..<length right])
      (overlap_pairs left right tolerance reach left_end right_start)"
  using lcs_longest[OF assms] common_pairs_common by (simp add: overlap_pairs_def common_pairs_length)

definition demo_token :: "nat \<Rightarrow> nat \<Rightarrow> token" where
  "demo_token i f = \<lparr>token_id = i, frame = f, phase = 0, confidence = 1, token_duration = 1\<rparr>"

lemma overlap_pairs_are_longest_witness:
  "1 \<le> length (overlap_pairs [demo_token 3 4] [demo_token 3 5] (1 / 2) 2 (4 / 10) (4 / 10))"
proof -
  have "common (token_matches (1 / 2) [demo_token 3 4] [demo_token 3 5]) [0] [0] [(0, 0)]"
    by (intro common_pair common_end) (simp add: token_matches_def demo_token_def seconds_def frame_seconds_def)
  then have "length [(0::nat, 0::nat)] \<le> length (overlap_pairs [demo_token 3 4] [demo_token 3 5] (1 / 2) 2 (4 / 10) (4 / 10))"
    by (intro conjunct1[OF overlap_pairs_are_longest])
      (simp add: demo_token_def seconds_def frame_seconds_def)
  then show ?thesis by simp
qed

section \<open>Frames in order\<close>

definition tokens_in_order :: "token list \<Rightarrow> bool" where
  "tokens_in_order ts \<longleftrightarrow>
     sorted_wrt (\<lambda>s t. frame s < frame t \<or> frame s = frame t \<and> phase s \<le> phase t) ts"

lemma enforce_monotonic_in_order:
  "tokens_in_order (enforce_monotonic most ts) \<and>
   (\<forall>t\<in>set (enforce_monotonic most ts). fst most < frame t \<or> fst most = frame t \<and> snd most \<le> phase t)"
proof (induction most ts rule: enforce_monotonic.induct)
  case (2 most t ts)
  let ?most = "if fst most < frame t \<or> fst most = frame t \<and> snd most \<le> phase t then (frame t, phase t) else most"
  have "fst most < fst ?most \<or> fst most = fst ?most \<and> snd most \<le> snd ?most" by auto
  then show ?case using "2.IH"[OF refl] by (fastforce simp: tokens_in_order_def Let_def)
qed (simp add: tokens_in_order_def)

text \<open>
   The tokens of the merged windows never go back in time, whatever the windows overlap in, as long
  as a lone window's tokens do not: every merge ends by raising what would.
\<close>

theorem merged_tokens_in_order:
  assumes "\<forall>w\<in>set ws. tokens_in_order w"
  shows "tokens_in_order (merge_all safe overlap_seconds ws)"
proof -
  have "tokens_in_order merged \<Longrightarrow> tokens_in_order (merge_rest safe overlap_seconds merged vs)" for merged vs
    by (induction safe overlap_seconds merged vs rule: merge_rest.induct)
      (simp_all add: enforce_monotonic_in_order)
  then show ?thesis using assms
    by (cases ws) (simp_all add: merge_all_def, simp add: tokens_in_order_def)
qed

lemma merged_tokens_in_order_witness:
  "tokens_in_order (merge_all (\<lambda>_. True) 2 [[demo_token 1 4], [demo_token 2 3, demo_token 2 6]])"
  by (rule merged_tokens_in_order) (simp add: tokens_in_order_def demo_token_def)

section \<open>Windows cut from one token sequence\<close>

lemma common_shifted:
  assumes "sorted_wrt (<) xs" and "sorted_wrt (<) ys" and "\<forall>x\<in>set xs. \<forall>y\<in>set ys. m x y \<longleftrightarrow> x = n + y"
  shows "common m xs ys (map (\<lambda>y. (n + y, y)) (filter (\<lambda>y. n + y \<in> set xs) ys))"
  using assms
proof (induction m xs ys rule: lcs.induct)
  case (1 m x xs y ys)
  have later: "\<forall>z\<in>set xs. x < z" "\<forall>z\<in>set ys. y < z" using "1.prems"(1,2) by auto
  let ?F = "\<lambda>xs ys. map (\<lambda>y. (n + y, y)) (filter (\<lambda>y. n + y \<in> set xs) ys)"
  consider "x = n + y" | "x < n + y" | "n + y < x" by linarith
  then show ?case
  proof cases
    case 1
    have "filter (\<lambda>z. n + z \<in> set (x # xs)) ys = filter (\<lambda>z. n + z \<in> set xs) ys"
      by (rule filter_cong[OF refl]) (use 1 later in auto)
    then have "?F (x # xs) (y # ys) = (x, y) # ?F xs ys" using 1 by simp
    then show ?thesis using "1.IH"(1) "1.prems" 1 by (auto intro: common_pair)
  next
    case 2
    have "filter (\<lambda>z. n + z \<in> set (x # xs)) (y # ys) = filter (\<lambda>z. n + z \<in> set xs) (y # ys)"
      by (rule filter_cong[OF refl]) (use 2 later in auto)
    then have "?F (x # xs) (y # ys) = ?F xs (y # ys)" by simp
    then show ?thesis using "1.IH"(2) "1.prems" 2 by (auto intro: common_left)
  next
    case 3
    have "?F (x # xs) (y # ys) = ?F (x # xs) ys" using 3 later by auto
    then show ?thesis using "1.IH"(3) "1.prems" 3 by (auto intro: common_right)
  qed
qed (auto intro: common.intros)

lemma common_pairs_of_shifted:
  assumes "sorted_wrt (<) xs" and "sorted_wrt (<) ys" and m: "\<forall>x\<in>set xs. \<forall>y\<in>set ys. m x y \<longleftrightarrow> x = n + y"
  shows "common_pairs m xs ys = map (\<lambda>y. (n + y, y)) (filter (\<lambda>y. n + y \<in> set xs) ys)"
proof -
  let ?ps = "common_pairs m xs ys" and ?ys = "filter (\<lambda>y. n + y \<in> set xs) ys"
  note order = common_in_order[OF common_pairs_common assms(1,2), of m]
  have matching: "common m xs ys ps \<Longrightarrow> \<forall>p\<in>set ps. m (fst p) (snd p)" for ps
    by (induction rule: common.induct) auto
  have shifted: "fst p = n + snd p" if "p \<in> set ?ps" for p
    using matching[OF common_pairs_common] order m that by blast
  have sorted: "sorted_wrt (<) (map snd ?ps)"
    unfolding sorted_wrt_map by (rule sorted_wrt_mono_rel[OF _ conjunct1[OF order]]) simp
  have "sorted_wrt (<) ?ys" using assms(2) by (rule sorted_wrt_filter)
  moreover have inside: "set (map snd ?ps) \<subseteq> set ?ys" using order shifted by auto
  moreover have "length ?ys \<le> length (map snd ?ps)"
    using lcs_longest[OF common_shifted[OF assms]] by (simp add: common_pairs_length)
  then have "card (set ?ys) \<le> card (set (map snd ?ps))"
    using \<open>sorted_wrt (<) ?ys\<close> sorted by (simp only: distinct_card strict_sorted_iff)
  ultimately have "set (map snd ?ps) = set ?ys" by (intro card_seteq) auto
  then have "map snd ?ps = ?ys"
    using sorted \<open>sorted_wrt (<) ?ys\<close> by (simp only: strict_sorted_iff sorted_distinct_set_unique)
  moreover have "?ps = map (\<lambda>y. (n + y, y)) (map snd ?ps)"
    unfolding map_map by (rule map_idI[symmetric]) (use shifted in \<open>simp add: prod_eq_iff\<close>)
  ultimately show ?thesis by simp
qed

lemma stitch_run:
  "i < k \<Longrightarrow> stitch left right (map (\<lambda>j. (n + j, j)) [i..<k]) = map (\<lambda>j. left ! (n + j)) [i..<k]"
proof (induction "k - i" arbitrary: i)
  case (Suc d)
  show ?case
  proof (cases "i + 1 = k")
    case True
    then show ?thesis by (auto simp: upt_rec[of i k])
  next
    case False
    then have "i + 1 < k" using Suc.prems by simp
    with Suc.hyps(1)[of "i + 1"] Suc.hyps(2) show ?thesis
      by (simp add: upt_rec[of i k] upt_rec[of "Suc i" k] slice_def)
  qed
qed simp

lemma tokens_in_order_seconds:
  "tokens_in_order ts \<Longrightarrow> i \<le> j \<Longrightarrow> j < length ts \<Longrightarrow> seconds (ts ! i) \<le> seconds (ts ! j)"
  unfolding tokens_in_order_def seconds_def frame_seconds_def
  by (cases "i = j") (auto dest: sorted_wrt_nth_less[of _ ts i j])

lemma overlap_of_one_sequence:
  assumes order: "tokens_in_order (a @ b @ c)" and b: "b \<noteq> []" and "0 \<le> reach" and "0 < tolerance"
    and "distinct (a @ b @ c)"
    and apart: "\<forall>s\<in>set (a @ b @ c). \<forall>t\<in>set (a @ b @ c).
      token_id s = token_id t \<and> \<bar>seconds s - seconds t\<bar> < tolerance \<longrightarrow> s = t"
  shows "overlap_pairs (a @ b) (b @ c) tolerance reach (seconds (last b) + frame_seconds) (seconds (hd b)) =
    map (\<lambda>j. (length a + j, j)) [0..<length b]"
proof -
  let ?T = "a @ b @ c" and ?n = "length a"
  let ?left_end = "seconds (last b) + frame_seconds"
  let ?rows = "filter (\<lambda>i. seconds ((a @ b) ! i) + frame_seconds > seconds (hd b) - reach) [0..<length (a @ b)]"
  let ?cols = "filter (\<lambda>i. seconds ((b @ c) ! i) < ?left_end + reach) [0..<length (b @ c)]"
  have left: "(a @ b) ! i = ?T ! i" if "i < ?n + length b" for i using that by (simp add: nth_append)
  have right: "(b @ c) ! j = ?T ! (?n + j)" for j by (simp add: nth_append)
  have m: "token_matches tolerance (a @ b) (b @ c) i j \<longleftrightarrow> i = ?n + j"
    if "i < ?n + length b" "j < length (b @ c)" for i j
  proof -
    have "i < length ?T" "?n + j < length ?T" using that by simp_all
    then have "?T ! i \<in> set ?T" "?T ! (?n + j) \<in> set ?T" by (blast intro: nth_mem)+
    then have "token_matches tolerance (a @ b) (b @ c) i j \<longleftrightarrow> ?T ! i = ?T ! (?n + j)"
      using apart \<open>0 < tolerance\<close> unfolding token_matches_def left[OF that(1)] right by auto
    then show ?thesis using nth_eq_iff_index_eq[OF assms(5), of i "?n + j"] that by simp
  qed
  have hd: "hd b = ?T ! ?n" and last: "last b = ?T ! (?n + (length b - 1))"
    using b by (simp_all add: nth_append hd_conv_nth last_conv_nth)
  have rows: "?n + j \<in> set ?rows" if "j < length b" for j
    using tokens_in_order_seconds[OF order, of ?n "?n + j"] that left[of "?n + j"] assms(3)
    by (simp add: hd frame_seconds_def)
  have cols: "j \<in> set ?cols" if "j < length b" for j
  proof -
    have "?n + j \<le> ?n + (length b - 1)" "?n + (length b - 1) < length ?T" using that by auto
    note before = tokens_in_order_seconds[OF order this]
    have "seconds ((b @ c) ! j) < seconds (last b) + frame_seconds + reach"
      unfolding right last frame_seconds_def using before assms(3) by linarith
    then show ?thesis using that by simp
  qed
  have "common_pairs (token_matches tolerance (a @ b) (b @ c)) ?rows ?cols =
      map (\<lambda>j. (?n + j, j)) (filter (\<lambda>j. ?n + j \<in> set ?rows) ?cols)"
    by (rule common_pairs_of_shifted) (auto simp: m sorted_wrt_filter)
  moreover have "filter (\<lambda>j. ?n + j \<in> set ?rows) ?cols = [0..<length b]"
  proof (rule sorted_distinct_set_unique)
    show "set (filter (\<lambda>j. ?n + j \<in> set ?rows) ?cols) = set [0..<length b]"
      using rows cols by auto
  qed (auto intro: sorted_filter distinct_filter simp: sorted_wrt_filter)
  ultimately show ?thesis by (simp add: overlap_pairs_def)
qed

text \<open>
  C22: Merging undoes the cutting. Two windows that both decoded the same stretch of one token sequence,
  so that the left ends with what the right begins with, merge to that sequence: no word of the seam is
  lost and none is said twice. In the sequence no token occurs again within the match tolerance.
\<close>

theorem merge_restores_one_sequence:
  assumes "tokens_in_order (a @ b @ c)" and "b \<noteq> []" and "distinct (a @ b @ c)"
    and "\<forall>s\<in>set (a @ b @ c). \<forall>t\<in>set (a @ b @ c).
      token_id s = token_id t \<and> \<bar>seconds s - seconds t\<bar> < max (overlap_seconds / 2) (1 / 2) \<longrightarrow> s = t"
  shows "merge_windows safe overlap_seconds (a @ b) (b @ c) = a @ b @ c"
proof -
  let ?tolerance = "max (overlap_seconds / 2) (1 / 2)"
  let ?pairs = "map (\<lambda>j. (length a + j, j)) [0..<length b]"
  have pairs: "overlap_pairs (a @ b) (b @ c) ?tolerance (max overlap_seconds ?tolerance)
      (seconds (last b) + frame_seconds) (seconds (hd b)) = ?pairs"
    by (rule overlap_of_one_sequence) (use assms in \<open>auto simp: max_def\<close>)
  have "seconds (hd b) \<le> seconds (last b)"
    using tokens_in_order_seconds[OF assms(1), of "length a" "length a + (length b - 1)"] assms(2)
    by (cases "length b") (simp_all add: nth_append hd_conv_nth last_conv_nth)
  then have near: "\<not> seconds (hd b) \<ge> seconds (last b) + frame_seconds + ?tolerance"
    by (simp add: frame_seconds_def max_def)
  have stitched: "stitch (a @ b) (b @ c) ?pairs = b"
    using stitch_run[of 0 "length b" "a @ b" "b @ c" "length a"] assms(2) by (simp add: map_nth)
  have tail: "merge_tail safe [] c = c"
    by (cases c) (auto simp: merge_tail_def Let_def split: option.splits nat.splits)
  have ends: "hd ?pairs = (length a, 0)" "last ?pairs = (length a + (length b - 1), length b - 1)"
    using assms(2) by (simp_all add: hd_map last_map)
  show ?thesis
    using assms(2) near tail ends stitched pairs
    by (simp add: merge_windows_def Let_def)
qed

lemma merge_restores_one_sequence_witness:
  "merge_windows (\<lambda>_. True) 2 ([demo_token 7 10] @ [demo_token 3 14, demo_token 5 20]) ([demo_token 3 14, demo_token 5 20] @ [demo_token 7 31]) =
   [demo_token 7 10, demo_token 3 14, demo_token 5 20, demo_token 7 31]"
  by (subst merge_restores_one_sequence)
    (simp_all add: tokens_in_order_def demo_token_def seconds_def frame_seconds_def)

end
