(* ===== verification/Utf8_Text.thy ===== *)
theory Utf8_Text
  imports Steno_Prelude
begin

text \<open>
  What the sources use of Rust's text: \<open>String::from_utf8\<close> and \<open>into_bytes\<close>, \<open>str::lines\<close>,
  \<open>str::rsplit_once\<close> and \<open>str::trim\<close>. Decoding is strict: no overlong form, no surrogate, nothing over
  U+10FFFF.
\<close>

section \<open>UTF-8\<close>

definition is_scalar :: "nat \<Rightarrow> bool" where
  "is_scalar c \<longleftrightarrow> c < 0xD800 \<or> 0xE000 \<le> c \<and> c < 0x110000"

definition utf8_char :: "nat \<Rightarrow> nat list" where
  "utf8_char c =
     (if c < 0x80 then [c]
      else if c < 0x800 then [0xC0 + c div 64, 0x80 + c mod 64]
      else if c < 0x10000 then [0xE0 + c div 4096, 0x80 + c div 64 mod 64, 0x80 + c mod 64]
      else [0xF0 + c div 262144, 0x80 + c div 4096 mod 64, 0x80 + c div 64 mod 64, 0x80 + c mod 64])"

definition utf8_encode :: "ustring \<Rightarrow> bytes" where
  "utf8_encode s = map of_nat (concat (map utf8_char s))"

definition continues :: "nat \<Rightarrow> bool" where
  "continues b \<longleftrightarrow> 0x80 \<le> b \<and> b < 0xC0"

text \<open>The first character of the bytes and what follows it.\<close>

definition utf8_first :: "nat list \<Rightarrow> (nat \<times> nat list) option" where
  "utf8_first bs =
     (case bs of
        [] \<Rightarrow> None
      | a # r \<Rightarrow>
          if a < 0x80 then Some (a, r)
          else if 0xC2 \<le> a \<and> a < 0xE0 then
            (case r of
               b # r \<Rightarrow> if continues b then Some ((a - 0xC0) * 64 + (b - 0x80), r) else None
             | [] \<Rightarrow> None)
          else if 0xE0 \<le> a \<and> a < 0xF0 then
            (case r of
               b # c # r \<Rightarrow>
                 if continues b \<and> continues c \<and> (a = 0xE0 \<longrightarrow> 0xA0 \<le> b) \<and> (a = 0xED \<longrightarrow> b < 0xA0)
                 then Some ((a - 0xE0) * 4096 + (b - 0x80) * 64 + (c - 0x80), r) else None
             | _ \<Rightarrow> None)
          else if 0xF0 \<le> a \<and> a < 0xF5 then
            (case r of
               b # c # d # r \<Rightarrow>
                 if continues b \<and> continues c \<and> continues d \<and> (a = 0xF0 \<longrightarrow> 0x90 \<le> b) \<and> (a = 0xF4 \<longrightarrow> b < 0x90)
                 then Some ((a - 0xF0) * 262144 + (b - 0x80) * 4096 + (c - 0x80) * 64 + (d - 0x80), r) else None
             | _ \<Rightarrow> None)
          else None)"

lemma utf8_first_shorter: "utf8_first bs = Some (c, r) \<Longrightarrow> length r < length bs"
  by (auto simp: utf8_first_def split: list.splits if_splits)

function utf8_chars :: "nat list \<Rightarrow> ustring option" where
  "utf8_chars bs =
     (if bs = [] then Some []
      else case utf8_first bs of
             None \<Rightarrow> None
           | Some (c, r) \<Rightarrow> map_option (\<lambda>s. c # s) (utf8_chars r))"
  by pat_completeness auto
termination
  by (relation "measure length") (auto dest: utf8_first_shorter)

declare utf8_chars.simps [simp del]

definition utf8_decode :: "bytes \<Rightarrow> ustring option" where
  "utf8_decode bs = utf8_chars (map unat bs)"

lemma utf8_first_char: "is_scalar c \<Longrightarrow> utf8_first (utf8_char c @ r) = Some (c, r)"
proof -
  assume c: "is_scalar c"
  consider "c < 0x80" | "0x80 \<le> c" "c < 0x800" | "0x800 \<le> c" "c < 0x10000" | "0x10000 \<le> c" by linarith
  then show ?thesis
  proof cases
    case 1
    then show ?thesis by (simp add: utf8_char_def utf8_first_def)
  next
    case 2
    then have "2 \<le> c div 64" "c div 64 < 32" by auto
    then show ?thesis using 2 by (simp add: utf8_char_def utf8_first_def continues_def)
  next
    case 3
    let ?a = "c div 4096" and ?b = "c div 64 mod 64"
    have "c div 64 = ?a * 64 + ?b" by (simp add: div_mult2_eq[of c 64 64, simplified])
    moreover have "32 \<le> c div 64" "c div 64 < 1024" using 3 by auto
    moreover have "c div 64 < 864 \<or> 896 \<le> c div 64" using c 3 by (auto simp: is_scalar_def)
    moreover have "?b < 64" by simp
    ultimately have "?a < 16" "?a = 0 \<longrightarrow> 32 \<le> ?b" "?a = 13 \<longrightarrow> ?b < 32" by linarith+
    moreover have "?a * 4096 + ?b * 64 + c mod 64 = c"
      using \<open>c div 64 = ?a * 64 + ?b\<close> div_mult_mod_eq[of c 64] by linarith
    ultimately show ?thesis using 3 by (simp add: utf8_char_def utf8_first_def continues_def)
  next
    case 4
    let ?a = "c div 262144" and ?b = "c div 4096 mod 64" and ?c = "c div 64 mod 64"
    have c1: "c div 64 = c div 4096 * 64 + ?c" by (simp add: div_mult2_eq[of c 64 64, simplified])
    have c2: "c div 4096 = ?a * 64 + ?b" by (simp add: div_mult2_eq[of c 4096 64, simplified])
    moreover have "16 \<le> c div 4096" "c div 4096 < 272" using 4 c by (auto simp: is_scalar_def)
    moreover have "?b < 64" by simp
    ultimately have "?a < 5" "?a = 0 \<longrightarrow> 16 \<le> ?b" "?a = 4 \<longrightarrow> ?b < 16" by linarith+
    moreover have "?a * 262144 + ?b * 4096 + ?c * 64 + c mod 64 = c"
      using c1 c2 div_mult_mod_eq[of c 64] by linarith
    ultimately show ?thesis using 4 by (simp add: utf8_char_def utf8_first_def continues_def)
  qed
qed

lemma utf8_char_bytes: "is_scalar c \<Longrightarrow> b \<in> set (utf8_char c) \<Longrightarrow> b < 256"
proof -
  assume c: "is_scalar c" and b: "b \<in> set (utf8_char c)"
  have low: "0x80 + x mod 64 < (256::nat)" for x
    using mod_less_divisor[of 64 x] by linarith
  have "c < 0x800 \<Longrightarrow> 0xC0 + c div 64 < 256" "c < 0x10000 \<Longrightarrow> 0xE0 + c div 4096 < 256"
    "0xF0 + c div 262144 < 256"
    using c by (auto simp: is_scalar_def)
  then show ?thesis using b low unfolding utf8_char_def by (auto split: if_splits)
qed

lemma utf8_decode_encode: "list_all is_scalar s \<Longrightarrow> utf8_decode (utf8_encode s) = Some s"
proof -
  assume s: "list_all is_scalar s"
  have "map unat (utf8_encode s) = concat (map utf8_char s)"
    using s utf8_char_bytes by (fastforce simp: utf8_encode_def list_all_iff unat_of_nat intro!: map_idI)
  moreover have "utf8_chars (concat (map utf8_char s)) = Some s"
    using s
  proof (induction s)
    case Nil
    then show ?case by (simp add: utf8_chars.simps)
  next
    case (Cons c s)
    then have "utf8_first (concat (map utf8_char (c # s))) = Some (c, concat (map utf8_char s))"
      by (simp add: utf8_first_char)
    moreover have "utf8_char c \<noteq> []" by (simp add: utf8_char_def)
    ultimately show ?case using Cons by (subst utf8_chars.simps) simp
  qed
  ultimately show ?thesis by (simp add: utf8_decode_def)
qed

section \<open>Lines and words\<close>

text \<open>\<open>str::lines\<close>: a carriage return before a newline goes, an empty last line does not count.\<close>

definition strip_cr :: "ustring \<Rightarrow> ustring" where
  "strip_cr l = (if l \<noteq> [] \<and> last l = 13 then butlast l else l)"

definition text_lines :: "ustring \<Rightarrow> ustring list" where
  "text_lines t =
     (let ps = split_at_char 10 t
      in map strip_cr (butlast ps) @ (if last ps = [] then [] else [last ps]))"

definition rsplit_once :: "'a \<Rightarrow> 'a list \<Rightarrow> ('a list \<times> 'a list) option" where
  "rsplit_once c s = map_option (\<lambda>(b, a). (rev a, rev b)) (split_once c (rev s))"

definition trim :: "ustring \<Rightarrow> ustring" where
  "trim = trim_matches unicode_white_space"

lemma split_at_char_first: "c \<notin> set l \<Longrightarrow> split_at_char c (l @ c # rest) = l # split_at_char c rest"
  by (induction l) auto

lemma text_lines_first: "10 \<notin> set l \<Longrightarrow> text_lines (l @ 10 # rest) = strip_cr l # text_lines rest"
  by (simp add: text_lines_def split_at_char_first Let_def)

lemma text_lines_nil [simp]: "text_lines [] = []"
  by (simp add: text_lines_def)

lemma split_once_first: "c \<notin> set a \<Longrightarrow> split_once c (a @ c # b) = Some (a, b)"
  by (induction a) auto

lemma rsplit_once_last: "c \<notin> set b \<Longrightarrow> rsplit_once c (a @ c # b) = Some (a, b)"
  using split_once_first[of c "rev b" "rev a"] by (simp add: rsplit_once_def)

end
