(* ===== verification/Word_Segments.thy ===== *)
theory Word_Segments
  imports Tdt_Decoder Decimal_Text Utf8_Text
begin

text \<open>
  \<open>steno-speech/src/vocab.rs\<close> and \<open>segmentation.rs\<close>: the vocabulary of the model and how tokens become
  words and words become the segments of a transcript. Times and confidences are exact fractions.
  \<open>alphanumeric\<close> and \<open>control\<close> are the Unicode tables behind \<open>char::is_alphanumeric\<close> and
  \<open>char::is_control\<close>.
\<close>

section \<open>Pieces\<close>

definition word_boundary :: nat where "word_boundary = 9601"

definition starts_word :: "ustring \<Rightarrow> bool" where
  "starts_word piece \<longleftrightarrow> piece \<noteq> [] \<and> (hd piece = word_boundary \<or> hd piece = 32)"

definition strip_boundary :: "ustring \<Rightarrow> ustring" where
  "strip_boundary piece = (if starts_word piece then tl piece else piece)"

definition ascii_punctuation :: "nat \<Rightarrow> bool" where
  "ascii_punctuation c \<longleftrightarrow>
     33 \<le> c \<and> c \<le> 47 \<or> 58 \<le> c \<and> c \<le> 64 \<or> 91 \<le> c \<and> c \<le> 96 \<or> 123 \<le> c \<and> c \<le> 126"

definition is_punctuation_piece :: "ustring \<Rightarrow> bool" where
  "is_punctuation_piece piece \<longleftrightarrow>
     (let core = trim (strip_boundary piece)
      in core \<noteq> [] \<and>
         list_all (\<lambda>c. ascii_punctuation c \<or>
           c \<in> {0x3002, 0xFF1F, 0xFF01, 0xFF0C, 0x3001, 0x2026, 0x2019, 0x201C, 0x201D}) core)"

section \<open>The vocabulary\<close>

record vocab =
  pieces :: "ustring list"
  splice_safe :: "bool list"

datatype vocab_error = NoId nat | NonNumericId nat | WrongId nat nat nat | FewerThanTwo

definition from_pieces :: "ustring list \<Rightarrow> vocab_error + vocab" where
  "from_pieces ps =
     (if length ps < 2 then Inl FewerThanTwo
      else Inr \<lparr>pieces = ps, splice_safe = map (\<lambda>p. starts_word p \<or> is_punctuation_piece p) ps\<rparr>)"

fun load_lines :: "nat \<Rightarrow> ustring list \<Rightarrow> ustring list \<Rightarrow> vocab_error + ustring list" where
  "load_lines number ps [] = Inr ps"
| "load_lines number ps (l # ls) =
     (if l = [] then load_lines (number + 1) ps ls
      else case rsplit_once 32 l of
             None \<Rightarrow> Inl (NoId number)
           | Some (piece, digits) \<Rightarrow>
               (case parse_unsigned 64 digits of
                  None \<Rightarrow> Inl (NonNumericId number)
                | Some i \<Rightarrow>
                    if i \<noteq> length ps then Inl (WrongId number i (length ps))
                    else load_lines (number + 1) (ps @ [piece]) ls))"

definition load_vocab :: "ustring \<Rightarrow> vocab_error + vocab" where
  "load_vocab t =
     (case load_lines 1 [] (text_lines t) of
        Inl e \<Rightarrow> Inl e
      | Inr ps \<Rightarrow> if length ps < 2 then Inl FewerThanTwo else from_pieces ps)"

definition blank_id :: "vocab \<Rightarrow> nat" where
  "blank_id v = length (pieces v) - 1"

definition piece :: "vocab \<Rightarrow> nat \<Rightarrow> ustring" where
  "piece v i = (if i = blank_id v then [] else if i < length (pieces v) then pieces v ! i else [])"

definition is_splice_safe :: "vocab \<Rightarrow> nat \<Rightarrow> bool" where
  "is_splice_safe v i \<longleftrightarrow> i < length (splice_safe v) \<and> splice_safe v ! i"

section \<open>Words\<close>

record timed_word =
  word_text :: ustring
  word_start :: rat
  word_end :: rat
  word_confidence :: rat

definition timed_pieces :: "vocab \<Rightarrow> token list \<Rightarrow> timed_word list" where
  "timed_pieces v ts =
     map (\<lambda>t. let start = (if frame t = 0 then 0
                           else of_nat (frame t - 1) * (8 / 100) + of_nat (phase t) / of_nat sample_rate);
                  long = of_nat (max (token_duration t) 1) * (8 / 100)
              in \<lparr>word_text = piece v (token_id t), word_start = start, word_end = start + long,
                  word_confidence = confidence t\<rparr>) ts"

definition opening_marks :: "nat list" where
  "opening_marks = [0xBF, 0xA1, 40, 91, 123, 39]"

definition is_punctuation_or_symbol :: "(nat \<Rightarrow> bool) \<Rightarrow> (nat \<Rightarrow> bool) \<Rightarrow> nat \<Rightarrow> bool" where
  "is_punctuation_or_symbol alphanumeric control c \<longleftrightarrow>
     ascii_punctuation c \<or> \<not> (alphanumeric c \<or> unicode_white_space c \<or> control c)"

text \<open>\<open>TokenAggregator::words\<close>: the word at work, its confidences, and whether a boundary is pending.\<close>

definition flush_word :: "timed_word option \<Rightarrow> rat list \<Rightarrow> timed_word list" where
  "flush_word current confidences =
     (case current of
        Some w \<Rightarrow>
          if word_text w \<noteq> []
          then [w\<lparr>word_confidence :=
                  (if confidences = [] then 1 else sum_list confidences / of_nat (length confidences))\<rparr>]
          else []
      | None \<Rightarrow> [])"

fun words_from ::
  "(nat \<Rightarrow> bool) \<Rightarrow> (nat \<Rightarrow> bool) \<Rightarrow> timed_word option \<Rightarrow> rat list \<Rightarrow> bool \<Rightarrow> timed_word list \<Rightarrow> timed_word list"
where
  "words_from alphanumeric control current confidences pending [] = flush_word current confidences"
| "words_from alphanumeric control current confidences pending (p # ps) =
     (let is_word_start = starts_word (word_text p);
          core = trim (strip_boundary (word_text p))
      in if core = [] then words_from alphanumeric control current confidences (pending \<or> is_word_start) ps
         else
           let glues = list_all (is_punctuation_or_symbol alphanumeric control) core \<and>
                       hd core \<notin> set opening_marks
           in case (if glues \<or> \<not> (is_word_start \<or> pending) then current else None) of
                Some w \<Rightarrow>
                  words_from alphanumeric control
                    (Some (w\<lparr>word_text := word_text w @ core, word_end := max (word_end w) (word_end p)\<rparr>))
                    (confidences @ [word_confidence p]) False ps
              | None \<Rightarrow>
                  flush_word current confidences @
                  words_from alphanumeric control (Some (p\<lparr>word_text := core\<rparr>))
                    [word_confidence p] False ps)"

definition aggregate_words :: "(nat \<Rightarrow> bool) \<Rightarrow> (nat \<Rightarrow> bool) \<Rightarrow> timed_word list \<Rightarrow> timed_word list" where
  "aggregate_words alphanumeric control ps = words_from alphanumeric control None [] True ps"

section \<open>Segments\<close>

record word_timing =
  timing_word :: ustring
  timing_start :: rat
  timing_end :: rat

definition word_timing_of :: "timed_word \<Rightarrow> word_timing" where
  "word_timing_of w = \<lparr>timing_word = word_text w, timing_start = word_start w, timing_end = word_end w\<rparr>"

record raw_segment =
  segment_start :: rat
  segment_end :: rat
  segment_text :: ustring
  segment_language :: "ustring option"
  word_timings :: "word_timing list option"

record segmenter =
  max_segment_seconds :: rat
  split_gap_seconds :: rat

definition default_segmenter :: segmenter where
  "default_segmenter = \<lparr>max_segment_seconds = 30, split_gap_seconds = 7 / 10\<rparr>"

definition flush_segment :: "timed_word list \<Rightarrow> raw_segment list" where
  "flush_segment ws =
     (if ws = [] then []
      else [\<lparr>segment_start = word_start (hd ws), segment_end = max (word_end (last ws)) (word_start (hd ws)),
             segment_text = join_with 32 (map word_text ws), segment_language = None,
             word_timings = Some (map word_timing_of ws)\<rparr>])"

definition ends_sentence :: "timed_word \<Rightarrow> bool" where
  "ends_sentence w \<longleftrightarrow> word_text w \<noteq> [] \<and> last (word_text w) \<in> set (ascii ''.?!'')"

text \<open>\<open>cut_before\<close>: whether the segment so far ends before this word.\<close>

definition cut_before :: "segmenter \<Rightarrow> timed_word list \<Rightarrow> timed_word \<Rightarrow> bool" where
  "cut_before g current w \<longleftrightarrow>
     current \<noteq> [] \<and>
     (word_start w - word_end (last current) > split_gap_seconds g \<or> ends_sentence (last current) \<or>
      word_end w - word_start (hd current) > max_segment_seconds g)"

fun segments_from :: "segmenter \<Rightarrow> timed_word list \<Rightarrow> timed_word list \<Rightarrow> raw_segment list" where
  "segments_from g current [] = flush_segment current"
| "segments_from g current (w # ws) =
     (if word_text w = [] then segments_from g current ws
      else if cut_before g current w then flush_segment current @ segments_from g [w] ws
      else segments_from g (current @ [w]) ws)"

definition segments :: "segmenter \<Rightarrow> timed_word list \<Rightarrow> raw_segment list" where
  "segments g ws = segments_from g [] ws"

section \<open>Every vocabulary file reads back\<close>

fun write_lines :: "nat \<Rightarrow> ustring list \<Rightarrow> ustring" where
  "write_lines i [] = []"
| "write_lines i (p # ps) = p @ 32 # nat_text i @ 10 # write_lines (i + 1) ps"

lemma load_lines_write:
  assumes "\<forall>p\<in>set ps. 10 \<notin> set p" and "length done + length ps \<le> 2 ^ 64"
  shows "load_lines number done (text_lines (write_lines (length done) ps)) = Inr (done @ ps)"
  using assms
proof (induction ps arbitrary: number "done")
  case (Cons p ps)
  let ?i = "length done" and ?d = "nat_text (length done)"
  have some: "?d \<noteq> []" by simp
  have d: "32 \<notin> set ?d" "10 \<notin> set ?d" "last ?d \<noteq> 13"
    using nat_text_digits[of 32 ?i] nat_text_digits[of 10 ?i] nat_text_digits[OF last_in_set[OF some]] by auto
  have "text_lines (write_lines ?i (p # ps)) = (p @ 32 # ?d) # text_lines (write_lines (?i + 1) ps)"
    using text_lines_first[of "p @ 32 # ?d" "write_lines (?i + 1) ps"] Cons.prems(1) some d
    by (simp add: strip_cr_def)
  moreover have "?i < 2 ^ 64" using Cons.prems(2) by simp
  ultimately show ?case
    using Cons.IH[of "done @ [p]" "number + 1"] Cons.prems d(1)
    by (simp add: rsplit_once_last parse_unsigned_nat_text)
qed simp

text \<open>
   Every vocabulary file in the export's format loads, and as the vocabulary it was written from:
  one line per piece, the piece, a space and its number, whatever the pieces hold (spaces, carriage
  returns, marks, nothing at all) short of a newline.
\<close>

theorem written_vocabulary_loads:
  assumes "\<forall>p\<in>set ps. 10 \<notin> set p" and "2 \<le> length ps" and "length ps \<le> 2 ^ 64"
  shows "load_vocab (write_lines 0 ps) =
    Inr \<lparr>pieces = ps, splice_safe = map (\<lambda>p. starts_word p \<or> is_punctuation_piece p) ps\<rparr>"
  using load_lines_write[of ps "[]" 1] assms by (simp add: load_vocab_def from_pieces_def)

lemma written_vocabulary_loads_witness:
  "pieces (projr (load_vocab (write_lines 0 [[9601, 97], [32], [46, 13]]))) = [[9601, 97], [32], [46, 13]]"
  by (subst written_vocabulary_loads) simp_all

section \<open>Joining loses no text\<close>

text \<open>
   Joining pieces into words loses no text and makes none up: the words one after another are the
  pieces one after another, each without its boundary marker and the white space around it, whichever
  pieces glue and wherever a word starts; and no word is empty.
\<close>

theorem words_keep_the_text:
  "concat (map word_text (aggregate_words alphanumeric control ps)) =
     concat (map (\<lambda>p. trim (strip_boundary (word_text p))) ps) \<and>
   [] \<notin> word_text ` set (aggregate_words alphanumeric control ps)"
proof -
  have "(case current of Some w \<Rightarrow> word_text w \<noteq> [] | None \<Rightarrow> True) \<Longrightarrow>
    concat (map word_text (words_from alphanumeric control current confidences pending ps)) =
      (case current of Some w \<Rightarrow> word_text w | None \<Rightarrow> []) @
      concat (map (\<lambda>p. trim (strip_boundary (word_text p))) ps) \<and>
    list_all (\<lambda>w. word_text w \<noteq> []) (words_from alphanumeric control current confidences pending ps)"
    for current confidences pending
    by (induction alphanumeric control current confidences pending ps rule: words_from.induct)
      (auto simp: flush_word_def Let_def split: option.splits if_splits)
  from this[of None "[]" True] show ?thesis by (auto simp: aggregate_words_def list_all_iff)
qed

section \<open>Segments are cut where they must be\<close>

text \<open>The words of one segment: no word in it would have been cut off from those before it.\<close>

definition kept_together :: "segmenter \<Rightarrow> timed_word list \<Rightarrow> bool" where
  "kept_together g ws \<longleftrightarrow>
     list_all (\<lambda>i. word_start (ws ! i) - word_end (ws ! (i - 1)) \<le> split_gap_seconds g \<and>
         \<not> ends_sentence (ws ! (i - 1)) \<and>
         word_end (ws ! i) - word_start (hd ws) \<le> max_segment_seconds g) [1..<length ws]"

fun cut_between :: "segmenter \<Rightarrow> timed_word list list \<Rightarrow> bool" where
  "cut_between g (a # b # cs) \<longleftrightarrow> cut_before g a (hd b) \<and> cut_between g (b # cs)"
| "cut_between g _ \<longleftrightarrow> True"

lemma kept_together_snoc:
  assumes "kept_together g ws" and "\<not> cut_before g ws w"
  shows "kept_together g (ws @ [w])"
proof (cases "ws = []")
  case False
  have same: "(ws @ [w]) ! i = ws ! i" "(ws @ [w]) ! (i - 1) = ws ! (i - 1)" if "i \<in> set [1..<length ws]" for i
    using that by (auto simp: nth_append)
  have "[1..<length (ws @ [w])] = [1..<length ws] @ [length ws]"
    using False by (cases ws) simp_all
  moreover have "(ws @ [w]) ! length ws = w" "(ws @ [w]) ! (length ws - 1) = last ws" "hd (ws @ [w]) = hd ws"
    using False by (simp_all add: nth_append last_conv_nth)
  ultimately show ?thesis using assms False same
    unfolding kept_together_def cut_before_def by (auto simp: list_all_iff)
qed (simp add: kept_together_def)

fun segment_groups :: "segmenter \<Rightarrow> timed_word list \<Rightarrow> timed_word list \<Rightarrow> timed_word list list" where
  "segment_groups g current [] = (if current = [] then [] else [current])"
| "segment_groups g current (w # ws) =
     (if word_text w = [] then segment_groups g current ws
      else if cut_before g current w then current # segment_groups g [w] ws
      else segment_groups g (current @ [w]) ws)"

lemma segments_of_groups: "segments_from g current ws = concat (map flush_segment (segment_groups g current ws))"
  by (induction g current ws rule: segments_from.induct) (simp_all add: flush_segment_def)

lemma segment_groups_words:
  "concat (segment_groups g current ws) = current @ filter (\<lambda>w. word_text w \<noteq> []) ws"
  by (induction g current ws rule: segment_groups.induct) simp_all

lemma segment_groups_first:
  "current \<noteq> [] \<Longrightarrow> \<exists>more rest. segment_groups g current ws = (current @ more) # rest"
  by (induction g current ws rule: segment_groups.induct) auto

lemma segment_groups_kept:
  "kept_together g current \<Longrightarrow>
    list_all (\<lambda>gr. gr \<noteq> [] \<and> kept_together g gr) (segment_groups g current ws) \<and>
    cut_between g (segment_groups g current ws)"
proof (induction g current ws rule: segment_groups.induct)
  case (2 g current w ws)
  have one: "kept_together g [w]" by (simp add: kept_together_def)
  obtain more rest where first: "segment_groups g [w] ws = (w # more) # rest"
    using segment_groups_first[of "[w]"] by fastforce
  consider "word_text w = []" | "word_text w \<noteq> []" "cut_before g current w" | "word_text w \<noteq> []" "\<not> cut_before g current w"
    by blast
  then show ?case
  proof cases
    case 2
    then have "current \<noteq> []" by (simp add: cut_before_def)
    then show ?thesis using "2.IH"(2)[OF 2 one] "2.prems" 2 first by simp
  next
    case 3
    then show ?thesis using "2.IH"(3)[OF 3] kept_together_snoc[OF "2.prems"] by simp
  qed (use "2.IH" "2.prems" in simp)
qed simp

text \<open>
  C38: A transcript's segments hold its words, each once and in order, and are cut only where they must
  be: the words (the empty ones left out) fall into groups, one per segment; within a group no pause is
  over the limit, no word but the last ends a sentence and no word ends later than the longest segment
  after its first; and where one group follows another, one of the three cut them apart.
\<close>

theorem segments_are_cut_where_they_must:
  "\<exists>groups. segments g ws = concat (map flush_segment groups) \<and>
     concat groups = filter (\<lambda>w. word_text w \<noteq> []) ws \<and>
     list_all (\<lambda>gr. gr \<noteq> [] \<and> kept_together g gr) groups \<and> cut_between g groups"
  using segments_of_groups[of g "[]" ws] segment_groups_words[of g "[]" ws]
    segment_groups_kept[of g "[]" ws]
  by (intro exI[of _ "segment_groups g [] ws"]) (simp add: segments_def kept_together_def)

end
