(* ===== verification/Delivery_Ledger.thy ===== *)
theory Delivery_Ledger
  imports Ordered_Map Decimal_Text Utf8_Text "HOL-Library.List_Lexorder"
begin

text \<open>
  \<open>steno-adapters/src/runtime/ledger.rs\<close>: the delivery policy with no I/O in it: which receipt
  applies, which paths may be written, what was written and the receipt of it. Paths are text, taken
  apart as Rust's \<open>Path::components\<close> does on Unix (no drive prefixes). The hash is an argument.
\<close>

section \<open>Paths\<close>

datatype component = RootDir | CurDir | ParentDir | Normal ustring

definition components :: "ustring \<Rightarrow> component list" where
  "components path =
     (let ps = split_at_char 47 path
      in (if starts_with [47] path then [RootDir] else if hd ps = [46] then [CurDir] else []) @
         map (\<lambda>p. if p = [46, 46] then ParentDir else Normal p) (filter (\<lambda>p. p \<noteq> [] \<and> p \<noteq> [46]) ps))"

definition is_normal :: "component \<Rightarrow> bool" where
  "is_normal c = (case c of Normal _ \<Rightarrow> True | _ \<Rightarrow> False)"

definition is_plain_relative :: "ustring \<Rightarrow> bool" where
  "is_plain_relative path \<longleftrightarrow> components path \<noteq> [] \<and> list_all is_normal (components path)"

definition standardized :: "ustring \<Rightarrow> component list" where
  "standardized path =
     foldl (\<lambda>result c.
         case c of
           CurDir \<Rightarrow> result
         | ParentDir \<Rightarrow>
             if result = [] then [c]
             else (case last result of
                     Normal _ \<Rightarrow> butlast result
                   | RootDir \<Rightarrow> result
                   | _ \<Rightarrow> result @ [c])
         | _ \<Rightarrow> result @ [c]) [] (components path)"

definition same_root :: "ustring \<Rightarrow> ustring \<Rightarrow> bool" where
  "same_root left right \<longleftrightarrow> standardized left = standardized right"

section \<open>The ledger\<close>

datatype file_ownership = Owned | ManagedBlock

record delivered_file =
  relative_path :: ustring
  ownership :: file_ownership
  file_hash :: bytes

record delivery_receipt =
  receipt_root :: ustring
  receipt_folder :: ustring
  receipt_files :: "delivered_file list"
  renderer_version :: int
  receipt_warnings :: "ustring list"

record delivery_ledger =
  ledger_root :: ustring
  previous :: "delivery_receipt option"
  claimed :: "ustring option"
  ledger_files :: "(ustring, delivered_file) btree"
  ledger_warnings :: "ustring list"

definition stays_inside_root :: "delivery_receipt \<Rightarrow> bool" where
  "stays_inside_root r \<longleftrightarrow>
     is_plain_relative (receipt_folder r) \<and> list_all (\<lambda>f. is_plain_relative (relative_path f)) (receipt_files r)"

definition new_ledger :: "delivery_receipt option \<Rightarrow> ustring \<Rightarrow> (ustring \<Rightarrow> bool) \<Rightarrow> delivery_ledger" where
  "new_ledger given vault is_root =
     (let applies =
            (case given of
               None \<Rightarrow> None
             | Some r \<Rightarrow>
                 if (same_root (receipt_root r) vault \<or> is_root (receipt_root r)) \<and> stays_inside_root r
                 then Some r else None)
      in \<lparr>ledger_root = vault, previous = applies, claimed = None,
          ledger_files =
            fold (\<lambda>f. bt_insert (relative_path f) f)
              (case applies of None \<Rightarrow> [] | Some r \<Rightarrow> receipt_files r) [],
          ledger_warnings = []\<rparr>)"

definition is_first_delivery :: "delivery_ledger \<Rightarrow> bool" where
  "is_first_delivery l \<longleftrightarrow> previous l = None"

definition pinned_folder :: "delivery_ledger \<Rightarrow> ustring option" where
  "pinned_folder l = map_option receipt_folder (previous l)"

definition previous_files :: "delivery_ledger \<Rightarrow> delivered_file list" where
  "previous_files l = (case previous l of None \<Rightarrow> [] | Some r \<Rightarrow> receipt_files r)"

definition name_in :: "ustring \<Rightarrow> ustring \<Rightarrow> ustring option" where
  "name_in path folder =
     Option.bind (strip_prefix folder path) (\<lambda>rest.
     Option.bind (strip_prefix [47] rest) (\<lambda>name.
     if 47 \<in> set name then None else Some name))"

definition delivered_hash :: "delivery_ledger \<Rightarrow> ustring \<Rightarrow> bytes option" where
  "delivered_hash l path =
     map_option file_hash (find (\<lambda>f. ownership f = Owned \<and> relative_path f = path) (previous_files l))"

definition may_write :: "delivery_ledger \<Rightarrow> ustring \<Rightarrow> bool \<Rightarrow> bool" where
  "may_write l path exists \<longleftrightarrow>
     is_first_delivery l \<or> \<not> exists \<or>
     (case claimed l of None \<Rightarrow> False | Some folder \<Rightarrow> name_in path folder \<noteq> None) \<or>
     delivered_hash l path \<noteq> None"

definition move_folder :: "ustring \<Rightarrow> ustring \<Rightarrow> delivery_ledger \<Rightarrow> delivery_ledger" where
  "move_folder from to l =
     (let prefix = rev (dropWhile (\<lambda>c. c = 47) (rev from)) @ [47]
      in l\<lparr>ledger_files := bt_retain (\<lambda>path _. \<not> starts_with prefix path) (ledger_files l), claimed := Some to\<rparr>)"

definition forget :: "ustring \<Rightarrow> delivery_ledger \<Rightarrow> delivery_ledger" where
  "forget path l = l\<lparr>ledger_files := bt_remove path (ledger_files l)\<rparr>"

definition record_file ::
  "(bytes \<Rightarrow> bytes) \<Rightarrow> ustring \<Rightarrow> file_ownership \<Rightarrow> bytes \<Rightarrow> delivery_ledger \<Rightarrow> delivery_ledger"
where
  "record_file digest path o' data l =
     l\<lparr>ledger_files := bt_insert path \<lparr>relative_path = path, ownership = o', file_hash = digest data\<rparr> (ledger_files l)\<rparr>"

definition stale_managed_pages :: "delivery_ledger \<Rightarrow> ustring list \<Rightarrow> ustring list" where
  "stale_managed_pages l rendered =
     map relative_path
       (filter (\<lambda>f. relative_path f \<notin> set rendered) (filter (\<lambda>f. ownership f = ManagedBlock) (previous_files l)))"

definition lists :: "delivery_ledger \<Rightarrow> ustring \<Rightarrow> (ustring \<Rightarrow> bool) \<Rightarrow> bool" where
  "lists l folder p \<longleftrightarrow>
     list_ex (\<lambda>path. case name_in path folder of None \<Rightarrow> False | Some name \<Rightarrow> p name) (map fst (ledger_files l))"

definition receipt :: "ustring \<Rightarrow> int \<Rightarrow> delivery_ledger \<Rightarrow> delivery_receipt" where
  "receipt folder version l =
     \<lparr>receipt_root = ledger_root l, receipt_folder = folder, receipt_files = map snd (ledger_files l),
      renderer_version = version, receipt_warnings = ledger_warnings l\<rparr>"

definition keep :: "(bytes \<Rightarrow> bytes) \<Rightarrow> ustring \<Rightarrow> bytes \<Rightarrow> delivery_ledger \<Rightarrow> delivery_ledger" where
  "keep digest path data l =
     (if \<not> may_write l path True then l
      else case bt_get (ledger_files l) path of
             Some _ \<Rightarrow> l
           | None \<Rightarrow> record_file digest path Owned data l)"

definition warn :: "ustring \<Rightarrow> delivery_ledger \<Rightarrow> delivery_ledger" where
  "warn w l = l\<lparr>ledger_warnings := ledger_warnings l @ [w]\<rparr>"

section \<open>Copies beside an edited note\<close>

definition split_extension :: "ustring \<Rightarrow> ustring \<times> ustring" where
  "split_extension path =
     (let name_start = (case rfind 47 path of None \<Rightarrow> 0 | Some i \<Rightarrow> i + 1)
      in case rfind 46 (drop name_start path) of
           Some dot \<Rightarrow>
             if dot > 0 then (take (name_start + dot) path, drop (name_start + dot) path) else (path, [])
         | None \<Rightarrow> (path, []))"

definition copy_open :: ustring where "copy_open = ascii '' (Steno ''"

definition copy_beside_path :: "ustring \<Rightarrow> ustring \<Rightarrow> nat \<Rightarrow> ustring" where
  "copy_beside_path path date number =
     (let (stem, extension) = split_extension path
      in if number = 1 then stem @ copy_open @ date @ [41] @ extension
         else stem @ copy_open @ date @ [32] @ nat_text number @ [41] @ extension)"

definition copy_stamp :: "ustring \<Rightarrow> ustring \<Rightarrow> (ustring \<times> nat) option" where
  "copy_stamp path copy =
     (let (stem, extension) = split_extension path
      in Option.bind (strip_prefix stem copy) (\<lambda>rest.
         Option.bind (strip_prefix copy_open rest) (\<lambda>rest.
         Option.bind (strip_suffix extension rest) (\<lambda>rest.
         Option.bind (strip_suffix [41] rest) (\<lambda>stamp.
         case split_once 32 stamp of
           Some (date, number) \<Rightarrow> map_option (\<lambda>n. (date, n)) (parse_unsigned 32 number)
         | None \<Rightarrow> Some (stamp, 1))))))"

definition wrote :: "delivery_ledger \<Rightarrow> ustring \<Rightarrow> bytes \<Rightarrow> bool" where
  "wrote l path hash \<longleftrightarrow>
     list_ex (\<lambda>f. ownership f = Owned \<and> file_hash f = hash \<and>
         (relative_path f = path \<or> copy_stamp path (relative_path f) \<noteq> None)) (previous_files l)"

text \<open>\<open>sort_by\<close> is stable; the newest stamp comes first.\<close>

fun insert_stamped :: "(ustring \<times> nat) \<times> ustring \<Rightarrow> ((ustring \<times> nat) \<times> ustring) list \<Rightarrow> ((ustring \<times> nat) \<times> ustring) list"
where
  "insert_stamped a [] = [a]"
| "insert_stamped a (b # bs) =
     (if fst (fst b) < fst (fst a) \<or> fst (fst b) = fst (fst a) \<and> snd (fst b) \<le> snd (fst a)
      then a # b # bs else b # insert_stamped a bs)"

definition listed_copies :: "delivery_ledger \<Rightarrow> ustring \<Rightarrow> ustring list" where
  "listed_copies l path =
     map snd (foldr insert_stamped
       (concat (map (\<lambda>f. case copy_stamp path (relative_path f) of None \<Rightarrow> [] | Some s \<Rightarrow> [(s, relative_path f)])
          (filter (\<lambda>f. ownership f = Owned) (previous_files l)))) [])"

section \<open>Claiming a folder\<close>

text \<open>
  The search over any state: \<open>claim\<close> creates a folder and says whether it is new, \<open>meeting_of\<close> reads
  whose it is. The first argument bounds the rounds; \<open>None\<close> when they run out.
\<close>

fun claim_folder_from ::
  "nat \<Rightarrow> ustring \<Rightarrow> uuid \<Rightarrow> (ustring \<Rightarrow> 's \<Rightarrow> ('e + bool) \<times> 's) \<Rightarrow> (ustring \<Rightarrow> 's \<Rightarrow> uuid option \<times> 's) \<Rightarrow>
    ustring \<Rightarrow> nat \<Rightarrow> 's \<Rightarrow> ('e + ustring) option \<times> 's"
where
  "claim_folder_from 0 base i claim meeting_of candidate suffix s = (None, s)"
| "claim_folder_from (Suc n) base i claim meeting_of candidate suffix s =
     (case claim candidate s of
        (Inl e, s) \<Rightarrow> (Some (Inl e), s)
      | (Inr True, s) \<Rightarrow> (Some (Inr candidate), s)
      | (Inr False, s) \<Rightarrow>
          (case meeting_of candidate s of
             (m, s) \<Rightarrow>
               if m = Some i then (Some (Inr candidate), s)
               else claim_folder_from n base i claim meeting_of (base @ [45] @ nat_text suffix) (suffix + 1) s))"

section \<open>Facts\<close>

lemma previous_unchanged [simp]:
  "previous (move_folder from to l) = previous l" "previous (forget path l) = previous l"
  "previous (record_file digest path o' data l) = previous l" "previous (keep digest path data l) = previous l"
  "previous (warn w l) = previous l"
  by (simp_all add: move_folder_def forget_def record_file_def keep_def warn_def Let_def split: option.splits)

lemma split_extension_append: "split_extension path = (stem, ext) \<Longrightarrow> path = stem @ ext"
  by (auto simp: split_extension_def Let_def split: option.splits if_splits)

text \<open>
   A copy beside an edited note is found again: the name a copy is given for a date and a number
  reads back as that date and that number, whatever the note is called (dots, slashes, spaces,
  parentheses, another copy's name).
\<close>

theorem copy_names_read_back:
  assumes "32 \<notin> set date" and "1 \<le> number" and "number < 2 ^ 32"
  shows "copy_stamp path (copy_beside_path path date number) = Some (date, number)"
proof -
  obtain stem ext where s: "split_extension path = (stem, ext)" by (cases "split_extension path")
  show ?thesis
  proof (cases "number = 1")
    case True
    have "strip_suffix ext (date @ [41] @ ext) = Some (date @ [41])"
      using strip_suffix_append[of ext "date @ [41]"] by simp
    then show ?thesis using True assms(1)
      by (simp add: copy_stamp_def copy_beside_path_def s split_once_None[THEN iffD2])
  next
    case False
    have "strip_suffix ext (date @ [32] @ nat_text number @ [41] @ ext) = Some (date @ [32] @ nat_text number @ [41])"
      using strip_suffix_append[of ext "date @ [32] @ nat_text number @ [41]"] by simp
    moreover have "strip_suffix [41] (date @ [32] @ nat_text number @ [41]) = Some (date @ [32] @ nat_text number)"
      using strip_suffix_append[of "[41]" "date @ [32] @ nat_text number"] by simp
    ultimately show ?thesis using False assms
      by (simp add: copy_stamp_def copy_beside_path_def s split_once_first parse_unsigned_nat_text)
  qed
qed

lemma copy_names_read_back_witness:
  "copy_stamp (ascii ''Meetings/a.b/note (Steno 2026-01-02).md'')
     (copy_beside_path (ascii ''Meetings/a.b/note (Steno 2026-01-02).md'') (ascii ''2026-09-24'') 3) =
   Some (ascii ''2026-09-24'', 3)"
  by (rule copy_names_read_back) (simp_all add: ascii_def)

lemma claim_names_differ: "m \<noteq> n \<Longrightarrow> base @ [45] @ nat_text m \<noteq> base @ [45] @ nat_text n"
  by simp

end
