(* ===== verification/Vault_Files.thy ===== *)
theory Vault_Files
  imports Delivery_Ledger "HOL-Library.AList"
begin

text \<open>
  \<open>steno-adapters/src/fs/sink.rs\<close> and \<open>fs/atomic.rs\<close>: the files under a vault as the destination sees
  them. A place is the list of names from the root; under it is a directory, a file with its bytes or a
  link to nothing. The disk tells upper from lower case, and links other than dangling ones count as
  what they point to. Every operation that can fail takes the next of a list of faults, so a theorem
  over all lists covers every failure at every operation; with an empty list nothing fails on its own.
\<close>

section \<open>The disk\<close>

datatype vault_entry = Directory | Regular bytes | Dangling

type_synonym place = "ustring list"

record vault =
  entries :: "(place \<times> vault_entry) list"
  faults :: "bool list"

datatype io_error = AlreadyExists | IoFailed

definition resolve :: "ustring \<Rightarrow> place" where
  "resolve path = concat (map (\<lambda>c. case c of Normal n \<Rightarrow> [n] | _ \<Rightarrow> []) (components path))"

definition at_place :: "'a vault_scheme \<Rightarrow> place \<Rightarrow> vault_entry option" where
  "at_place v k = map_of (entries v) k"

definition entry_at :: "'a vault_scheme \<Rightarrow> ustring \<Rightarrow> vault_entry option" where
  "entry_at v path = at_place v (resolve path)"

definition strike :: "'a vault_scheme \<Rightarrow> bool \<times> 'a vault_scheme" where
  "strike v = (case faults v of [] \<Rightarrow> (False, v) | f # fs \<Rightarrow> (f, v\<lparr>faults := fs\<rparr>))"

definition put_entry :: "place \<Rightarrow> vault_entry \<Rightarrow> 'a vault_scheme \<Rightarrow> 'a vault_scheme" where
  "put_entry k e v = v\<lparr>entries := AList.update k e (entries v)\<rparr>"

definition drop_entry :: "place \<Rightarrow> 'a vault_scheme \<Rightarrow> 'a vault_scheme" where
  "drop_entry k v = v\<lparr>entries := AList.delete k (entries v)\<rparr>"

section \<open>The sink\<close>

definition entry_exists :: "'a vault_scheme \<Rightarrow> ustring \<Rightarrow> bool" where
  "entry_exists v path \<longleftrightarrow> entry_at v path \<noteq> None"

definition sink_exists :: "'a vault_scheme \<Rightarrow> ustring \<Rightarrow> bool" where
  "sink_exists v path \<longleftrightarrow> (case entry_at v path of None \<Rightarrow> False | Some e \<Rightarrow> e \<noteq> Dangling)"

definition is_directory :: "'a vault_scheme \<Rightarrow> ustring \<Rightarrow> bool" where
  "is_directory v path \<longleftrightarrow> entry_at v path = Some Directory"

definition inside_place :: "place \<Rightarrow> place \<Rightarrow> bool" where
  "inside_place folder k \<longleftrightarrow> k \<noteq> [] \<and> butlast k = folder"

definition file_names :: "'a vault_scheme \<Rightarrow> ustring \<Rightarrow> ustring list" where
  "file_names v path =
     (if is_directory v path then map last (filter (inside_place (resolve path)) (map fst (entries v))) else [])"

definition sink_read :: "ustring \<Rightarrow> 'a vault_scheme \<Rightarrow> (io_error + bytes option) \<times> 'a vault_scheme" where
  "sink_read path v =
     (let (fault, v) = strike v
      in if fault then (Inl IoFailed, v)
         else (case entry_at v path of
                 None \<Rightarrow> (Inr None, v)
               | Some Dangling \<Rightarrow> (Inr None, v)
               | Some Directory \<Rightarrow> (Inl IoFailed, v)
               | Some (Regular b) \<Rightarrow> (Inr (Some b), v)))"

text \<open>
  \<open>AtomicFileWriter::write\<close> on Unix: the bytes go to a temporary file that is renamed over the target,
  so a failure leaves the target as it was. The temporary, whose name nothing else has, is left out.
\<close>

definition sink_write :: "bytes \<Rightarrow> ustring \<Rightarrow> 'a vault_scheme \<Rightarrow> (io_error + unit) \<times> 'a vault_scheme" where
  "sink_write data path v =
     (let (fault, v) = strike v; k = resolve path
      in if fault \<or> k = [] \<or> at_place v (butlast k) \<noteq> Some Directory \<or> at_place v k = Some Directory
         then (Inl IoFailed, v)
         else (Inr (), put_entry k (Regular data) v))"

fun make_directories :: "place list \<Rightarrow> 'a vault_scheme \<Rightarrow> (io_error + unit) \<times> 'a vault_scheme" where
  "make_directories [] v = (Inr (), v)"
| "make_directories (k # ks) v =
     (case at_place v k of
        Some Directory \<Rightarrow> make_directories ks v
      | Some _ \<Rightarrow> (Inl IoFailed, v)
      | None \<Rightarrow>
          (let (fault, v) = strike v
           in if fault then (Inl IoFailed, v) else make_directories ks (put_entry k Directory v)))"

definition create_directory :: "ustring \<Rightarrow> 'a vault_scheme \<Rightarrow> (io_error + unit) \<times> 'a vault_scheme" where
  "create_directory path = make_directories (map (\<lambda>n. take (n + 1) (resolve path)) [0..<length (resolve path)])"

definition create_new_directory :: "ustring \<Rightarrow> 'a vault_scheme \<Rightarrow> (io_error + unit) \<times> 'a vault_scheme" where
  "create_new_directory path v =
     (let (fault, v) = strike v; k = resolve path
      in if fault then (Inl IoFailed, v)
         else if at_place v k \<noteq> None then (Inl AlreadyExists, v)
         else if k = [] \<or> at_place v (butlast k) \<noteq> Some Directory then (Inl IoFailed, v)
         else (Inr (), put_entry k Directory v))"

text \<open>\<open>fs::remove_dir\<close>, whose result nobody reads: an empty directory goes.\<close>

definition remove_directory :: "ustring \<Rightarrow> 'a vault_scheme \<Rightarrow> 'a vault_scheme" where
  "remove_directory path v =
     (let (fault, v) = strike v; k = resolve path
      in if fault \<or> at_place v k \<noteq> Some Directory \<or> list_ex (inside_place k) (map fst (entries v)) then v
         else drop_entry k v)"

definition temporary_prefix :: ustring where "temporary_prefix = ascii ''.steno-tmp-''"

definition is_temporary :: "place \<Rightarrow> bool" where
  "is_temporary k \<longleftrightarrow> k \<noteq> [] \<and> starts_with temporary_prefix (last k)"

fun remove_files :: "place list \<Rightarrow> 'a vault_scheme \<Rightarrow> 'a vault_scheme" where
  "remove_files [] v = v"
| "remove_files (k # ks) v =
     (let (fault, v) = strike v
      in remove_files ks (if fault \<or> at_place v k = Some Directory then v else drop_entry k v))"

definition remove_stale_temporaries :: "ustring \<Rightarrow> 'a vault_scheme \<Rightarrow> 'a vault_scheme" where
  "remove_stale_temporaries path v =
     (let (fault, v) = strike v
      in if fault then v
         else remove_files (filter (\<lambda>k. inside_place (resolve path) k \<and> is_temporary k) (map fst (entries v))) v)"

definition same_file :: "'a vault_scheme \<Rightarrow> ustring \<Rightarrow> ustring \<Rightarrow> bool" where
  "same_file v left right \<longleftrightarrow> sink_exists v left \<and> resolve left = resolve right"

section \<open>What the operations leave alone\<close>

text \<open>\<open>untouched safe v v'\<close>: every file whose loss is not \<open>safe\<close> still has its bytes.\<close>

definition untouched :: "(place \<Rightarrow> bytes \<Rightarrow> bool) \<Rightarrow> 'a vault_scheme \<Rightarrow> 'b vault_scheme \<Rightarrow> bool" where
  "untouched safe v v' \<longleftrightarrow>
     (\<forall>k b. at_place v k = Some (Regular b) \<and> \<not> safe k b \<longrightarrow> at_place v' k = Some (Regular b))"

lemma untouched_refl [simp]: "untouched safe v v"
  by (simp add: untouched_def)

lemma untouched_trans: "untouched safe u v \<Longrightarrow> untouched safe v w \<Longrightarrow> untouched safe u w"
  by (simp add: untouched_def)

lemma strike_entries [simp]: "entries (snd (strike v)) = entries v" "at_place (snd (strike v)) = at_place v"
  "entry_at (snd (strike v)) = entry_at v"
  by (auto simp: strike_def at_place_def entry_at_def fun_eq_iff split: list.splits)

lemma strike_same: "strike v = (f, w) \<Longrightarrow> entries w = entries v \<and> at_place w = at_place v \<and> entry_at w = entry_at v"
  by (metis snd_conv strike_entries)

lemma strike_more [simp]: "vault.more (snd (strike v)) = vault.more v"
  by (auto simp: strike_def split: list.splits)

lemma at_put [simp]: "at_place (put_entry k e v) j = (if j = k then Some e else at_place v j)"
  by (simp add: at_place_def put_entry_def update_conv')

lemma at_drop [simp]: "at_place (drop_entry k v) j = (if j = k then None else at_place v j)"
  by (simp add: at_place_def drop_entry_def delete_conv')

lemma more_put [simp]: "vault.more (put_entry k e v) = vault.more v" "vault.more (drop_entry k v) = vault.more v"
  by (simp_all add: put_entry_def drop_entry_def)

lemma read_keeps: "untouched safe v (snd (sink_read path v))"
  by (auto simp: sink_read_def Let_def untouched_def split: prod.splits option.splits vault_entry.splits)
    (metis snd_conv strike_entries(2))+

lemma write_keeps:
  "(\<And>b. at_place v (resolve path) = Some (Regular b) \<Longrightarrow> b \<noteq> data \<Longrightarrow> safe (resolve path) b) \<Longrightarrow>
    untouched safe v (snd (sink_write data path v))"
  by (cases "strike v") (auto simp: sink_write_def Let_def untouched_def, (metis snd_conv strike_entries(2))+)

lemma strike_keeps [simp]: "untouched safe (snd (strike v)) w \<longleftrightarrow> untouched safe v w"
  by (simp add: untouched_def)

lemma make_directories_keeps: "untouched safe v (snd (make_directories ks v))"
proof (induction ks v rule: make_directories.induct)
  case (2 k ks v)
  show ?case
  proof (cases "at_place v k")
    case None
    obtain f w where st: "strike v = (f, w)" by (cases "strike v")
    then have same: "at_place w = at_place v" by (metis snd_conv strike_entries(2))
    have "untouched safe v (put_entry k Directory w)" using None same by (auto simp: untouched_def)
    moreover have "untouched safe (put_entry k Directory w) (snd (make_directories ks (put_entry k Directory w)))"
      if "\<not> f" using "2.IH"(1)[OF None st[symmetric] refl that] by simp
    ultimately show ?thesis using None st same by (auto simp: untouched_def)
  next
    case (Some e)
    then show ?thesis using "2.IH"(2)[OF Some] by (cases e) simp_all
  qed
qed simp

lemma create_directory_keeps: "untouched safe v (snd (create_directory path v))"
  by (simp add: create_directory_def make_directories_keeps)

lemma create_new_directory_keeps: "untouched safe v (snd (create_new_directory path v))"
  by (cases "strike v")
    (auto simp: create_new_directory_def Let_def untouched_def, (metis snd_conv strike_entries(2) option.distinct(1))+)

lemma remove_directory_keeps: "untouched safe v (remove_directory path v)"
  by (cases "strike v")
    (auto simp: remove_directory_def Let_def untouched_def,
      (metis snd_conv strike_entries(2) option.inject vault_entry.distinct(1))+)

lemma remove_files_keeps:
  "(\<And>k b. k \<in> set ks \<Longrightarrow> safe k b) \<Longrightarrow> untouched safe v (remove_files ks v)"
proof (induction ks v rule: remove_files.induct)
  case (2 k ks v)
  obtain f w where st: "strike v = (f, w)" by (cases "strike v")
  then have same: "at_place w = at_place v" by (metis snd_conv strike_entries(2))
  let ?w = "if f \<or> at_place w k = Some Directory then w else drop_entry k w"
  have "untouched safe v ?w" using "2.prems" same by (auto simp: untouched_def)
  moreover have "untouched safe ?w (remove_files ks ?w)" using "2.IH"[OF st[symmetric] refl] "2.prems" by simp
  ultimately show ?case using st by (auto simp: Let_def intro: untouched_trans)
qed simp

lemma remove_stale_temporaries_keeps:
  "(\<And>k b. is_temporary k \<Longrightarrow> safe k b) \<Longrightarrow> untouched safe v (remove_stale_temporaries path v)"
proof -
  assume safe: "\<And>k b. is_temporary k \<Longrightarrow> safe k b"
  obtain f w where st: "strike v = (f, w)" by (cases "strike v")
  then have same: "at_place w = at_place v" by (metis snd_conv strike_entries(2))
  have "untouched safe w (remove_files ks w)" if "\<forall>k\<in>set ks. is_temporary k" for ks
    using remove_files_keeps[of ks safe w] that safe by blast
  then show ?thesis using st same unfolding remove_stale_temporaries_def by (simp add: untouched_def)
qed

lemma more_kept [simp]:
  "vault.more (snd (sink_read path v)) = vault.more v"
  "vault.more (snd (sink_write data path v)) = vault.more v"
  "vault.more (snd (create_directory path v)) = vault.more v"
  "vault.more (snd (create_new_directory path v)) = vault.more v"
  "vault.more (remove_directory path v) = vault.more v"
  "vault.more (remove_stale_temporaries path v) = vault.more v"
proof -
  have st: "strike v = (f, w) \<Longrightarrow> vault.more w = vault.more v" for f w and v :: "'a vault_scheme"
    using strike_more[of v] by simp
  have dirs: "vault.more (snd (make_directories ks v)) = vault.more v" for ks
    by (induction ks v rule: make_directories.induct)
      (auto simp: st Let_def split: option.splits vault_entry.splits prod.splits)
  have files: "vault.more (remove_files ks v) = vault.more v" for ks and v :: "'a vault_scheme"
    by (induction ks v rule: remove_files.induct) (auto simp: st Let_def split: prod.splits)
  show "vault.more (snd (sink_read path v)) = vault.more v"
    "vault.more (snd (sink_write data path v)) = vault.more v"
    "vault.more (snd (create_directory path v)) = vault.more v"
    "vault.more (snd (create_new_directory path v)) = vault.more v"
    "vault.more (remove_directory path v) = vault.more v"
    "vault.more (remove_stale_temporaries path v) = vault.more v"
    by (auto simp: sink_read_def sink_write_def create_directory_def create_new_directory_def dirs
        remove_directory_def remove_stale_temporaries_def files st Let_def
        split: prod.splits option.splits vault_entry.splits)
qed

text \<open>A read changes nothing on the disk, and a directory that is there cannot be made again.\<close>

lemma read_same [simp]: "at_place (snd (sink_read path v)) = at_place v" "entries (snd (sink_read path v)) = entries v"
  by (auto simp: sink_read_def Let_def dest!: strike_same split: prod.splits option.splits vault_entry.splits)

lemma create_new_result:
  "create_new_directory path v = (Inl AlreadyExists, w) \<Longrightarrow> at_place w = at_place v \<and> entries w = entries v \<and> entry_exists v path"
  "create_new_directory path v = (Inr u, w) \<Longrightarrow> \<not> entry_exists v path \<and> at_place w (resolve path) = Some Directory"
  by (auto simp: create_new_directory_def Let_def entry_exists_def entry_at_def dest!: strike_same
      split: prod.splits if_splits)

end
