(* ===== verification/Managed_Block.thy ===== *)
theory Managed_Block
  imports Steno_Prelude "HOL-Library.Multiset"
begin

text \<open>
  \<open>steno-adapters/src/rendering/managed_block.rs\<close>: the region of a person page that Steno owns. Text is
  the list of its characters; the code's byte offsets are offsets in that list. A meeting's identifier
  prints as \<open>uuid_text\<close> says, the uuid crate's text. \<open>sort_by\<close> is an insertion sort: its order is
  total, so every sort gives the same lines.
\<close>

section \<open>Searching\<close>

fun find_sub :: "'a list \<Rightarrow> 'a list \<Rightarrow> nat option" where
  "find_sub p [] = (if p = [] then Some 0 else None)"
| "find_sub p (x # xs) = (if starts_with p (x # xs) then Some 0 else map_option Suc (find_sub p xs))"

definition contains :: "'a list \<Rightarrow> 'a list \<Rightarrow> bool" where
  "contains p s \<longleftrightarrow> find_sub p s \<noteq> None"

section \<open>The block\<close>

definition start_marker :: ustring where "start_marker = ascii ''<!-- steno:meetings:start -->''"
definition end_marker :: ustring where "end_marker = ascii ''<!-- steno:meetings:end -->''"
definition managed_marker :: ustring where "managed_marker = ascii ''%%steno:''"

definition marker :: "(uuid \<Rightarrow> ustring) \<Rightarrow> uuid \<Rightarrow> ustring" where
  "marker uuid_text i = managed_marker @ uuid_text i @ ascii ''%%''"

definition block :: "ustring list \<Rightarrow> ustring" where
  "block ls = start_marker @ concat (map (\<lambda>l. 10 # l) ls) @ [10] @ end_marker @ [10]"

definition body_range :: "ustring \<Rightarrow> (nat \<times> nat) option" where
  "body_range s =
     (case find_sub start_marker s of
        None \<Rightarrow> None
      | Some i \<Rightarrow>
          let start = i + length start_marker
          in (case find_sub end_marker (drop start s) of
                None \<Rightarrow> None
              | Some j \<Rightarrow> Some (start, start + j)))"

definition is_managed :: "ustring \<Rightarrow> bool" where
  "is_managed l = contains managed_marker l"

definition is_blank :: "ustring \<Rightarrow> bool" where
  "is_blank l \<longleftrightarrow> trim_matches (\<lambda>c. c \<in> {32, 9, 13}) l = []"

definition date_of :: "ustring \<Rightarrow> ustring option" where
  "date_of l =
     (let rest = dropWhile (\<lambda>c. c \<in> {45, 32, 42}) l; candidate = take 10 rest
      in if length candidate = 10 \<and>
            list_all (\<lambda>i. if i = 4 \<or> i = 7 then candidate ! i = 45
                          else 48 \<le> candidate ! i \<and> candidate ! i \<le> 57) [0..<10]
         then Some candidate else None)"

text \<open>Rust compares strings character by character, a prefix first, and \<open>None\<close> before \<open>Some\<close>.\<close>

fun text_le :: "ustring \<Rightarrow> ustring \<Rightarrow> bool" where
  "text_le [] _ = True"
| "text_le (x # xs) [] = False"
| "text_le (x # xs) (y # ys) = (x < y \<or> x = y \<and> text_le xs ys)"

fun date_less :: "ustring option \<Rightarrow> ustring option \<Rightarrow> bool" where
  "date_less None (Some _) = True"
| "date_less (Some a) (Some b) = (a \<noteq> b \<and> text_le a b)"
| "date_less _ None = False"

definition newer :: "ustring \<Rightarrow> ustring \<Rightarrow> bool" where
  "newer l r \<longleftrightarrow> date_less (date_of r) (date_of l) \<or> date_of r = date_of l \<and> text_le l r"

fun insert_line :: "ustring \<Rightarrow> ustring list \<Rightarrow> ustring list" where
  "insert_line l [] = [l]"
| "insert_line l (r # rs) = (if newer l r then l # r # rs else r # insert_line l rs)"

definition sorted_newest_first :: "ustring list \<Rightarrow> ustring list" where
  "sorted_newest_first ls = foldr insert_line ls []"

section \<open>Merging and removing\<close>

text \<open>The loop's state: the kept lines, the managed ones, and where the first of those stood.\<close>

fun merge_line ::
  "ustring \<Rightarrow> ustring \<Rightarrow> ustring list \<times> ustring list \<times> nat option \<Rightarrow> ustring list \<times> ustring list \<times> nat option"
where
  "merge_line mark l (kept, managed, slot) =
     (if is_managed l
      then (kept, if contains mark l then managed else managed @ [l],
            case slot of None \<Rightarrow> Some (length kept) | Some n \<Rightarrow> Some n)
      else (kept @ [l], managed, slot))"

definition body_lines :: "ustring \<Rightarrow> ustring list" where
  "body_lines body = filter (\<lambda>l. \<not> is_blank l) (split_at_char 10 body)"

definition merge :: "(uuid \<Rightarrow> ustring) \<Rightarrow> ustring \<Rightarrow> uuid \<Rightarrow> ustring \<Rightarrow> ustring" where
  "merge uuid_text line i existing =
     (case body_range existing of
        None \<Rightarrow>
          existing @
          (if existing = [] then [] else (if last existing = 10 then [] else [10]) @ [10]) @
          block [line]
      | Some (start, till) \<Rightarrow>
          let (kept, managed, slot) =
                fold (merge_line (marker uuid_text i)) (body_lines (take (till - start) (drop start existing)))
                  ([], [], None);
              slot = (case slot of None \<Rightarrow> 0 | Some n \<Rightarrow> n)
          in take start existing @ [10] @
             join_with 10 (take slot kept @ sorted_newest_first (managed @ [line]) @ drop slot kept) @
             [10] @ drop till existing)"

definition remove_line :: "(uuid \<Rightarrow> ustring) \<Rightarrow> uuid \<Rightarrow> ustring \<Rightarrow> ustring" where
  "remove_line uuid_text i existing =
     (case body_range existing of
        None \<Rightarrow> existing
      | Some (start, till) \<Rightarrow>
          let mark = marker uuid_text i; body = take (till - start) (drop start existing)
          in if \<not> contains mark body then existing
             else take start existing @
                  join_with 10 (filter (\<lambda>l. \<not> contains mark l) (split_at_char 10 body)) @
                  drop till existing)"

section \<open>Finding\<close>

lemma find_sub_iff:
  "p \<noteq> [] \<Longrightarrow> find_sub p s = Some i \<longleftrightarrow> starts_with p (drop i s) \<and> (\<forall>j<i. \<not> starts_with p (drop j s))"
proof (induction s arbitrary: i)
  case (Cons x xs)
  then show ?case by (cases i) (auto simp: less_Suc_eq_0_disj)
qed simp

lemma find_sub_None: "p \<noteq> [] \<Longrightarrow> find_sub p s = None \<longleftrightarrow> (\<forall>j. \<not> starts_with p (drop j s))"
proof (induction s)
  case (Cons x xs)
  have "(\<forall>j. \<not> starts_with p (drop j (x # xs))) \<longleftrightarrow>
      \<not> starts_with p (x # xs) \<and> (\<forall>j. \<not> starts_with p (drop j xs))"
    by (metis drop0 drop_Suc_Cons not0_implies_Suc)
  then show ?case using Cons by auto
qed simp

lemma find_sub_Some: "p \<noteq> [] \<Longrightarrow> find_sub p s = Some i \<Longrightarrow> \<exists>rest. s = take i s @ p @ rest \<and> i + length p \<le> length s"
proof -
  assume p: "p \<noteq> []" and "find_sub p s = Some i"
  then obtain rest where rest: "drop i s = p @ rest" by (auto simp: find_sub_iff starts_with_append)
  then have "s = take i s @ p @ rest" by (metis append_take_drop_id)
  moreover have "length s - i = length p + length rest" using arg_cong[OF rest, of length] by simp
  then have "i + length p \<le> length s" using p by (cases p) simp_all
  ultimately show ?thesis by blast
qed

lemma contains_iff: "p \<noteq> [] \<Longrightarrow> contains p s \<longleftrightarrow> (\<exists>a b. s = a @ p @ b)"
proof
  assume "p \<noteq> []" "contains p s"
  then show "\<exists>a b. s = a @ p @ b" using find_sub_Some[of p s] unfolding contains_def by blast
next
  assume p: "p \<noteq> []" and "\<exists>a b. s = a @ p @ b"
  then obtain a b where s: "s = a @ p @ b" by blast
  have "starts_with p (drop (length a) s)" by (simp add: s starts_with_def)
  then show "contains p s" using find_sub_None[OF p] unfolding contains_def by blast
qed

text \<open>What comes after the first match does not move it.\<close>

lemma find_sub_first:
  assumes p: "p \<noteq> []" and found: "find_sub p s = Some i"
  shows "find_sub p (take (i + length p) s @ t) = Some i"
proof -
  have long: "i + length p \<le> length s" using find_sub_Some[OF assms] by blast
  have "starts_with p (drop j (take (i + length p) s @ t)) \<longleftrightarrow> starts_with p (drop j s)" if "j \<le> i" for j
  proof -
    have "take (length p) (drop j (take (i + length p) s @ t)) = take (length p) (take (i + length p - j) (drop j s))"
      using that long by (simp add: drop_take[symmetric])
    also have "\<dots> = take (length p) (drop j s)" using that by (simp add: min_absorb1)
    finally show ?thesis by (simp add: starts_with_def)
  qed
  then show ?thesis using found unfolding find_sub_iff[OF p] by simp
qed

text \<open>A pattern without a newline is found line by line.\<close>

lemma starts_with_in_line:
  assumes "c \<notin> set p" and "p \<noteq> []"
  shows "starts_with p (l @ c # rest) \<longleftrightarrow> starts_with p l"
proof (cases "length p \<le> length l")
  case False
  have "take (length p) (l @ c # rest) \<noteq> p"
  proof
    assume "take (length p) (l @ c # rest) = p"
    moreover have "c \<in> set (take (length p) (l @ c # rest))"
      using False by (cases "length p - length l") auto
    ultimately show False using assms(1) by simp
  qed
  moreover have "take (length p) l \<noteq> p" using False by (metis length_take min_def nat_le_linear)
  ultimately show ?thesis by (simp add: starts_with_def)
qed (simp add: starts_with_def)

lemma find_sub_line:
  assumes "c \<notin> set p" and "p \<noteq> []" and "find_sub p l = None"
  shows "find_sub p (l @ c # rest) = map_option (\<lambda>j. length l + 1 + j) (find_sub p rest)"
  using assms(3)
proof (induction l)
  case Nil
  have "\<not> starts_with p (c # rest)" using starts_with_in_line[OF assms(1,2), of "[]"] assms(2) by simp
  then show ?case by simp
next
  case (Cons x l)
  then have "\<not> starts_with p (x # l)" "find_sub p l = None" by (auto split: if_splits)
  moreover have "\<not> starts_with p ((x # l) @ c # rest)"
    using starts_with_in_line[OF assms(1,2)] calculation(1) by blast
  ultimately show ?case using Cons.IH by (cases "find_sub p rest") simp_all
qed

lemma find_sub_after_lines:
  assumes "c \<notin> set p" and "p \<noteq> []" and "\<forall>l\<in>set ls. find_sub p l = None"
  shows "find_sub p (concat (map (\<lambda>l. l @ [c]) ls) @ p @ rest) = Some (length (concat (map (\<lambda>l. l @ [c]) ls)))"
  using assms(3)
proof (induction ls)
  case Nil
  then show ?case using assms(2) by (simp add: find_sub_iff starts_with_def)
next
  case (Cons l ls)
  then show ?case using find_sub_line[OF assms(1,2), of l "concat (map (\<lambda>l. l @ [c]) ls) @ p @ rest"] by simp
qed

section \<open>Sorting\<close>

lemma text_le_refl [simp]: "text_le s s"
  by (induction s) auto

lemma text_le_antisym: "text_le s t \<Longrightarrow> text_le t s \<Longrightarrow> s = t"
proof (induction s arbitrary: t)
  case Nil
  then show ?case by (cases t) simp_all
next
  case (Cons x s)
  then show ?case by (cases t) auto
qed

lemma text_le_trans: "text_le s t \<Longrightarrow> text_le t u \<Longrightarrow> text_le s u"
proof (induction s t arbitrary: u rule: text_le.induct)
  case (3 x xs y ys)
  then show ?case by (cases u) auto
qed auto

lemma text_le_total: "text_le s t \<or> text_le t s"
  by (induction s t rule: text_le.induct) auto

lemma newer_refl [simp]: "newer l l"
  by (simp add: newer_def)

lemma date_less_trans: "date_less a b \<Longrightarrow> date_less b c \<Longrightarrow> date_less a c"
  by (cases a; cases b; cases c) (auto intro: text_le_trans dest: text_le_antisym)

lemma date_less_irrefl: "\<not> (date_less a b \<and> date_less b a)" "\<not> date_less a a"
  by (cases a; cases b; auto dest: text_le_antisym)+

lemma date_less_total: "date_less a b \<or> a = b \<or> date_less b a"
  using text_le_total by (cases a; cases b) auto

lemma newer_trans: "newer a b \<Longrightarrow> newer b c \<Longrightarrow> newer a c"
  unfolding newer_def using date_less_trans text_le_trans by metis

lemma newer_antisym: "newer a b \<Longrightarrow> newer b a \<Longrightarrow> a = b"
  unfolding newer_def using date_less_irrefl text_le_antisym by metis

lemma newer_total: "newer a b \<or> newer b a"
  unfolding newer_def using date_less_total text_le_total by metis

lemma mset_insert_line: "mset (insert_line l rs) = add_mset l (mset rs)"
  by (induction l rs rule: insert_line.induct) auto

lemma mset_sorted_newest_first [simp]: "mset (sorted_newest_first ls) = mset ls"
  by (induction ls) (simp_all add: sorted_newest_first_def mset_insert_line)

lemma set_sorted_newest_first [simp]: "set (sorted_newest_first ls) = set ls"
  using mset_sorted_newest_first[of ls] by (metis set_mset_mset)

lemma insert_line_sorted: "sorted_wrt newer rs \<Longrightarrow> sorted_wrt newer (insert_line l rs)"
proof (induction l rs rule: insert_line.induct)
  case (2 l r rs)
  have "set (insert_line l rs) = insert l (set rs)"
    using arg_cong[OF mset_insert_line[of l rs], of set_mset] by simp
  then show ?case using 2 newer_total[of l r] newer_trans[of l r] by auto
qed simp

lemma sorted_newest_first_sorted: "sorted_wrt newer (sorted_newest_first ls)"
  by (induction ls) (simp_all add: sorted_newest_first_def insert_line_sorted)

text \<open>The order is total, so lines have one sorted order.\<close>

lemma sorted_newer_unique:
  "sorted_wrt newer ls \<Longrightarrow> sorted_wrt newer rs \<Longrightarrow> mset ls = mset rs \<Longrightarrow> ls = rs"
proof (induction ls arbitrary: rs)
  case (Cons l ls)
  then obtain r rs' where rs: "rs = r # rs'" by (cases rs) auto
  have "r \<in> set (l # ls)" "l \<in> set rs" using Cons.prems(3) rs by (metis list.set_intros(1) set_mset_mset)+
  then have "newer l r" "newer r l" using Cons.prems(1,2) rs by (auto simp: newer_def)
  then have "l = r" by (rule newer_antisym)
  then show ?case using Cons rs by simp
qed simp

lemma sorted_newest_first_cong: "mset ls = mset rs \<Longrightarrow> sorted_newest_first ls = sorted_newest_first rs"
  by (rule sorted_newer_unique) (simp_all add: sorted_newest_first_sorted)

section \<open>What a merge keeps\<close>

definition body_of :: "ustring \<Rightarrow> ustring" where
  "body_of page = (case body_range page of None \<Rightarrow> [] | Some (start, till) \<Rightarrow> take (till - start) (drop start page))"

text \<open>A line a renderer gives: one line, this meeting's, without a marker of the block.\<close>

definition line_ok :: "(uuid \<Rightarrow> ustring) \<Rightarrow> uuid \<Rightarrow> ustring \<Rightarrow> bool" where
  "line_ok uuid_text i line \<longleftrightarrow>
     10 \<notin> set line \<and> contains (marker uuid_text i) line \<and> \<not> contains end_marker line"

lemma markers [simp]: "start_marker \<noteq> []" "end_marker \<noteq> []" "managed_marker \<noteq> []"
  "10 \<notin> set start_marker" "10 \<notin> set end_marker" "marker uuid_text i \<noteq> []"
  by (simp_all add: start_marker_def end_marker_def managed_marker_def marker_def ascii_def)

lemma contains_managed: "contains (marker uuid_text i) l \<Longrightarrow> is_managed l"
  unfolding is_managed_def contains_iff[OF markers(3)] contains_iff[OF markers(6)]
  by (metis append.assoc marker_def)

lemma managed_not_blank: "is_managed l \<Longrightarrow> \<not> is_blank l"
proof
  assume managed: "is_managed l" and blank: "is_blank l"
  obtain a b where l: "l = a @ managed_marker @ b"
    using managed unfolding is_managed_def contains_iff[OF markers(3)] by blast
  have trimmed: "trim_matches p s \<noteq> []" if "x \<in> set s" "\<not> p x" for p and x :: nat and s
  proof -
    have "x \<in> set (dropWhile p s)" using that by (metis UnE set_takeWhileD set_append takeWhile_dropWhile_id)
    then have "x \<in> set (dropWhile p (rev (dropWhile p s)))"
      using that(2) by (metis UnE set_takeWhileD set_append set_rev takeWhile_dropWhile_id)
    then have "x \<in> set (trim_matches p s)" by (simp only: trim_matches_def set_rev)
    then show ?thesis by (metis empty_iff list.set(1))
  qed
  have "115 \<in> set l" by (simp add: l managed_marker_def ascii_def)
  from trimmed[OF this] blank show False unfolding is_blank_def by simp
qed

lemma body_range_parts:
  assumes "body_range page = Some (start, till)"
  shows "\<exists>i. find_sub start_marker page = Some i \<and> start = i + length start_marker \<and>
      find_sub end_marker (drop start page) = Some (till - start) \<and> start \<le> till \<and>
      till + length end_marker \<le> length page"
proof -
  obtain i j where "find_sub start_marker page = Some i" "start = i + length start_marker"
    "find_sub end_marker (drop start page) = Some j" "till = start + j"
    using assms by (auto simp: body_range_def Let_def split: option.splits)
  note found = this
  have "j + length end_marker \<le> length page - start"
    using find_sub_Some[of end_marker "drop start page" j] found(3) by auto
  moreover have "0 < length end_marker" by simp
  ultimately have "start + j + length end_marker \<le> length page" by linarith
  with found show ?thesis by simp
qed

lemma body_of_range: "body_range page = Some (start, till) \<Longrightarrow> body_of page = take (till - start) (drop start page)"
  by (simp add: body_of_def)

text \<open>The page with another body: its block is found again, with that body.\<close>

lemma body_range_of_new_body:
  assumes range: "body_range page = Some (start, till)" and lines: "\<forall>l\<in>set ls. \<not> contains end_marker l"
  shows "body_range (take start page @ concat (map (\<lambda>l. l @ [10]) ls) @ drop till page) =
    Some (start, start + length (concat (map (\<lambda>l. l @ [10]) ls)))"
proof -
  let ?body = "concat (map (\<lambda>l. l @ [10]) ls)"
  obtain i where i: "find_sub start_marker page = Some i" "start = i + length start_marker"
    "find_sub end_marker (drop start page) = Some (till - start)" "start \<le> till"
    "till + length end_marker \<le> length page"
    using body_range_parts[OF range] by blast
  have "find_sub start_marker (take start page @ ?body @ drop till page) = Some i"
    using find_sub_first[OF markers(1) i(1)] unfolding i(2) .
  moreover have "starts_with end_marker (drop (till - start) (drop start page))"
    using i(3) by (simp add: find_sub_iff)
  then obtain rest where "drop till page = end_marker @ rest"
    using i(4) by (auto simp: starts_with_append)
  then have "find_sub end_marker (?body @ drop till page) = Some (length ?body)"
    using find_sub_after_lines[OF markers(5,2), of ls rest] lines by (simp add: contains_def)
  moreover have "drop start (take start page @ ?body @ drop till page) = ?body @ drop till page"
    using i(4,5) by simp
  ultimately show ?thesis by (simp add: body_range_def i(2) Let_def)
qed

lemma fold_merge_line:
  "fold (merge_line mark) ls (kept, managed, slot) =
     (kept @ filter (\<lambda>l. \<not> is_managed l) ls,
      managed @ filter (\<lambda>l. is_managed l \<and> \<not> contains mark l) ls,
      case slot of Some n \<Rightarrow> Some n
        | None \<Rightarrow> if list_ex is_managed ls
            then Some (length kept + length (takeWhile (\<lambda>l. \<not> is_managed l) ls)) else None)"
  by (induction ls arbitrary: kept managed slot) (auto split: option.splits)

text \<open>The lines of the block after a merge.\<close>

definition merged_lines :: "ustring \<Rightarrow> ustring \<Rightarrow> ustring list \<Rightarrow> ustring list" where
  "merged_lines mark line ls =
     (let kept = filter (\<lambda>l. \<not> is_managed l) ls;
          slot = (if list_ex is_managed ls then length (takeWhile (\<lambda>l. \<not> is_managed l) ls) else 0)
      in take slot kept @
         sorted_newest_first (filter (\<lambda>l. is_managed l \<and> \<not> contains mark l) ls @ [line]) @ drop slot kept)"

lemma merge_in_block:
  assumes "body_range page = Some (start, till)"
  shows "merge uuid_text line i page =
    take start page @ [10] @ join_with 10 (merged_lines (marker uuid_text i) line (body_lines (body_of page))) @
    [10] @ drop till page"
  using assms by (simp add: merge_def body_of_def fold_merge_line merged_lines_def Let_def)

lemma merged_lines_kept:
  "is_managed line \<Longrightarrow> filter (\<lambda>l. \<not> is_managed l) (merged_lines mark line ls) = filter (\<lambda>l. \<not> is_managed l) ls"
proof -
  assume line: "is_managed line"
  have "filter (\<lambda>l. \<not> is_managed l) (sorted_newest_first (filter (\<lambda>l. is_managed l \<and> \<not> contains mark l) ls @ [line])) = []"
    using line by (auto simp: filter_empty_conv)
  moreover have "filter (\<lambda>l. \<not> is_managed l) (take n (filter (\<lambda>l. \<not> is_managed l) ls)) = take n (filter (\<lambda>l. \<not> is_managed l) ls)"
    "filter (\<lambda>l. \<not> is_managed l) (drop n (filter (\<lambda>l. \<not> is_managed l) ls)) = drop n (filter (\<lambda>l. \<not> is_managed l) ls)" for n
    by (auto simp: filter_id_conv dest: in_set_takeD in_set_dropD)
  ultimately show ?thesis by (simp add: merged_lines_def Let_def)
qed

lemma merged_lines_managed:
  "is_managed line \<Longrightarrow> filter is_managed (merged_lines mark line ls) =
     sorted_newest_first (filter (\<lambda>l. is_managed l \<and> \<not> contains mark l) ls @ [line])"
proof -
  assume line: "is_managed line"
  have "filter is_managed (sorted_newest_first (filter (\<lambda>l. is_managed l \<and> \<not> contains mark l) ls @ [line])) =
      sorted_newest_first (filter (\<lambda>l. is_managed l \<and> \<not> contains mark l) ls @ [line])"
    using line by (auto simp: filter_id_conv)
  moreover have "filter is_managed (take n (filter (\<lambda>l. \<not> is_managed l) ls)) = []"
    "filter is_managed (drop n (filter (\<lambda>l. \<not> is_managed l) ls)) = []" for n
    by (auto simp: filter_empty_conv dest: in_set_takeD in_set_dropD)
  ultimately show ?thesis by (simp add: merged_lines_def Let_def)
qed

lemma join_with_lines: "ls \<noteq> [] \<Longrightarrow> join_with c ls @ [c] = concat (map (\<lambda>l. l @ [c]) ls)"
  by (induction c ls rule: join_with.induct) auto

lemma split_lines: "\<forall>l\<in>set ls. c \<notin> set l \<Longrightarrow> split_at_char c (concat (map (\<lambda>l. l @ [c]) ls)) = ls @ [[]]"
proof (induction ls)
  case (Cons l ls)
  have "c \<notin> set l \<Longrightarrow> split_at_char c (l @ c # rest) = l # split_at_char c rest" for rest
    by (induction l) auto
  then show ?case using Cons by simp
qed simp

lemma body_lines_of_lines:
  assumes "\<forall>l\<in>set ls. 10 \<notin> set l \<and> \<not> is_blank l"
  shows "body_lines (concat (map (\<lambda>l. l @ [10]) ([] # ls))) = ls"
proof -
  have "split_at_char 10 (concat (map (\<lambda>l. l @ [10]) ([] # ls))) = ([] # ls) @ [[]]"
    by (rule split_lines) (use assms in simp)
  then show ?thesis using assms by (simp add: body_lines_def is_blank_def filter_id_conv)
qed

lemma split_piece_infix: "l \<in> set (split_at_char c s) \<Longrightarrow> \<exists>a b. s = a @ l @ b"
proof (induction s arbitrary: l)
  case (Cons x xs)
  obtain p ps where ps: "split_at_char c xs = p # ps" by (cases "split_at_char c xs") auto
  consider "l = []" | "l \<in> set (split_at_char c xs)" | "l = x # p" using Cons.prems ps by (auto split: if_splits)
  then show ?case
  proof cases
    case 1
    then have "x # xs = [] @ l @ x # xs" by simp
    then show ?thesis by blast
  next
    case 2
    from Cons.IH[OF 2] obtain a b where "xs = a @ l @ b" by blast
    then have "x # xs = (x # a) @ l @ b" by simp
    then show ?thesis by blast
  next
    case 3
    have "xs = join_with c (p # ps)" using ps by (metis join_split)
    then have "\<exists>b. xs = p @ b" by (cases ps) auto
    then obtain b where "x # xs = [] @ l @ b" using 3 by auto
    then show ?thesis by blast
  qed
qed simp

lemma body_without_end: "\<not> contains end_marker (body_of page)"
proof
  assume found: "contains end_marker (body_of page)"
  obtain start till where range: "body_range page = Some (start, till)"
    using found by (cases "body_range page") (auto simp: body_of_def contains_def)
  let ?D = "drop start page"
  have first: "find_sub end_marker ?D = Some (till - start)" using body_range_parts[OF range] by blast
  obtain a b where ab: "take (till - start) ?D = a @ end_marker @ b"
    using found range unfolding contains_iff[OF markers(2)] by (auto simp: body_of_def)
  then have "?D = a @ end_marker @ b @ drop (till - start) ?D" by (metis append.assoc append_take_drop_id)
  then have "starts_with end_marker (drop (length a) ?D)"
    by (metis append_eq_conv_conj starts_with_append)
  moreover have "length a + length end_marker \<le> till - start"
    using arg_cong[OF ab, of length] by simp
  moreover have "0 < length end_marker" by simp
  ultimately show False using first unfolding find_sub_iff[OF markers(2)] by (metis add_le_same_cancel1 leD le_add1 le_neq_implies_less order_trans)
qed

lemma body_lines_ok:
  assumes "l \<in> set (body_lines (body_of page))"
  shows "10 \<notin> set l \<and> \<not> is_blank l \<and> \<not> contains end_marker l"
proof -
  have l: "l \<in> set (split_at_char 10 (body_of page))" and "\<not> is_blank l"
    using assms by (auto simp: body_lines_def)
  moreover have "\<not> contains end_marker l"
    using body_without_end[of page] split_piece_infix[OF l] unfolding contains_iff[OF markers(2)]
    by (metis append.assoc)
  ultimately show ?thesis using split_pieces_free[OF l] by blast
qed

lemma merged_lines_ok:
  assumes "line_ok uuid_text i line" and "l \<in> set (merged_lines mark line (body_lines (body_of page)))"
  shows "10 \<notin> set l \<and> \<not> is_blank l \<and> \<not> contains end_marker l"
proof -
  have "l \<in> set (body_lines (body_of page)) \<or> l = line"
    using assms(2) by (auto simp: merged_lines_def Let_def dest: in_set_takeD in_set_dropD)
  then show ?thesis
    using body_lines_ok assms(1) managed_not_blank[OF contains_managed] unfolding line_ok_def by blast
qed

lemma merged_page:
  assumes "body_range page = Some (start, till)" and "line_ok uuid_text i line"
  defines "ls \<equiv> merged_lines (marker uuid_text i) line (body_lines (body_of page))"
  shows "merge uuid_text line i page = take start page @ concat (map (\<lambda>l. l @ [10]) ([] # ls)) @ drop till page"
    and "body_range (merge uuid_text line i page) =
      Some (start, start + length (concat (map (\<lambda>l. l @ [10]) ([] # ls))))"
    and "body_lines (body_of (merge uuid_text line i page)) = ls"
proof -
  have ok: "\<forall>l\<in>set ls. 10 \<notin> set l \<and> \<not> is_blank l \<and> \<not> contains end_marker l"
    unfolding ls_def using merged_lines_ok[OF assms(2)] by blast
  have "line \<in> set ls" by (simp add: ls_def merged_lines_def Let_def)
  then have "ls \<noteq> []" by auto
  then have joined: "[10] @ join_with 10 ls @ [10] = concat (map (\<lambda>l. l @ [10]) ([] # ls))"
    using join_with_lines[of ls 10] by simp
  have page: "merge uuid_text line i page = take start page @ concat (map (\<lambda>l. l @ [10]) ([] # ls)) @ drop till page"
    unfolding merge_in_block[OF assms(1)] ls_def[symmetric] joined[symmetric] by simp
  have range: "body_range (merge uuid_text line i page) =
      Some (start, start + length (concat (map (\<lambda>l. l @ [10]) ([] # ls))))"
    unfolding page by (rule body_range_of_new_body[OF assms(1)]) (use ok in \<open>simp add: contains_def\<close>)
  have "start \<le> length page" using body_range_parts[OF assms(1)] by auto
  then have "body_of (merge uuid_text line i page) = concat (map (\<lambda>l. l @ [10]) ([] # ls))"
    unfolding body_of_range[OF range] unfolding page by simp
  moreover have "body_lines (concat (map (\<lambda>l. l @ [10]) ([] # ls))) = ls"
    by (rule body_lines_of_lines) (use ok in blast)
  ultimately have "body_lines (body_of (merge uuid_text line i page)) = ls" by simp
  with page range show "merge uuid_text line i page = take start page @ concat (map (\<lambda>l. l @ [10]) ([] # ls)) @ drop till page"
    and "body_range (merge uuid_text line i page) =
      Some (start, start + length (concat (map (\<lambda>l. l @ [10]) ([] # ls))))"
    and "body_lines (body_of (merge uuid_text line i page)) = ls" by blast+
qed

text \<open>
  C20: Merging a meeting into a person's page touches Steno's lines and nothing else. Before and after
  the block every character stays; in the block the user's own lines stay, in their order; the other
  meetings' lines all stay; this meeting has exactly the new line in place of what it had; and Steno's
  lines stand newest first.
\<close>

theorem merge_touches_only_its_lines:
  assumes "body_range page = Some (start, till)" and "line_ok uuid_text i line"
  shows "\<exists>body. merge uuid_text line i page = take start page @ body @ drop till page \<and>
    body_of (merge uuid_text line i page) = body \<and>
    filter (\<lambda>l. \<not> is_managed l) (body_lines body) = filter (\<lambda>l. \<not> is_managed l) (body_lines (body_of page)) \<and>
    mset (filter is_managed (body_lines body)) = add_mset line
      (mset (filter (\<lambda>l. is_managed l \<and> \<not> contains (marker uuid_text i) l) (body_lines (body_of page)))) \<and>
    sorted_wrt newer (filter is_managed (body_lines body))"
proof -
  have managed: "is_managed line" using assms(2) contains_managed by (auto simp: line_ok_def)
  note m = merged_page[OF assms]
  have "start \<le> length page" using body_range_parts[OF assms(1)] by auto
  then have body: "body_of (merge uuid_text line i page) =
      concat (map (\<lambda>l. l @ [10]) ([] # merged_lines (marker uuid_text i) line (body_lines (body_of page))))"
    unfolding body_of_range[OF m(2)] unfolding m(1) by simp
  show ?thesis
    by (intro exI conjI, rule m(1), rule body)
      (simp_all only: body[symmetric] m(3) merged_lines_kept[OF managed] merged_lines_managed[OF managed]
        mset_sorted_newest_first sorted_newest_first_sorted, simp)
qed

definition demo_page :: ustring where
  "demo_page = ascii ''# Anna'' @ [10] @ block [ascii ''- call her'', ascii ''- 2026-01-02 old %%steno:b%%''] @ ascii ''notes''"

definition demo_uuid_text :: "uuid \<Rightarrow> ustring" where "demo_uuid_text i = (if i = 0 then ascii ''a'' else ascii ''b'')"

definition demo_line :: ustring where "demo_line = ascii ''- 2026-09-24 sync %%steno:a%%''"

lemma demo_line_ok: "line_ok demo_uuid_text 0 demo_line"
  by (simp add: line_ok_def demo_line_def demo_uuid_text_def marker_def managed_marker_def end_marker_def
      contains_def ascii_def starts_with_def)

lemma demo_body_range: "body_range demo_page = Some (36, 77)"
  by (simp add: body_range_def demo_page_def block_def start_marker_def end_marker_def ascii_def starts_with_def)

lemma merge_touches_only_its_lines_witness:
  "\<exists>body. merge demo_uuid_text demo_line 0 demo_page = take 36 demo_page @ body @ drop 77 demo_page"
  using merge_touches_only_its_lines[OF demo_body_range demo_line_ok] by blast

section \<open>Merging again\<close>

lemma takeWhile_le_filter: "length (takeWhile P ls) \<le> length (filter P ls)"
  by (induction ls) auto

lemma take_filter_all: "\<forall>l\<in>set (take n (filter P ls)). P l"
  by (auto dest: in_set_takeD)

lemma takeWhile_before:
  "\<forall>l\<in>set a. \<not> p l \<Longrightarrow> s = x # rest \<Longrightarrow> p x \<Longrightarrow> takeWhile (\<lambda>l. \<not> p l) (a @ s @ b) = a"
  by (simp add: takeWhile_append2)

lemma merged_lines_again:
  assumes "is_managed line" and "contains mark line"
  shows "merged_lines mark line (merged_lines mark line ls) = merged_lines mark line ls"
proof -
  let ?kept = "filter (\<lambda>l. \<not> is_managed l) ls" and ?others = "filter (\<lambda>l. is_managed l \<and> \<not> contains mark l) ls"
  let ?slot = "if list_ex is_managed ls then length (takeWhile (\<lambda>l. \<not> is_managed l) ls) else 0"
  let ?ls = "merged_lines mark line ls" and ?sorted = "sorted_newest_first (?others @ [line])"
  have ls: "?ls = take ?slot ?kept @ ?sorted @ drop ?slot ?kept" by (simp only: merged_lines_def Let_def)
  have slot_le: "?slot \<le> length ?kept" by (simp add: takeWhile_le_filter)
  have all: "\<forall>l\<in>set ?sorted. is_managed l" using assms(1) by auto
  have "line \<in> set ?sorted" by simp
  then obtain l rest where sorted: "?sorted = l # rest" by (cases ?sorted) auto
  have "is_managed l" using all unfolding sorted by simp
  then have "takeWhile (\<lambda>l. \<not> is_managed l) ?ls = take ?slot ?kept"
    unfolding ls by (intro takeWhile_before[OF take_filter_all sorted])
  then have slot: "length (takeWhile (\<lambda>l. \<not> is_managed l) ?ls) = ?slot" using slot_le by simp
  have any: "list_ex is_managed ?ls" using all sorted by (simp add: ls)
  have kept: "filter (\<lambda>l. \<not> is_managed l) ?ls = ?kept" by (rule merged_lines_kept[OF assms(1)])
  have "filter (\<lambda>l. is_managed l \<and> \<not> contains mark l) ?ls = filter (\<lambda>l. \<not> contains mark l) (filter is_managed ?ls)"
    by (simp add: conj_commute)
  also have "\<dots> = filter (\<lambda>l. \<not> contains mark l) ?sorted" by (simp add: merged_lines_managed[OF assms(1)])
  finally have "mset (filter (\<lambda>l. is_managed l \<and> \<not> contains mark l) ?ls) =
      filter_mset (\<lambda>l. \<not> contains mark l) (add_mset line (mset ?others))" by simp
  also have "\<dots> = mset (filter (\<lambda>l. \<not> contains mark l) ?others)"
    using assms(2) by (simp only: mset_filter filter_mset_add_mset) simp
  also have "filter (\<lambda>l. \<not> contains mark l) ?others = ?others" by (rule filter_True) simp
  finally have "mset (filter (\<lambda>l. is_managed l \<and> \<not> contains mark l) ?ls @ [line]) = mset (?others @ [line])"
    by simp
  then have "sorted_newest_first (filter (\<lambda>l. is_managed l \<and> \<not> contains mark l) ?ls @ [line]) = ?sorted"
    by (rule sorted_newest_first_cong)
  then show ?thesis
    unfolding merged_lines_def[of mark line ?ls] Let_def kept slot using any ls by simp
qed

text \<open>
   Merging is idempotent: a redelivery that renders the same line again leaves the page as it is, to
  the character, wherever the block is and whatever the user put around and into it.
\<close>

theorem merge_again_changes_nothing:
  assumes "body_range page \<noteq> None" and "line_ok uuid_text i line"
  shows "merge uuid_text line i (merge uuid_text line i page) = merge uuid_text line i page"
proof -
  obtain start till where range: "body_range page = Some (start, till)" using assms(1) by (cases "body_range page") auto
  note m = merged_page[OF range assms(2)]
  note again = merged_page[OF m(2) assms(2)]
  have "is_managed line" "contains (marker uuid_text i) line"
    using assms(2) contains_managed by (auto simp: line_ok_def)
  then have lines: "merged_lines (marker uuid_text i) line (body_lines (body_of (merge uuid_text line i page))) =
      merged_lines (marker uuid_text i) line (body_lines (body_of page))"
    unfolding m(3) by (rule merged_lines_again)
  have "start \<le> length page" using body_range_parts[OF range] by auto
  then show ?thesis unfolding again(1) lines unfolding m(1) by simp
qed

lemma merge_again_changes_nothing_witness:
  "merge demo_uuid_text demo_line 0 (merge demo_uuid_text demo_line 0 demo_page) = merge demo_uuid_text demo_line 0 demo_page"
  by (rule merge_again_changes_nothing) (simp_all add: demo_body_range demo_line_ok)

end
