(* ===== verification/Vault_Delivery.thy ===== *)
theory Vault_Delivery
  imports Vault_Files Managed_Block
begin

text \<open>
  \<open>steno-adapters/src/obsidian/destination.rs\<close>: a delivery of a meeting into an Obsidian vault. A
  delivery runs alone (the vault lock), over the disk and its ledger. The crates' parts are fields of
  \<open>vault_ext\<close>: SHA-256, the meeting a \<open>meeting.json\<close> names, parsing and printing a UUID, and whether a
  root is this vault under another name. The renders of the meeting, which the destination only writes
  down, are fields of \<open>meeting_export\<close>.
\<close>

section \<open>The state and its steps\<close>

record run = vault + ledger :: delivery_ledger

datatype obsidian_error =
    VaultMissing
  | VaultNotWritable
  | PeopleFolderInvalid ustring
  | ReadFailed ustring
  | WriteFailed ustring
  | OutOfRounds

type_synonym 'a step = "run \<Rightarrow> (obsidian_error + 'a) \<times> run"

definition ret :: "'a \<Rightarrow> 'a step" where "ret a = (\<lambda>s. (Inr a, s))"

definition fail_with :: "obsidian_error \<Rightarrow> 'a step" where "fail_with e = (\<lambda>s. (Inl e, s))"

definition andthen :: "'a step \<Rightarrow> ('a \<Rightarrow> 'b step) \<Rightarrow> 'b step" where
  "andthen m f = (\<lambda>s. case m s of (Inl e, s) \<Rightarrow> (Inl e, s) | (Inr a, s) \<Rightarrow> f a s)"

definition edit :: "(delivery_ledger \<Rightarrow> delivery_ledger) \<Rightarrow> unit step" where
  "edit f = (\<lambda>s. (Inr (), s\<lparr>ledger := f (ledger s)\<rparr>))"

definition look :: "(run \<Rightarrow> 'a) \<Rightarrow> 'a step" where "look f = (\<lambda>s. (Inr (f s), s))"

definition reading :: "ustring \<Rightarrow> (run \<Rightarrow> (io_error + 'a) \<times> run) \<Rightarrow> 'a step" where
  "reading path body = (\<lambda>s. case body s of (Inl _, s) \<Rightarrow> (Inl (ReadFailed path), s) | (Inr a, s) \<Rightarrow> (Inr a, s))"

definition writing :: "ustring \<Rightarrow> (run \<Rightarrow> (io_error + 'a) \<times> run) \<Rightarrow> 'a step" where
  "writing path body = (\<lambda>s. case body s of (Inl _, s) \<Rightarrow> (Inl (WriteFailed path), s) | (Inr a, s) \<Rightarrow> (Inr a, s))"

section \<open>The meeting and the settings\<close>

record vault_ext =
  digest :: "bytes \<Rightarrow> bytes"
  json_meeting :: "bytes \<Rightarrow> uuid option"
  parse_uuid :: "ustring \<Rightarrow> uuid option"
  uuid_text :: "uuid \<Rightarrow> ustring"
  is_root :: "ustring \<Rightarrow> bool"

record obsidian_settings =
  vault_path :: ustring
  people_folder :: "ustring option"
  include_audio :: bool

record person_page =
  page_file :: ustring
  page_text :: ustring
  page_line :: ustring

text \<open>
  The audio source: none or gone, one whose presence or bytes cannot be read, or its extension and bytes.
\<close>

datatype audio_source = NoSource | UnknownSource ustring | UnreadableSource ustring | Source ustring bytes

record meeting_export =
  meeting_id :: uuid
  base_folder :: ustring
  render_json :: "bytes option"
  render_folder_note :: "ustring \<Rightarrow> ustring"
  render_transcript :: ustring
  render_tasks :: ustring
  render_vtt :: ustring
  render_pages :: "ustring \<Rightarrow> person_page list"
  audio_of :: audio_source

definition json_name :: ustring where "json_name = ascii ''meeting.json''"
definition vtt_name :: ustring where "vtt_name = ascii ''transcript.vtt''"

definition under :: "ustring \<Rightarrow> ustring \<Rightarrow> ustring" where
  "under folder name = folder @ [47] @ name"

datatype note_kind = FolderNote | TranscriptNote | TasksNote

fun note_name :: "note_kind \<Rightarrow> ustring \<Rightarrow> ustring" where
  "note_name FolderNote slug = slug"
| "note_name TranscriptNote slug = slug @ ascii '' - Transcript''"
| "note_name TasksNote slug = slug @ ascii '' - Tasks''"

definition note_file :: "note_kind \<Rightarrow> ustring \<Rightarrow> ustring" where
  "note_file n slug = note_name n slug @ ascii ''.md''"

definition audio_file :: "ustring \<Rightarrow> ustring" where
  "audio_file extension = (if extension = [] then ascii ''audio'' else ascii ''audio.'' @ extension)"

definition is_audio :: "ustring \<Rightarrow> bool" where
  "is_audio name \<longleftrightarrow> name = ascii ''audio'' \<or> starts_with (ascii ''audio.'') name"

definition folder_slug :: "ustring \<Rightarrow> ustring" where
  "folder_slug folder = (case components folder of
     [] \<Rightarrow> folder
   | cs \<Rightarrow> (case last cs of Normal n \<Rightarrow> n | _ \<Rightarrow> folder))"

definition file_name :: "ustring \<Rightarrow> ustring" where
  "file_name path = last (split_at_char 47 path)"

text \<open>\<open>render_meeting_files\<close>: \<open>meeting.json\<close> first, as it alone marks a folder as this meeting's.\<close>

definition render_meeting_files :: "meeting_export \<Rightarrow> ustring \<Rightarrow> (ustring \<times> bytes) list option" where
  "render_meeting_files m slug =
     (case render_json m of
        None \<Rightarrow> None
      | Some json \<Rightarrow> Some
          [(json_name, json),
           (note_file FolderNote slug, utf8_encode (render_folder_note m slug)),
           (note_file TranscriptNote slug, utf8_encode (render_transcript m)),
           (note_file TasksNote slug, utf8_encode (render_tasks m)),
           (vtt_name, utf8_encode (render_vtt m))])"

definition no_audio_warning :: ustring where
  "no_audio_warning = ascii ''The audio was already removed, so the export has no audio file''"

definition kept_warning :: "(ustring \<times> ustring) list \<Rightarrow> ustring option" where
  "kept_warning kept =
     (case kept of
        [] \<Rightarrow> None
      | [(name, copy)] \<Rightarrow> Some
          (ascii ''Kept your changes to '' @ name @ ascii '' and put Steno's version beside it as '' @ copy @
           ascii ''; to use Steno's, delete '' @ name @ ascii '' and export again'')
      | _ \<Rightarrow> Some
          (ascii ''Kept your changes to '' @
           (case map fst (butlast kept) of [] \<Rightarrow> [] | n # ns \<Rightarrow> n @ concat (map (\<lambda>n. ascii '', '' @ n) ns)) @
           ascii '' and '' @ fst (last kept) @
           ascii '' and put Steno's versions beside them; to use Steno's, delete your versions and export again''))"

section \<open>Notes\<close>

definition is_edited :: "vault_ext \<Rightarrow> ustring \<Rightarrow> bytes \<Rightarrow> bool step" where
  "is_edited x path data =
     (\<lambda>s. if is_directory s path then (Inr True, s)
          else andthen (reading path (sink_read path)) (\<lambda>on_disk.
                 case on_disk of
                   None \<Rightarrow> ret False
                 | Some b \<Rightarrow> look (\<lambda>s. b \<noteq> data \<and> \<not> wrote (ledger s) path (digest x b))) s)"

definition may_reuse :: "vault_ext \<Rightarrow> ustring \<Rightarrow> bytes \<Rightarrow> bool step" where
  "may_reuse x copy data =
     (\<lambda>s. if sink_exists s copy then andthen (is_edited x copy data) (\<lambda>edited. ret (\<not> edited)) s
          else (Inr False, s))"

definition write_owned :: "vault_ext \<Rightarrow> ustring \<Rightarrow> bytes \<Rightarrow> unit step" where
  "write_owned x path data =
     (\<lambda>s. if \<not> may_write (ledger s) path (sink_exists s path) then (Inr (), s)
          else andthen (writing path (sink_write data path))
                 (\<lambda>_. edit (record_file (digest x) path Owned data)) s)"

fun reuse_copy :: "vault_ext \<Rightarrow> bytes \<Rightarrow> ustring list \<Rightarrow> ustring option step" where
  "reuse_copy x data [] = ret None"
| "reuse_copy x data (copy # copies) =
     andthen (may_reuse x copy data) (\<lambda>reuse.
       if reuse then ret (Some copy)
       else andthen (\<lambda>s. if entry_exists s copy then ret () s else edit (forget copy) s)
              (\<lambda>_. reuse_copy x data copies))"

fun new_copy :: "nat \<Rightarrow> vault_ext \<Rightarrow> ustring \<Rightarrow> ustring \<Rightarrow> bytes \<Rightarrow> nat \<Rightarrow> ustring step" where
  "new_copy 0 x today path data number = fail_with OutOfRounds"
| "new_copy (Suc n) x today path data number =
     (let candidate = copy_beside_path path today number
      in (\<lambda>s. if \<not> entry_exists s candidate then (Inr candidate, s)
            else andthen (may_reuse x candidate data) (\<lambda>reuse.
                   if reuse then ret candidate else new_copy n x today path data (number + 1)) s))"

definition copy_path :: "vault_ext \<Rightarrow> ustring \<Rightarrow> ustring \<Rightarrow> bytes \<Rightarrow> ustring step" where
  "copy_path x today path data =
     (\<lambda>s. andthen (reuse_copy x data (listed_copies (ledger s) path)) (\<lambda>copy.
            case copy of
              Some c \<Rightarrow> ret c
            | None \<Rightarrow> new_copy (Suc (length (entries s))) x today path data 1) s)"

definition write_note :: "vault_ext \<Rightarrow> ustring \<Rightarrow> ustring \<Rightarrow> bytes \<Rightarrow> ustring option step" where
  "write_note x today path data =
     andthen (is_edited x path data) (\<lambda>edited.
       if \<not> edited then andthen (write_owned x path data) (\<lambda>_. ret None)
       else
         andthen (copy_path x today path data) (\<lambda>copy.
         andthen (writing copy (sink_write data copy)) (\<lambda>_.
         andthen (edit (record_file (digest x) copy Owned data)) (\<lambda>_.
         andthen (edit (keep (digest x) path data)) (\<lambda>_. ret (Some copy))))))"

fun write_notes :: "vault_ext \<Rightarrow> ustring \<Rightarrow> ustring \<Rightarrow> (ustring \<times> bytes) list \<Rightarrow> (ustring \<times> ustring) list step" where
  "write_notes x today folder [] = ret []"
| "write_notes x today folder ((name, data) # artifacts) =
     andthen (write_note x today (under folder name) data) (\<lambda>copy.
     andthen (write_notes x today folder artifacts) (\<lambda>kept.
     ret (case copy of None \<Rightarrow> kept | Some c \<Rightarrow> (name, file_name c) # kept)))"

section \<open>Person pages\<close>

definition write_page :: "vault_ext \<Rightarrow> ustring \<Rightarrow> uuid \<Rightarrow> person_page \<Rightarrow> unit step" where
  "write_page x folder i page =
     (let path = under folder (page_file page)
      in andthen (reading path (sink_read path)) (\<lambda>existing.
         andthen
           (case existing of
              None \<Rightarrow> ret (utf8_encode (page_text page))
            | Some b \<Rightarrow>
                (case utf8_decode b of
                   None \<Rightarrow> fail_with (ReadFailed path)
                 | Some text \<Rightarrow> ret (utf8_encode (merge (uuid_text x) (page_line page) i text)))) (\<lambda>data.
         andthen (writing path (sink_write data path)) (\<lambda>_.
         edit (record_file (digest x) path ManagedBlock data)))))"

fun write_pages :: "vault_ext \<Rightarrow> ustring \<Rightarrow> uuid \<Rightarrow> person_page list \<Rightarrow> unit step" where
  "write_pages x folder i [] = ret ()"
| "write_pages x folder i (page # pages) =
     andthen (write_page x folder i page) (\<lambda>_. write_pages x folder i pages)"

definition remove_from_page :: "vault_ext \<Rightarrow> uuid \<Rightarrow> ustring list \<Rightarrow> ustring \<Rightarrow> unit step" where
  "remove_from_page x i rendered path =
     (\<lambda>s. if list_ex (same_file s path) rendered then (Inr (), s)
          else andthen (reading path (sink_read path)) (\<lambda>existing.
                 case Option.bind existing utf8_decode of
                   None \<Rightarrow> ret ()
                 | Some text \<Rightarrow>
                     let cleaned = remove_line (uuid_text x) i text; data = utf8_encode cleaned
                     in if cleaned = text then ret ()
                        else andthen (writing path (sink_write data path))
                               (\<lambda>_. edit (record_file (digest x) path ManagedBlock data))) s)"

fun remove_meeting_line :: "vault_ext \<Rightarrow> uuid \<Rightarrow> ustring list \<Rightarrow> ustring list \<Rightarrow> unit step" where
  "remove_meeting_line x i rendered [] = ret ()"
| "remove_meeting_line x i rendered (path # paths) =
     andthen (remove_from_page x i rendered path) (\<lambda>_. remove_meeting_line x i rendered paths)"

definition write_person_pages :: "vault_ext \<Rightarrow> ustring \<Rightarrow> person_page list \<Rightarrow> uuid \<Rightarrow> unit step" where
  "write_person_pages x folder pages i =
     andthen (writing folder (create_directory folder)) (\<lambda>_.
     andthen (\<lambda>s. (Inr (), remove_stale_temporaries folder s)) (\<lambda>_.
     andthen (write_pages x folder i pages) (\<lambda>_.
     let rendered = map (\<lambda>p. under folder (page_file p)) pages
     in (\<lambda>s. remove_meeting_line x i rendered (stale_managed_pages (ledger s) rendered) s))))"

section \<open>Audio\<close>

definition copy_audio :: "vault_ext \<Rightarrow> meeting_export \<Rightarrow> ustring \<Rightarrow> bool step" where
  "copy_audio x m folder =
     (case audio_of m of
        UnknownSource path \<Rightarrow> fail_with (ReadFailed path)
      | UnreadableSource path \<Rightarrow> fail_with (ReadFailed path)
      | Source extension data \<Rightarrow>
          andthen (write_owned x (under folder (audio_file extension)) data) (\<lambda>_. ret True)
      | NoSource \<Rightarrow>
          (\<lambda>s. let gone = filter (\<lambda>path.
                   (case name_in path folder of None \<Rightarrow> False | Some n \<Rightarrow> is_audio n) \<and> \<not> entry_exists s path)
                 (map fst (ledger_files (ledger s)))
              in andthen (edit (fold forget gone)) (\<lambda>_.
                 look (\<lambda>s. list_ex is_audio (file_names s folder))) s))"

section \<open>The folder\<close>

definition meeting_in :: "vault_ext \<Rightarrow> ustring \<Rightarrow> uuid option step" where
  "meeting_in x path =
     andthen (reading path (sink_read path)) (\<lambda>data. ret (Option.bind data (json_meeting x)))"

definition meeting_of :: "vault_ext \<Rightarrow> ustring \<Rightarrow> uuid option step" where
  "meeting_of x folder = meeting_in x (under folder json_name)"

definition names_meeting :: "vault_ext \<Rightarrow> uuid \<Rightarrow> ustring \<Rightarrow> bool" where
  "names_meeting x i value \<longleftrightarrow> parse_uuid x (trim_matches (\<lambda>c. c = 34) (trim value)) = Some i"

definition vtt_names :: "vault_ext \<Rightarrow> uuid \<Rightarrow> ustring \<Rightarrow> bool" where
  "vtt_names x i text \<longleftrightarrow>
     (case text_lines text of
        [] \<Rightarrow> False
      | header # _ \<Rightarrow>
          (case strip_prefix (ascii ''WEBVTT - Steno '') header of
             None \<Rightarrow> False
           | Some value \<Rightarrow> names_meeting x i value))"

definition note_names :: "vault_ext \<Rightarrow> uuid \<Rightarrow> ustring \<Rightarrow> bool" where
  "note_names x i text \<longleftrightarrow>
     list_ex (\<lambda>l. case strip_prefix (ascii ''steno_id:'') l of None \<Rightarrow> False | Some value \<Rightarrow> names_meeting x i value)
       (takeWhile (\<lambda>l. l \<noteq> ascii ''---'') (drop 1 (text_lines text)))"

definition read_text :: "ustring \<Rightarrow> ustring option step" where
  "read_text path = andthen (reading path (sink_read path)) (\<lambda>data. ret (Option.bind data utf8_decode))"

definition a_note_carries :: "vault_ext \<Rightarrow> ustring \<Rightarrow> uuid \<Rightarrow> bool step" where
  "a_note_carries x folder i =
     andthen (read_text (under folder vtt_name)) (\<lambda>vtt.
     if (case vtt of None \<Rightarrow> False | Some text \<Rightarrow> vtt_names x i text) then ret True
     else
       andthen (read_text (under folder (note_file FolderNote (folder_slug folder)))) (\<lambda>note.
       ret (case note of None \<Rightarrow> False | Some text \<Rightarrow> note_names x i text)))"

fun a_copy_names :: "vault_ext \<Rightarrow> uuid \<Rightarrow> ustring list \<Rightarrow> bool step" where
  "a_copy_names x i [] = ret False"
| "a_copy_names x i (copy # copies) =
     andthen (meeting_in x copy) (\<lambda>m. if m = Some i then ret True else a_copy_names x i copies)"

definition keeps_pin :: "vault_ext \<Rightarrow> ustring \<Rightarrow> uuid \<Rightarrow> bool step" where
  "keeps_pin x folder i =
     (\<lambda>s. if \<not> is_directory s folder then (Inr False, s)
          else
            let json = under folder json_name
            in if sink_exists s json then andthen (meeting_in x json) (\<lambda>m. ret (m = Some i)) s
               else andthen (a_note_carries x folder i) (\<lambda>carries.
                      if carries then ret True
                      else (\<lambda>s. a_copy_names x i (listed_copies (ledger s) json) s)) s)"

definition create :: "ustring \<Rightarrow> bool step" where
  "create folder =
     (\<lambda>s. case create_new_directory folder s of
            (Inl AlreadyExists, s) \<Rightarrow> (Inr False, s)
          | (Inl IoFailed, s) \<Rightarrow> (Inl (WriteFailed folder), s)
          | (Inr _, s) \<Rightarrow> (Inr True, s))"

text \<open>\<open>Path::parent\<close>: the path up to its last component.\<close>

definition parent_path :: "ustring \<Rightarrow> ustring" where
  "parent_path folder = join_with 47 (butlast (resolve folder))"

definition recreate :: "ustring \<Rightarrow> bool step" where
  "recreate folder =
     andthen (writing (parent_path folder) (create_directory (parent_path folder))) (\<lambda>_. create folder)"

definition meetings_root :: ustring where "meetings_root = ascii ''Meetings''"

text \<open>A folder whose \<open>meeting.json\<close> cannot be read is taken, so the search goes on.\<close>

definition claim_folder :: "vault_ext \<Rightarrow> meeting_export \<Rightarrow> (ustring \<times> bool) step" where
  "claim_folder x m =
     andthen (writing meetings_root (create_directory meetings_root)) (\<lambda>_.
     \<lambda>s. let owner = (\<lambda>folder (s, created).
                 case meeting_of x folder s of
                   (Inl _, s) \<Rightarrow> (None, (s, created))
                 | (Inr who, s) \<Rightarrow> (who, (s, created)));
             claim = (\<lambda>candidate (s, created).
                 case create candidate s of
                   (Inl e, s) \<Rightarrow> (Inl e, (s, created))
                 | (Inr new, s) \<Rightarrow> (Inr new, (s, new)))
         in case claim_folder_from (Suc (length (entries s))) (base_folder m) (meeting_id m) claim owner
                   (base_folder m) 2 (s, False) of
              (None, (s, _)) \<Rightarrow> (Inl OutOfRounds, s)
            | (Some (Inl e), (s, _)) \<Rightarrow> (Inl e, s)
            | (Some (Inr folder), (s, created)) \<Rightarrow> (Inr (folder, created), s))"

definition folder_for :: "vault_ext \<Rightarrow> meeting_export \<Rightarrow> (ustring \<times> bool) step" where
  "folder_for x m =
     (\<lambda>s. case pinned_folder (ledger s) of
            None \<Rightarrow> claim_folder x m s
          | Some pinned \<Rightarrow>
              andthen (\<lambda>s. if entry_exists s pinned then (Inr False, s) else recreate pinned s) (\<lambda>recreated.
              if recreated then ret (pinned, True)
              else
                andthen (keeps_pin x pinned (meeting_id m)) (\<lambda>keeps.
                if keeps then ret (pinned, False)
                else
                  andthen (claim_folder x m) (\<lambda>claim.
                  andthen (edit (move_folder pinned (fst claim))) (\<lambda>_. ret claim)))) s)"

section \<open>The delivery\<close>

definition write_meeting :: "vault_ext \<Rightarrow> obsidian_settings \<Rightarrow> ustring \<Rightarrow> meeting_export \<Rightarrow> ustring \<Rightarrow> unit step" where
  "write_meeting x settings today m folder =
     andthen (writing folder (create_directory folder)) (\<lambda>_.
     andthen (\<lambda>s. (Inr (), remove_stale_temporaries folder s)) (\<lambda>_.
     case render_meeting_files m (folder_slug folder) of
       None \<Rightarrow> fail_with (WriteFailed (under folder json_name))
     | Some artifacts \<Rightarrow>
         andthen (write_notes x today folder artifacts) (\<lambda>kept.
         andthen (case kept_warning kept of None \<Rightarrow> ret () | Some w \<Rightarrow> edit (warn w)) (\<lambda>_.
         andthen
           (case people_folder settings of
              None \<Rightarrow> ret ()
            | Some people \<Rightarrow>
                write_person_pages x people (render_pages m (folder_slug folder)) (meeting_id m)) (\<lambda>_.
         if include_audio settings
         then andthen (copy_audio x m folder) (\<lambda>copied. if copied then ret () else edit (warn no_audio_warning))
         else ret ())))))"

definition check_vault :: "obsidian_settings \<Rightarrow> 'v vault_scheme \<Rightarrow> obsidian_error option" where
  "check_vault settings v =
     (if \<not> is_directory v [] then Some VaultMissing
      else case people_folder settings of
             None \<Rightarrow> None
           | Some folder \<Rightarrow>
               if is_plain_relative folder \<and> 92 \<notin> set folder \<and> folder = trim folder \<and>
                  \<not> list_ex (\<lambda>c. c = [46] \<or> c = []) (split_at_char 47 folder)
               then None else Some (PeopleFolderInvalid folder))"

definition render_version :: int where "render_version = 2"

definition deliver_meeting ::
  "vault_ext \<Rightarrow> obsidian_settings \<Rightarrow> ustring \<Rightarrow> meeting_export \<Rightarrow> delivery_receipt option \<Rightarrow> vault \<Rightarrow>
    (obsidian_error + delivery_receipt) \<times> run"
where
  "deliver_meeting x settings today m given v =
     (let s = \<lparr>entries = entries v, faults = faults v, ledger = new_ledger given (vault_path settings) (is_root x)\<rparr>
      in case check_vault settings v of
           Some e \<Rightarrow> (Inl e, s)
         | None \<Rightarrow>
             andthen (folder_for x m) (\<lambda>(folder, created).
             \<lambda>s. case write_meeting x settings today m folder s of
                   (Inl e, s) \<Rightarrow> (Inl e, if created then remove_directory folder s else s)
                 | (Inr _, s) \<Rightarrow> (Inr (receipt folder render_version (ledger s)), s)) s)"

section \<open>Validating a vault\<close>

definition probe_prefix :: ustring where "probe_prefix = ascii ''.steno-probe-''"

definition is_probe_name :: "ustring \<Rightarrow> bool" where
  "is_probe_name name \<longleftrightarrow>
     (case strip_prefix probe_prefix name of
        None \<Rightarrow> False
      | Some hex \<Rightarrow> length hex = 8 \<and> list_all (\<lambda>c. 48 \<le> c \<and> c \<le> 57 \<or> 97 \<le> c \<and> c \<le> 102) hex)"

definition is_leftover :: "'v vault_scheme \<Rightarrow> place \<Rightarrow> bool" where
  "is_leftover v k \<longleftrightarrow> inside_place [] k \<and> is_probe_name (last k) \<and> at_place v k = Some (Regular [])"

text \<open>Removes the leftovers and counts those that stay because their remove failed.\<close>

fun remove_leftovers :: "place list \<Rightarrow> 'v vault_scheme \<Rightarrow> nat \<times> 'v vault_scheme" where
  "remove_leftovers [] v = (0, v)"
| "remove_leftovers (k # ks) v =
     (if is_leftover v k
      then let (fault, v) = strike v; (n, v) = remove_leftovers ks (if fault then v else drop_entry k v)
           in ((if fault then n + 1 else n), v)
      else remove_leftovers ks v)"

definition remove_probe_leftovers :: "'v vault_scheme \<Rightarrow> nat \<times> 'v vault_scheme" where
  "remove_probe_leftovers v =
     (let (fault, v) = strike v in if fault then (0, v) else remove_leftovers (map fst (entries v)) v)"

definition validate_vault ::
  "obsidian_settings \<Rightarrow> ustring \<Rightarrow> 'v vault_scheme \<Rightarrow> obsidian_error option \<times> 'v vault_scheme"
where
  "validate_vault settings probe v =
     (case check_vault settings v of
        Some e \<Rightarrow> (Some e, v)
      | None \<Rightarrow>
          let (stayed, v) = remove_probe_leftovers v
          in if stayed \<ge> 2 then (Some VaultNotWritable, v)
             else
               let (fault, v) = strike v
               in if fault \<or> entry_exists v probe then (Some VaultNotWritable, v)
                  else
                    let v = put_entry (resolve probe) (Regular []) v; (fault, v) = strike v
                    in if \<not> fault then (None, drop_entry (resolve probe) v)
                       else if stayed = 1 then (Some VaultNotWritable, v) else (None, v))"

end
