(* ===== verification/Vault_Safety.thy ===== *)
theory Vault_Safety
  imports Vault_Delivery
begin

text \<open>
  What a delivery never loses. The locale is the contract of a step that runs over the disk: whatever it
  returns, error or not, every file whose loss is not \<open>safe\<close> still has its bytes, and the receipt it goes
  by stays. The lemmas go through the destination's steps one by one.
\<close>

section \<open>The contract of a step\<close>

definition careful :: "(place \<Rightarrow> bytes \<Rightarrow> bool) \<Rightarrow> delivered_file list \<Rightarrow> 'a step \<Rightarrow> bool" where
  "careful safe fs m \<longleftrightarrow>
     (\<forall>s. previous_files (ledger s) = fs \<longrightarrow>
        untouched safe s (snd (m s)) \<and> previous_files (ledger (snd (m s))) = fs)"

definition overwritable :: "(place \<Rightarrow> bytes \<Rightarrow> bool) \<Rightarrow> run \<Rightarrow> ustring \<Rightarrow> bytes \<Rightarrow> bool" where
  "overwritable safe s path data \<longleftrightarrow>
     (\<forall>b. entry_at s path = Some (Regular b) \<longrightarrow> b \<noteq> data \<longrightarrow> safe (resolve path) b)"

lemma previous_files_edit [simp]:
  "previous_files (move_folder from to l) = previous_files l" "previous_files (forget path l) = previous_files l"
  "previous_files (record_file d path o' data l) = previous_files l"
  "previous_files (keep d path data l) = previous_files l" "previous_files (warn w l) = previous_files l"
  "previous_files (fold forget ps l) = previous_files l"
proof -
  show "previous_files (fold forget ps l) = previous_files l"
    by (induction ps arbitrary: l) (simp_all add: previous_files_def)
qed (simp_all add: previous_files_def)

lemma ledger_more: "vault.more (s :: run) = vault.more t \<Longrightarrow> ledger s = ledger t"
  by (cases s; cases t) simp

lemma ledger_kept [simp]:
  fixes s :: run
  shows
  "ledger (snd (sink_read path s)) = ledger s" "ledger (snd (sink_write data path s)) = ledger s"
  "ledger (snd (create_directory path s)) = ledger s" "ledger (snd (create_new_directory path s)) = ledger s"
  "ledger (remove_directory path s) = ledger s" "ledger (remove_stale_temporaries path s) = ledger s"
  by (auto intro!: ledger_more)

lemma careful_ret [simp]: "careful safe fs (ret a)"
  by (simp add: careful_def ret_def)

lemma careful_fail [simp]: "careful safe fs (fail_with e)"
  by (simp add: careful_def fail_with_def)

lemma careful_look [simp]: "careful safe fs (look f)"
  by (simp add: careful_def look_def)

lemma at_place_ledger [simp]: "at_place (s\<lparr>ledger := l\<rparr>) = at_place s"
  by (simp add: at_place_def fun_eq_iff)

lemma careful_edit: "(\<And>l. previous_files (f l) = previous_files l) \<Longrightarrow> careful safe fs (edit f)"
  by (simp add: careful_def edit_def untouched_def)

lemma careful_andthen:
  "careful safe fs m \<Longrightarrow> (\<And>a. careful safe fs (f a)) \<Longrightarrow> careful safe fs (andthen m f)"
  unfolding careful_def andthen_def by (auto split: prod.splits sum.splits) (metis snd_conv untouched_trans)+

lemma careful_state: "(\<And>t. careful safe fs (\<lambda>s. f t s)) \<Longrightarrow> careful safe fs (\<lambda>s. f s s)"
  by (simp add: careful_def)

lemma careful_pick: "(\<And>t. careful safe fs (m t)) \<Longrightarrow> careful safe fs (\<lambda>s. m (g s) s)"
  by (simp add: careful_def)

lemma careful_if: "careful safe fs m \<Longrightarrow> careful safe fs (\<lambda>s. if P s then (Inr a, s) else m s)"
  by (simp add: careful_def)

lemma careful_branch:
  "careful safe fs m \<Longrightarrow> careful safe fs m' \<Longrightarrow> careful safe fs (\<lambda>s. if P s then m s else m' s)"
  by (simp add: careful_def)

lemma careful_finish:
  assumes "careful safe fs m"
  shows "careful safe fs (\<lambda>s. case m s of
      (Inl e, s) \<Rightarrow> (Inl e, if created then remove_directory folder s else s) | (Inr u, s) \<Rightarrow> (Inr (g s), s))"
  unfolding careful_def
proof (intro allI impI)
  fix s :: run
  assume prev: "previous_files (ledger s) = fs"
  obtain r t where m: "m s = (r, t)" by (cases "m s")
  have t: "untouched safe s t" "previous_files (ledger t) = fs"
    using assms prev m unfolding careful_def by (metis snd_conv)+
  have "untouched safe s (remove_directory folder t)"
    by (rule untouched_trans[OF t(1) remove_directory_keeps])
  with m t show "untouched safe s (snd (case m s of
      (Inl e, s) \<Rightarrow> (Inl e, if created then remove_directory folder s else s) | (Inr u, s) \<Rightarrow> (Inr (g s), s))) \<and>
    previous_files (ledger (snd (case m s of
      (Inl e, s) \<Rightarrow> (Inl e, if created then remove_directory folder s else s) | (Inr u, s) \<Rightarrow> (Inr (g s), s)))) = fs"
    by (cases r) simp_all
qed

lemma careful_read [simp]: "careful safe fs (reading path (sink_read path))"
  unfolding careful_def reading_def
  by (auto split: prod.splits sum.splits) (metis read_keeps ledger_kept(1) snd_conv)+

lemma careful_writing:
  assumes "\<And>s. previous_files (ledger s) = fs \<Longrightarrow> untouched safe s (snd (body s)) \<and> ledger (snd (body s)) = ledger s"
  shows "careful safe fs (writing path body)"
  using assms unfolding careful_def writing_def by (auto split: prod.splits sum.splits) (metis snd_conv)+

lemma careful_create_directory [simp]: "careful safe fs (writing path (create_directory path))"
  by (rule careful_writing) (simp add: create_directory_keeps)

lemma careful_create [simp]: "careful safe fs (create folder)"
  unfolding careful_def create_def
  by (auto split: prod.splits sum.splits io_error.splits) (metis create_new_directory_keeps ledger_kept(4) snd_conv)+

section \<open>Reading decides what may be written\<close>

lemma reading_result:
  "reading path (sink_read path) s = (r, t) \<Longrightarrow>
     at_place t = at_place s \<and> ledger t = ledger s \<and>
     (case r of Inl _ \<Rightarrow> True
      | Inr d \<Rightarrow> d = (case entry_at s path of Some (Regular b) \<Rightarrow> Some b | _ \<Rightarrow> None))"
proof -
  assume r: "reading path (sink_read path) s = (r, t)"
  then have "t = snd (sink_read path s)" by (auto simp: reading_def split: prod.splits sum.splits)
  moreover have "case r of Inl _ \<Rightarrow> True
      | Inr d \<Rightarrow> d = (case entry_at s path of Some (Regular b) \<Rightarrow> Some b | _ \<Rightarrow> None)"
    using r by (auto simp: reading_def sink_read_def Let_def dest!: strike_same
        split: prod.splits sum.splits option.splits vault_entry.splits if_splits)
  ultimately show ?thesis by simp
qed

lemma is_edited_result:
  "is_edited x path data s = (r, t) \<Longrightarrow> at_place t = at_place s \<and> ledger t = ledger s \<and>
    (r = Inr False \<longrightarrow> (\<forall>b. entry_at s path = Some (Regular b) \<longrightarrow> b = data \<or> wrote (ledger s) path (digest x b)))"
  unfolding is_edited_def andthen_def
  by (auto simp: ret_def look_def is_directory_def dest!: reading_result
      split: if_splits prod.splits sum.splits option.splits)

lemma wrote_ours:
  "wrote l path h \<Longrightarrow> \<exists>f\<in>set (previous_files l). ownership f = Owned \<and> file_hash f = h"
  by (auto simp: wrote_def list_ex_iff)

lemma may_reuse_result:
  "may_reuse x copy data s = (r, t) \<Longrightarrow> at_place t = at_place s \<and> ledger t = ledger s \<and>
    (r = Inr True \<longrightarrow> (\<forall>b. entry_at s copy = Some (Regular b) \<longrightarrow> b = data \<or> wrote (ledger s) copy (digest x b)))"
  unfolding may_reuse_def andthen_def
  by (auto simp: ret_def dest: is_edited_result split: if_splits prod.splits sum.splits)

section \<open>Steps from one state\<close>

definition careful_at :: "(place \<Rightarrow> bytes \<Rightarrow> bool) \<Rightarrow> delivered_file list \<Rightarrow> 'a step \<Rightarrow> run \<Rightarrow> bool" where
  "careful_at safe fs m s \<longleftrightarrow>
     (previous_files (ledger s) = fs \<longrightarrow>
        untouched safe s (snd (m s)) \<and> previous_files (ledger (snd (m s))) = fs)"

lemma careful_everywhere: "careful safe fs m \<longleftrightarrow> (\<forall>s. careful_at safe fs m s)"
  by (simp add: careful_def careful_at_def)

lemma careful_at_careful: "careful safe fs m \<Longrightarrow> careful_at safe fs m s"
  by (simp add: careful_everywhere)

lemma careful_at_andthen:
  assumes "careful_at safe fs m s"
    and "\<And>a t. m s = (Inr a, t) \<Longrightarrow> previous_files (ledger t) = fs \<Longrightarrow> careful_at safe fs (f a) t"
  shows "careful_at safe fs (andthen m f) s"
proof (cases "m s")
  case (Pair r t)
  show ?thesis
  proof (cases r)
    case (Inl e)
    then show ?thesis using assms(1) Pair by (simp add: careful_at_def andthen_def)
  next
    case (Inr a)
    then show ?thesis using assms(1) assms(2)[of a t] Pair
      by (auto simp: careful_at_def andthen_def intro: untouched_trans)
  qed
qed

lemma careful_at_write:
  assumes "overwritable safe s path data"
  shows "careful_at safe fs (writing path (sink_write data path)) s"
proof -
  have "untouched safe s (snd (sink_write data path s))"
    using assms by (intro write_keeps) (simp add: overwritable_def entry_at_def)
  moreover have "snd (writing path (sink_write data path) s) = snd (sink_write data path s)"
    by (simp add: writing_def split: prod.splits sum.splits)
  ultimately show ?thesis by (simp add: careful_at_def)
qed

lemma careful_at_write_owned:
  assumes "overwritable safe s path data"
  shows "careful_at safe fs (write_owned x path data) s"
proof (cases "may_write (ledger s) path (sink_exists s path)")
  case True
  then have "write_owned x path data s = andthen (writing path (sink_write data path))
      (\<lambda>_. edit (record_file (digest x) path Owned data)) s" by (simp add: write_owned_def)
  moreover have "careful_at safe fs (andthen (writing path (sink_write data path))
      (\<lambda>_. edit (record_file (digest x) path Owned data))) s"
    by (intro careful_at_andthen careful_at_write[OF assms] careful_at_careful careful_edit) simp
  ultimately show ?thesis by (simp add: careful_at_def)
qed (simp add: careful_at_def write_owned_def)

section \<open>The destination keeps the contract\<close>

locale vault_guard =
  fixes x :: vault_ext
    and safe :: "place \<Rightarrow> bytes \<Rightarrow> bool"
    and fs :: "delivered_file list"
  assumes ours: "f \<in> set fs \<Longrightarrow> ownership f = Owned \<Longrightarrow> file_hash f = digest x b \<Longrightarrow> safe k b"
    and page: "f \<in> set fs \<Longrightarrow> ownership f = ManagedBlock \<Longrightarrow> safe (resolve (relative_path f)) b"
    and temporary: "is_temporary k \<Longrightarrow> safe k b"
begin

lemma decided_overwritable:
  assumes "\<forall>b. entry_at s path = Some (Regular b) \<longrightarrow> b = data \<or> wrote (ledger s) path (digest x b)"
    and "previous_files (ledger s) = fs"
  shows "overwritable safe s path data"
  using assms ours wrote_ours unfolding overwritable_def by metis

lemma careful_is_edited: "careful safe fs (is_edited x path data)"
  unfolding careful_def by (metis is_edited_result prod.collapse untouched_def)

lemma careful_may_reuse: "careful safe fs (may_reuse x copy data)"
  unfolding careful_def by (metis may_reuse_result prod.collapse untouched_def)

lemma reuse_copy_result:
  "previous_files (ledger s) = fs \<Longrightarrow> reuse_copy x data copies s = (r, t) \<Longrightarrow>
     at_place t = at_place s \<and> previous_files (ledger t) = fs \<and>
     (\<forall>c. r = Inr (Some c) \<longrightarrow> overwritable safe t c data)"
proof (induction copies arbitrary: s)
  case Nil
  then show ?case by (auto simp: ret_def)
next
  case (Cons copy copies)
  obtain d u where m: "may_reuse x copy data s = (d, u)" by (cases "may_reuse x copy data s")
  note mr = may_reuse_result[OF m]
  let ?u = "if entry_exists u copy then u else u\<lparr>ledger := forget copy (ledger u)\<rparr>"
  consider e where "d = Inl e" | "d = Inr True" | "d = Inr False" by (cases d) auto
  then show ?case
  proof cases
    case 1
    then show ?thesis using Cons.prems mr m by (auto simp: andthen_def)
  next
    case 2
    then have "overwritable safe u copy data"
      using mr Cons.prems(1) by (intro decided_overwritable) (auto simp: entry_at_def)
    then show ?thesis using 2 Cons.prems mr m by (auto simp: andthen_def ret_def)
  next
    case 3
    have "previous_files (ledger ?u) = fs" "at_place ?u = at_place s" using mr Cons.prems(1) by simp_all
    moreover have "reuse_copy x data copies ?u = (r, t)"
      using Cons.prems(2) 3 m by (simp add: andthen_def ret_def edit_def split: if_splits)
    ultimately show ?thesis using Cons.IH[of ?u] by simp
  qed
qed

lemma new_copy_result:
  "previous_files (ledger s) = fs \<Longrightarrow> new_copy n x today path data number s = (r, t) \<Longrightarrow>
     at_place t = at_place s \<and> previous_files (ledger t) = fs \<and>
     (\<forall>c. r = Inr c \<longrightarrow> overwritable safe t c data)"
proof (induction n arbitrary: number s)
  case 0
  then show ?case by (auto simp: fail_with_def)
next
  case (Suc n)
  let ?c = "copy_beside_path path today number"
  obtain d u where m: "may_reuse x ?c data s = (d, u)" by (cases "may_reuse x ?c data s")
  note mr = may_reuse_result[OF m]
  show ?case
  proof (cases "entry_exists s ?c")
    case False
    then show ?thesis using Suc.prems by (auto simp: Let_def overwritable_def entry_exists_def)
  next
    case True
    consider e where "d = Inl e" | "d = Inr True" | "d = Inr False" by (cases d) auto
    then show ?thesis
    proof cases
      case 1
      then show ?thesis using Suc.prems mr m True by (auto simp: andthen_def Let_def)
    next
      case 2
      then have "overwritable safe u ?c data"
        using mr Suc.prems(1) by (intro decided_overwritable) (auto simp: entry_at_def)
      then show ?thesis using 2 Suc.prems mr m True by (auto simp: andthen_def ret_def Let_def)
    next
      case 3
      then show ?thesis using Suc.IH[of u "number + 1"] Suc.prems mr m True by (simp add: andthen_def Let_def)
    qed
  qed
qed

lemma copy_path_result:
  assumes "previous_files (ledger s) = fs" and "copy_path x today path data s = (r, t)"
  shows "at_place t = at_place s \<and> previous_files (ledger t) = fs \<and> (\<forall>c. r = Inr c \<longrightarrow> overwritable safe t c data)"
proof -
  obtain d u where m: "reuse_copy x data (listed_copies (ledger s) path) s = (d, u)"
    by (cases "reuse_copy x data (listed_copies (ledger s) path) s")
  note mr = reuse_copy_result[OF assms(1) m]
  consider e where "d = Inl e" | c where "d = Inr (Some c)" | "d = Inr None"
    by (metis option.exhaust sum.exhaust)
  then show ?thesis
  proof cases
    case 3
    then have "new_copy (Suc (length (entries s))) x today path data 1 u = (r, t)"
      using assms(2) m by (simp add: copy_path_def andthen_def del: new_copy.simps)
    then show ?thesis using new_copy_result[of u "Suc (length (entries s))"] mr by simp
  qed (use mr assms m in \<open>auto simp: copy_path_def andthen_def ret_def\<close>)
qed

lemma careful_write_note: "careful safe fs (write_note x today path data)"
proof -
  have "careful_at safe fs (write_note x today path data) s" for s
    unfolding write_note_def
  proof (rule careful_at_andthen, rule careful_at_careful[OF careful_is_edited])
    fix edited t
    assume e: "is_edited x path data s = (Inr edited, t)" and prev: "previous_files (ledger t) = fs"
    show "careful_at safe fs (if \<not> edited then andthen (write_owned x path data) (\<lambda>_. ret None)
       else
         andthen (copy_path x today path data) (\<lambda>copy.
         andthen (writing copy (sink_write data copy)) (\<lambda>_.
         andthen (edit (record_file (digest x) copy Owned data)) (\<lambda>_.
         andthen (edit (keep (digest x) path data)) (\<lambda>_. ret (Some copy)))))) t"
    proof (cases edited)
      case False
      then have "overwritable safe t path data"
        using is_edited_result[OF e] prev by (intro decided_overwritable) (auto simp: entry_at_def)
      then show ?thesis using False
        by (simp add: careful_at_andthen careful_at_write_owned careful_at_careful)
    next
      case True
      have "careful_at safe fs (copy_path x today path data) t"
        using copy_path_result[of t] by (simp add: careful_at_def untouched_def split: prod.split)
          (metis prod.collapse)
      moreover have "overwritable safe u c data" if "copy_path x today path data t = (Inr c, u)" for c u
        using copy_path_result[OF prev that] by blast
      ultimately show ?thesis using True
        by (auto intro!: careful_at_andthen careful_at_write careful_at_careful[OF careful_edit] careful_at_careful[OF careful_ret])
    qed
  qed
  then show ?thesis by (simp add: careful_everywhere)
qed

lemma careful_write_notes: "careful safe fs (write_notes x today folder artifacts)"
proof (induction artifacts)
  case (Cons a artifacts)
  then show ?case by (cases a) (auto intro!: careful_andthen careful_write_note)
qed simp

lemma careful_write_at:
  assumes "\<And>b. safe (resolve path) b"
  shows "careful safe fs (writing path (sink_write data path))"
  using careful_at_write assms by (simp add: careful_everywhere overwritable_def)

lemma careful_write_page:
  assumes "\<And>b. safe (resolve (under folder (page_file p))) b"
  shows "careful safe fs (write_page x folder i p)"
  unfolding write_page_def Let_def
  by (intro careful_andthen careful_write_at careful_edit careful_read assms) (auto split: option.splits)

lemma careful_write_pages:
  assumes "\<And>p b. p \<in> set ps \<Longrightarrow> safe (resolve (under folder (page_file p))) b"
  shows "careful safe fs (write_pages x folder i ps)"
  using assms by (induction ps) (auto intro!: careful_andthen careful_write_page)

lemma careful_remove_from_page:
  assumes "\<And>b. safe (resolve path) b"
  shows "careful safe fs (remove_from_page x i rendered path)"
  unfolding remove_from_page_def Let_def
  by (intro careful_if careful_andthen careful_read)
    (auto intro!: careful_andthen careful_write_at careful_edit assms split: option.splits)

lemma careful_remove_meeting_line:
  assumes "\<And>path b. path \<in> set paths \<Longrightarrow> safe (resolve path) b"
  shows "careful safe fs (remove_meeting_line x i rendered paths)"
  using assms by (induction paths)
    (auto intro!: careful_andthen careful_remove_from_page)

lemma careful_stale_temporaries: "careful safe fs (\<lambda>s. (Inr (), remove_stale_temporaries folder s))"
  by (simp add: careful_def remove_stale_temporaries_keeps temporary)

lemma careful_write_person_pages:
  assumes "\<And>p b. p \<in> set ps \<Longrightarrow> safe (resolve (under folder (page_file p))) b"
  shows "careful safe fs (write_person_pages x folder ps i)"
proof -
  have "careful_at safe fs (\<lambda>s. remove_meeting_line x i rendered (stale_managed_pages (ledger s) rendered) s) s"
    if "previous_files (ledger s) = fs" for rendered s
  proof -
    have "careful safe fs (remove_meeting_line x i rendered (stale_managed_pages (ledger s) rendered))"
      by (rule careful_remove_meeting_line) (use page that in \<open>auto simp: stale_managed_pages_def\<close>)
    then show ?thesis by (simp add: careful_everywhere careful_at_def)
  qed
  then have "careful safe fs (\<lambda>s. remove_meeting_line x i rendered (stale_managed_pages (ledger s) rendered) s)" for rendered
    unfolding careful_everywhere by (meson careful_at_def)
  then show ?thesis unfolding write_person_pages_def Let_def
    by (intro careful_andthen careful_create_directory careful_stale_temporaries careful_write_pages assms)
qed

lemma careful_copy_audio:
  assumes "\<And>extension b. safe (resolve (under folder (audio_file extension))) b"
  shows "careful safe fs (copy_audio x m folder)"
proof -
  have "careful safe fs (write_owned x (under folder (audio_file extension)) data)" for extension data
    using careful_at_write_owned assms by (simp add: careful_everywhere overwritable_def)
  moreover have "careful safe fs (\<lambda>s. andthen (edit (fold forget (gone s))) (\<lambda>_. look f) s)" for gone f
    by (rule careful_pick[where m = "\<lambda>gone. andthen (edit (fold forget gone)) (\<lambda>_. look f)"])
      (intro careful_andthen careful_edit careful_look; simp)
  ultimately show ?thesis unfolding copy_audio_def Let_def by (auto intro!: careful_andthen split: audio_source.splits)
qed

lemma careful_meeting_in: "careful safe fs (meeting_in x path)"
  unfolding meeting_in_def by (intro careful_andthen) simp_all

lemma careful_create_claim:
  "previous_files (ledger s) = fs \<Longrightarrow>
   (let (r, u) = claim_folder_from n base i
       (\<lambda>candidate (s, created). case create candidate s of (Inl e, s) \<Rightarrow> (Inl e, (s, created)) | (Inr new, s) \<Rightarrow> (Inr new, (s, new)))
       (\<lambda>folder (s, created). case meeting_of x folder s of (Inl _, s) \<Rightarrow> (None, (s, created)) | (Inr who, s) \<Rightarrow> (who, (s, created)))
       candidate suffix (s, created)
    in untouched safe s (fst u) \<and> previous_files (ledger (fst u)) = fs)"
proof (induction n arbitrary: candidate suffix s created)
  case (Suc n)
  obtain r t where c: "create candidate s = (r, t)" by (cases "create candidate s")
  have t: "untouched safe s t" "previous_files (ledger t) = fs"
    using careful_create[of safe fs candidate] Suc.prems c unfolding careful_def by (metis snd_conv)+
  obtain r' u where m: "meeting_of x candidate t = (r', u)" by (cases "meeting_of x candidate t")
  have "careful safe fs (meeting_of x candidate)" by (simp add: meeting_of_def careful_meeting_in)
  then have u: "untouched safe t u" "previous_files (ledger u) = fs"
    using t(2) m unfolding careful_def by (metis snd_conv)+
  note su = untouched_trans[OF t(1) u(1)]
  consider e where "r = Inl e" | "r = Inr True" | "r = Inr False" by (cases r) auto
  then show ?case
  proof cases
    case 3
    show ?thesis
    proof (cases "r' = Inr (Some i)")
      case True
      then show ?thesis using 3 c m su u(2) by simp
    next
      case False
      then show ?thesis using 3 c m Suc.IH[OF u(2), of "base @ [45] @ nat_text suffix" "suffix + 1" False]
        by (auto split: prod.splits sum.splits intro: untouched_trans[OF su])
    qed
  qed (use c t in simp_all)
qed simp

lemma careful_claim_folder: "careful safe fs (claim_folder x m)"
proof -
  let ?claim = "\<lambda>candidate (s, created).
      case create candidate s of (Inl e, s) \<Rightarrow> (Inl e, (s, created)) | (Inr new, s) \<Rightarrow> (Inr new, (s, new))"
  let ?owner = "\<lambda>folder (s, created).
      case meeting_of x folder s of (Inl _, s) \<Rightarrow> (None, (s, created)) | (Inr who, s) \<Rightarrow> (who, (s, created))"
  have "careful_at safe fs (\<lambda>s.
      case claim_folder_from (Suc (length (entries s))) (base_folder m) (meeting_id m) ?claim ?owner (base_folder m) 2 (s, False) of
              (None, (s, _)) \<Rightarrow> (Inl OutOfRounds, s)
            | (Some (Inl e), (s, _)) \<Rightarrow> (Inl e, s)
            | (Some (Inr folder), (s, created)) \<Rightarrow> (Inr (folder, created), s)) s" for s
  proof (cases "previous_files (ledger s) = fs")
    case True
    obtain r t created where c: "claim_folder_from (Suc (length (entries s))) (base_folder m) (meeting_id m) ?claim ?owner
        (base_folder m) 2 (s, False) = (r, (t, created))" by (rule prod_cases3)
    have "untouched safe s t" "previous_files (ledger t) = fs"
      using careful_create_claim[OF True, of "Suc (length (entries s))" "base_folder m" "meeting_id m" "base_folder m" 2 False]
      unfolding c by simp_all
    then show ?thesis unfolding careful_at_def c by (auto split: option.split sum.split)
  qed (simp add: careful_at_def)
  then show ?thesis unfolding claim_folder_def Let_def
    by (intro careful_andthen careful_create_directory) (simp add: careful_everywhere)
qed

lemma careful_recreate: "careful safe fs (recreate folder)"
  unfolding recreate_def by (intro careful_andthen) simp_all

lemma careful_read_text: "careful safe fs (read_text path)"
  unfolding read_text_def by (intro careful_andthen) simp_all

lemma careful_a_note_carries: "careful safe fs (a_note_carries x folder i)"
  unfolding a_note_carries_def by (intro careful_andthen careful_read_text) (auto intro!: careful_andthen careful_read_text)

lemma careful_a_copy_names: "careful safe fs (a_copy_names x i copies)"
  by (induction copies) (auto intro!: careful_andthen careful_meeting_in)

lemma careful_keeps_pin: "careful safe fs (keeps_pin x folder i)"
proof -
  let ?json = "under folder json_name"
  let ?by_json = "andthen (meeting_in x ?json) (\<lambda>m. ret (m = Some i))"
  let ?by_notes = "andthen (a_note_carries x folder i) (\<lambda>carries.
      if carries then ret True else (\<lambda>s. a_copy_names x i (listed_copies (ledger s) ?json) s))"
  have "careful safe fs ?by_json" by (intro careful_andthen careful_meeting_in) simp
  moreover have "careful safe fs (\<lambda>s. a_copy_names x i (listed_copies (ledger s) ?json) s)"
    by (rule careful_pick[where m = "a_copy_names x i"]) (rule careful_a_copy_names)
  then have "careful safe fs ?by_notes" by (intro careful_andthen careful_a_note_carries) auto
  ultimately show ?thesis unfolding keeps_pin_def Let_def by (intro careful_if careful_branch)
qed

lemma careful_folder_for: "careful safe fs (folder_for x m)"
proof -
  have "careful safe fs (andthen (\<lambda>s. if entry_exists s pinned then (Inr False, s) else recreate pinned s) (\<lambda>recreated.
              if recreated then ret (pinned, True)
              else
                andthen (keeps_pin x pinned (meeting_id m)) (\<lambda>keeps.
                if keeps then ret (pinned, False)
                else
                  andthen (claim_folder x m) (\<lambda>claim.
                  andthen (edit (move_folder pinned (fst claim))) (\<lambda>_. ret claim)))))" for pinned
    by (auto intro!: careful_andthen careful_if careful_recreate careful_keeps_pin careful_claim_folder careful_edit)
  then show ?thesis using careful_claim_folder unfolding folder_for_def careful_def by (auto split: option.splits)
qed

lemma careful_write_meeting:
  assumes "\<And>folder p b. people_folder settings = Some folder \<Longrightarrow> \<exists>slug. p \<in> set (render_pages m slug) \<Longrightarrow>
      safe (resolve (under folder (page_file p))) b"
    and "\<And>extension b. include_audio settings \<Longrightarrow> safe (resolve (under folder (audio_file extension))) b"
  shows "careful safe fs (write_meeting x settings today m folder)"
  unfolding write_meeting_def
  by (intro careful_andthen careful_create_directory careful_stale_temporaries)
    (auto intro!: careful_andthen careful_write_notes careful_edit careful_write_person_pages careful_copy_audio
      intro: assms split: option.splits)

end

section \<open>No file of the user's is lost\<close>

text \<open>
  The files a delivery may replace or remove: bytes the receipt says Steno wrote, a page the receipt
  lists as managed or this delivery renders into the people folder, the audio copy when it is on, and
  temporary files of the writer.
\<close>

definition ours_to_replace ::
  "vault_ext \<Rightarrow> obsidian_settings \<Rightarrow> meeting_export \<Rightarrow> delivered_file list \<Rightarrow> place \<Rightarrow> bytes \<Rightarrow> bool"
where
  "ours_to_replace x settings m fs k b \<longleftrightarrow>
     (\<exists>f\<in>set fs. ownership f = Owned \<and> file_hash f = digest x b) \<or>
     (\<exists>f\<in>set fs. ownership f = ManagedBlock \<and> k = resolve (relative_path f)) \<or>
     (\<exists>folder slug p. people_folder settings = Some folder \<and> p \<in> set (render_pages m slug) \<and>
        k = resolve (under folder (page_file p))) \<or>
     include_audio settings \<and> (\<exists>folder extension. k = resolve (under folder (audio_file extension))) \<or>
     is_temporary k"

interpretation delivery: vault_guard x "ours_to_replace x settings m fs" fs
  for x settings m fs
  by unfold_locales (auto simp: ours_to_replace_def)

text \<open>
  C4: A delivery never loses a file of the user's. Whatever the vault holds, whatever receipt it is given,
  whichever operation fails and however it ends, every file in the vault still has the bytes it had,
  unless those bytes are what the receipt says Steno wrote, or it is a person page, the audio copy that
  was asked for or a temporary of the writer. In particular a note the user edited keeps its text.
\<close>

theorem delivery_loses_no_file:
  assumes "at_place v k = Some (Regular b)"
    and "\<not> ours_to_replace x settings m
      (previous_files (new_ledger given (vault_path settings) (is_root x))) k b"
  shows "at_place (snd (deliver_meeting x settings today m given v)) k = Some (Regular b)"
proof -
  let ?l = "new_ledger given (vault_path settings) (is_root x)"
  let ?s = "\<lparr>entries = entries v, faults = faults v, ledger = ?l\<rparr>"
  let ?safe = "ours_to_replace x settings m (previous_files ?l)"
  let ?finish = "\<lambda>(folder, created).
      \<lambda>s. case write_meeting x settings today m folder s of
            (Inl e, s) \<Rightarrow> (Inl e, if created then remove_directory folder s else s)
          | (Inr _, s) \<Rightarrow> (Inr (receipt folder render_version (ledger s)), s)"
  have writes: "careful ?safe (previous_files ?l) (write_meeting x settings today m folder)" for folder
    by (rule delivery.careful_write_meeting) (auto simp: ours_to_replace_def)
  have "careful ?safe (previous_files ?l) (?finish claim)" for claim
    by (cases claim) (simp only: prod.case careful_finish[OF writes])
  then have "careful ?safe (previous_files ?l) (andthen (folder_for x m) ?finish)"
    by (intro careful_andthen delivery.careful_folder_for) blast
  then have "untouched ?safe ?s (snd (andthen (folder_for x m) ?finish ?s))"
    by (simp add: careful_def)
  moreover have "at_place ?s k = Some (Regular b)" using assms(1) by (simp add: at_place_def)
  ultimately show ?thesis using assms(2)
    by (auto simp: deliver_meeting_def Let_def untouched_def split: option.split)
qed

definition demo_ext :: vault_ext where
  "demo_ext = \<lparr>digest = take 1, json_meeting = (\<lambda>_. None), parse_uuid = (\<lambda>_. None), uuid_text = (\<lambda>_. []),
     is_root = (\<lambda>_. False)\<rparr>"

definition demo_settings :: obsidian_settings where
  "demo_settings = \<lparr>vault_path = ascii ''/v'', people_folder = None, include_audio = False\<rparr>"

definition demo_meeting :: meeting_export where
  "demo_meeting =
     \<lparr>meeting_id = 1, base_folder = ascii ''Meetings/m'', render_json = Some [7], render_folder_note = (\<lambda>_. [55]),
      render_transcript = [55], render_tasks = [55], render_vtt = [55], render_pages = (\<lambda>_. []), audio_of = NoSource\<rparr>"

text \<open>The last delivery wrote \<open>[1]\<close> to \<open>Meetings/m/m.md\<close>, and the user made it \<open>[2]\<close>.\<close>

definition demo_receipt :: delivery_receipt where
  "demo_receipt =
     \<lparr>receipt_root = ascii ''/v'', receipt_folder = ascii ''Meetings/m'',
      receipt_files = [\<lparr>relative_path = ascii ''Meetings/m/m.md'', ownership = Owned, file_hash = [1]\<rparr>],
      renderer_version = 2, receipt_warnings = []\<rparr>"

definition demo_vault :: vault where
  "demo_vault =
     \<lparr>entries = [([], Directory), ([ascii ''Meetings''], Directory), ([ascii ''Meetings'', ascii ''m''], Directory),
                 ([ascii ''Meetings'', ascii ''m'', ascii ''m.md''], Regular [2])],
      faults = []\<rparr>"

lemma delivery_loses_no_file_witness:
  "at_place (snd (deliver_meeting demo_ext demo_settings (ascii ''2026-09-24'') demo_meeting (Some demo_receipt) demo_vault))
     [ascii ''Meetings'', ascii ''m'', ascii ''m.md''] = Some (Regular [2])"
proof (rule delivery_loses_no_file)
  show "at_place demo_vault [ascii ''Meetings'', ascii ''m'', ascii ''m.md''] = Some (Regular [2])"
    by (simp add: demo_vault_def at_place_def ascii_def)
  have "previous_files (new_ledger (Some demo_receipt) (vault_path demo_settings) (is_root demo_ext)) \<in>
      {[], receipt_files demo_receipt}"
    by (simp add: new_ledger_def previous_files_def Let_def)
  then show "\<not> ours_to_replace demo_ext demo_settings demo_meeting
      (previous_files (new_ledger (Some demo_receipt) (vault_path demo_settings) (is_root demo_ext)))
      [ascii ''Meetings'', ascii ''m'', ascii ''m.md''] [2]"
    by (auto simp: ours_to_replace_def demo_receipt_def demo_ext_def demo_settings_def is_temporary_def
        temporary_prefix_def starts_with_def ascii_def)
qed

end
