(* ===== verification/Vault_Notes.thy ===== *)
theory Vault_Notes
  imports Vault_Safety
begin

text \<open>
  What a delivery does with a note: it is delivered at its path or beside it, and the searches for a
  free name end. A search tries names that all differ, and every name it passes over is taken, so it
  needs no more rounds than the vault has entries.
\<close>

section \<open>A note is delivered\<close>

lemma may_write_missing: "may_write l path True \<Longrightarrow> may_write l path exists"
  by (auto simp: may_write_def)

lemma write_result:
  "writing path (sink_write data path) s = (Inr u, t) \<Longrightarrow>
     at_place t = (at_place s)(resolve path \<mapsto> Regular data) \<and> ledger t = ledger s"
proof -
  assume w: "writing path (sink_write data path) s = (Inr u, t)"
  then have sw: "sink_write data path s = (Inr u, t)"
    by (auto simp: writing_def split: prod.splits sum.splits)
  have "ledger t = ledger s" using ledger_kept(2)[of data path s] sw by simp
  moreover have "at_place t = (at_place s)(resolve path \<mapsto> Regular data)"
    using sw by (auto simp: sink_write_def Let_def fun_eq_iff dest!: strike_same split: prod.splits if_splits)
  ultimately show ?thesis by blast
qed

lemma reuse_copy_disk: "reuse_copy x data copies s = (r, t) \<Longrightarrow> at_place t = at_place s"
proof (induction copies arbitrary: s)
  case (Cons copy copies)
  obtain d u where m: "may_reuse x copy data s = (d, u)" by (cases "may_reuse x copy data s")
  have u: "at_place u = at_place s" using may_reuse_result[OF m] by blast
  show ?case
  proof (cases "d = Inr False")
    case True
    let ?u = "if entry_exists u copy then u else u\<lparr>ledger := forget copy (ledger u)\<rparr>"
    have "reuse_copy x data copies ?u = (r, t)"
      using Cons.prems True m by (simp add: andthen_def ret_def edit_def split: if_splits)
    from Cons.IH[OF this] u show ?thesis by simp
  qed (use Cons.prems m u in \<open>auto simp: andthen_def ret_def split: sum.splits\<close>)
qed (simp add: ret_def)

lemma new_copy_disk: "new_copy n x today path data number s = (r, t) \<Longrightarrow> at_place t = at_place s"
proof (induction n arbitrary: number s)
  case (Suc n)
  let ?c = "copy_beside_path path today number"
  obtain d u where m: "may_reuse x ?c data s = (d, u)" by (cases "may_reuse x ?c data s")
  have u: "at_place u = at_place s" using may_reuse_result[OF m] by blast
  show ?case using Suc.prems Suc.IH[of "number + 1" u] m u
    by (auto simp: andthen_def ret_def Let_def split: if_splits sum.splits)
qed (simp add: fail_with_def)

lemma copy_path_disk: "copy_path x today path data s = (r, t) \<Longrightarrow> at_place t = at_place s"
  by (auto simp: copy_path_def andthen_def ret_def simp del: new_copy.simps
      dest!: reuse_copy_disk new_copy_disk split: prod.splits sum.splits option.splits)

lemma may_write_edits [simp]:
  "may_write (record_file d p o' data l) = may_write l" "may_write (forget p l) = may_write l"
  by (simp_all add: may_write_def is_first_delivery_def delivered_hash_def previous_files_def record_file_def
      forget_def fun_eq_iff)

text \<open>
  C15: A note is delivered. When writing a note ends without an error and the ledger lets Steno write its
  path (a first delivery, a folder it claimed or a note its receipt lists), the render is on the disk and
  in the receipt with its hash: at the note's own path, or, if the user edited the note, at the copy
  beside it that the result names; and nothing else in the vault changed.
\<close>

theorem note_is_delivered:
  assumes "write_note x today path data s = (Inr copy, t)" and "may_write (ledger s) path True"
  shows "\<exists>p. p = (case copy of None \<Rightarrow> path | Some c \<Rightarrow> c) \<and>
    at_place t = (at_place s)(resolve p \<mapsto> Regular data) \<and>
    bt_get (ledger_files (ledger t)) p = Some \<lparr>relative_path = p, ownership = Owned, file_hash = digest x data\<rparr>"
proof -
  obtain edited u where e: "is_edited x path data s = (Inr edited, u)"
    using assms(1) by (auto simp: write_note_def andthen_def split: prod.splits sum.splits)
  note er = is_edited_result[OF e]
  show ?thesis
  proof (cases edited)
    case False
    then have "andthen (write_owned x path data) (\<lambda>_. ret None) u = (Inr copy, t)"
      using assms(1) e by (simp add: write_note_def andthen_def)
    moreover have "may_write (ledger u) path (sink_exists u path)" using assms(2) er may_write_missing by metis
    ultimately obtain w v where w: "writing path (sink_write data path) u = (Inr v, w)"
      and "copy = None" "t = w\<lparr>ledger := record_file (digest x) path Owned data (ledger w)\<rparr>"
      by (auto simp: write_owned_def andthen_def ret_def edit_def split: prod.splits sum.splits)
    then show ?thesis using write_result[OF w] er by (simp add: record_file_def)
  next
    case True
    obtain c w where c: "copy_path x today path data u = (Inr c, w)"
      using assms(1) e True by (auto simp: write_note_def andthen_def split: prod.splits sum.splits)
    obtain v y where y: "writing c (sink_write data c) w = (Inr v, y)"
      using assms(1) e True c by (auto simp: write_note_def andthen_def split: prod.splits sum.splits)
    have "copy = Some c" and t: "t = y\<lparr>ledger := keep (digest x) path data (record_file (digest x) c Owned data (ledger y))\<rparr>"
      using assms(1) e True c y by (auto simp: write_note_def andthen_def edit_def ret_def)
    moreover have "at_place t = (at_place s)(resolve c \<mapsto> Regular data)"
      using write_result[OF y] copy_path_disk[OF c] er t by simp
    moreover have "bt_get (ledger_files (ledger t)) c = Some \<lparr>relative_path = c, ownership = Owned, file_hash = digest x data\<rparr>"
      unfolding t by (auto simp: keep_def record_file_def split: option.splits)
    ultimately show ?thesis by simp
  qed
qed

definition demo_run :: run where
  "demo_run = \<lparr>entries = [([], Directory)], faults = [],
     ledger = \<lparr>ledger_root = [], previous = None, claimed = None, ledger_files = [], ledger_warnings = []\<rparr>\<rparr>"

lemma note_is_delivered_witness:
  "at_place (snd (write_note demo_ext [] (ascii ''n'') [9] demo_run)) [ascii ''n''] = Some (Regular [9])"
proof -
  have n: "resolve (ascii ''n'') = [ascii ''n'']" by (simp add: resolve_def components_def starts_with_def ascii_def)
  have "fst (write_note demo_ext [] (ascii ''n'') [9] demo_run) = Inr None"
    by (simp add: write_note_def andthen_def is_edited_def is_directory_def entry_at_def n demo_run_def at_place_def
        reading_def sink_read_def strike_def ret_def write_owned_def may_write_def is_first_delivery_def
        sink_exists_def writing_def sink_write_def put_entry_def edit_def)
  then have "write_note demo_ext [] (ascii ''n'') [9] demo_run =
      (Inr None, snd (write_note demo_ext [] (ascii ''n'') [9] demo_run))" by (metis prod.collapse)
  moreover have "may_write (ledger demo_run) (ascii ''n'') True"
    by (simp add: may_write_def is_first_delivery_def demo_run_def)
  ultimately show ?thesis using note_is_delivered[of demo_ext "[]" "ascii ''n''" "[9]" demo_run None] n by simp
qed

section \<open>Names that differ are different places\<close>

definition place_name :: "ustring \<Rightarrow> bool" where
  "place_name p \<longleftrightarrow> p \<noteq> [] \<and> p \<noteq> [46] \<and> p \<noteq> [46, 46]"

lemma resolve_pieces: "resolve path = filter place_name (split_at_char 47 path)"
proof -
  have "concat (map (\<lambda>c. case c of Normal n \<Rightarrow> [n] | _ \<Rightarrow> []) (map (\<lambda>p. if p = [46, 46] then ParentDir else Normal p)
      (filter (\<lambda>p. p \<noteq> [] \<and> p \<noteq> [46]) ps))) = filter place_name ps" for ps
    by (induction ps) (auto simp: place_name_def)
  then show ?thesis by (simp add: resolve_def components_def Let_def)
qed

lemma split_at_char_tail:
  "c \<notin> set tail \<Longrightarrow> split_at_char c (a @ tail) = butlast (split_at_char c a) @ [last (split_at_char c a) @ tail]"
proof (induction a)
  case Nil
  then show ?case by (induction tail) auto
next
  case (Cons x a)
  then show ?case by (cases "split_at_char c a") auto
qed

text \<open>A tail with something besides dots makes a name of its own.\<close>

lemma resolve_tail:
  assumes "47 \<notin> set tail" and "\<exists>c\<in>set tail. c \<noteq> 46"
  shows "resolve (a @ tail) = filter place_name (butlast (split_at_char 47 a)) @ [last (split_at_char 47 a) @ tail]"
proof -
  have "place_name (last (split_at_char 47 a) @ tail)"
    using assms(2) by (auto simp: place_name_def append_eq_Cons_conv)
  then show ?thesis by (simp add: resolve_pieces split_at_char_tail[OF assms(1)])
qed

lemma resolve_base_differs:
  assumes "47 \<notin> set tail" and "\<exists>c\<in>set tail. c \<noteq> 46"
  shows "resolve (a @ tail) \<noteq> resolve a"
proof -
  have tail: "tail \<noteq> []" using assms(2) by auto
  have "filter place_name ps = filter place_name (butlast ps) @ filter place_name [last ps]" if "ps \<noteq> []" for ps
    using filter_append[of place_name "butlast ps" "[last ps]"] that by simp
  then have "resolve a = filter place_name (butlast (split_at_char 47 a)) @ filter place_name [last (split_at_char 47 a)]"
    unfolding resolve_pieces by simp
  then show ?thesis using tail unfolding resolve_tail[OF assms] by (simp add: append_eq_conv_conj)
qed

lemma index_of_Some: "index_of P s = Some i \<Longrightarrow> i < length s \<and> (\<forall>j<i. \<not> P (s ! j))"
  by (induction s arbitrary: i) (auto split: if_splits simp: less_Suc_eq_0_disj)

lemma index_of_None: "index_of P s = None \<longleftrightarrow> (\<forall>x\<in>set s. \<not> P x)"
  by (induction s) auto

lemma rfind_after: "rfind c s = Some i \<Longrightarrow> c \<notin> set (drop (i + 1) s)"
proof -
  assume "rfind c s = Some i"
  then obtain j where j: "index_of (\<lambda>x. x = c) (rev s) = Some j" "i = length s - 1 - j"
    by (auto simp: rfind_def)
  note js = index_of_Some[OF j(1)]
  show "c \<notin> set (drop (i + 1) s)"
  proof
    assume "c \<in> set (drop (i + 1) s)"
    then obtain n where n: "n < length (drop (i + 1) s)" "drop (i + 1) s ! n = c" by (metis in_set_conv_nth)
    let ?k = "length s - 1 - (i + 1 + n)"
    have k: "i + 1 + n < length s" using n(1) by simp
    have "?k < j" using k j(2) js by linarith
    moreover have "rev s ! ?k = s ! (length s - Suc ?k)" by (rule rev_nth) (use k in simp)
    moreover have "length s - Suc ?k = i + 1 + n" using k by simp
    moreover have "s ! (i + 1 + n) = c" using n(2) k by simp
    ultimately have "?k < j" "rev s ! ?k = c" by simp_all
    then show False using js by blast
  qed
qed

lemma rfind_None: "rfind c s = None \<longleftrightarrow> c \<notin> set s"
  by (auto simp: rfind_def index_of_None)

lemma extension_free: "split_extension path = (stem, ext) \<Longrightarrow> 47 \<notin> set ext"
proof -
  assume e: "split_extension path = (stem, ext)"
  let ?start = "case rfind 47 path of None \<Rightarrow> 0 | Some i \<Rightarrow> i + 1"
  have "47 \<notin> set (drop ?start path)" using rfind_after[of 47 path] rfind_None[of 47 path] by (auto split: option.splits)
  moreover have "set ext \<subseteq> set (drop ?start path)"
    using e by (auto simp: split_extension_def Let_def split: option.splits if_splits)
      (metis add.commute drop_drop in_set_dropD plus_1_eq_Suc)+
  ultimately show ?thesis by blast
qed

lemma copy_places_differ:
  assumes "47 \<notin> set today" and "resolve (copy_beside_path path today m) = resolve (copy_beside_path path today n)"
  shows "m = n"
proof -
  obtain stem ext where e: "split_extension path = (stem, ext)" by (cases "split_extension path")
  let ?tail = "\<lambda>k. copy_open @ today @ (if k = 1 then [] else [32] @ nat_text k) @ [41] @ ext"
  have name: "copy_beside_path path today k = stem @ ?tail k" for k by (simp add: copy_beside_path_def e)
  have "47 \<notin> set (nat_text k)" for k using nat_text_digits[of 47 k] by auto
  then have "47 \<notin> set (?tail k)" for k
    using assms(1) extension_free[OF e] by (simp add: copy_open_def ascii_def)
  moreover have "\<exists>c\<in>set (?tail k). c \<noteq> 46" for k by (auto simp: copy_open_def ascii_def)
  ultimately have "resolve (stem @ ?tail k) =
      filter place_name (butlast (split_at_char 47 stem)) @ [last (split_at_char 47 stem) @ ?tail k]" for k
    by (rule resolve_tail)
  then have "?tail m = ?tail n" using assms(2) unfolding name by simp
  then show "m = n" by (auto split: if_splits)
qed

lemma claim_places_differ:
  "resolve (base @ [45] @ nat_text m) = resolve (base @ [45] @ nat_text n) \<Longrightarrow> m = n"
  "resolve (base @ [45] @ nat_text m) \<noteq> resolve base"
proof -
  have free: "47 \<notin> set ([45] @ nat_text k)" for k using nat_text_digits[of 47 k] by auto
  have some: "\<exists>c\<in>set ([45] @ nat_text k). c \<noteq> 46" for k by simp
  show "resolve (base @ [45] @ nat_text m) = resolve (base @ [45] @ nat_text n) \<Longrightarrow> m = n"
    unfolding resolve_tail[OF free some] by simp
  show "resolve (base @ [45] @ nat_text m) \<noteq> resolve base" by (rule resolve_base_differs[OF free some])
qed

section \<open>The searches end\<close>

definition ends :: "'a step \<Rightarrow> bool" where
  "ends m \<longleftrightarrow> (\<forall>s. fst (m s) \<noteq> Inl OutOfRounds)"

lemma ends_andthen: "ends m \<Longrightarrow> (\<And>a. ends (f a)) \<Longrightarrow> ends (andthen m f)"
  unfolding ends_def andthen_def by (auto split: prod.splits sum.splits) (metis fst_conv sum.inject(1))+

lemma ends_basic [simp]:
  "ends (ret a)" "ends (edit f)" "ends (look g)" "ends (reading path body)" "ends (writing path body')"
  "e \<noteq> OutOfRounds \<Longrightarrow> ends (fail_with e)" "ends (create folder)"
  by (auto simp: ends_def ret_def edit_def look_def reading_def writing_def fail_with_def create_def
      split: prod.splits sum.splits io_error.splits)

lemma ends_branch: "ends m \<Longrightarrow> ends m' \<Longrightarrow> ends (\<lambda>s. if P s then m s else m' s)"
  by (simp add: ends_def)

lemma ends_if: "ends m \<Longrightarrow> ends (\<lambda>s. if P s then (Inr a, s) else m s)"
  by (simp add: ends_def)

lemma ends_is_edited: "ends (is_edited x path data)"
  unfolding is_edited_def by (intro ends_if ends_andthen) (auto split: option.split)

lemma ends_may_reuse: "ends (may_reuse x copy data)"
proof -
  have "ends (andthen (is_edited x copy data) (\<lambda>edited. ret (\<not> edited)))" by (intro ends_andthen ends_is_edited) simp
  then show ?thesis by (simp add: may_reuse_def ends_def)
qed

lemma ends_write_owned: "ends (write_owned x path data)"
  unfolding write_owned_def by (intro ends_if ends_andthen) simp_all

lemma ends_reuse_copy: "ends (reuse_copy x data copies)"
proof (induction copies)
  case (Cons copy copies)
  have "ends (\<lambda>s. if entry_exists s copy then ret () s else edit (forget copy) s)" by (intro ends_branch) simp_all
  then show ?case using Cons by (auto intro!: ends_andthen ends_may_reuse)
qed simp

text \<open>Rounds that run out have found every name taken.\<close>

lemma new_copy_taken:
  "new_copy n x today path data number s = (Inl OutOfRounds, t) \<Longrightarrow>
     \<forall>j. number \<le> j \<and> j < number + n \<longrightarrow> at_place s (resolve (copy_beside_path path today j)) \<noteq> None"
proof (induction n arbitrary: number s)
  case (Suc n)
  let ?c = "copy_beside_path path today number"
  obtain d u where m: "may_reuse x ?c data s = (d, u)" by (cases "may_reuse x ?c data s")
  have "d \<noteq> Inl OutOfRounds" using ends_may_reuse m unfolding ends_def by (metis fst_conv)
  moreover have "entry_exists s ?c" using Suc.prems by (auto simp: Let_def split: if_splits)
  ultimately have "new_copy n x today path data (number + 1) u = (Inl OutOfRounds, t)"
    using Suc.prems m by (auto simp: Let_def andthen_def ret_def split: sum.splits if_splits)
  note later = Suc.IH[OF this] and same = may_reuse_result[OF m]
  show ?case
  proof (intro allI impI)
    fix j
    assume j: "number \<le> j \<and> j < number + Suc n"
    show "at_place s (resolve (copy_beside_path path today j)) \<noteq> None"
    proof (cases "j = number")
      case True
      then show ?thesis using \<open>entry_exists s ?c\<close> by (simp add: entry_exists_def entry_at_def)
    next
      case False
      then show ?thesis using later same j by simp
    qed
  qed
qed auto

lemma taken_places:
  assumes "finite J" and "inj_on p J" and "\<forall>j\<in>J. at_place s (p j) \<noteq> None"
  shows "card J \<le> length (entries s)"
proof -
  have "p ` J \<subseteq> fst ` set (entries s)"
    using assms(3) unfolding at_place_def dom_map_of_conv_image_fst[symmetric] by auto
  then have "card J \<le> card (fst ` set (entries s))"
    using card_mono[of "fst ` set (entries s)" "p ` J"] card_image[OF assms(2)] by simp
  also have "\<dots> \<le> length (entries s)" by (metis card_image_le card_length finite_set le_trans)
  finally show ?thesis .
qed

lemma ends_copy_path:
  assumes "47 \<notin> set today"
  shows "ends (copy_path x today path data)"
  unfolding ends_def
proof (intro allI notI)
  fix s
  assume out: "fst (copy_path x today path data s) = Inl OutOfRounds"
  obtain d u where m: "reuse_copy x data (listed_copies (ledger s) path) s = (d, u)"
    by (cases "reuse_copy x data (listed_copies (ledger s) path) s")
  have "d \<noteq> Inl OutOfRounds" using ends_reuse_copy m unfolding ends_def by (metis fst_conv)
  then obtain t where n: "new_copy (Suc (length (entries s))) x today path data 1 u = (Inl OutOfRounds, t)"
    using out m by (auto simp: copy_path_def andthen_def ret_def simp del: new_copy.simps
        split: sum.splits option.splits) (metis prod.collapse)
  have "\<forall>j\<in>{1..<1 + Suc (length (entries s))}. at_place s (resolve (copy_beside_path path today j)) \<noteq> None"
    using new_copy_taken[OF n] reuse_copy_disk[OF m] by auto
  moreover have "inj_on (\<lambda>j. resolve (copy_beside_path path today j)) {1..<1 + Suc (length (entries s))}"
    using copy_places_differ[OF assms] by (auto intro: inj_onI)
  ultimately have "card {1..<1 + Suc (length (entries s))} \<le> length (entries s)" by (intro taken_places) simp_all
  then show False by simp
qed

lemma claim_taken:
  assumes claim: "\<And>c v r w. claim c v = (r, w) \<Longrightarrow> r = Inr False \<Longrightarrow> at_place (st v) (resolve c) \<noteq> None \<and> at_place (st w) = at_place (st v)"
    and owner: "\<And>c v r w. owner c v = (r, w) \<Longrightarrow> at_place (st w) = at_place (st v)"
  shows "claim_folder_from n base i claim owner candidate suffix s = (None, u) \<Longrightarrow>
     (0 < n \<longrightarrow> at_place (st s) (resolve candidate) \<noteq> None) \<and>
     (\<forall>j. suffix \<le> j \<and> Suc j < suffix + n \<longrightarrow> at_place (st s) (resolve (base @ [45] @ nat_text j)) \<noteq> None)"
proof (induction n arbitrary: candidate suffix s)
  case (Suc n)
  obtain r v where c: "claim candidate s = (r, v)" by (cases "claim candidate s")
  have r: "r = Inr False" using Suc.prems c by (auto split: sum.splits bool.splits)
  obtain who w where o': "owner candidate v = (who, w)" by (cases "owner candidate v")
  have "claim_folder_from n base i claim owner (base @ [45] @ nat_text suffix) (suffix + 1) w = (None, u)"
    using Suc.prems c r o' by (simp split: if_splits)
  note later = Suc.IH[OF this]
  have same: "at_place (st w) = at_place (st s)" and here: "at_place (st s) (resolve candidate) \<noteq> None"
    using claim[OF c r] owner[OF o'] by simp_all
  show ?case
  proof (intro conjI allI impI here)
    fix j
    assume j: "suffix \<le> j \<and> Suc j < suffix + Suc n"
    show "at_place (st s) (resolve (base @ [45] @ nat_text j)) \<noteq> None"
    proof (cases "j = suffix")
      case True
      then show ?thesis using later j same by simp
    next
      case False
      then show ?thesis using later j same by simp
    qed
  qed
qed auto

lemma create_taken: "create c s = (Inr False, t) \<Longrightarrow> at_place s (resolve c) \<noteq> None \<and> at_place t = at_place s"
  using create_new_result(1)[of c s t]
  by (auto simp: create_def entry_exists_def entry_at_def split: prod.splits sum.splits io_error.splits)

lemma meeting_in_disk: "meeting_in x path s = (r, t) \<Longrightarrow> at_place t = at_place s"
  by (auto simp: meeting_in_def andthen_def ret_def dest!: reading_result split: prod.splits sum.splits)

lemma ends_meeting_in: "ends (meeting_in x path)"
  unfolding meeting_in_def by (intro ends_andthen) simp_all

lemma claim_errors:
  "claim_folder_from n base i
     (\<lambda>candidate (s, created). case create candidate s of (Inl e, s) \<Rightarrow> (Inl e, (s, created)) | (Inr new, s) \<Rightarrow> (Inr new, (s, new)))
     owner candidate suffix v \<noteq> (Some (Inl OutOfRounds), u)"
proof (induction n arbitrary: candidate suffix v)
  case (Suc n)
  obtain s created where v: "v = (s, created)" by (cases v)
  have "ends (create candidate)" by simp
  then have "fst (create candidate s) \<noteq> Inl OutOfRounds" unfolding ends_def by blast
  then show ?case using Suc by (auto simp: v split: prod.splits sum.splits bool.splits if_splits)
qed simp

lemma ends_claim_folder: "ends (claim_folder x m)"
proof -
  let ?claim = "\<lambda>candidate (s, created).
      case create candidate s of (Inl e, s) \<Rightarrow> (Inl e, (s, created)) | (Inr new, s) \<Rightarrow> (Inr new, (s, new))"
  let ?owner = "\<lambda>folder (s, created).
      case meeting_of x folder s of (Inl _, s) \<Rightarrow> (None, (s, created)) | (Inr who, s) \<Rightarrow> (who, (s, created))"
  let ?base = "base_folder m"
  have found: "claim_folder_from (Suc (length (entries s))) ?base (meeting_id m) ?claim ?owner ?base 2 (s, False) \<noteq> (None, u)"
    for s :: run and u
  proof
    assume none: "claim_folder_from (Suc (length (entries s))) ?base (meeting_id m) ?claim ?owner ?base 2 (s, False) = (None, u)"
    let ?p = "\<lambda>j. if j = 1 then resolve ?base else resolve (?base @ [45] @ nat_text j)"
    have "(0 < Suc (length (entries s)) \<longrightarrow> at_place (fst (s, False)) (resolve ?base) \<noteq> None) \<and>
       (\<forall>j. 2 \<le> j \<and> Suc j < 2 + Suc (length (entries s)) \<longrightarrow> at_place (fst (s, False)) (resolve (?base @ [45] @ nat_text j)) \<noteq> None)"
    proof (rule claim_taken[OF _ _ none])
      show "at_place (fst v) (resolve c) \<noteq> None \<and> at_place (fst w) = at_place (fst v)"
        if "?claim c v = (r, w)" "r = Inr False" for c v r w
        using that create_taken[of c "fst v"] by (cases v) (auto split: prod.splits sum.splits)
      show "at_place (fst w) = at_place (fst v)" if "?owner c v = (r, w)" for c v r w
        using that by (cases v) (auto simp: meeting_of_def dest!: meeting_in_disk split: prod.splits sum.splits)
    qed
    then have "\<forall>j\<in>{1..<2 + length (entries s)}. at_place s (?p j) \<noteq> None" by auto
    moreover have "inj_on ?p {1..<2 + length (entries s)}"
      using claim_places_differ by (auto intro!: inj_onI split: if_splits) metis+
    ultimately have "card {1..<2 + length (entries s)} \<le> length (entries s)" by (intro taken_places) simp_all
    then show False by simp
  qed
  have "ends (\<lambda>s. case claim_folder_from (Suc (length (entries s))) ?base (meeting_id m) ?claim ?owner ?base 2 (s, False) of
              (None, (s, _)) \<Rightarrow> (Inl OutOfRounds, s)
            | (Some (Inl e), (s, _)) \<Rightarrow> (Inl e, s)
            | (Some (Inr folder), (s, created)) \<Rightarrow> (Inr (folder, created), s))"
    unfolding ends_def
  proof (intro allI)
    fix s :: run
    obtain r t created where c: "claim_folder_from (Suc (length (entries s))) ?base (meeting_id m) ?claim ?owner ?base 2 (s, False) = (r, (t, created))"
      by (rule prod_cases3)
    then obtain r' where "r = Some r'" using found[of s] by (cases r) auto
    moreover have "r' \<noteq> Inl OutOfRounds" using claim_errors[of _ _ _ _ _ _ "(s, False)"] c calculation by blast
    ultimately show "fst (case claim_folder_from (Suc (length (entries s))) ?base (meeting_id m) ?claim ?owner ?base 2 (s, False) of
              (None, (s, _)) \<Rightarrow> (Inl OutOfRounds, s)
            | (Some (Inl e), (s, _)) \<Rightarrow> (Inl e, s)
            | (Some (Inr folder), (s, created)) \<Rightarrow> (Inr (folder, created), s)) \<noteq> Inl OutOfRounds"
      unfolding c by (auto split: sum.split)
  qed
  then show ?thesis unfolding claim_folder_def Let_def by (intro ends_andthen) simp_all
qed


lemma ends_read_text: "ends (read_text path)"
  unfolding read_text_def by (intro ends_andthen) simp_all

lemma ends_a_note_carries: "ends (a_note_carries x folder i)"
  unfolding a_note_carries_def by (auto intro!: ends_andthen ends_read_text)

lemma ends_a_copy_names: "ends (a_copy_names x i copies)"
  by (induction copies) (auto intro!: ends_andthen ends_meeting_in)

lemma ends_keeps_pin: "ends (keeps_pin x folder i)"
proof -
  let ?json = "under folder json_name"
  have "ends (andthen (meeting_in x ?json) (\<lambda>m. ret (m = Some i)))"
    by (intro ends_andthen ends_meeting_in) simp
  moreover have "ends (andthen (a_note_carries x folder i) (\<lambda>carries.
      if carries then ret True else (\<lambda>s. a_copy_names x i (listed_copies (ledger s) ?json) s)))"
  proof (intro ends_andthen ends_a_note_carries)
    have "ends (\<lambda>s. a_copy_names x i (listed_copies (ledger s) ?json) s)"
      using ends_a_copy_names unfolding ends_def by blast
    then show "ends (if carries then ret True else (\<lambda>s. a_copy_names x i (listed_copies (ledger s) ?json) s))"
      for carries by simp
  qed
  ultimately show ?thesis unfolding keeps_pin_def Let_def by (simp add: ends_def)
qed

lemma ends_folder_for: "ends (folder_for x m)"
proof -
  have "ends (case pin of None \<Rightarrow> claim_folder x m | Some pinned \<Rightarrow>
      andthen (\<lambda>s. if entry_exists s pinned then (Inr False, s) else recreate pinned s) (\<lambda>recreated.
      if recreated then ret (pinned, True)
      else andthen (keeps_pin x pinned (meeting_id m)) (\<lambda>keeps.
        if keeps then ret (pinned, False)
        else andthen (claim_folder x m) (\<lambda>claim.
          andthen (edit (move_folder pinned (fst claim))) (\<lambda>_. ret claim)))))" for pin
    by (auto simp: recreate_def split: option.split
        intro!: ends_andthen ends_if ends_keeps_pin ends_claim_folder)
  note all = this
  show ?thesis
    unfolding folder_for_def ends_def
  proof
    fix s
    show "fst ((\<lambda>s. case pinned_folder (ledger s) of
            None \<Rightarrow> claim_folder x m s
          | Some pinned \<Rightarrow>
              andthen (\<lambda>s. if entry_exists s pinned then (Inr False, s) else recreate pinned s) (\<lambda>recreated.
              if recreated then ret (pinned, True)
              else
                andthen (keeps_pin x pinned (meeting_id m)) (\<lambda>keeps.
                if keeps then ret (pinned, False)
                else
                  andthen (claim_folder x m) (\<lambda>claim.
                  andthen (edit (move_folder pinned (fst claim))) (\<lambda>_. ret claim)))) s) s) \<noteq> Inl OutOfRounds"
      using all[of "pinned_folder (ledger s)"] by (cases "pinned_folder (ledger s)") (simp_all add: ends_def)
  qed
qed

lemma ends_write_note: "47 \<notin> set today \<Longrightarrow> ends (write_note x today path data)"
  unfolding write_note_def by (auto intro!: ends_andthen ends_is_edited ends_write_owned ends_copy_path)

lemma ends_write_notes: "47 \<notin> set today \<Longrightarrow> ends (write_notes x today folder artifacts)"
  by (induction x today folder artifacts rule: write_notes.induct) (auto intro!: ends_andthen ends_write_note)

lemma ends_write_pages: "ends (write_pages x folder i pages)"
  by (induction pages)
    (auto simp: write_page_def Let_def split: option.split intro!: ends_andthen)

lemma ends_remove_from_page: "ends (remove_from_page x i rendered path)"
  unfolding remove_from_page_def
  by (auto simp: Let_def split: option.split intro!: ends_if ends_andthen)

lemma ends_remove_meeting_line: "ends (remove_meeting_line x i rendered paths)"
  by (induction paths) (auto intro!: ends_andthen ends_remove_from_page)

lemma ends_sweep: "ends (\<lambda>s. (Inr (), remove_stale_temporaries folder s))"
  by (simp add: ends_def)

lemma ends_write_person_pages: "ends (write_person_pages x folder pages i)"
  unfolding write_person_pages_def Let_def
proof (intro ends_andthen ends_sweep ends_write_pages)
  show "ends (\<lambda>s. remove_meeting_line x i paths (stale_managed_pages (ledger s) paths) s)" for paths
    using ends_remove_meeting_line unfolding ends_def by blast
qed simp_all

lemma ends_copy_audio: "ends (copy_audio x m folder)"
proof (cases "audio_of m")
  case NoSource
  have "fst (andthen (edit f) (\<lambda>_. look g) s) \<noteq> Inl OutOfRounds" for f and g :: "run \<Rightarrow> bool" and s
    by (simp add: andthen_def edit_def look_def)
  then show ?thesis by (simp add: copy_audio_def NoSource Let_def ends_def)
qed (auto simp: copy_audio_def intro!: ends_andthen ends_write_owned)

lemma ends_write_meeting: "47 \<notin> set today \<Longrightarrow> ends (write_meeting x settings today m folder)"
  unfolding write_meeting_def
  by (auto split: option.split
      intro!: ends_andthen ends_sweep ends_write_notes ends_write_person_pages ends_copy_audio)

text \<open>
  C34: A delivery ends. The code's searches for a free name (the meeting's folder, the copy beside an
  edited note) have no bound of their own; the model gives them one round more than the disk has
  entries, and that is always enough: the names tried differ, and each round that fails has found one of
  them on the disk. The day of the copy's name must not contain a slash.
\<close>

theorem delivery_ends:
  assumes "47 \<notin> set today"
  shows "fst (deliver_meeting x settings today m given v) \<noteq> Inl OutOfRounds"
proof -
  let ?s = "\<lparr>entries = entries v, faults = faults v, ledger = new_ledger given (vault_path settings) (is_root x)\<rparr>"
  obtain r s where f: "folder_for x m ?s = (r, s)" by (cases "folder_for x m ?s")
  have "r \<noteq> Inl OutOfRounds" using ends_folder_for f unfolding ends_def by (metis fst_conv)
  moreover have "fst (write_meeting x settings today m folder s) \<noteq> Inl OutOfRounds" for folder
    using ends_write_meeting[OF assms] unfolding ends_def by blast
  moreover have "check_vault settings v \<noteq> Some OutOfRounds"
    by (auto simp: check_vault_def split: option.splits)
  ultimately show ?thesis
    by (auto simp: deliver_meeting_def andthen_def Let_def f split: option.split sum.split prod.split)
      (metis fst_conv)+
qed

lemma delivery_ends_witness:
  "fst (deliver_meeting demo_ext demo_settings (ascii ''2026-07-01'') demo_meeting None demo_vault) \<noteq> Inl OutOfRounds"
  by (rule delivery_ends) (simp add: ascii_def)

end
