(* ===== verification/Lane_Merger.thy ===== *)
theory Lane_Merger
  imports Word_Segments Ordered_Map "HOL-Library.Multiset" "HOL-Library.List_Lexorder" "HOL-Library.Product_Lexorder"
begin

text \<open>
  \<open>steno-pipeline/src/lane_merger.rs\<close> and the pure functions of \<open>pipeline.rs\<close>: the segments of the lanes
  become one transcript, each segment with its speaker; the language of a meeting; which lane carries
  the voices. Ids are derived from the meeting's as \<open>steno-core/src/model/derived_uuid.rs\<close> does. Times are
  exact fractions, so no time is a not-a-number.
\<close>

section \<open>Derived ids\<close>

unbundle bit_operations_syntax

definition hex_digit :: "nat \<Rightarrow> nat" where
  "hex_digit n = (if n < 10 then 48 + n else 55 + n)"

text \<open>\<open>uuid_string\<close>: upper-case hex in groups of 8, 4, 4, 4 and 12 digits.\<close>

definition uuid_string :: "uuid \<Rightarrow> ustring" where
  "uuid_string i =
     (let hex = map (\<lambda>k. hex_digit (unat (drop_bit (4 * (31 - k)) i AND 15))) [0..<32]
      in take 8 hex @ [45] @ take 4 (drop 8 hex) @ [45] @ take 4 (drop 12 hex) @ [45] @
         take 4 (drop 16 hex) @ [45] @ drop 20 hex)"

definition fnv_step :: "64 word \<Rightarrow> nat \<Rightarrow> 64 word" where
  "fnv_step hash b = (hash XOR of_nat b) * 0x100000001b3"

definition derived_uuid :: "uuid \<Rightarrow> ustring \<Rightarrow> uuid" where
  "derived_uuid base salt =
     (let hash = foldl fnv_step 0xcbf29ce484222325 (map unat (utf8_encode (uuid_string base @ salt)));
          second = (hash XOR 0x9e3779b97f4a7c15) * 0xbf58476d1ce4e5b9;
          second = second XOR drop_bit 31 second;
          high = (ucast hash :: uuid) AND 0xFFFFFFFFFFFF0FFF OR 0x4000;
          low = (ucast second :: uuid) AND 0x3FFFFFFFFFFFFFFF OR 0x8000000000000000
      in push_bit 64 high OR low)"

definition room_speaker_id :: "uuid \<Rightarrow> uuid" where
  "room_speaker_id meeting = derived_uuid meeting (ascii ''speaker-room'')"

definition me_speaker_id :: "uuid \<Rightarrow> uuid" where
  "me_speaker_id meeting = derived_uuid meeting (ascii ''speaker-me'')"

definition me_participant_id :: "uuid \<Rightarrow> uuid" where
  "me_participant_id meeting = derived_uuid meeting (ascii ''participant-me'')"

text \<open>The id the sources' test gives for the first cluster of a meeting of the earlier app.\<close>

lemma derived_uuid_of_the_swift_pipeline:
  "uuid_string (derived_uuid 0x516EADE840E544348AAF9214A21A604E (ascii ''speaker-Speaker 1'')) =
     ascii ''6091570E-A744-46C5-BD1E-ECCB841949C5''"
  by code_simp

section \<open>Lanes and segments\<close>

datatype audio_lane = Mic | System | Mixed

definition all_lanes :: "audio_lane list" where "all_lanes = [Mic, System, Mixed]"

fun lane_name :: "audio_lane \<Rightarrow> ustring" where
  "lane_name Mic = ascii ''mic''"
| "lane_name System = ascii ''system''"
| "lane_name Mixed = ascii ''mixed''"

datatype meeting_source = MacCall | MacInPerson | Phone

type_synonym time_range = "rat \<times> rat"

record cluster_speaker =
  cluster_id :: uuid
  cluster_ranges :: "time_range list"

record transcript_segment =
  seg_id :: uuid
  seg_start :: rat
  seg_end :: rat
  seg_speaker :: "uuid option"
  seg_lane :: audio_lane
  seg_text :: ustring
  seg_raw :: ustring

definition segment_id :: "uuid \<Rightarrow> audio_lane \<Rightarrow> nat \<Rightarrow> uuid" where
  "segment_id meeting lane index =
     derived_uuid meeting (ascii ''segment-'' @ lane_name lane @ [45] @ nat_text index)"

definition segment_duration :: "raw_segment \<Rightarrow> rat" where
  "segment_duration s = max (segment_end s - segment_start s) 0"

section \<open>The cluster of a segment\<close>

definition covers :: "rat \<Rightarrow> cluster_speaker \<Rightarrow> bool" where
  "covers midpoint c = list_ex (\<lambda>(lower, upper). lower \<le> midpoint \<and> midpoint \<le> upper) (cluster_ranges c)"

definition overlap :: "raw_segment \<Rightarrow> cluster_speaker \<Rightarrow> rat" where
  "overlap s c =
     sum_list (map (\<lambda>(lower, upper). max (min upper (segment_end s) - max lower (segment_start s)) 0)
       (cluster_ranges c))"

fun best_overlap :: "raw_segment \<Rightarrow> (uuid \<times> rat) option \<Rightarrow> cluster_speaker list \<Rightarrow> (uuid \<times> rat) option" where
  "best_overlap s best [] = best"
| "best_overlap s best (c # cs) =
     best_overlap s
       (if overlap s c > 0 \<and> overlap s c > (case best of None \<Rightarrow> 0 | Some (_, o') \<Rightarrow> o')
        then Some (cluster_id c, overlap s c) else best) cs"

definition cluster_covering :: "raw_segment \<Rightarrow> cluster_speaker list \<Rightarrow> uuid option" where
  "cluster_covering s clusters =
     (case find (covers ((segment_start s + segment_end s) / 2)) clusters of
        Some c \<Rightarrow> Some (cluster_id c)
      | None \<Rightarrow> map_option fst (best_overlap s None clusters))"

section \<open>The merge\<close>

definition segment_speaker ::
  "cluster_speaker list \<Rightarrow> uuid option \<Rightarrow> audio_lane option \<Rightarrow> uuid option \<Rightarrow> audio_lane \<Rightarrow> raw_segment \<Rightarrow> uuid option"
where
  "segment_speaker clusters me diarized fallback lane s =
     (let mic_is_room = (diarized = Some Mic)
      in if lane = Mic \<and> \<not> mic_is_room then me
         else if lane = System \<and> mic_is_room then None
         else (case cluster_covering s clusters of Some c \<Rightarrow> Some c | None \<Rightarrow> fallback))"

definition transcribed_segment ::
  "uuid \<Rightarrow> cluster_speaker list \<Rightarrow> uuid option \<Rightarrow> audio_lane option \<Rightarrow> uuid option \<Rightarrow>
    audio_lane \<Rightarrow> nat \<Rightarrow> raw_segment \<Rightarrow> transcript_segment"
where
  "transcribed_segment meeting clusters me diarized fallback lane index s =
     \<lparr>seg_id = segment_id meeting lane index, seg_start = segment_start s, seg_end = segment_end s,
      seg_speaker = segment_speaker clusters me diarized fallback lane s, seg_lane = lane,
      seg_text = segment_text s, seg_raw = segment_text s\<rparr>"

type_synonym lane_segments = "audio_lane \<Rightarrow> raw_segment list option"

text \<open>The segments with their sort keys, lane by lane; a lane that was not decoded gives none.\<close>

definition tagged_segments ::
  "uuid \<Rightarrow> lane_segments \<Rightarrow> cluster_speaker list \<Rightarrow> uuid option \<Rightarrow> audio_lane option \<Rightarrow> uuid option \<Rightarrow>
    ((rat \<times> nat \<times> nat) \<times> transcript_segment) list"
where
  "tagged_segments meeting lanes clusters me diarized fallback =
     concat (map (\<lambda>(lane_index, lane).
       (case lanes lane of
          None \<Rightarrow> []
        | Some raw \<Rightarrow>
            map (\<lambda>(index, s). ((segment_start s, lane_index, index),
                transcribed_segment meeting clusters me diarized fallback lane index s))
              (enumerate 0 raw)))
       (enumerate 0 all_lanes))"

definition merge_lanes ::
  "uuid \<Rightarrow> lane_segments \<Rightarrow> cluster_speaker list \<Rightarrow> uuid option \<Rightarrow> audio_lane option \<Rightarrow> uuid option \<Rightarrow>
    transcript_segment list"
where
  "merge_lanes meeting lanes clusters me diarized fallback =
     map snd (sort_key fst (tagged_segments meeting lanes clusters me diarized fallback))"

section \<open>Language and lanes\<close>

definition language_totals :: "raw_segment list \<Rightarrow> (ustring, rat) btree" where
  "language_totals ss =
     foldl (\<lambda>totals s.
        case segment_language s of
          None \<Rightarrow> totals
        | Some l \<Rightarrow>
            bt_insert l ((case bt_get totals l of None \<Rightarrow> 0 | Some t \<Rightarrow> t) + (segment_end s - segment_start s)) totals)
      [] ss"

text \<open>\<open>max_by\<close> by the total and, of equal totals, the smaller tag; a later maximum would win, but no two tags are equal.\<close>

fun best_total :: "ustring \<times> rat \<Rightarrow> (ustring \<times> rat) list \<Rightarrow> ustring \<times> rat" where
  "best_total best [] = best"
| "best_total best (t # ts) =
     best_total (if snd best < snd t \<or> snd best = snd t \<and> fst t \<le> fst best then t else best) ts"

definition elect_language :: "raw_segment list \<Rightarrow> ustring option" where
  "elect_language ss =
     (case language_totals ss of [] \<Rightarrow> None | t # ts \<Rightarrow> Some (fst (best_total t ts)))"

definition ordered_lanes :: "audio_lane list \<Rightarrow> audio_lane list" where
  "ordered_lanes lanes = filter (\<lambda>l. l \<in> set lanes) all_lanes"

definition diarized_lane :: "meeting_source \<Rightarrow> audio_lane list \<Rightarrow> audio_lane option" where
  "diarized_lane source lanes =
     (let preferred = (if source = MacCall then System else Mixed)
      in if preferred \<in> set lanes then Some preferred
         else (case ordered_lanes lanes of [] \<Rightarrow> None | l # ls \<Rightarrow> Some (last (l # ls))))"

definition speech_seconds :: "raw_segment list \<Rightarrow> rat" where
  "speech_seconds ss = foldl (\<lambda>total s. total + segment_duration s) 0 ss"

definition tap_carried_no_conversation :: "lane_segments \<Rightarrow> bool" where
  "tap_carried_no_conversation lanes =
     (case (lanes Mic, lanes System) of
        (Some mic, Some system) \<Rightarrow>
          speech_seconds mic > 0 \<and> speech_seconds system < speech_seconds mic * (5 / 100) \<and>
          speech_seconds system < 10
      | _ \<Rightarrow> False)"

definition diarized_lane_after_transcription ::
  "meeting_source \<Rightarrow> audio_lane list \<Rightarrow> lane_segments \<Rightarrow> audio_lane option"
where
  "diarized_lane_after_transcription source lanes transcription =
     (if source = MacCall \<and> Mic \<in> set lanes \<and> tap_carried_no_conversation transcription then Some Mic
      else diarized_lane source lanes)"

section \<open>Every segment is in the transcript\<close>

definition in_order :: "transcript_segment list \<Rightarrow> bool" where
  "in_order ts \<longleftrightarrow> sorted_wrt (\<lambda>s t. seg_start s \<le> seg_start t) ts"

lemma tagged_key: "(key, t) \<in> set (tagged_segments m lanes cs me d fb) \<Longrightarrow> fst key = seg_start t"
  by (auto simp: tagged_segments_def transcribed_segment_def split: option.splits)

text \<open>
  C11: The merged transcript holds every segment of every lane once: with its lane, its times, its text
  and the speaker the lane's rule gives it; and it is in order of time.
\<close>

theorem transcript_holds_every_segment:
  "mset (map (\<lambda>t. (seg_lane t, seg_start t, seg_end t, seg_text t, seg_raw t, seg_speaker t))
      (merge_lanes meeting lanes clusters me diarized fallback)) =
   (\<Sum>lane\<leftarrow>[Mic, System, Mixed].
      mset (map (\<lambda>s. (lane, segment_start s, segment_end s, segment_text s, segment_text s,
          segment_speaker clusters me diarized fallback lane s))
        (case lanes lane of None \<Rightarrow> [] | Some raw \<Rightarrow> raw))) \<and>
   in_order (merge_lanes meeting lanes clusters me diarized fallback)"
proof
  let ?tagged = "tagged_segments meeting lanes clusters me diarized fallback"
  let ?view = "\<lambda>t. (seg_lane t, seg_start t, seg_end t, seg_text t, seg_raw t, seg_speaker t)"
  let ?row = "\<lambda>l s. (l, segment_start s, segment_end s, segment_text s, segment_text s,
      segment_speaker clusters me diarized fallback l s)"
  have lane: "map (?view \<circ> snd) (map (\<lambda>(index, s). ((segment_start s, i, index),
        transcribed_segment meeting clusters me diarized fallback l index s)) (enumerate 0 raw)) = map (?row l) raw"
    for i :: nat and l raw
    by (intro nth_equalityI) (simp_all add: nth_enumerate_eq transcribed_segment_def)
  have "map (?view \<circ> snd) ?tagged =
      concat (map (\<lambda>l. map (?row l) (case lanes l of None \<Rightarrow> [] | Some raw \<Rightarrow> raw)) [Mic, System, Mixed])"
    unfolding tagged_segments_def all_lanes_def
    by (simp add: map_concat lane del: map_map split: option.split)
  moreover have "mset (map ?view (merge_lanes meeting lanes clusters me diarized fallback)) = mset (map (?view \<circ> snd) ?tagged)"
    by (simp add: merge_lanes_def image_mset.compositionality comp_def)
  ultimately show "mset (map ?view (merge_lanes meeting lanes clusters me diarized fallback)) =
      (\<Sum>l\<leftarrow>[Mic, System, Mixed]. mset (map (?row l) (case lanes l of None \<Rightarrow> [] | Some raw \<Rightarrow> raw)))"
    by simp
  have "sorted (map fst (sort_key fst ?tagged))" by simp
  then have "sorted_wrt (\<lambda>p q. fst p \<le> fst q) (sort_key fst ?tagged)" by (simp add: sorted_map)
  then have "sorted_wrt (\<lambda>p q. fst (fst p) \<le> fst (fst q)) (sort_key fst ?tagged)"
    by (rule sorted_wrt_mono_rel[rotated]) (auto simp: less_eq_prod_def)
  then show "in_order (merge_lanes meeting lanes clusters me diarized fallback)"
    unfolding in_order_def merge_lanes_def sorted_wrt_map
    by (rule sorted_wrt_mono_rel[rotated]) (metis prod.collapse set_sort tagged_key)
qed

section \<open>A segment goes to the voice that covers it\<close>

lemma best_overlap_spec:
  "(case best of None \<Rightarrow> True | Some (i, b) \<Rightarrow> b > 0) \<Longrightarrow>
   (case best_overlap s best cs of
      None \<Rightarrow> best = None \<and> (\<forall>c\<in>set cs. overlap s c \<le> 0)
    | Some (i, b) \<Rightarrow> b > 0 \<and> (\<forall>c\<in>set cs. overlap s c \<le> b) \<and> (case best of None \<Rightarrow> True | Some (_, b') \<Rightarrow> b' \<le> b) \<and>
        (best = Some (i, b) \<or> (\<exists>c\<in>set cs. cluster_id c = i \<and> overlap s c = b)))"
proof (induction s best cs rule: best_overlap.induct)
  case (2 s best c cs)
  let ?best = "if overlap s c > 0 \<and> overlap s c > (case best of None \<Rightarrow> 0 | Some (_, o') \<Rightarrow> o')
        then Some (cluster_id c, overlap s c) else best"
  have "case ?best of None \<Rightarrow> True | Some (i, b) \<Rightarrow> b > 0" using "2.prems" by (auto split: option.splits)
  note IH = "2.IH"[OF this]
  show ?case
  proof (cases "best_overlap s ?best cs")
    case None
    then show ?thesis using IH by (auto split: if_splits)
  next
    case (Some p)
    then show ?thesis using IH by (cases p) (auto split: if_splits option.splits)
  qed
qed (auto split: option.splits)

text \<open>
  C26: A segment is given to the voice that covers it: to the first cluster that speaks at its midpoint;
  if none does, to one that overlaps it the longest; and to nobody only if no cluster overlaps it at all.
\<close>

theorem segment_goes_to_the_covering_voice:
  "(case cluster_covering s clusters of
      None \<Rightarrow> list_all (\<lambda>c. \<not> covers ((segment_start s + segment_end s) / 2) c \<and> overlap s c \<le> 0) clusters
    | Some i \<Rightarrow>
        (\<exists>before c after. clusters = before @ c # after \<and> cluster_id c = i \<and>
           covers ((segment_start s + segment_end s) / 2) c \<and>
           list_all (\<lambda>b. \<not> covers ((segment_start s + segment_end s) / 2) b) before) \<or>
        (\<exists>c\<in>set clusters. cluster_id c = i \<and> overlap s c > 0 \<and>
           list_all (\<lambda>b. overlap s b \<le> overlap s c \<and> \<not> covers ((segment_start s + segment_end s) / 2) b) clusters))"
proof (cases "find (covers ((segment_start s + segment_end s) / 2)) clusters")
  case None
  then have "\<forall>c\<in>set clusters. \<not> covers ((segment_start s + segment_end s) / 2) c" by (simp add: find_None_iff)
  then show ?thesis using best_overlap_spec[where best = None and s = s and cs = clusters] None
    by (auto simp: cluster_covering_def list_all_iff split: option.splits)
next
  case (Some c)
  then obtain k where k: "k < length clusters" "covers ((segment_start s + segment_end s) / 2) (clusters ! k)"
      "c = clusters ! k" "\<forall>j<k. \<not> covers ((segment_start s + segment_end s) / 2) (clusters ! j)"
    by (auto simp: find_Some_iff)
  then have "clusters = take k clusters @ c # drop (Suc k) clusters" by (simp add: id_take_nth_drop)
  moreover have "list_all (\<lambda>b. \<not> covers ((segment_start s + segment_end s) / 2) b) (take k clusters)"
    using k(1,4) by (auto simp: list_all_length)
  ultimately show ?thesis using k Some by (auto simp: cluster_covering_def)
qed

section \<open>The language that was spoken the longest\<close>

definition leads :: "'k::linorder \<times> rat \<Rightarrow> 'k \<times> rat \<Rightarrow> bool" where
  "leads b t \<longleftrightarrow> snd t < snd b \<or> snd t = snd b \<and> fst b \<le> fst t"

lemma leads_trans: "leads b t \<Longrightarrow> leads t u \<Longrightarrow> leads b u"
  by (cases b; cases t; cases u) (auto simp: leads_def)

lemma best_total_spec: "best_total b ts \<in> insert b (set ts) \<and> (\<forall>t\<in>insert b (set ts). leads (best_total b ts) t)"
proof (induction b ts rule: best_total.induct)
  case (2 best t ts)
  define b where "b = (if snd best < snd t \<or> snd best = snd t \<and> fst t \<le> fst best then t else best)"
  have b: "leads b best" "leads b t" "b = best \<or> b = t" by (auto simp: leads_def b_def)
  have IH: "leads (best_total b ts) b" "best_total b ts \<in> insert b (set ts)"
      "\<forall>u\<in>set ts. leads (best_total b ts) u"
    using "2.IH" by (simp_all add: b_def)
  have "leads (best_total b ts) best" "leads (best_total b ts) t" using b IH(1) leads_trans by blast+
  moreover have "best_total best (t # ts) = best_total b ts" by (simp add: b_def)
  ultimately show ?case using IH(2,3) b(3) by auto
qed (simp add: leads_def)

definition spoken_seconds :: "raw_segment list \<Rightarrow> ustring \<Rightarrow> rat" where
  "spoken_seconds ss l =
     sum_list (map (\<lambda>s. segment_end s - segment_start s) (filter (\<lambda>s. segment_language s = Some l) ss))"

lemma language_totals_spec:
  "bt_get (language_totals ss) l =
     (if Some l \<in> segment_language ` set ss then Some (spoken_seconds ss l) else None) \<and>
   bt_ok (language_totals ss)"
proof (induction ss arbitrary: l rule: rev_induct)
  case (snoc s ss)
  show ?case
  proof (cases "segment_language s")
    case None
    then show ?thesis using snoc[of l] by (auto simp: language_totals_def spoken_seconds_def)
  next
    case (Some k)
    have "language_totals (ss @ [s]) =
        bt_insert k ((case bt_get (language_totals ss) k of None \<Rightarrow> 0 | Some t \<Rightarrow> t) + (segment_end s - segment_start s))
          (language_totals ss)"
      by (simp add: language_totals_def Some)
    moreover have "spoken_seconds ss k = 0" if "Some k \<notin> segment_language ` set ss"
    proof -
      have "filter (\<lambda>s. segment_language s = Some k) ss = []"
        using that by (force simp: filter_empty_conv)
      then show ?thesis by (simp add: spoken_seconds_def)
    qed
    ultimately show ?thesis using snoc[of k] snoc[of l] Some
      by (auto simp: spoken_seconds_def)
  qed
qed (simp add: language_totals_def bt_get_def)

text \<open>
   The meeting's language is the one spoken the longest over all its segments, the smaller tag where
  two were spoken equally long; it has none only when no segment is tagged.
\<close>

theorem elected_language_is_spoken_longest:
  "(case elect_language ss of
      None \<Rightarrow> \<forall>s\<in>set ss. segment_language s = None
    | Some l \<Rightarrow> Some l \<in> segment_language ` set ss \<and>
        (\<forall>k. Some k \<in> segment_language ` set ss \<longrightarrow> leads (l, spoken_seconds ss l) (k, spoken_seconds ss k)))"
proof -
  have totals: "bt_get (language_totals ss) l =
      (if Some l \<in> segment_language ` set ss then Some (spoken_seconds ss l) else None)" for l
    using language_totals_spec by blast
  have entry: "(l, t) \<in> set (language_totals ss) \<longleftrightarrow> bt_get (language_totals ss) l = Some t" for l t
    using bt.entries_get[of "language_totals ss" l t] language_totals_spec[of ss l] by simp
  show ?thesis
  proof (cases "language_totals ss")
    case Nil
    then have "Some l \<notin> segment_language ` set ss" for l using totals[of l] by (auto split: if_splits)
    then show ?thesis using Nil by (force simp: elect_language_def)
  next
    case (Cons t ts)
    let ?b = "best_total t ts"
    have b: "?b \<in> set (language_totals ss)" and lead: "\<forall>u\<in>set (language_totals ss). leads ?b u"
      using best_total_spec[of t ts] Cons by simp_all
    obtain l x where lx: "?b = (l, x)" by (cases ?b)
    then have "Some l \<in> segment_language ` set ss" "x = spoken_seconds ss l"
      using b entry totals[of l] by (auto split: if_splits)
    moreover have "leads (l, x) (k, spoken_seconds ss k)" if "Some k \<in> segment_language ` set ss" for k
      using lead lx entry totals[of k] that by auto
    ultimately show ?thesis using lx Cons by (simp add: elect_language_def)
  qed
qed

end
