(* ===== verification/Processing_Store.thy ===== *)
theory Processing_Store
  imports Lane_Merger
begin

text \<open>
  The rows the processing pipeline reads and writes: \<open>steno-core/src/model/meeting.rs\<close>, \<open>audio.rs\<close>,
  \<open>people.rs\<close> and \<open>delivery.rs\<close>, and the transactions of \<open>store/meetings.rs\<close>, \<open>store/assets.rs\<close> and
  \<open>store/deliveries.rs\<close> over them, each a function on the database. Left out: sample clips, tags,
  attendees, tasks, decisions and name suggestions. A summary document is its text.
\<close>

section \<open>Rows\<close>

datatype pipeline_stage =
    Decode | Transcribe | Diarize | MatchSpeakers | Merge | Cleanup | Summarize | Persist | Deliver | Retention

text \<open>The reasons the pipeline gives; a boundary's and the store's own errors are one text each.\<close>

datatype failure_reason =
    ModelsMissingReason
  | AppQuitting
  | AlreadyProcessed uuid
  | AssetNotFound uuid
  | MeetingMissing uuid
  | BoundaryError
  | StoreErrorReason
  | TwoClusters
  | CleanerCount nat nat
  | CleanerReordered uuid
  | UnknownTemplate ustring
  | NoLlmEndpoint
  | OperationPanicked
  | ExportInterrupted

datatype state_reason =
    StageFailed pipeline_stage failure_reason
  | ClosedWhileProcessing
  | AssetGoneReason
  | OtherReason ustring

datatype meeting_state = Recording | Queued | Processing | Ready | Failed state_reason

datatype title_origin = DefaultTitle | CalendarTitle | SummaryTitle | UserTitle

type_synonym llm_usage = "int \<times> int \<times> int"

fun add_usage :: "llm_usage \<Rightarrow> llm_usage \<Rightarrow> llm_usage" where
  "add_usage (p, c, r) (p', c', r') = (p + p', c + c', r + r')"

record meeting_row =
  m_title :: ustring
  m_started :: instant
  m_duration :: rat
  m_language :: "ustring option"
  m_source :: meeting_source
  m_event :: "ustring option"
  m_state :: meeting_state
  m_origin :: title_origin
  m_template :: ustring
  m_summary :: "ustring option"
  m_scratchpad :: ustring
  m_usage :: "llm_usage option"
  m_updated :: instant

datatype audio_retention = DeleteAfterProcessing | KeepDays int | KeepForever

definition nanos_per_day :: int where "nanos_per_day = 86400 * 1000000000"

fun expiry :: "audio_retention \<Rightarrow> instant \<Rightarrow> instant option" where
  "expiry DeleteAfterProcessing now = Some now"
| "expiry (KeepDays days) now = Some (now + days * nanos_per_day)"
| "expiry KeepForever now = None"

record asset_row =
  a_meeting :: uuid
  a_url :: ustring
  a_aac :: bool
  a_lanes :: "audio_lane list"
  a_sidecars :: "ustring list"
  a_mixdown :: "ustring option"
  a_retention :: audio_retention
  a_expires :: "instant option"

datatype speaker_assignment = UnknownSpeaker | Suggested uuid rat | Confirmed uuid

type_synonym embedding = "rat list"

record speaker_row =
  sp_id :: uuid
  sp_label :: ustring
  sp_assignment :: speaker_assignment
  sp_embedding :: "embedding option"

definition is_confirmed :: "speaker_row \<Rightarrow> bool" where
  "is_confirmed s = (case sp_assignment s of Confirmed _ \<Rightarrow> True | _ \<Rightarrow> False)"

datatype delivery_status = Pending | Delivered | DeliveryFailed failure_reason

record delivery_row =
  d_destination :: ustring
  d_status :: delivery_status
  d_attempt :: "instant option"

text \<open>
  The database. A meeting's rows that nothing here orders by id are lists; \<open>me\<close> has the meeting's
  participants with the role of the user, each with the person it is.
\<close>

record database =
  meetings :: "(uuid, meeting_row) btree"
  assets :: "(uuid, asset_row) btree"
  speakers :: "uuid \<Rightarrow> speaker_row list"
  segments :: "uuid \<Rightarrow> transcript_segment list"
  deliveries :: "uuid \<Rightarrow> delivery_row list"
  me :: "uuid \<Rightarrow> (uuid \<times> uuid option) list"

datatype store_error = StoreBusyError | MeetingNotFound uuid | MeetingExists uuid | NotRecording uuid | StoreBroken

section \<open>Reads\<close>

definition meeting_of_id :: "uuid \<Rightarrow> database \<Rightarrow> meeting_row option" where
  "meeting_of_id m d = bt_get (meetings d) m"

definition asset_by_id :: "uuid \<Rightarrow> database \<Rightarrow> asset_row option" where
  "asset_by_id a d = bt_get (assets d) a"

definition asset_of :: "uuid \<Rightarrow> database \<Rightarrow> (uuid \<times> asset_row) option" where
  "asset_of m d = find (\<lambda>(_, a). a_meeting a = m) (assets d)"

definition unfinished :: "meeting_state \<Rightarrow> bool" where
  "unfinished s \<longleftrightarrow> s = Queued \<or> s = Processing"

definition unfinished_meetings :: "database \<Rightarrow> (uuid \<times> meeting_row) list" where
  "unfinished_meetings d =
     sort_key (\<lambda>(i, r). (m_started r, i)) (filter (\<lambda>(_, r). unfinished (m_state r)) (meetings d))"

definition segments_of :: "uuid \<Rightarrow> database \<Rightarrow> transcript_segment list" where
  "segments_of m d = sort_key (\<lambda>s. (seg_start s, seg_id s)) (segments d m)"

definition deliveries_of :: "uuid \<Rightarrow> database \<Rightarrow> delivery_row list" where
  "deliveries_of m d = sort_key d_destination (deliveries d m)"

text \<open>A day after a failed attempt the export is owed again; so is one never attempted.\<close>

definition export_owed :: "instant \<Rightarrow> delivery_row \<Rightarrow> bool" where
  "export_owed now q =
     (case d_status q of
        Pending \<Rightarrow> True
      | DeliveryFailed _ \<Rightarrow>
          (case d_attempt q of None \<Rightarrow> True | Some t \<Rightarrow> t < now - nanos_per_day \<or> t > now)
      | Delivered \<Rightarrow> False)"

definition meetings_with_unfinished_deliveries :: "instant \<Rightarrow> database \<Rightarrow> uuid list" where
  "meetings_with_unfinished_deliveries now d =
     map fst (sort_key (\<lambda>(i, r). (m_started r, i))
       (filter (\<lambda>(i, r). m_state r = Ready \<and> list_ex (export_owed now) (deliveries d i)) (meetings d)))"

definition results_need_the_audio ::
  "uuid \<Rightarrow> meeting_row \<Rightarrow> speaker_row list \<Rightarrow> transcript_segment list \<Rightarrow> asset_row \<Rightarrow> bool"
where
  "results_need_the_audio m r ss segs a \<longleftrightarrow>
     list_ex (\<lambda>s. sp_id s = room_speaker_id m) ss \<or>
     (m_duration r > 30 \<or> \<not> m_duration r > 0) \<and>
     list_ex (\<lambda>lane. \<not> list_ex (\<lambda>s. seg_lane s = lane) segs) (a_lanes a)"

definition offers_process_again ::
  "uuid \<Rightarrow> meeting_row \<Rightarrow> speaker_row list \<Rightarrow> transcript_segment list \<Rightarrow> asset_row option \<Rightarrow> bool"
where
  "offers_process_again m r ss segs a \<longleftrightarrow>
     (case m_state r of Failed _ \<Rightarrow> True | _ \<Rightarrow> False) \<or>
     m_state r = Ready \<and> (case a of None \<Rightarrow> False | Some a \<Rightarrow> results_need_the_audio m r ss segs a)"

section \<open>Writes\<close>

definition save_meeting :: "uuid \<Rightarrow> meeting_row \<Rightarrow> database \<Rightarrow> database" where
  "save_meeting m r d = d\<lparr>meetings := bt_insert m r (meetings d)\<rparr>"

definition save_asset :: "uuid \<Rightarrow> asset_row \<Rightarrow> database \<Rightarrow> database" where
  "save_asset i a d = d\<lparr>assets := bt_insert i a (assets d)\<rparr>"

definition update_meeting ::
  "uuid \<Rightarrow> instant \<Rightarrow> (meeting_row \<Rightarrow> meeting_row) \<Rightarrow> database \<Rightarrow> store_error + unit \<times> database"
where
  "update_meeting m now mutate d =
     (case meeting_of_id m d of
        None \<Rightarrow> Inl (MeetingNotFound m)
      | Some r \<Rightarrow> Inr ((), save_meeting m ((mutate r)\<lparr>m_updated := now\<rparr>) d))"

definition set_state :: "uuid \<Rightarrow> meeting_state \<Rightarrow> instant \<Rightarrow> database \<Rightarrow> store_error + unit \<times> database" where
  "set_state m s now = update_meeting m now (\<lambda>r. r\<lparr>m_state := s\<rparr>)"

definition save_meeting_with_asset ::
  "uuid \<Rightarrow> meeting_row \<Rightarrow> uuid \<Rightarrow> asset_row \<Rightarrow> database \<Rightarrow> store_error + unit \<times> database"
where
  "save_meeting_with_asset m r i a d = Inr ((), save_asset i a (save_meeting m r d))"

definition insert_meeting_with_asset ::
  "uuid \<Rightarrow> meeting_row \<Rightarrow> uuid \<Rightarrow> asset_row \<Rightarrow> database \<Rightarrow> store_error + unit \<times> database"
where
  "insert_meeting_with_asset m r i a d =
     (if meeting_of_id m d \<noteq> None then Inl (MeetingExists m)
      else Inr ((), save_asset i a (save_meeting m r d)))"

text \<open>The settings' default retention is an argument, as is the end reason's text, which is not kept here.\<close>

definition save_stopped_recording ::
  "audio_retention \<Rightarrow> uuid \<Rightarrow> rat \<Rightarrow> uuid \<Rightarrow> asset_row \<Rightarrow> audio_retention option \<Rightarrow> instant \<Rightarrow>
    database \<Rightarrow> store_error + meeting_row \<times> database"
where
  "save_stopped_recording usual m dur i a given now d =
     (case meeting_of_id m d of
        None \<Rightarrow> Inl (MeetingNotFound m)
      | Some r \<Rightarrow>
          if m_state r \<noteq> Recording then Inl (NotRecording m)
          else
            let r = r\<lparr>m_duration := dur, m_state := Queued, m_updated := now\<rparr>;
                a = a\<lparr>a_meeting := m, a_retention := (case given of Some g \<Rightarrow> g | None \<Rightarrow> usual), a_expires := None\<rparr>
            in Inr (r, save_asset i a (save_meeting m r d)))"

definition apply_processing_results :: "meeting_row \<Rightarrow> meeting_row \<Rightarrow> meeting_row" where
  "apply_processing_results stored results =
     (let r = (if m_duration stored \<le> 0 then stored\<lparr>m_duration := m_duration results\<rparr> else stored);
          r = (if m_origin stored \<noteq> UserTitle
               then r\<lparr>m_title := m_title results, m_origin := m_origin results\<rparr> else r)
      in r\<lparr>m_language := m_language results, m_state := m_state results, m_summary := m_summary results,
           m_usage := m_usage results, m_updated := m_updated results\<rparr>)"

definition write_processing_results ::
  "uuid \<Rightarrow> meeting_row \<Rightarrow> database \<Rightarrow> store_error + unit \<times> database"
where
  "write_processing_results m results d =
     (case meeting_of_id m d of
        None \<Rightarrow> Inl (MeetingNotFound m)
      | Some r \<Rightarrow> Inr ((), save_meeting m (apply_processing_results r results) d))"

text \<open>A confirmed speaker whose id comes back keeps its confirmation. Returns the rows it replaced.\<close>

definition keep_confirmation :: "speaker_row list \<Rightarrow> speaker_row \<Rightarrow> speaker_row" where
  "keep_confirmation replaced s =
     (case find (\<lambda>k. is_confirmed k \<and> sp_id k = sp_id s) replaced of
        Some k \<Rightarrow> s\<lparr>sp_assignment := sp_assignment k\<rparr>
      | None \<Rightarrow> s)"

definition replace_transcript ::
  "uuid \<Rightarrow> meeting_row \<Rightarrow> transcript_segment list \<Rightarrow> speaker_row list \<Rightarrow> database \<Rightarrow>
    store_error + speaker_row list \<times> database"
where
  "replace_transcript m results segs ss d =
     (case write_processing_results m results d of
        Inl e \<Rightarrow> Inl e
      | Inr (_, d) \<Rightarrow>
          let replaced = speakers d m
          in Inr (replaced,
               d\<lparr>segments := (segments d)(m := segs),
                 speakers := (speakers d)(m := map (keep_confirmation replaced) ss)\<rparr>))"

definition update_text :: "transcript_segment \<Rightarrow> transcript_segment list \<Rightarrow> transcript_segment list" where
  "update_text s = map (\<lambda>t. if seg_id t = seg_id s then t\<lparr>seg_text := seg_text s\<rparr> else t)"

definition update_segment_texts ::
  "uuid \<Rightarrow> meeting_row \<Rightarrow> transcript_segment list \<Rightarrow> database \<Rightarrow> store_error + unit \<times> database"
where
  "update_segment_texts m results corrected d =
     (case write_processing_results m results d of
        Inl e \<Rightarrow> Inl e
      | Inr (_, d) \<Rightarrow> Inr ((), d\<lparr>segments := (segments d)(m := fold update_text corrected (segments d m))\<rparr>))"

definition delete_me :: "uuid \<Rightarrow> database \<Rightarrow> database" where
  "delete_me m d = d\<lparr>me := (me d)(m := filter (\<lambda>p. fst p \<noteq> me_participant_id m) (me d m))\<rparr>"

text \<open>Returns the person behind the participant, when there is one.\<close>

definition ensure_me_participant :: "uuid \<Rightarrow> database \<Rightarrow> store_error + uuid option \<times> database" where
  "ensure_me_participant m d =
     (case me d m of
        (_, person) # _ \<Rightarrow> Inr (person, d)
      | [] \<Rightarrow> Inr (None, d\<lparr>me := (me d)(m := [(me_participant_id m, None)])\<rparr>))"

definition save_delivery :: "uuid \<Rightarrow> delivery_row \<Rightarrow> database \<Rightarrow> database" where
  "save_delivery m r d =
     (let rows = deliveries d m
      in d\<lparr>deliveries := (deliveries d)(m :=
           (if list_ex (\<lambda>q. d_destination q = d_destination r) rows
            then map (\<lambda>q. if d_destination q = d_destination r then r else q) rows
            else rows @ [r]))\<rparr>)"

section \<open>What a run may change in a meeting\<close>

text \<open>
  What the user typed or chose: the scratchpad, the template, the attached event, and the title once it
  is the user's.
\<close>

definition typed_kept :: "database \<Rightarrow> database \<Rightarrow> bool" where
  "typed_kept d d' \<longleftrightarrow>
     (\<forall>m r. meeting_of_id m d = Some r \<longrightarrow>
        (\<exists>r'. meeting_of_id m d' = Some r' \<and> m_scratchpad r' = m_scratchpad r \<and> m_template r' = m_template r \<and>
           m_event r' = m_event r \<and> m_source r' = m_source r \<and> m_started r' = m_started r \<and>
           (m_origin r = UserTitle \<longrightarrow> m_title r' = m_title r \<and> m_origin r' = UserTitle)))"

lemma typed_kept_refl [simp]: "typed_kept d d"
  by (simp add: typed_kept_def)

lemma meeting_saved [simp]: "meeting_of_id m (save_meeting k r d) = (if m = k then Some r else meeting_of_id m d)"
  by (simp add: meeting_of_id_def save_meeting_def)

lemma meeting_kept_by_rows [simp]:
  "meeting_of_id m (save_asset i a d) = meeting_of_id m d"
  "meeting_of_id m (save_delivery k q d) = meeting_of_id m d"
  "meeting_of_id m (delete_me k d) = meeting_of_id m d"
  by (simp_all add: meeting_of_id_def save_asset_def save_delivery_def delete_me_def Let_def)

lemma typed_kept_rows [simp]:
  "typed_kept d (save_asset i a d)" "typed_kept d (save_delivery k q d)" "typed_kept d (delete_me k d)"
  by (simp_all add: typed_kept_def)

lemma meeting_kept_by_me: "ensure_me_participant m d = Inr (u, d') \<Longrightarrow> typed_kept d d'"
  by (auto simp: ensure_me_participant_def typed_kept_def meeting_of_id_def split: list.splits)

lemma typed_kept_results: "write_processing_results m results d = Inr (u, d') \<Longrightarrow> typed_kept d d'"
  by (auto simp: write_processing_results_def typed_kept_def apply_processing_results_def Let_def split: option.splits)

lemma typed_kept_set_state: "set_state m s now d = Inr (u, d') \<Longrightarrow> typed_kept d d'"
  by (auto simp: set_state_def update_meeting_def typed_kept_def split: option.splits)

lemma typed_kept_replace: "replace_transcript m results segs ss d = Inr (u, d') \<Longrightarrow> typed_kept d d'"
  by (auto simp: replace_transcript_def Let_def typed_kept_def meeting_of_id_def
      dest!: typed_kept_results split: sum.splits)

lemma typed_kept_texts: "update_segment_texts m results segs d = Inr (u, d') \<Longrightarrow> typed_kept d d'"
  by (auto simp: update_segment_texts_def typed_kept_def meeting_of_id_def
      dest!: typed_kept_results split: sum.splits)

end
