(* ===== verification/Job_Pool.thy ===== *)
theory Job_Pool
  imports Steno_Prelude "HOL-Library.Multiset"
begin

text \<open>
  Jobs that share a state and own things in it. A \<open>job\<close> is a tree of atomic sections, as in
  \<open>Async_Tasks\<close>, whose sections can also wait: a lock that is taken, a flag that must clear. What a job
  holds for itself (a mark it set, a lock it took, a duty it has) is a multiset of tokens, read off the
  shared state by \<open>tok\<close>. \<open>owns\<close> says of a job, section by section, what it holds and that it leaves
  everybody else's tokens alone; then, in every interleaving, the tokens of the state are those of the
  jobs, each held by one job (\<open>job_system\<close>).
\<close>

section \<open>Jobs\<close>

datatype ('s, 'a) job = Finished 'a | Section "'s \<Rightarrow> bool" "'s \<Rightarrow> 's \<times> ('s, 'a) job"

lemma job_induct [case_names Finished Section]:
  assumes "\<And>a. P (Finished a)" and "\<And>g f. (\<And>s. P (snd (f s))) \<Longrightarrow> P (Section g f)"
  shows "P j"
proof (induction j)
  case (Section g f)
  have "P (snd (f s))" for s
    by (rule Section[of "f s"]) (auto simp: snds.simps)
  then show ?case by (rule assms(2))
qed (rule assms(1))

primrec run_then :: "('s, 'a) job \<Rightarrow> ('a \<Rightarrow> ('s, 'b) job) \<Rightarrow> ('s, 'b) job" where
  "run_then (Finished a) k = k a"
| "run_then (Section g f) k = Section g (\<lambda>s. map_prod id (\<lambda>j. run_then j k) (f s))"

text \<open>One section that never waits, and one that only waits.\<close>

definition act :: "('s \<Rightarrow> 's \<times> 'a) \<Rightarrow> ('s, 'a) job" where
  "act f = Section (\<lambda>_. True) (\<lambda>s. map_prod id Finished (f s))"

definition look_at :: "('s \<Rightarrow> 'a) \<Rightarrow> ('s, 'a) job" where
  "look_at g = act (\<lambda>s. (s, g s))"

definition change :: "('s \<Rightarrow> 's) \<Rightarrow> ('s, unit) job" where
  "change f = act (\<lambda>s. (f s, ()))"

definition once :: "('s \<Rightarrow> bool) \<Rightarrow> ('s \<Rightarrow> 's) \<Rightarrow> ('s, unit) job" where
  "once g f = Section g (\<lambda>s. (f s, Finished ()))"

text \<open>A job run with nothing in between, as far as it gets: \<open>None\<close> where it would wait for ever.\<close>

primrec alone :: "('s, 'a) job \<Rightarrow> 's \<Rightarrow> ('s \<times> 'a) option" where
  "alone (Finished a) = (\<lambda>s. Some (s, a))"
| "alone (Section g f) = (\<lambda>s. if g s then (case map_prod id alone (f s) of (s', k) \<Rightarrow> k s') else None)"

lemma alone_Section: "alone (Section g f) s = (if g s then alone (snd (f s)) (fst (f s)) else None)"
  by (simp add: map_prod_def split: prod.splits)

declare alone.simps(2) [simp del]

lemma alone_act [simp]: "alone (act f) s = Some (f s)"
  by (simp add: act_def alone_Section)

lemma alone_look_at [simp]: "alone (look_at g) s = Some (s, g s)"
  by (simp add: look_at_def)

lemma alone_change [simp]: "alone (change f) s = Some (f s, ())"
  by (simp add: change_def)

lemma alone_once [simp]: "alone (once g f) s = (if g s then Some (f s, ()) else None)"
  by (simp add: once_def alone_Section)

lemma alone_run_then [simp]:
  "alone (run_then j k) s = (case alone j s of None \<Rightarrow> None | Some (s', a) \<Rightarrow> alone (k a) s')"
proof (induction j arbitrary: s rule: job_induct)
  case (Section g f)
  then show ?case by (simp add: alone_Section)
qed simp

text \<open>Lists of multisets.\<close>

lemma nth_subset_sum_list: "i < length Hs \<Longrightarrow> Hs ! i \<subseteq># sum_list Hs"
  for Hs :: "'t multiset list"
proof (induction Hs arbitrary: i)
  case (Cons K Hs)
  show ?case
  proof (cases i)
    case (Suc k)
    then have "Hs ! k \<subseteq># sum_list Hs" using Cons by simp
    then show ?thesis using Suc by (simp add: subset_mset.add_increasing)
  qed simp
qed simp

lemma sum_list_put: "i < length Hs \<Longrightarrow> sum_list (Hs[i := H]) = H + sum_list (Hs[i := {#}])"
  for Hs :: "'t multiset list"
proof (induction Hs arbitrary: i)
  case (Cons K Hs)
  then show ?case by (cases i) (simp_all add: union_ac)
qed simp

lemma sum_list_remove: "i < length Hs \<Longrightarrow> sum_list Hs - Hs ! i = sum_list (Hs[i := {#}])"
  for Hs :: "'t multiset list"
  using sum_list_put[of i Hs "Hs ! i"] by simp

lemma subset_plus_rest: "H \<subseteq># T \<Longrightarrow> T = H + (T - H)"
  by (simp add: subset_mset.add_diff_inverse)

section \<open>What a job holds\<close>

primrec owns ::
  "('s \<Rightarrow> bool) \<Rightarrow> ('s \<Rightarrow> 't multiset) \<Rightarrow> ('s \<Rightarrow> 's \<Rightarrow> bool) \<Rightarrow> ('a \<Rightarrow> 't multiset \<Rightarrow> bool) \<Rightarrow>
   ('s, 'a) job \<Rightarrow> 't multiset \<Rightarrow> bool" where
  "owns I tok G Q (Finished a) = (\<lambda>H. Q a H)"
| "owns I tok G Q (Section g f) = (\<lambda>H.
     \<forall>s. I s \<longrightarrow> g s \<longrightarrow> H \<subseteq># tok s \<longrightarrow>
       I (fst (f s)) \<and> G s (fst (f s)) \<and>
       (\<exists>H'. tok (fst (f s)) = H' + (tok s - H) \<and> snd (map_prod id (owns I tok G Q) (f s)) H'))"

lemma owns_Section:
  "owns I tok G Q (Section g f) H \<longleftrightarrow>
     (\<forall>s. I s \<longrightarrow> g s \<longrightarrow> H \<subseteq># tok s \<longrightarrow>
       I (fst (f s)) \<and> G s (fst (f s)) \<and>
       (\<exists>H'. tok (fst (f s)) = H' + (tok s - H) \<and> owns I tok G Q (snd (f s)) H'))"
  by simp

declare owns.simps(2) [simp del]

lemma owns_run_then:
  assumes "owns I tok G P j H" and "\<And>a H'. P a H' \<Longrightarrow> owns I tok G Q (k a) H'"
  shows "owns I tok G Q (run_then j k) H"
  using assms(1)
proof (induction j arbitrary: H rule: job_induct)
  case (Section g f)
  then show ?case by (simp add: owns_Section) blast
qed (simp add: assms(2))

lemma owns_mono: "owns I tok G P j H \<Longrightarrow> (\<And>a H'. P a H' \<Longrightarrow> Q a H') \<Longrightarrow> owns I tok G Q j H"
proof (induction j arbitrary: H rule: job_induct)
  case (Section g f)
  then show ?case by (simp add: owns_Section) blast
qed simp

text \<open>A section that takes no token and gives none away.\<close>

lemma owns_act_same:
  assumes "\<And>s. I s \<Longrightarrow> H \<subseteq># tok s \<Longrightarrow>
    I (fst (f s)) \<and> G s (fst (f s)) \<and> tok (fst (f s)) = tok s \<and> Q (snd (f s)) H"
  shows "owns I tok G Q (act f) H"
  unfolding act_def owns_Section
proof (intro allI impI)
  fix s
  assume s: "I s" "H \<subseteq># tok s"
  then have "tok (fst (f s)) = H + (tok s - H)" using assms[OF s] subset_plus_rest by metis
  then show "I (fst (map_prod id Finished (f s))) \<and> G s (fst (map_prod id Finished (f s))) \<and>
      (\<exists>H'. tok (fst (map_prod id Finished (f s))) = H' + (tok s - H) \<and>
        owns I tok G Q (snd (map_prod id Finished (f s))) H')"
    using assms[OF s] by auto
qed

lemma owns_act:
  assumes "\<And>s. I s \<Longrightarrow> H \<subseteq># tok s \<Longrightarrow>
    I (fst (f s)) \<and> G s (fst (f s)) \<and> (\<exists>H'. tok (fst (f s)) = H' + (tok s - H) \<and> Q (snd (f s)) H')"
  shows "owns I tok G Q (act f) H"
  using assms by (fastforce simp: act_def owns_Section)

lemma owns_look_at:
  "(\<And>s. I s \<Longrightarrow> H \<subseteq># tok s \<Longrightarrow> G s s \<and> Q (g s) H) \<Longrightarrow> owns I tok G Q (look_at g) H"
  by (auto simp: look_at_def intro: owns_act_same)

lemma owns_once:
  assumes "\<And>s. I s \<Longrightarrow> g s \<Longrightarrow> H \<subseteq># tok s \<Longrightarrow>
    I (f s) \<and> G s (f s) \<and> (\<exists>H'. tok (f s) = H' + (tok s - H) \<and> Q () H')"
  shows "owns I tok G Q (once g f) H"
  using assms by (fastforce simp: once_def owns_Section)

lemma owns_change:
  assumes "\<And>s. I s \<Longrightarrow> H \<subseteq># tok s \<Longrightarrow>
    I (f s) \<and> G s (f s) \<and> (\<exists>H'. tok (f s) = H' + (tok s - H) \<and> Q () H')"
  shows "owns I tok G Q (change f) H"
  using assms by (fastforce simp: change_def act_def owns_Section)

section \<open>Pools of jobs\<close>

text \<open>
  One step of a pool: a job that need not wait runs its next section; a job arrives, which may change
  the state (a started job leaves the list of those to start); the world around moves.
\<close>

inductive job_step ::
  "('s \<Rightarrow> ('s, 'a) job \<Rightarrow> 's \<Rightarrow> bool) \<Rightarrow> ('s \<Rightarrow> 's \<Rightarrow> bool) \<Rightarrow>
   's \<times> ('s, 'a) job list \<Rightarrow> 's \<times> ('s, 'a) job list \<Rightarrow> bool"
  for arrives world where
  job_runs: "i < length js \<Longrightarrow> js ! i = Section g f \<Longrightarrow> g s \<Longrightarrow> f s = (s', j') \<Longrightarrow>
     job_step arrives world (s, js) (s', js[i := j'])"
| job_arrives: "arrives s j s' \<Longrightarrow> job_step arrives world (s, js) (s', js @ [j])"
| world_moves: "world s s' \<Longrightarrow> job_step arrives world (s, js) (s', js)"

inductive jobs_reach ::
  "('s \<Rightarrow> ('s, 'a) job \<Rightarrow> 's \<Rightarrow> bool) \<Rightarrow> ('s \<Rightarrow> 's \<Rightarrow> bool) \<Rightarrow> ('s \<Rightarrow> bool) \<Rightarrow>
   's \<times> ('s, 'a) job list \<Rightarrow> bool"
  for arrives world init where
  jobs_start: "init s \<Longrightarrow> jobs_reach arrives world init (s, [])"
| jobs_step: "jobs_reach arrives world init c \<Longrightarrow> job_step arrives world c c' \<Longrightarrow>
     jobs_reach arrives world init c'"

inductive_cases job_stepE [consumes 1, case_names job_runs job_arrives world_moves]:
  "job_step arrives world (s, js) c'"

text \<open>A job of the pool run for some sections, and what is left of it then.\<close>

primrec after_sections :: "nat \<Rightarrow> ('s, 'a) job \<Rightarrow> 's \<Rightarrow> ('s \<times> ('s, 'a) job) option" where
  "after_sections 0 j s = Some (s, j)"
| "after_sections (Suc n) j s =
     (case j of
        Finished _ \<Rightarrow> None
      | Section g f \<Rightarrow> if g s then after_sections n (snd (f s)) (fst (f s)) else None)"

lemma jobs_reach_sections:
  assumes "jobs_reach arrives world init (s, js)" and "i < length js"
    and "after_sections n (js ! i) s = Some (s', j')"
  shows "jobs_reach arrives world init (s', js[i := j'])"
  using assms
proof (induction n arbitrary: s js)
  case (Suc n)
  then obtain g f where j: "js ! i = Section g f" and g: "g s"
    and rest: "after_sections n (snd (f s)) (fst (f s)) = Some (s', j')"
    by (auto split: job.splits if_splits)
  have "jobs_reach arrives world init (fst (f s), js[i := snd (f s)])"
    using job_runs[OF Suc.prems(2) j g, of "fst (f s)" "snd (f s)"] Suc.prems(1) jobs_step by fastforce
  from Suc.IH[OF this] show ?case using rest Suc.prems(2) by simp
qed auto

text \<open>Any job of the pool run to its end.\<close>

lemma jobs_reach_alone_at:
  assumes "jobs_reach arrives world init (s, js)" and "i < length js" and "alone (js ! i) s = Some (s', a)"
  shows "jobs_reach arrives world init (s', js[i := Finished a])"
  using assms
proof (induction "js ! i" arbitrary: s js rule: job_induct)
  case (Finished b)
  then have "js[i := Finished b] = js" "s' = s" "a = b"
    by (metis alone.simps(1) fst_conv list_update_id option.inject snd_conv)+
  then show ?case using Finished by simp
next
  case (Section g f)
  have g: "g s" and rest: "alone (snd (f s)) (fst (f s)) = Some (s', a)"
    using Section.prems(3) Section.hyps(2)[symmetric] by (auto simp: alone_Section split: if_splits)
  have "jobs_reach arrives world init (fst (f s), js[i := snd (f s)])"
    using job_runs[OF Section.prems(2) Section.hyps(2)[symmetric] g, of "fst (f s)" "snd (f s)"] Section.prems(1) jobs_step
    by fastforce
  from Section.hyps(1)[OF _ this] show ?case using rest Section.prems(2) by simp
qed

lemma jobs_reach_alone:
  assumes "jobs_reach arrives world init (s, js @ [j])" and "alone j s = Some (s', a)"
  shows "jobs_reach arrives world init (s', js @ [Finished a])"
  using jobs_reach_alone_at[OF assms(1), of "length js" s' a] assms(2) by simp

lemma jobs_reach_world:
  "jobs_reach arrives world init (s, js) \<Longrightarrow> world s s' \<Longrightarrow> jobs_reach arrives world init (s', js)"
  by (blast intro: jobs_step world_moves)

lemma jobs_reach_arrive:
  "jobs_reach arrives world init (s, js) \<Longrightarrow> arrives s j s' \<Longrightarrow> jobs_reach arrives world init (s', js @ [j])"
  by (blast intro: jobs_step job_arrives)

text \<open>
  A system of jobs: each job that arrives brings its tokens and gives all of them up at its end; the
  world around leaves the tokens alone.
\<close>

locale job_system =
  fixes invar :: "'s \<Rightarrow> bool"
    and tok :: "'s \<Rightarrow> 't multiset"
    and guar :: "'s \<Rightarrow> 's \<Rightarrow> bool"
    and arrives :: "'s \<Rightarrow> ('s, 'a) job \<Rightarrow> 's \<Rightarrow> bool"
    and world :: "'s \<Rightarrow> 's \<Rightarrow> bool"
    and init :: "'s \<Rightarrow> bool"
  assumes init_invar: "init s \<Longrightarrow> invar s \<and> tok s = {#}"
    and arriving: "invar s \<Longrightarrow> arrives s j s' \<Longrightarrow>
      invar s' \<and> guar s s' \<and> (\<exists>H. tok s' = tok s + H \<and> owns invar tok guar (\<lambda>_ H. H = {#}) j H)"
    and moving: "invar s \<Longrightarrow> world s s' \<Longrightarrow> invar s' \<and> guar s s' \<and> tok s' = tok s"
begin

definition owned :: "'s \<times> ('s, 'a) job list \<Rightarrow> 't multiset list \<Rightarrow> bool" where
  "owned c Hs \<longleftrightarrow> invar (fst c) \<and> tok (fst c) = sum_list Hs \<and>
     list_all2 (owns invar tok guar (\<lambda>_ H. H = {#})) (snd c) Hs"

lemma step_owned:
  assumes "owned c Hs" and "job_step arrives world c c'"
  shows "guar (fst c) (fst c') \<and> (\<exists>Hs'. owned c' Hs')"
proof -
  obtain s js where c: "c = (s, js)" by (cases c)
  have I: "invar s" and T: "tok s = sum_list Hs"
    and O: "list_all2 (owns invar tok guar (\<lambda>_ H. H = {#})) js Hs"
    using assms(1) by (simp_all add: owned_def c)
  from assms(2)[unfolded c] show ?thesis
  proof (cases rule: job_stepE)
    case (job_runs i g f s' j')
    have i: "i < length Hs" using job_runs(2) O by (auto dest: list_all2_lengthD)
    have "owns invar tok guar (\<lambda>_ H. H = {#}) (Section g f) (Hs ! i)"
      using O job_runs(2,3) by (metis list_all2_nthD)
    moreover have "Hs ! i \<subseteq># tok s" using nth_subset_sum_list[OF i] T by simp
    ultimately obtain H' where H': "invar s'" "guar s s'" "tok s' = H' + (tok s - Hs ! i)"
        "owns invar tok guar (\<lambda>_ H. H = {#}) j' H'"
      using I job_runs(4,5) unfolding owns_Section by (metis fst_conv snd_conv)
    have "tok s' = sum_list (Hs[i := H'])"
      using H'(3) T sum_list_remove[OF i] sum_list_put[OF i, of H'] by simp
    moreover have "list_all2 (owns invar tok guar (\<lambda>_ H. H = {#})) (js[i := j']) (Hs[i := H'])"
      using O H'(4) by (rule list_all2_update_cong)
    ultimately show ?thesis using H' job_runs(1) by (auto simp: owned_def c)
  next
    case (job_arrives j s')
    from arriving[OF I job_arrives(2)] obtain H where H: "invar s'" "guar s s'" "tok s' = tok s + H"
        "owns invar tok guar (\<lambda>_ H. H = {#}) j H"
      by blast
    then have "owned (s', js @ [j]) (Hs @ [H])" using O T by (simp add: owned_def list_all2_appendI)
    then show ?thesis using H job_arrives(1) by (auto simp: c)
  next
    case (world_moves s')
    from moving[OF I world_moves(2)] O T have "owned (s', js) Hs" "guar s s'" by (simp_all add: owned_def)
    then show ?thesis using world_moves(1) by (auto simp: c)
  qed
qed

theorem reach_owned: "jobs_reach arrives world init c \<Longrightarrow> \<exists>Hs. owned c Hs"
proof (induction rule: jobs_reach.induct)
  case (jobs_start s)
  then show ?case using init_invar by (intro exI[of _ "[]"]) (simp add: owned_def)
next
  case (jobs_step c c')
  then show ?case using step_owned by blast
qed

lemma reach_invar: "jobs_reach arrives world init c \<Longrightarrow> invar (fst c)"
  using reach_owned by (auto simp: owned_def)

lemma step_guar:
  "jobs_reach arrives world init c \<Longrightarrow> job_step arrives world c c' \<Longrightarrow> guar (fst c) (fst c')"
  using reach_owned step_owned by blast

text \<open>Once every job has ended nothing is held any more.\<close>

lemma all_finished:
  assumes "jobs_reach arrives world init (s, js)" and "\<forall>j\<in>set js. \<exists>a. j = Finished a"
  shows "tok s = {#}"
proof -
  obtain Hs where Hs: "tok s = sum_list Hs" "list_all2 (owns invar tok guar (\<lambda>_ H. H = {#})) js Hs"
    using reach_owned[OF assms(1)] by (auto simp: owned_def)
  have "H = {#}" if H: "H \<in> set Hs" for H
  proof -
    obtain i where "i < length Hs" "Hs ! i = H" using H by (auto simp: in_set_conv_nth)
    moreover have "i < length js" using calculation(1) Hs(2) by (simp add: list_all2_lengthD)
    ultimately have "owns invar tok guar (\<lambda>_ H. H = {#}) (js ! i) H" and "js ! i \<in> set js"
      using Hs(2) by (auto dest: list_all2_nthD)
    then show ?thesis using assms(2) by fastforce
  qed
  then have "sum_list Hs = {#}" by (induction Hs) auto
  then show ?thesis using Hs(1) by simp
qed

text \<open>A token that is there once is held by one job.\<close>

lemma held_once:
  assumes "owned c Hs" and "count (tok (fst c)) t \<le> 1" and "i < length Hs" and "k < length Hs"
    and "t \<in># Hs ! i" and "t \<in># Hs ! k"
  shows "i = k"
proof (rule ccontr)
  assume "i \<noteq> k"
  have "sum_list Hs = Hs ! i + sum_list (Hs[i := {#}])"
    using sum_list_put[OF assms(3), of "Hs ! i"] by simp
  moreover have "Hs ! k \<subseteq># sum_list (Hs[i := {#}])"
    using nth_subset_sum_list[of k "Hs[i := {#}]"] assms(4) \<open>i \<noteq> k\<close> by simp
  ultimately have "count (sum_list Hs) t \<ge> count (Hs ! i) t + count (Hs ! k) t"
    by (simp add: mset_subset_eq_count)
  then show False using assms by (auto simp: owned_def count_greater_zero_iff[symmetric] simp del: count_greater_zero_iff)
qed

end

end
