(* ===== verification/Processing_World.thy ===== *)
theory Processing_World
  imports Processing_Store Job_Pool
begin

text \<open>
  What the processing pipeline's jobs share: \<open>steno-pipeline/src/pipeline.rs\<close>'s \<open>InFlight\<close>,
  \<open>ModelWaits\<close>, \<open>SharedSpeechEngine\<close> and \<open>QuitLatch\<close>, the store and the event bus, as one record, and
  the sections over them: a store call, a lock, a call of a boundary. One pipeline is modelled, the
  newest. The list \<open>lucks\<close> decides how each call ends. The fields after \<open>spawned\<close> only record what
  happened, for the properties; no guard of the code reads them.
\<close>

section \<open>Failures\<close>

record pipeline_failure =
  f_stage :: pipeline_stage
  f_reason :: failure_reason
  f_missing :: bool
  f_busy :: bool

definition failing :: "pipeline_stage \<Rightarrow> failure_reason \<Rightarrow> pipeline_failure" where
  "failing st reason = \<lparr>f_stage = st, f_reason = reason, f_missing = False, f_busy = False\<rparr>"

definition models_missing :: "pipeline_stage \<Rightarrow> pipeline_failure" where
  "models_missing st = \<lparr>f_stage = st, f_reason = ModelsMissingReason, f_missing = True, f_busy = False\<rparr>"

definition wrapping :: "store_error \<Rightarrow> pipeline_stage \<Rightarrow> pipeline_failure" where
  "wrapping e st = (failing st StoreErrorReason)\<lparr>f_busy := (e = StoreBusyError)\<rparr>"

text \<open>How a step ends; a panic unwinds through the job, dropping what it holds.\<close>

datatype 'a outcome = Good 'a | Bad pipeline_failure | Panicking

definition attributing :: "pipeline_stage \<Rightarrow> store_error + 'a \<Rightarrow> 'a outcome" where
  "attributing st r = (case r of Inl e \<Rightarrow> Bad (wrapping e st) | Inr a \<Rightarrow> Good a)"

definition required :: "pipeline_stage \<Rightarrow> failure_reason \<Rightarrow> store_error + 'a option \<Rightarrow> 'a outcome" where
  "required st missing r =
     (case r of Inl e \<Rightarrow> Bad (wrapping e st) | Inr None \<Rightarrow> Bad (failing st missing) | Inr (Some a) \<Rightarrow> Good a)"

section \<open>The shared state\<close>

datatype operation = SummaryRerun | Reexport

datatype posted_event =
    ProgressOf uuid pipeline_stage
  | ModelsMissingFor uuid
  | StoreBusyFor uuid
  | WaitingForRecording uuid
  | SpeakersNeedReview uuid "uuid list"
  | RetentionApplied uuid
  | OperationFailed uuid operation pipeline_failure

text \<open>How the next call of the store or a boundary ends; a refusal is a boundary's models-missing one.\<close>

datatype luck = Fine | Busy | Broken | Refused | Panics

datatype background = RunAsset uuid | RedeliverAll "uuid list"

text \<open>
  What the run numbered \<open>j\<close> did with meeting \<open>m\<close>: it was admitted, wrote a row or called the dispatcher,
  ran the engine (and whether it was loaded then), and let the meeting go.
\<close>

datatype run_event = Began uuid nat | Did uuid nat | Used uuid nat bool | Ended uuid nat

record world =
  db :: database
  clock :: instant
  lucks :: "luck list"
  calls :: nat
  models_in :: bool
  live :: bool
  on_disk :: "ustring \<Rightarrow> bool"
  quit_latch :: bool
  posts :: "posted_event list"
  marks :: "(uuid, nat) btree"
  admissions :: nat
  claimed :: "uuid list"
  held :: bool
  waiting :: "uuid set"
  for_store :: "uuid set"
  resumes :: nat
  unfinished_owed :: bool
  claims :: "(nat, bool) btree"
  preparing :: "bool option"
  turn :: bool
  runs :: "uuid \<Rightarrow> pipeline_stage option option"
  spawned :: "background list"
  claims_made :: nat
  engine_loaded :: bool
  in_hand :: "uuid multiset"
  parked :: "uuid set"
  edits :: nat
  history :: "run_event list"

type_synonym 'a work = "(world, 'a) job"

text \<open>Sequencing: a failure or a panic ends the work.\<close>

definition and_then :: "'a outcome work \<Rightarrow> ('a \<Rightarrow> 'b outcome work) \<Rightarrow> 'b outcome work" where
  "and_then j k =
     run_then j (\<lambda>r. case r of Good a \<Rightarrow> k a | Bad f \<Rightarrow> Finished (Bad f) | Panicking \<Rightarrow> Finished Panicking)"

definition mapping_result :: "('a \<Rightarrow> 'b) \<Rightarrow> 'a work \<Rightarrow> 'b work" where
  "mapping_result f j = run_then j (\<lambda>a. Finished (f a))"

section \<open>Calls of the store and of boundaries\<close>

definition next_luck :: "world \<Rightarrow> luck \<times> world" where
  "next_luck s = (case lucks s of [] \<Rightarrow> (Fine, s) | l # ls \<Rightarrow> (l, s\<lparr>lucks := ls\<rparr>))"

definition note_event :: "run_event option \<Rightarrow> world \<Rightarrow> world" where
  "note_event e s = (case e of None \<Rightarrow> s | Some e \<Rightarrow> s\<lparr>history := e # history s\<rparr>)"

text \<open>A transaction, noted as the run's when it is one: busy, failed, or done as a whole.\<close>

definition transact_as ::
  "run_event option \<Rightarrow> (database \<Rightarrow> store_error + 'a \<times> database) \<Rightarrow> (store_error + 'a) work"
where
  "transact_as e t =
     act (\<lambda>s. case next_luck s of (l, s) \<Rightarrow>
       if l = Busy then (s, Inl StoreBusyError)
       else if l = Broken then (s, Inl StoreBroken)
       else case t (db s) of
         Inl err \<Rightarrow> (s, Inl err)
       | Inr (a, d) \<Rightarrow> (note_event e (s\<lparr>db := d\<rparr>), Inr a))"

definition query :: "(database \<Rightarrow> 'a) \<Rightarrow> (store_error + 'a) work" where
  "query g = transact_as None (\<lambda>d. Inr (g d, d))"

text \<open>A call of a boundary that answers at once; \<open>f\<close> gets the number of the call.\<close>

definition boundary :: "pipeline_stage \<Rightarrow> (nat \<Rightarrow> 'a) \<Rightarrow> 'a outcome work" where
  "boundary st f =
     act (\<lambda>s. case next_luck s of (l, s) \<Rightarrow>
       let n = calls s; s = s\<lparr>calls := Suc n\<rparr>
       in (s, case l of
             Fine \<Rightarrow> Good (f n)
           | Busy \<Rightarrow> Bad (wrapping StoreBusyError st)
           | Broken \<Rightarrow> Bad (failing st BoundaryError)
           | Refused \<Rightarrow> Bad (models_missing st)
           | Panics \<Rightarrow> Panicking))"

definition post_event :: "posted_event \<Rightarrow> unit work" where
  "post_event e = change (\<lambda>s. s\<lparr>posts := e # posts s\<rparr>)"

section \<open>Meetings in flight\<close>

definition is_idle :: "world \<Rightarrow> bool" where
  "is_idle s \<longleftrightarrow> marks s = [] \<and> claimed s = []"

definition try_hold :: "world \<Rightarrow> world option" where
  "try_hold s = (if held s \<or> \<not> is_idle s then None else Some (s\<lparr>held := True\<rparr>))"

definition drop_hold :: "world \<Rightarrow> world" where
  "drop_hold s = s\<lparr>held := False\<rparr>"

definition until_released :: "unit work" where
  "until_released = once (\<lambda>s. \<not> held s) id"

definition admit :: "uuid \<Rightarrow> pipeline_stage \<Rightarrow> nat outcome work" where
  "admit m st =
     act (\<lambda>s. if bt_get (marks s) m \<noteq> None then (s, Bad (failing st (AlreadyProcessed m)))
       else (s\<lparr>marks := bt_insert m (admissions s) (marks s), admissions := Suc (admissions s),
               history := Began m (admissions s) # history s\<rparr>,
             Good (admissions s)))"

text \<open>\<open>Admitted\<close> dropped: the mark goes, then the run's entry.\<close>

definition drop_admitted :: "uuid \<Rightarrow> nat \<Rightarrow> unit work" where
  "drop_admitted m j =
     run_then (change (\<lambda>s. s\<lparr>marks := bt_remove m (marks s), history := Ended m j # history s\<rparr>))
       (\<lambda>_. change (\<lambda>s. s\<lparr>runs := (runs s)(m := None)\<rparr>))"

definition exclusively :: "uuid \<Rightarrow> pipeline_stage \<Rightarrow> (nat \<Rightarrow> 'a outcome work) \<Rightarrow> 'a outcome work" where
  "exclusively m st body =
     and_then (admit m st) (\<lambda>j.
       run_then (body j) (\<lambda>r. run_then (drop_admitted m j) (\<lambda>_. Finished r)))"

definition claim_start :: "uuid \<Rightarrow> uuid \<Rightarrow> bool work" where
  "claim_start m i =
     act (\<lambda>s. if bt_get (marks s) m \<noteq> None \<or> i \<in> set (claimed s) then (s, False)
       else (s\<lparr>claimed := i # claimed s\<rparr>, True))"

definition drop_claim :: "uuid \<Rightarrow> unit work" where
  "drop_claim i = change (\<lambda>s. s\<lparr>claimed := remove1 i (claimed s)\<rparr>)"

section \<open>Waits\<close>

text \<open>
  Each operation of \<open>ModelWaits\<close>. The last argument of one that records meetings as waiting, and
  \<open>in_hand\<close>, only say which of the meetings taken from the waits are still on a job's hands.
\<close>

definition let_go :: "uuid set \<Rightarrow> world \<Rightarrow> world" where
  "let_go W s = s\<lparr>in_hand := in_hand s - mset_set W\<rparr>"

definition wait_unless_resumed :: "uuid \<Rightarrow> nat \<Rightarrow> bool work" where
  "wait_unless_resumed m seen =
     act (\<lambda>s. if resumes s \<noteq> seen then (s, False)
       else (let_go {m} (s\<lparr>waiting := insert m (waiting s)\<rparr>), True))"

definition count_resume :: "uuid set \<Rightarrow> uuid set work" where
  "count_resume already =
     act (\<lambda>s. (s\<lparr>resumes := Suc (resumes s), waiting := {},
                 in_hand := in_hand s + mset_set (waiting s - already)\<rparr>,
               waiting s))"

definition put_back :: "uuid set \<Rightarrow> uuid set \<Rightarrow> unit work" where
  "put_back M W = change (\<lambda>s. let_go W (s\<lparr>waiting := waiting s \<union> M\<rparr>))"

definition wait_for_store :: "uuid set \<Rightarrow> uuid set \<Rightarrow> unit work" where
  "wait_for_store M W = change (\<lambda>s. let_go W (s\<lparr>for_store := for_store s \<union> M\<rparr>))"

definition owe_unfinished :: "unit work" where
  "owe_unfinished = change (\<lambda>s. s\<lparr>unfinished_owed := True\<rparr>)"

definition take_store_waits :: "(uuid set \<times> bool) work" where
  "take_store_waits =
     act (\<lambda>s. (s\<lparr>for_store := {}, unfinished_owed := False, in_hand := in_hand s + mset_set (for_store s)\<rparr>,
               (for_store s, unfinished_owed s)))"

text \<open>A meeting a job need not care for any more: it was started again, or is not unfinished.\<close>

definition settle :: "uuid set \<Rightarrow> uuid set \<Rightarrow> unit work" where
  "settle M W = change (\<lambda>s. let_go W (s\<lparr>parked := parked s - M\<rparr>))"

text \<open>A run left its meeting queued: the job has to see to it that the meeting waits.\<close>

definition leave_parked :: "uuid \<Rightarrow> posted_event \<Rightarrow> unit work" where
  "leave_parked m e =
     change (\<lambda>s. s\<lparr>posts := e # posts s, parked := insert m (parked s), in_hand := in_hand s + {#m#}\<rparr>)"

section \<open>The speech engine's claims and locks\<close>

text \<open>A claim's flag records that the engine was loaded under it; the code keeps the number of claims.\<close>

definition claim_engine :: "nat work" where
  "claim_engine =
     act (\<lambda>s. (s\<lparr>claims := bt_insert (claims_made s) False (claims s), claims_made := Suc (claims_made s)\<rparr>,
               claims_made s))"

definition end_claim :: "nat \<Rightarrow> unit work" where
  "end_claim c = change (\<lambda>s. s\<lparr>claims := bt_remove c (claims s)\<rparr>)"

definition no_claims :: "world \<Rightarrow> bool" where
  "no_claims s \<longleftrightarrow> length (claims s) = 0"

definition lock_preparing :: "unit work" where
  "lock_preparing = once (\<lambda>s. preparing s = None) (\<lambda>s. s\<lparr>preparing := Some False\<rparr>)"

definition unlock_preparing :: "unit work" where
  "unlock_preparing = change (\<lambda>s. s\<lparr>preparing := None\<rparr>)"

text \<open>The engine loads; the warm-up of a job notes it in its claim.\<close>

definition engine_prepare :: "nat option \<Rightarrow> unit outcome work" where
  "engine_prepare c =
     act (\<lambda>s. case next_luck s of (l, s) \<Rightarrow>
       let s = s\<lparr>calls := Suc (calls s)\<rparr>
       in (case l of
             Fine \<Rightarrow> (s\<lparr>engine_loaded := True,
                        claims := (case c of None \<Rightarrow> claims s | Some c \<Rightarrow> bt_insert c True (claims s))\<rparr>, Good ())
           | Busy \<Rightarrow> (s, Bad (wrapping StoreBusyError Decode))
           | Broken \<Rightarrow> (s, Bad (failing Decode BoundaryError))
           | Refused \<Rightarrow> (s, Bad (models_missing Decode))
           | Panics \<Rightarrow> (s, Panicking)))"

text \<open>The engine runs: a section where the call starts and one where it answers.\<close>

definition engine_transcribe :: "uuid \<Rightarrow> nat \<Rightarrow> (nat \<Rightarrow> 'a) \<Rightarrow> 'a outcome work" where
  "engine_transcribe m j f =
     run_then (change (\<lambda>s. s\<lparr>history := Used m j (engine_loaded s) # history s\<rparr>)) (\<lambda>_.
     run_then (boundary Transcribe f) (\<lambda>r.
     run_then (change (\<lambda>s. s\<lparr>history := Used m j (engine_loaded s) # history s\<rparr>)) (\<lambda>_.
     Finished r)))"

text \<open>
  \<open>finish_speech\<close>: the claim ends, and the engine is released once none is left, checked again under the
  lock. A release that fails may have freed the engine too.
\<close>

definition finish_speech :: "nat \<Rightarrow> unit work" where
  "finish_speech c =
     run_then (end_claim c) (\<lambda>_.
     run_then (look_at no_claims) (\<lambda>free.
     if \<not> free then Finished () else
     run_then lock_preparing (\<lambda>_.
     run_then (act (\<lambda>s. if no_claims s then (s\<lparr>preparing := Some True\<rparr>, True) else (s, False))) (\<lambda>still_free.
     run_then (if still_free then change (\<lambda>s. s\<lparr>engine_loaded := False\<rparr>) else Finished ()) (\<lambda>_.
     unlock_preparing)))))"

end
