(* ===== verification/Processing_Run.thy ===== *)
theory Processing_Run
  imports Processing_World
begin

text \<open>
  A run of the pipeline, stage by stage: \<open>process_until_persist\<close>, \<open>persist\<close>, \<open>deliver\<close> and
  \<open>retention\<close> of \<open>steno-pipeline/src/pipeline.rs\<close>. The decoder, the engine, the diarizer, the speaker
  memory, the language model and the delivery dispatcher are the functions of \<open>services\<close>; the first
  argument of each is the number of its call, so that two calls may answer differently. Left out:
  progress estimates and learned rates, sample clips, and the settings handed to the boundaries.
\<close>

section \<open>The boundaries\<close>

record lane_buffer =
  buffer_seconds :: rat
  buffer_damaged :: bool
  buffer_samples :: "int list"

record voice_cluster =
  vc_label :: ustring
  vc_ranges :: "time_range list"
  vc_embedding :: "embedding option"

record summary_output =
  so_summary :: ustring
  so_title :: ustring
  so_language :: "ustring option"
  so_usage :: llm_usage

record services =
  speech_in_process :: bool
  decoded :: "nat \<Rightarrow> asset_row \<Rightarrow> audio_lane \<Rightarrow> lane_buffer"
  transcribed :: "nat \<Rightarrow> lane_buffer \<Rightarrow> ustring option \<Rightarrow> raw_segment list"
  voices :: "nat \<Rightarrow> lane_buffer \<Rightarrow> voice_cluster list"
  matched_voice :: "nat \<Rightarrow> embedding \<Rightarrow> (uuid \<times> rat) option"
  cleaner :: "(nat \<Rightarrow> transcript_segment list \<Rightarrow> ustring option \<Rightarrow> speaker_row list \<Rightarrow>
    transcript_segment list \<times> llm_usage) option"
  summarizer :: "(nat \<Rightarrow> meeting_row \<Rightarrow> transcript_segment list \<Rightarrow> speaker_row list \<Rightarrow> summary_output) option"
  mixdown_url :: "asset_row \<Rightarrow> ustring option"
  pending_rows :: "uuid \<Rightarrow> delivery_row list"
  delivered_rows :: "nat \<Rightarrow> uuid \<Rightarrow> delivery_row list"

definition bundled_templates :: "ustring list" where
  "bundled_templates = [ascii ''default'', ascii ''customer-discovery'', ascii ''daily-standup'', ascii ''interview'']"

section \<open>Stage plumbing\<close>

definition post_progress :: "pipeline_stage \<Rightarrow> uuid \<Rightarrow> unit work" where
  "post_progress st m =
     change (\<lambda>s. s\<lparr>runs := (case runs s m of None \<Rightarrow> runs s | Some _ \<Rightarrow> (runs s)(m := Some (Some st))),
                   posts := ProgressOf m st # posts s\<rparr>)"

definition stage_in_progress :: "uuid \<Rightarrow> world \<Rightarrow> pipeline_stage" where
  "stage_in_progress m s = (case runs s m of Some (Some st) \<Rightarrow> st | _ \<Rightarrow> Decode)"

text \<open>A failure once the models are gone is the refusal.\<close>

definition models_gone :: "'a outcome \<Rightarrow> 'a outcome work" where
  "models_gone r =
     (case r of
        Bad f \<Rightarrow>
          if f_missing f then Finished r
          else mapping_result (\<lambda>there. if there then r else Bad (models_missing (f_stage f))) (look_at models_in)
      | _ \<Rightarrow> Finished r)"

definition run_stage :: "pipeline_stage \<Rightarrow> uuid \<Rightarrow> 'a outcome work \<Rightarrow> 'a outcome work" where
  "run_stage st m body =
     run_then (post_progress st m) (\<lambda>_.
     run_then body (\<lambda>r. if st = Transcribe \<or> st = Diarize then models_gone r else Finished r))"

text \<open>The rates the run is estimated by are read, and may fail to be.\<close>

definition begin_run :: "uuid \<Rightarrow> pipeline_stage \<Rightarrow> unit outcome work" where
  "begin_run m first =
     and_then (mapping_result (attributing first) (query (\<lambda>_. ()))) (\<lambda>_.
       mapping_result Good (change (\<lambda>s. s\<lparr>runs := (runs s)(m := Some None)\<rparr>)))"

definition stage_transact ::
  "run_event option \<Rightarrow> pipeline_stage \<Rightarrow> (database \<Rightarrow> store_error + 'a \<times> database) \<Rightarrow> 'a outcome work"
where
  "stage_transact e st t = mapping_result (attributing st) (transact_as e t)"

definition own_transact ::
  "uuid \<Rightarrow> nat \<Rightarrow> pipeline_stage \<Rightarrow> (database \<Rightarrow> store_error + 'a \<times> database) \<Rightarrow> 'a outcome work"
where
  "own_transact m j = stage_transact (Some (Did m j))"

definition stage_query :: "pipeline_stage \<Rightarrow> (database \<Rightarrow> 'a) \<Rightarrow> 'a outcome work" where
  "stage_query st g = mapping_result (attributing st) (query g)"

definition always :: "(database \<Rightarrow> database) \<Rightarrow> database \<Rightarrow> store_error + unit \<times> database" where
  "always f d = Inr ((), f d)"

section \<open>The speech engine\<close>

definition in_process_turn :: "services \<Rightarrow> uuid \<Rightarrow> pipeline_stage \<Rightarrow> bool outcome work" where
  "in_process_turn svc m st =
     (if \<not> speech_in_process svc then Finished (Good False) else
      run_then (look_at live) (\<lambda>was_live.
      run_then (if was_live then post_event (WaitingForRecording m) else Finished ()) (\<lambda>_.
      run_then (once (\<lambda>s. \<not> turn s) (\<lambda>s. s\<lparr>turn := True\<rparr>)) (\<lambda>_.
      run_then (look_at live) (\<lambda>is_live.
      run_then (if is_live \<and> \<not> was_live then post_event (WaitingForRecording m) else Finished ()) (\<lambda>_.
      run_then (if is_live then once (\<lambda>s. \<not> live s) id else Finished ()) (\<lambda>_.
      run_then (look_at quit_latch) (\<lambda>quitting.
        if quitting then
          run_then (change (\<lambda>s. s\<lparr>turn := False\<rparr>)) (\<lambda>_. Finished (Bad (failing st AppQuitting)))
        else Finished (Good True)))))))))"

text \<open>Work under the turn, which is given up however the work ends.\<close>

definition holding_turn :: "bool \<Rightarrow> 'a outcome work \<Rightarrow> 'a outcome work" where
  "holding_turn taken body =
     run_then body (\<lambda>r.
       if taken then run_then (change (\<lambda>s. s\<lparr>turn := False\<rparr>)) (\<lambda>_. Finished r) else Finished r)"

definition warm_up :: "nat option \<Rightarrow> unit outcome work" where
  "warm_up c =
     run_then (look_at models_in) (\<lambda>there.
       if \<not> there then Finished (Bad (models_missing Decode))
       else
         run_then lock_preparing (\<lambda>_.
         run_then
           (and_then (run_then (engine_prepare c) models_gone) (\<lambda>_.
              run_then (boundary Diarize (\<lambda>_. ())) models_gone))
           (\<lambda>r. run_then unlock_preparing (\<lambda>_. Finished r))))"

definition carry_on_after :: "pipeline_failure \<Rightarrow> unit outcome work" where
  "carry_on_after f =
     run_then (look_at quit_latch) (\<lambda>quitting.
       Finished (if f_missing f \<or> f_busy f \<or> quitting then Bad f else Good ()))"

definition warm_up_for_job :: "nat \<Rightarrow> unit outcome work" where
  "warm_up_for_job c =
     run_then (warm_up (Some c)) (\<lambda>r.
       case r of Bad f \<Rightarrow> if f_stage f = Diarize then carry_on_after f else Finished r | _ \<Rightarrow> Finished r)"

definition warm_up_diarizer :: "unit outcome work" where
  "warm_up_diarizer =
     run_then lock_preparing (\<lambda>_.
     run_then (run_then (boundary Diarize (\<lambda>_. ())) models_gone) (\<lambda>r.
     run_then unlock_preparing (\<lambda>_. Finished r)))"

section \<open>Decode and transcribe\<close>

record transcription =
  t_lanes :: lane_segments
  t_language :: "ustring option"
  t_seconds :: rat

type_synonym decoded_lane = "audio_lane \<times> lane_buffer"

text \<open>
  The lanes left to decode, the number of the next, and what the loop has: the segments, the hint, the
  last decoded lane, whether any part was damaged, and the longest length.
\<close>

primrec transcribe_lanes ::
  "services \<Rightarrow> uuid \<Rightarrow> nat \<Rightarrow> asset_row \<Rightarrow> audio_lane list \<Rightarrow> nat \<Rightarrow> lane_segments \<Rightarrow> ustring option \<Rightarrow>
    decoded_lane option \<Rightarrow> bool \<Rightarrow> rat \<Rightarrow> (lane_segments \<times> decoded_lane option \<times> bool \<times> rat) outcome work"
where
  "transcribe_lanes svc m j a [] index lanes hint final damaged longest =
     Finished (Good (lanes, final, damaged, longest))"
| "transcribe_lanes svc m j a (lane # rest) index lanes hint final damaged longest =
     (let decode = boundary Decode (\<lambda>n. decoded svc n a lane)
      in and_then (if index = 0 then run_stage Decode m decode else decode) (\<lambda>buffer.
         and_then (in_process_turn svc m Transcribe) (\<lambda>taken.
         and_then
           (holding_turn taken
             (run_stage Transcribe m (engine_transcribe m j (\<lambda>n. transcribed svc n buffer hint)))) (\<lambda>segs.
           transcribe_lanes svc m j a rest (Suc index) (lanes(lane := Some segs))
             (case elect_language segs of Some l \<Rightarrow> Some l | None \<Rightarrow> hint)
             (Some (lane, buffer)) (damaged \<or> buffer_damaged buffer)
             (max longest (buffer_seconds buffer))))))"

text \<open>The segments of every decoded lane, in the order of the lanes.\<close>

definition all_segments :: "lane_segments \<Rightarrow> raw_segment list" where
  "all_segments lanes = concat (map (\<lambda>l. case lanes l of None \<Rightarrow> [] | Some ss \<Rightarrow> ss) all_lanes)"

definition decode_and_transcribe ::
  "services \<Rightarrow> uuid \<Rightarrow> nat \<Rightarrow> uuid \<Rightarrow> asset_row \<Rightarrow> (transcription \<times> decoded_lane option) outcome work"
where
  "decode_and_transcribe svc m j i a =
     and_then (transcribe_lanes svc m j a (ordered_lanes (a_lanes a)) 0 (\<lambda>_. None) None None False 0)
       (\<lambda>(lanes, final, damaged, longest).
     and_then
       (if damaged \<and> a_retention a \<noteq> KeepForever then
          and_then (stage_query Decode (asset_by_id i)) (\<lambda>found.
            case found of
              None \<Rightarrow> Finished (Good ())
            | Some kept \<Rightarrow> own_transact m j Decode
                (always (save_asset i (kept\<lparr>a_retention := KeepForever, a_expires := None\<rparr>))))
        else Finished (Good ())) (\<lambda>_.
     Finished (Good (\<lparr>t_lanes = lanes, t_language = elect_language (all_segments lanes), t_seconds = longest\<rparr>,
       final))))"

section \<open>Diarize and match the speakers\<close>

record diarization =
  di_speakers :: "speaker_row list"
  di_clusters :: "cluster_speaker list"
  di_lane :: "audio_lane option"
  di_fallback :: "uuid option"

definition no_diarization :: diarization where
  "no_diarization = \<lparr>di_speakers = [], di_clusters = [], di_lane = None, di_fallback = None\<rparr>"

fun repeated_label :: "ustring set \<Rightarrow> voice_cluster list \<Rightarrow> bool" where
  "repeated_label seen [] = False"
| "repeated_label seen (v # vs) = (vc_label v \<in> seen \<or> repeated_label (insert (vc_label v) seen) vs)"

definition cluster_speaker_id :: "uuid \<Rightarrow> voice_cluster \<Rightarrow> uuid" where
  "cluster_speaker_id m v = derived_uuid m (ascii ''speaker-'' @ vc_label v)"

definition diarize ::
  "services \<Rightarrow> uuid \<Rightarrow> asset_row \<Rightarrow> audio_lane option \<Rightarrow> decoded_lane option \<Rightarrow> diarization outcome work"
where
  "diarize svc m a lane handed =
     run_stage Diarize m
       (case lane of
          None \<Rightarrow> Finished (Good no_diarization)
        | Some lane \<Rightarrow>
            and_then
              (case handed of
                 Some (l, buffer) \<Rightarrow>
                   if l = lane then Finished (Good buffer) else boundary Diarize (\<lambda>n. decoded svc n a lane)
               | None \<Rightarrow> boundary Diarize (\<lambda>n. decoded svc n a lane)) (\<lambda>buffer.
            and_then (boundary Diarize (\<lambda>n. voices svc n buffer)) (\<lambda>vs.
              if lane = Mic \<and> length vs < 2 then Finished (Good no_diarization)
              else if repeated_label {} vs then Finished (Bad (failing Diarize TwoClusters))
              else Finished (Good
                \<lparr>di_speakers = map (\<lambda>v. \<lparr>sp_id = cluster_speaker_id m v, sp_label = vc_label v,
                     sp_assignment = UnknownSpeaker, sp_embedding = vc_embedding v\<rparr>) vs,
                 di_clusters = map (\<lambda>v. \<lparr>cluster_id = cluster_speaker_id m v, cluster_ranges = vc_ranges v\<rparr>) vs,
                 di_lane = Some lane, di_fallback = None\<rparr>))))"

text \<open>Without the diarizer the stored speakers keep the spans they own on the lane.\<close>

definition stored_owner ::
  "audio_lane \<Rightarrow> transcript_segment list \<Rightarrow> speaker_row \<Rightarrow> cluster_speaker"
where
  "stored_owner lane segs sp =
     \<lparr>cluster_id = sp_id sp,
      cluster_ranges = map (\<lambda>t. (seg_start t, seg_end t))
        (filter (\<lambda>t. seg_lane t = lane \<and> seg_speaker t = Some (sp_id sp)) segs)\<rparr>"

definition diarization_from_rows ::
  "uuid \<Rightarrow> audio_lane \<Rightarrow> speaker_row list \<Rightarrow> transcript_segment list \<Rightarrow> diarization"
where
  "diarization_from_rows m lane stored segs =
     (let kept = filter (\<lambda>sp. sp_id sp \<noteq> me_speaker_id m) stored;
          owners = filter (\<lambda>c. cluster_ranges c \<noteq> []) (map (stored_owner lane segs) kept);
          room = room_speaker_id m;
          room_of_the_other_lane =
            list_ex (\<lambda>sp. sp_id sp = room) kept \<and> \<not> list_ex (\<lambda>c. cluster_id c = room) owners
      in \<lparr>di_speakers = kept, di_clusters = owners, di_lane = Some lane,
          di_fallback = (if room_of_the_other_lane then None else Some room)\<rparr>)"

definition diarization_without_diarizer :: "uuid \<Rightarrow> audio_lane option \<Rightarrow> diarization outcome work" where
  "diarization_without_diarizer m lane =
     (case lane of
        None \<Rightarrow> Finished (Good no_diarization)
      | Some lane \<Rightarrow>
          and_then (stage_query Diarize (\<lambda>d. speakers d m)) (\<lambda>stored.
          and_then (stage_query Diarize (segments_of m)) (\<lambda>segs.
          Finished (Good (diarization_from_rows m lane stored segs)))))"

primrec match_voices :: "services \<Rightarrow> speaker_row list \<Rightarrow> speaker_row list \<Rightarrow> speaker_row list outcome work" where
  "match_voices svc [] matched = Finished (Good matched)"
| "match_voices svc (sp # sps) matched =
     (case sp_embedding sp of
        None \<Rightarrow> match_voices svc sps (matched @ [sp\<lparr>sp_assignment := UnknownSpeaker\<rparr>])
      | Some e \<Rightarrow>
          and_then (boundary MatchSpeakers (\<lambda>n. matched_voice svc n e)) (\<lambda>found.
            match_voices svc sps (matched @
              [sp\<lparr>sp_assignment := (case found of None \<Rightarrow> UnknownSpeaker | Some (p, x) \<Rightarrow> Suggested p x)\<rparr>])))"

definition match_speakers :: "services \<Rightarrow> uuid \<Rightarrow> speaker_row list \<Rightarrow> speaker_row list outcome work" where
  "match_speakers svc m sps = run_stage MatchSpeakers m (match_voices svc sps [])"

section \<open>Merge\<close>

text \<open>The letters whose lower case is an ASCII letter: the ASCII capitals and the Kelvin sign.\<close>

definition lower_char :: "nat \<Rightarrow> nat" where
  "lower_char c = (if 65 \<le> c \<and> c \<le> 90 then c + 32 else if c = 0x212A then 107 else c)"

definition label_number :: "speaker_row \<Rightarrow> nat option" where
  "label_number sp =
     (case strip_prefix (ascii ''speaker '') (map lower_char (sp_label sp)) of
        None \<Rightarrow> None
      | Some n \<Rightarrow> parse_unsigned 32 n)"

definition room_speaker :: "uuid \<Rightarrow> speaker_row list \<Rightarrow> speaker_row" where
  "room_speaker m taken =
     (let numbers = List.map_filter label_number taken;
          next = (if numbers = [] then 1 else min (Max (set numbers) + 1) (2 ^ 32 - 1))
      in \<lparr>sp_id = room_speaker_id m, sp_label = ascii ''Speaker '' @ nat_text next,
          sp_assignment = UnknownSpeaker, sp_embedding = None\<rparr>)"

definition me_speaker :: "uuid \<Rightarrow> uuid option \<Rightarrow> speaker_row" where
  "me_speaker m person =
     \<lparr>sp_id = me_speaker_id m, sp_label = ascii ''Me'',
      sp_assignment = (case person of None \<Rightarrow> UnknownSpeaker | Some p \<Rightarrow> Confirmed p), sp_embedding = None\<rparr>"

definition with_room_speaker ::
  "uuid \<Rightarrow> uuid option \<Rightarrow> transcript_segment list \<Rightarrow> speaker_row list \<Rightarrow> speaker_row list"
where
  "with_room_speaker m fallback segs sps =
     (case fallback of
        None \<Rightarrow> sps
      | Some room \<Rightarrow>
          if list_ex (\<lambda>t. seg_speaker t = Some room) segs \<and> \<not> list_ex (\<lambda>sp. sp_id sp = room) sps
          then sps @ [room_speaker m sps] else sps)"

definition merge ::
  "uuid \<Rightarrow> nat \<Rightarrow> meeting_row \<Rightarrow> lane_segments \<Rightarrow> diarization \<Rightarrow>
    (transcript_segment list \<times> speaker_row list) outcome work"
where
  "merge m j r lanes di =
     run_then (look_at clock) (\<lambda>now.
     run_stage Merge m
       (and_then
          (if di_lane di = Some Mic then
             mapping_result (\<lambda>x. case x of Good _ \<Rightarrow> Good (di_speakers di, None) | Bad f \<Rightarrow> Bad f | Panicking \<Rightarrow> Panicking)
               (own_transact m j Merge (always (delete_me m)))
           else if lanes Mic \<noteq> None then
             and_then (own_transact m j Merge (ensure_me_participant m)) (\<lambda>person.
               Finished (Good (di_speakers di @ [me_speaker m person], Some (me_speaker_id m))))
           else Finished (Good (di_speakers di, None))) (\<lambda>(sps, own).
        let segs = merge_lanes m lanes (di_clusters di) own (di_lane di) (di_fallback di);
            sps = with_room_speaker m (di_fallback di) segs sps
        in and_then (own_transact m j Merge (replace_transcript m (r\<lparr>m_updated := now\<rparr>) segs sps)) (\<lambda>_.
             Finished (Good (segs, sps))))))"

section \<open>Clean up and summarize\<close>

text \<open>The cleaned texts by segment, or the first segment that did not come back in its place.\<close>

fun corrected_texts ::
  "transcript_segment list \<Rightarrow> transcript_segment list \<Rightarrow> uuid + transcript_segment list"
where
  "corrected_texts (s # ss) (c # cs) =
     (if seg_id c \<noteq> seg_id s then Inl (seg_id s)
      else case corrected_texts ss cs of
        Inl i \<Rightarrow> Inl i
      | Inr rest \<Rightarrow> Inr (s\<lparr>seg_text := seg_text c\<rparr> # rest))"
| "corrected_texts _ _ = Inr []"

definition cleanup ::
  "services \<Rightarrow> uuid \<Rightarrow> nat \<Rightarrow> meeting_row \<Rightarrow> transcript_segment list \<Rightarrow> speaker_row list \<Rightarrow>
    llm_usage option outcome work"
where
  "cleanup svc m j r segs sps =
     run_then (look_at clock) (\<lambda>now.
     run_stage Cleanup m
       (case cleaner svc of
          None \<Rightarrow> Finished (Good None)
        | Some clean \<Rightarrow>
            and_then (stage_query Cleanup (\<lambda>_. ())) (\<lambda>_.
            and_then (stage_query Cleanup (\<lambda>_. ())) (\<lambda>_.
            and_then (boundary Cleanup (\<lambda>n. clean n segs (m_language r) sps)) (\<lambda>(cleaned, usage).
              if length cleaned \<noteq> length segs then
                Finished (Bad (failing Cleanup (CleanerCount (length cleaned) (length segs))))
              else case corrected_texts segs cleaned of
                Inl i \<Rightarrow> Finished (Bad (failing Cleanup (CleanerReordered i)))
              | Inr corrected \<Rightarrow>
                  and_then
                    (own_transact m j Cleanup (update_segment_texts m (r\<lparr>m_updated := now\<rparr>) corrected)) (\<lambda>_.
                  Finished (Good (Some usage))))))))"

definition summarized :: "meeting_row \<Rightarrow> summary_output \<Rightarrow> instant \<Rightarrow> meeting_row" where
  "summarized r out now =
     (let u = r\<lparr>m_summary := Some (so_summary out)\<rparr>;
          u = (if m_event r = None \<and> m_origin r \<noteq> UserTitle \<and> so_title out \<noteq> []
               then u\<lparr>m_title := so_title out, m_origin := SummaryTitle\<rparr> else u);
          u = (case so_language out of None \<Rightarrow> u | Some l \<Rightarrow> u\<lparr>m_language := Some l\<rparr>)
      in u\<lparr>m_usage := Some (add_usage (case m_usage r of None \<Rightarrow> (0, 0, 0) | Some x \<Rightarrow> x) (so_usage out)),
           m_updated := now\<rparr>)"

text \<open>The tasks, decisions and name suggestions saved with the summary are not kept here.\<close>

definition summarize ::
  "services \<Rightarrow> uuid \<Rightarrow> nat \<Rightarrow> meeting_row \<Rightarrow> transcript_segment list \<Rightarrow> speaker_row list \<Rightarrow>
    meeting_row outcome work"
where
  "summarize svc m j r segs sps =
     run_then (look_at clock) (\<lambda>now.
     run_stage Summarize m
       (case summarizer svc of
          None \<Rightarrow>
            let u = r\<lparr>m_updated := now\<rparr>
            in and_then (own_transact m j Summarize (write_processing_results m u)) (\<lambda>_. Finished (Good u))
        | Some summary \<Rightarrow>
            if m_template r \<notin> set bundled_templates then
              Finished (Bad (failing Summarize (UnknownTemplate (m_template r))))
            else
              and_then (stage_query Summarize (\<lambda>_. ())) (\<lambda>_.
              and_then (stage_query Summarize (\<lambda>_. ())) (\<lambda>_.
              and_then (boundary Summarize (\<lambda>n. summary n r segs sps)) (\<lambda>out.
                let u = summarized r out now
                in and_then (own_transact m j Summarize (write_processing_results m u)) (\<lambda>_.
                   Finished (Good u)))))))"

section \<open>Persist, deliver, retention\<close>

primrec save_rows :: "uuid \<Rightarrow> nat \<Rightarrow> delivery_row list \<Rightarrow> unit work" where
  "save_rows m j [] = Finished ()"
| "save_rows m j (q # qs) =
     run_then (transact_as (Some (Did m j)) (always (save_delivery m q))) (\<lambda>_. save_rows m j qs)"

definition persist :: "services \<Rightarrow> uuid \<Rightarrow> nat \<Rightarrow> uuid \<Rightarrow> asset_row \<Rightarrow> asset_row outcome work" where
  "persist svc m j i a =
     run_then (look_at clock) (\<lambda>now.
     run_stage Persist m
       (and_then
          (if a_aac a then Finished (Good None)
           else case mixdown_url svc a of
             None \<Rightarrow> Finished (Bad (failing Persist BoundaryError))
           | Some url \<Rightarrow>
               and_then (boundary Persist (\<lambda>_. ())) (\<lambda>_.
               and_then (boundary Persist (\<lambda>_. ())) (\<lambda>_. Finished (Good (Some url))))) (\<lambda>mixdown.
        and_then (stage_query Persist (asset_by_id i)) (\<lambda>found.
        let updated = (case found of None \<Rightarrow> a | Some b \<Rightarrow> b);
            updated = (case mixdown of None \<Rightarrow> updated | Some url \<Rightarrow> updated\<lparr>a_mixdown := Some url\<rparr>)
        in and_then (own_transact m j Persist (always (save_asset i updated))) (\<lambda>_.
           and_then (stage_query Persist (\<lambda>d. map sp_id (filter (\<lambda>sp. \<not> is_confirmed sp) (speakers d m)))) (\<lambda>unconfirmed.
           run_then (save_rows m j (pending_rows svc m)) (\<lambda>_.
           and_then (own_transact m j Persist (set_state m Ready now)) (\<lambda>_.
           run_then (if unconfirmed = [] then Finished () else post_event (SpeakersNeedReview m unconfirmed)) (\<lambda>_.
           Finished (Good updated))))))))))"

text \<open>The dispatcher never fails: every outcome is a row it saves.\<close>

definition deliver :: "services \<Rightarrow> uuid \<Rightarrow> nat \<Rightarrow> unit outcome work" where
  "deliver svc m j =
     run_then
       (run_stage Deliver m
         (and_then (boundary Deliver (\<lambda>n. delivered_rows svc n m)) (\<lambda>rows.
           mapping_result Good (save_rows m j rows))))
       (\<lambda>r. Finished (case r of Panicking \<Rightarrow> Panicking | _ \<Rightarrow> Good ()))"

datatype stamp = Automatic | Chosen

definition stored_results_need_the_audio :: "uuid \<Rightarrow> asset_row \<Rightarrow> bool outcome work" where
  "stored_results_need_the_audio m a =
     and_then (stage_query Retention (meeting_of_id m)) (\<lambda>found.
       case found of
         None \<Rightarrow> Finished (Good False)
       | Some r \<Rightarrow>
           and_then (stage_query Retention (\<lambda>d. speakers d m)) (\<lambda>sps.
           and_then (stage_query Retention (segments_of m)) (\<lambda>segs.
           Finished (Good (results_need_the_audio m r sps segs a)))))"

text \<open>Run under the mark of \<open>j\<close>, or under none for the user's own rule.\<close>

definition retention :: "run_event option \<Rightarrow> uuid \<Rightarrow> uuid \<Rightarrow> asset_row \<Rightarrow> stamp \<Rightarrow> unit outcome work" where
  "retention e m i a how =
     and_then (stage_query Retention (\<lambda>d. list_all (\<lambda>q. d_status q = Delivered) (deliveries d m))) (\<lambda>delivered.
       if \<not> delivered then Finished (Good ())
       else
         and_then (if how = Automatic then stored_results_need_the_audio m a else Finished (Good False)) (\<lambda>needed.
           if needed then Finished (Good ())
           else
             run_then (look_at clock) (\<lambda>now.
             run_stage Retention m
               (and_then (stage_query Retention (asset_by_id i)) (\<lambda>found.
                let updated = (case found of None \<Rightarrow> a | Some b \<Rightarrow> b)
                in and_then
                     (stage_transact e Retention
                       (always (save_asset i (updated\<lparr>a_expires := expiry (a_retention updated) now\<rparr>)))) (\<lambda>_.
                   mapping_result Good (post_event (RetentionApplied m))))))))"

definition stamp_deferred_retention :: "run_event option \<Rightarrow> uuid \<Rightarrow> stamp \<Rightarrow> unit outcome work" where
  "stamp_deferred_retention e m how =
     and_then (stage_query Retention (asset_of m)) (\<lambda>found.
     and_then (stage_query Retention (meeting_of_id m)) (\<lambda>stored.
       case found of
         None \<Rightarrow> Finished (Good ())
       | Some (i, a) \<Rightarrow>
           if a_retention a = KeepForever \<or> a_expires a \<noteq> None then Finished (Good ())
           else
             run_then (look_at (\<lambda>s. on_disk s (a_url a))) (\<lambda>there.
               if map_option m_state stored \<noteq> Some Ready \<or> \<not> there then Finished (Good ())
               else retention e m i a how)))"

section \<open>A run\<close>

definition start_and_transcribe ::
  "services \<Rightarrow> uuid \<Rightarrow> nat \<Rightarrow> nat \<Rightarrow> uuid \<Rightarrow> asset_row \<Rightarrow> (transcription \<times> decoded_lane option) outcome work"
where
  "start_and_transcribe svc m j c i a =
     and_then (in_process_turn svc m Decode) (\<lambda>taken.
     and_then (holding_turn taken (warm_up_for_job c)) (\<lambda>_.
     run_then (look_at clock) (\<lambda>now.
     and_then (own_transact m j Decode (set_state m Processing now)) (\<lambda>_.
     and_then (stage_query Decode (\<lambda>_. ())) (\<lambda>_.
     and_then (begin_run m Decode) (\<lambda>_.
     decode_and_transcribe svc m j i a))))))"

text \<open>A panic drops the claim without releasing the engine.\<close>

definition claimed_transcription ::
  "services \<Rightarrow> uuid \<Rightarrow> nat \<Rightarrow> uuid \<Rightarrow> asset_row \<Rightarrow> (transcription \<times> decoded_lane option) outcome work"
where
  "claimed_transcription svc m j i a =
     run_then claim_engine (\<lambda>c.
     run_then (start_and_transcribe svc m j c i a) (\<lambda>r.
     run_then (case r of Panicking \<Rightarrow> end_claim c | _ \<Rightarrow> finish_speech c) (\<lambda>_.
     Finished r)))"

definition or_carry_on :: "'a outcome work \<Rightarrow> 'a outcome work \<Rightarrow> 'a outcome work" where
  "or_carry_on j instead =
     run_then j (\<lambda>r. case r of Bad f \<Rightarrow> and_then (carry_on_after f) (\<lambda>_. instead) | _ \<Rightarrow> Finished r)"

definition process_until_persist ::
  "services \<Rightarrow> uuid \<Rightarrow> nat \<Rightarrow> uuid \<Rightarrow> asset_row \<Rightarrow> meeting_row \<Rightarrow> asset_row outcome work"
where
  "process_until_persist svc m j i a r =
     and_then (claimed_transcription svc m j i a) (\<lambda>(t, final).
     let r = r\<lparr>m_state := Processing\<rparr>;
         r = (if m_duration r \<le> 0 then r\<lparr>m_duration := t_seconds t\<rparr> else r);
         lane = diarized_lane_after_transcription (m_source r) (a_lanes a) (t_lanes t);
         handed = (case final of Some (l, b) \<Rightarrow> if Some l = lane then Some (l, b) else None | None \<Rightarrow> None)
     in and_then (or_carry_on (diarize svc m a lane handed) (diarization_without_diarizer m lane)) (\<lambda>di.
        let r = r\<lparr>m_language := t_language t\<rparr>
        in and_then (or_carry_on (match_speakers svc m (di_speakers di)) (Finished (Good (di_speakers di)))) (\<lambda>sps.
           and_then (merge m j r (t_lanes t) (di\<lparr>di_speakers := sps\<rparr>)) (\<lambda>(segs, sps).
           and_then (cleanup svc m j r segs sps) (\<lambda>usage.
           let r = r\<lparr>m_usage := usage\<rparr>
           in and_then (mapping_result (required Summarize (MeetingMissing m)) (query (meeting_of_id m))) (\<lambda>stored.
              and_then (stage_query Summarize (\<lambda>d. speakers d m)) (\<lambda>sps.
              and_then (stage_query Summarize (segments_of m)) (\<lambda>segs.
              let r = r\<lparr>m_template := m_template stored, m_title := m_title stored,
                        m_origin := m_origin stored, m_event := m_event stored\<rparr>
              in and_then (summarize svc m j r segs sps) (\<lambda>_.
                 persist svc m j i a)))))))))"

end
