(* ===== verification/Processing_Queue.thy ===== *)
theory Processing_Queue
  imports Processing_Run
begin

text \<open>
  The pipeline's jobs: a background run with what it leaves behind when it is refused, the resumes that
  start waiting meetings again, the ways a meeting is queued, the re-runs and re-exports, and quitting
  (\<open>steno-pipeline/src/pipeline.rs\<close>). A resume returns, with its result, the meetings taken from the
  waits that are still on its hands; the code has no such value, and none of its branches looks at it.
\<close>

section \<open>Runs and what they leave behind\<close>

datatype refusal = ForModels uuid nat | ForStore uuid

definition park :: "uuid \<Rightarrow> nat \<Rightarrow> unit work" where
  "park m j =
     run_then (look_at clock) (\<lambda>now.
     run_then (transact_as (Some (Did m j)) (set_state m Queued now)) (\<lambda>_.
     leave_parked m (ModelsMissingFor m)))"

definition park_for_store :: "uuid \<Rightarrow> nat \<Rightarrow> unit work" where
  "park_for_store m j =
     run_then (query (meeting_of_id m)) (\<lambda>stored.
     run_then
       (case stored of
          Inr (Some r) \<Rightarrow>
            if m_state r = Processing then
              run_then (look_at clock) (\<lambda>now.
              run_then (transact_as (Some (Did m j)) (set_state m Queued now)) (\<lambda>_. Finished ()))
            else Finished ()
        | _ \<Rightarrow> Finished ()) (\<lambda>_.
     leave_parked m (StoreBusyFor m)))"

text \<open>A panic inside the work is a failure for the stage the run reached.\<close>

definition unless_it_panics :: "(world \<Rightarrow> pipeline_stage) \<Rightarrow> 'a outcome work \<Rightarrow> 'a outcome work" where
  "unless_it_panics stage body =
     run_then body (\<lambda>r.
       case r of
         Panicking \<Rightarrow> mapping_result (\<lambda>st. Bad (failing st OperationPanicked)) (look_at stage)
       | _ \<Rightarrow> Finished r)"

text \<open>The body of a run under the mark: its result, and the refusal when it was refused.\<close>

definition run_admitted ::
  "services \<Rightarrow> uuid \<Rightarrow> nat \<Rightarrow> uuid \<Rightarrow> asset_row \<Rightarrow> meeting_row \<Rightarrow> (unit outcome \<times> refusal option) outcome work"
where
  "run_admitted svc m j i a r =
     run_then (look_at resumes) (\<lambda>seen.
     run_then (unless_it_panics (stage_in_progress m) (process_until_persist svc m j i a r)) (\<lambda>until_persist.
     case until_persist of
       Good persisted \<Rightarrow>
         and_then (deliver svc m j) (\<lambda>_.
         run_then (retention (Some (Did m j)) m i persisted Automatic) (\<lambda>result.
         Finished (if result = Panicking then Panicking else Good (result, None))))
     | Panicking \<Rightarrow> Finished Panicking
     | Bad f \<Rightarrow>
         run_then (look_at quit_latch) (\<lambda>quitting.
         if quitting then Finished (Good (Bad f, None))
         else if f_missing f then
           run_then (park m j) (\<lambda>_. Finished (Good (Bad f, Some (ForModels m seen))))
         else
           run_then (query (meeting_of_id m)) (\<lambda>stored.
           let ready = (case stored of Inr (Some r) \<Rightarrow> m_state r = Ready | _ \<Rightarrow> False)
           in if ready then
                and_then (deliver svc m j) (\<lambda>_.
                run_then (stamp_deferred_retention (Some (Did m j)) m Automatic) (\<lambda>result.
                Finished (if result = Panicking then Panicking else Good (Bad f, None))))
              else if f_busy f then
                run_then (park_for_store m j) (\<lambda>_. Finished (Good (Bad f, Some (ForStore m))))
              else
                run_then (look_at clock) (\<lambda>now.
                run_then
                  (transact_as (Some (Did m j))
                    (set_state m (Failed (StageFailed (f_stage f) (f_reason f))) now)) (\<lambda>_.
                Finished (Good (Bad f, None))))))))"

definition process_held :: "services \<Rightarrow> uuid \<Rightarrow> (unit outcome \<times> refusal option) work" where
  "process_held svc i =
     run_then until_released (\<lambda>_.
     run_then (look_at quit_latch) (\<lambda>quitting.
     if quitting then Finished (Bad (failing Decode AppQuitting), None) else
     run_then
       (and_then (mapping_result (required Decode (AssetNotFound i)) (query (asset_by_id i))) (\<lambda>a.
        and_then (mapping_result (required Decode (MeetingMissing (a_meeting a)))
                    (query (meeting_of_id (a_meeting a)))) (\<lambda>r.
        Finished (Good (a, r))))) (\<lambda>found.
     case found of
       Good (a, r) \<Rightarrow>
         run_then (exclusively (a_meeting a) Decode (\<lambda>j. run_admitted svc (a_meeting a) j i a r)) (\<lambda>result.
         Finished (case result of
             Good (result, refused) \<Rightarrow> (result, refused)
           | Bad f \<Rightarrow> (Bad f, None)
           | Panicking \<Rightarrow> (Panicking, None)))
     | Bad f \<Rightarrow> Finished (Bad f, None)
     | Panicking \<Rightarrow> Finished (Panicking, None))))"

section \<open>Starting runs\<close>

text \<open>The run is spawned with its claim, unless the app is quitting.\<close>

definition start :: "uuid \<Rightarrow> unit work" where
  "start i =
     run_then (look_at quit_latch) (\<lambda>quitting.
       if quitting then drop_claim i else change (\<lambda>s. s\<lparr>spawned := spawned s @ [RunAsset i]\<rparr>))"

definition leaving_the_wait :: "uuid set option \<Rightarrow> uuid \<Rightarrow> unit work" where
  "leaving_the_wait among m = (if among = None then Finished () else post_progress Decode m)"

text \<open>
  One meeting after another, as read when the resume began: the meetings started, those a run holds, and
  the ones still on the resume's hands.
\<close>

primrec resume_each ::
  "uuid set option \<Rightarrow> (uuid \<times> meeting_row) list \<Rightarrow> uuid list \<Rightarrow> uuid list \<Rightarrow> uuid set \<Rightarrow>
    ((uuid list \<times> uuid list) outcome \<times> uuid set) work"
where
  "resume_each among [] resumed busy W = Finished (Good (resumed, busy), W)"
| "resume_each among (mr # rest) resumed busy W =
     (let m = fst mr; r = snd mr;
          next = resume_each among rest resumed busy;
          settled = run_then (settle {m} (W \<inter> {m})) (\<lambda>_. next (W - {m}))
      in if (case among of None \<Rightarrow> False | Some A \<Rightarrow> m \<notin> A) then next W else
         run_then (look_at (\<lambda>s. bt_get (marks s) m \<noteq> None)) (\<lambda>held_now.
         if held_now then resume_each among rest resumed (busy @ [m]) W else
         run_then (stage_query Decode (asset_of m)) (\<lambda>found.
         case found of
           Bad f \<Rightarrow> Finished (Bad f, W)
         | Panicking \<Rightarrow> Finished (Panicking, W)
         | Good None \<Rightarrow>
             run_then (look_at clock) (\<lambda>now.
             run_then (mapping_result (attributing Decode)
                         (transact_as None (set_state m (Failed AssetGoneReason) now))) (\<lambda>saved.
             case saved of Good _ \<Rightarrow> settled | Bad f \<Rightarrow> Finished (Bad f, W) | Panicking \<Rightarrow> Finished (Panicking, W)))
         | Good (Some (i, a)) \<Rightarrow>
             if among = None \<and> m_state r = Processing then
               run_then
                 (and_then
                    (if a_expires a = None then Finished (Good ())
                     else mapping_result (attributing Retention)
                            (transact_as None (always (save_asset i (a\<lparr>a_expires := None\<rparr>))))) (\<lambda>_.
                  run_then (look_at clock) (\<lambda>now.
                    mapping_result (attributing Decode)
                      (transact_as None (set_state m (Failed ClosedWhileProcessing) now))))) (\<lambda>saved.
               case saved of Good _ \<Rightarrow> settled | Bad f \<Rightarrow> Finished (Bad f, W) | Panicking \<Rightarrow> Finished (Panicking, W))
             else
               run_then (claim_start m i) (\<lambda>claimed.
               if \<not> claimed then resume_each among rest resumed (busy @ [m]) W else
               run_then (leaving_the_wait among m) (\<lambda>_.
               run_then (start i) (\<lambda>_.
               run_then (settle {m} (W \<inter> {m})) (\<lambda>_.
               resume_each among rest (resumed @ [m]) busy (W - {m}))))))))"

definition resume_among ::
  "uuid set option \<Rightarrow> uuid set \<Rightarrow> ((uuid list \<times> uuid list) outcome \<times> uuid set) work"
where
  "resume_among among W =
     run_then (stage_query Decode unfinished_meetings) (\<lambda>listed.
     case listed of
       Bad f \<Rightarrow> Finished (Bad f, W)
     | Panicking \<Rightarrow> Finished (Panicking, W)
     | Good ms \<Rightarrow>
         run_then (settle (W - fst ` set ms) (W - fst ` set ms)) (\<lambda>_.
         resume_each among ms [] [] (W \<inter> fst ` set ms)))"

primrec post_each :: "posted_event list \<Rightarrow> unit work" where
  "post_each [] = Finished ()"
| "post_each (e # es) = run_then (post_event e) (\<lambda>_. post_each es)"

definition start_waiting :: "uuid set \<Rightarrow> uuid list outcome work" where
  "start_waiting M =
     run_then (resume_among (Some M) M) (\<lambda>(result, W).
     case result of
       Good (resumed, busy) \<Rightarrow> run_then (put_back (set busy) W) (\<lambda>_. Finished (Good resumed))
     | Panicking \<Rightarrow> Finished Panicking
     | Bad f \<Rightarrow>
         run_then (if f_busy f then look_at quit_latch else Finished True) (\<lambda>not_now.
         if not_now then run_then (put_back M W) (\<lambda>_. Finished (Bad f))
         else
           run_then (post_each (map StoreBusyFor (sorted_list_of_set M))) (\<lambda>_.
           run_then (wait_for_store M W) (\<lambda>_. Finished (Bad f)))))"

text \<open>What a refused run's meeting waits for is recorded once nothing holds the meeting.\<close>

definition set_aside :: "refusal \<Rightarrow> unit work" where
  "set_aside refused =
     (case refused of
        ForModels m seen \<Rightarrow>
          run_then (wait_unless_resumed m seen) (\<lambda>waits.
          if waits then Finished () else
          run_then (look_at quit_latch) (\<lambda>quitting.
          if quitting then settle {m} {m} else
          run_then (start_waiting {m}) (\<lambda>_. Finished ())))
      | ForStore m \<Rightarrow>
          run_then (look_at quit_latch) (\<lambda>quitting.
          if quitting then settle {m} {m} else wait_for_store {m} {m}))"

definition process :: "services \<Rightarrow> uuid \<Rightarrow> unit outcome work" where
  "process svc i =
     run_then (process_held svc i) (\<lambda>(result, refused).
     run_then (case refused of None \<Rightarrow> Finished () | Some f \<Rightarrow> set_aside f) (\<lambda>_. Finished result))"

text \<open>A background run: the claim goes before the meeting is set aside.\<close>

definition run_asset :: "services \<Rightarrow> uuid \<Rightarrow> unit work" where
  "run_asset svc i =
     run_then (look_at quit_latch) (\<lambda>quitting.
     run_then (if quitting then Finished None else mapping_result snd (process_held svc i)) (\<lambda>refused.
     run_then (drop_claim i) (\<lambda>_.
     case refused of None \<Rightarrow> Finished () | Some f \<Rightarrow> set_aside f)))"

section \<open>Resumes\<close>

text \<open>The waiting meetings a launch's resume takes are all unfinished ones, so it starts them.\<close>

definition resume_unfinished :: "uuid list outcome work" where
  "resume_unfinished =
     run_then (look_at quit_latch) (\<lambda>quitting.
     if quitting then Finished (Good []) else
     run_then (count_resume {}) (\<lambda>M.
     run_then (settle M M) (\<lambda>_.
     run_then (resume_among None {}) (\<lambda>(result, _).
     case result of
       Good (resumed, _) \<Rightarrow> Finished (Good resumed)
     | Panicking \<Rightarrow> Finished Panicking
     | Bad f \<Rightarrow> run_then (if f_busy f then owe_unfinished else Finished ()) (\<lambda>_. Finished (Bad f))))))"

definition resume_waiting :: "uuid list outcome work" where
  "resume_waiting =
     run_then (look_at quit_latch) (\<lambda>quitting.
     if quitting then Finished (Good []) else
     run_then (count_resume {}) (\<lambda>M.
     if M = {} then Finished (Good []) else start_waiting M))"

definition resume_waiting_for_store :: "uuid list outcome work" where
  "resume_waiting_for_store =
     run_then (look_at quit_latch) (\<lambda>quitting.
     if quitting then Finished (Good []) else
     run_then take_store_waits (\<lambda>(M, owed).
     if \<not> owed \<and> M = {} then Finished (Good []) else
     run_then (if owed then count_resume M else Finished {}) (\<lambda>for_models.
     run_then (resume_among (if owed then None else Some M) (M \<union> for_models)) (\<lambda>(result, W).
     case result of
       Good (resumed, held_now) \<Rightarrow>
         run_then (put_back (set held_now \<inter> for_models) (W \<inter> for_models)) (\<lambda>_.
         run_then (wait_for_store (set held_now \<inter> M) (W - for_models)) (\<lambda>_.
         Finished (Good resumed)))
     | Panicking \<Rightarrow> Finished Panicking
     | Bad f \<Rightarrow>
         run_then (put_back for_models (W \<inter> for_models)) (\<lambda>_.
         run_then
           (if f_busy f then
              (if owed then run_then owe_unfinished (\<lambda>_. settle M (W - for_models))
               else wait_for_store M (W - for_models))
            else settle M (W - for_models)) (\<lambda>_.
         Finished (Bad f)))))))"

section \<open>Queueing a meeting\<close>

definition claim_or_refuse :: "uuid \<Rightarrow> uuid \<Rightarrow> unit outcome work" where
  "claim_or_refuse m i =
     mapping_result (\<lambda>ok. if ok then Good () else Bad (failing Decode (AlreadyProcessed m))) (claim_start m i)"

text \<open>The save replaces rows as a whole; it is no section of a run, which \<open>edits\<close> notes.\<close>

definition noting_edit ::
  "(instant \<Rightarrow> database \<Rightarrow> store_error + 'a \<times> database) \<Rightarrow> (store_error + 'a) work"
where
  "noting_edit t =
     run_then (look_at clock) (\<lambda>now.
     act (\<lambda>s. case next_luck s of (l, s) \<Rightarrow>
       if l = Busy then (s, Inl StoreBusyError)
       else if l = Broken then (s, Inl StoreBroken)
       else case t now (db s) of
         Inl err \<Rightarrow> (s, Inl err)
       | Inr (a, d) \<Rightarrow> (s\<lparr>db := d, edits := Suc (edits s)\<rparr>, Inr a)))"

definition enqueue_claimed ::
  "uuid \<Rightarrow> (instant \<Rightarrow> database \<Rightarrow> store_error + 'a \<times> database) \<Rightarrow> 'a outcome work"
where
  "enqueue_claimed i save =
     run_then (mapping_result (attributing Decode) (noting_edit save)) (\<lambda>saved.
     case saved of
       Good x \<Rightarrow> run_then (start i) (\<lambda>_. Finished (Good x))
     | _ \<Rightarrow> run_then (drop_claim i) (\<lambda>_. Finished saved))"

definition queued :: "meeting_row \<Rightarrow> instant \<Rightarrow> meeting_row" where
  "queued r now = r\<lparr>m_state := Queued, m_updated := now\<rparr>"

definition enqueue :: "uuid \<Rightarrow> meeting_row \<Rightarrow> uuid \<Rightarrow> asset_row \<Rightarrow> unit outcome work" where
  "enqueue m r i a =
     and_then (claim_or_refuse m i) (\<lambda>_.
     enqueue_claimed i (\<lambda>now. save_meeting_with_asset m (queued r now) i (a\<lparr>a_meeting := m\<rparr>)))"

definition enqueue_new :: "uuid \<Rightarrow> meeting_row \<Rightarrow> uuid \<Rightarrow> asset_row \<Rightarrow> unit outcome work" where
  "enqueue_new m r i a =
     and_then (claim_or_refuse m i) (\<lambda>_.
     enqueue_claimed i (\<lambda>now. insert_meeting_with_asset m (queued r now) i (a\<lparr>a_meeting := m\<rparr>)))"

definition enqueue_stopped_recording ::
  "audio_retention \<Rightarrow> uuid \<Rightarrow> rat \<Rightarrow> uuid \<Rightarrow> asset_row \<Rightarrow> audio_retention option \<Rightarrow> meeting_row outcome work"
where
  "enqueue_stopped_recording usual m dur i a given =
     and_then (claim_or_refuse m i) (\<lambda>_.
     enqueue_claimed i (save_stopped_recording usual m dur i a given))"

definition enqueue_saved :: "uuid \<Rightarrow> uuid \<Rightarrow> unit outcome work" where
  "enqueue_saved m i = and_then (claim_or_refuse m i) (\<lambda>_. mapping_result Good (start i))"

section \<open>Processing again\<close>

datatype reprocess_error =
    ReMeetingNotFound uuid
  | ReUnfinished uuid meeting_state
  | ReWaitingForModels uuid
  | ReWaitingForStore uuid
  | ReNotOffered uuid
  | ReNoAsset uuid
  | ReAudioGone uuid
  | ReBusy uuid
  | ReQuitting
  | RePipeline pipeline_failure

text \<open>The refusals after the claim give it up.\<close>

definition giving_up :: "uuid option \<Rightarrow> 'a \<Rightarrow> 'a work" where
  "giving_up claim x =
     run_then (case claim of None \<Rightarrow> Finished () | Some i \<Rightarrow> drop_claim i) (\<lambda>_. Finished x)"

definition failure_of :: "'a outcome \<Rightarrow> reprocess_error option" where
  "failure_of r = (case r of Bad f \<Rightarrow> Some (RePipeline f) | _ \<Rightarrow> None)"

definition offered_again :: "uuid \<Rightarrow> meeting_row \<Rightarrow> asset_row option \<Rightarrow> bool outcome work" where
  "offered_again m r a =
     and_then (stage_query Decode (\<lambda>d. speakers d m)) (\<lambda>sps.
     and_then (stage_query Decode (segments_of m)) (\<lambda>segs.
     Finished (Good (offers_process_again m r sps segs a))))"

definition finished_state :: "meeting_state \<Rightarrow> bool" where
  "finished_state st \<longleftrightarrow> st = Ready \<or> (case st of Failed _ \<Rightarrow> True | _ \<Rightarrow> False)"

text \<open>\<open>None\<close> is a started run. The last steps: the asset and its master are there, and the rows are saved.\<close>

definition queue_again ::
  "uuid \<Rightarrow> meeting_row \<Rightarrow> (uuid \<times> asset_row) option \<Rightarrow> reprocess_error option work"
where
  "queue_again m r asset =
     (case asset of
        None \<Rightarrow> Finished (Some (ReNoAsset m))
      | Some (i, a) \<Rightarrow>
          run_then (look_at (\<lambda>s. on_disk s (a_url a))) (\<lambda>there.
          if \<not> there then giving_up (Some i) (Some (ReAudioGone m)) else
          mapping_result failure_of
            (enqueue_claimed i (\<lambda>now.
              save_meeting_with_asset m (queued r now) i (a\<lparr>a_meeting := m, a_expires := None\<rparr>)))))"

definition not_finished ::
  "uuid \<Rightarrow> meeting_state \<Rightarrow> uuid option \<Rightarrow> reprocess_error option work"
where
  "not_finished m st claim =
     run_then (look_at (\<lambda>s. m \<in> waiting s)) (\<lambda>for_models.
     if for_models then giving_up claim (Some (ReWaitingForModels m)) else
     run_then (look_at (\<lambda>s. m \<in> for_store s)) (\<lambda>for_the_store.
     giving_up claim (Some (if for_the_store then ReWaitingForStore m else ReUnfinished m st))))"

definition reprocess_claimed ::
  "uuid \<Rightarrow> (meeting_row \<Rightarrow> asset_row option \<Rightarrow> bool outcome work) \<Rightarrow> (uuid \<times> asset_row) option \<Rightarrow>
    reprocess_error option work"
where
  "reprocess_claimed m offered asset =
     (let claim = map_option fst asset
      in run_then (mapping_result (attributing Decode) (query (meeting_of_id m))) (\<lambda>read.
         case read of
           Bad f \<Rightarrow> giving_up claim (Some (RePipeline f))
         | Panicking \<Rightarrow> giving_up claim None
         | Good None \<Rightarrow> giving_up claim (Some (ReMeetingNotFound m))
         | Good (Some r) \<Rightarrow>
             if \<not> finished_state (m_state r) then not_finished m (m_state r) claim
             else
               run_then (offered r (map_option snd asset)) (\<lambda>offer.
               case offer of
                 Bad f \<Rightarrow> giving_up claim (Some (RePipeline f))
               | Panicking \<Rightarrow> giving_up claim None
               | Good offers \<Rightarrow>
                   if offers then queue_again m r asset else giving_up claim (Some (ReNotOffered m)))))"

definition reprocess_if ::
  "uuid \<Rightarrow> (meeting_row \<Rightarrow> asset_row option \<Rightarrow> bool outcome work) \<Rightarrow> reprocess_error option work"
where
  "reprocess_if m offered =
     run_then (look_at quit_latch) (\<lambda>quitting.
     if quitting then Finished (Some ReQuitting) else
     run_then (stage_query Decode (asset_of m)) (\<lambda>found.
     case found of
       Bad f \<Rightarrow> Finished (Some (RePipeline f))
     | Panicking \<Rightarrow> Finished None
     | Good None \<Rightarrow> reprocess_claimed m offered None
     | Good (Some (i, a)) \<Rightarrow>
         run_then (claim_start m i) (\<lambda>claimed.
         if claimed then reprocess_claimed m offered (Some (i, a)) else Finished (Some (ReBusy m)))))"

definition reprocess :: "uuid \<Rightarrow> reprocess_error option work" where
  "reprocess m = reprocess_if m (\<lambda>_ _. Finished (Good True))"

definition process_again :: "uuid \<Rightarrow> reprocess_error option work" where
  "process_again m = reprocess_if m (offered_again m)"

section \<open>Summaries and exports again\<close>

definition reporting :: "uuid \<Rightarrow> operation \<Rightarrow> unit outcome \<Rightarrow> unit outcome work" where
  "reporting m op result =
     (case result of
        Bad f \<Rightarrow> run_then (post_event (OperationFailed m op f)) (\<lambda>_. Finished result)
      | _ \<Rightarrow> Finished result)"

definition resummarize :: "services \<Rightarrow> uuid \<Rightarrow> nat \<Rightarrow> meeting_row \<Rightarrow> ustring \<Rightarrow> unit outcome work" where
  "resummarize svc m j r template =
     and_then (stage_query Summarize (\<lambda>d. map_option (\<lambda>_. (segments_of m d, speakers d m)) (meeting_of_id m d)))
       (\<lambda>exported.
     case exported of
       None \<Rightarrow> Finished (Bad (wrapping (MeetingNotFound m) Summarize))
     | Some (segs, sps) \<Rightarrow>
         and_then (stage_query Summarize (\<lambda>_. ())) (\<lambda>_.
         and_then (begin_run m Summarize) (\<lambda>_.
         and_then (summarize svc m j (r\<lparr>m_template := template, m_state := Ready\<rparr>) segs sps) (\<lambda>_.
         run_then (save_rows m j (pending_rows svc m)) (\<lambda>_.
         and_then (deliver svc m j) (\<lambda>_.
         stamp_deferred_retention (Some (Did m j)) m Automatic))))))"

definition rerun_summary :: "services \<Rightarrow> uuid \<Rightarrow> ustring \<Rightarrow> unit outcome work" where
  "rerun_summary svc m template =
     and_then (mapping_result (required Summarize (MeetingMissing m)) (query (meeting_of_id m))) (\<lambda>r.
     if summarizer svc = None then Finished (Bad (failing Summarize NoLlmEndpoint)) else
     and_then (admit m Summarize) (\<lambda>j.
     run_then until_released (\<lambda>_.
     run_then (unless_it_panics (\<lambda>_. Summarize) (resummarize svc m j r template)) (\<lambda>result.
     run_then (drop_admitted m j) (\<lambda>_.
     reporting m SummaryRerun result)))))"

primrec fail_pending :: "uuid \<Rightarrow> nat \<Rightarrow> failure_reason \<Rightarrow> delivery_row list \<Rightarrow> unit work" where
  "fail_pending m j reason [] = Finished ()"
| "fail_pending m j reason (q # qs) =
     (if d_status q \<noteq> Pending then fail_pending m j reason qs else
      run_then (look_at clock) (\<lambda>now.
      let q = q\<lparr>d_status := DeliveryFailed reason,
                d_attempt := (case d_attempt q of None \<Rightarrow> Some now | Some t \<Rightarrow> Some t)\<rparr>
      in run_then (transact_as (Some (Did m j)) (always (save_delivery m q))) (\<lambda>_.
         fail_pending m j reason qs)))"

definition fail_pending_deliveries :: "uuid \<Rightarrow> nat \<Rightarrow> failure_reason \<Rightarrow> unit work" where
  "fail_pending_deliveries m j reason =
     run_then (query (deliveries_of m)) (\<lambda>rows.
       case rows of Inl _ \<Rightarrow> Finished () | Inr qs \<Rightarrow> fail_pending m j reason qs)"

definition deliver_again :: "services \<Rightarrow> uuid \<Rightarrow> nat \<Rightarrow> unit outcome work" where
  "deliver_again svc m j =
     and_then (stage_query Deliver (\<lambda>_. ())) (\<lambda>_.
     and_then (stage_query Deliver (asset_of m)) (\<lambda>_.
     and_then (begin_run m Deliver) (\<lambda>_.
     and_then (deliver svc m j) (\<lambda>_.
     stamp_deferred_retention (Some (Did m j)) m Automatic))))"

text \<open>A row left pending is saved failed before the mark goes.\<close>

definition deliver_again_claimed :: "services \<Rightarrow> uuid \<Rightarrow> nat \<Rightarrow> unit outcome work" where
  "deliver_again_claimed svc m j =
     run_then until_released (\<lambda>_.
     run_then (unless_it_panics (\<lambda>_. Deliver) (deliver_again svc m j)) (\<lambda>result.
     run_then (fail_pending_deliveries m j (case result of Bad f \<Rightarrow> f_reason f | _ \<Rightarrow> ExportInterrupted)) (\<lambda>_.
     run_then (drop_admitted m j) (\<lambda>_.
     Finished result))))"

definition redeliver :: "services \<Rightarrow> uuid \<Rightarrow> unit outcome work" where
  "redeliver svc m =
     and_then (mapping_result (required Deliver (MeetingMissing m)) (query (meeting_of_id m))) (\<lambda>_.
     and_then (admit m Deliver) (\<lambda>j.
     run_then (deliver_again_claimed svc m j) (\<lambda>result.
     reporting m Reexport result)))"

definition unfinished_delivery :: "delivery_row \<Rightarrow> bool" where
  "unfinished_delivery q = (case d_status q of Delivered \<Rightarrow> False | _ \<Rightarrow> True)"

definition still_owed :: "uuid \<Rightarrow> bool work" where
  "still_owed m =
     run_then (query (meeting_of_id m)) (\<lambda>stored.
     case stored of
       Inr (Some r) \<Rightarrow>
         if m_state r \<noteq> Ready then Finished False else
         mapping_result (\<lambda>rows. case rows of Inl _ \<Rightarrow> False | Inr qs \<Rightarrow> list_ex unfinished_delivery qs)
           (query (deliveries_of m))
     | _ \<Rightarrow> Finished False)"

definition redeliver_at_launch :: "services \<Rightarrow> uuid \<Rightarrow> unit work" where
  "redeliver_at_launch svc m =
     run_then (admit m Deliver) (\<lambda>admitted.
     case admitted of
       Good j \<Rightarrow>
         run_then (still_owed m) (\<lambda>owed.
         if owed then run_then (deliver_again_claimed svc m j) (\<lambda>_. Finished ())
         else drop_admitted m j)
     | _ \<Rightarrow> Finished ())"

primrec redeliver_each :: "services \<Rightarrow> uuid list \<Rightarrow> unit work" where
  "redeliver_each svc [] = Finished ()"
| "redeliver_each svc (m # ms) =
     run_then (look_at quit_latch) (\<lambda>quitting.
     if quitting then Finished () else
     run_then (redeliver_at_launch svc m) (\<lambda>_. redeliver_each svc ms))"

definition redeliver_unfinished :: "uuid list outcome work" where
  "redeliver_unfinished =
     run_then (look_at quit_latch) (\<lambda>quitting.
     if quitting then Finished (Good []) else
     run_then (look_at clock) (\<lambda>now.
     and_then (stage_query Deliver (meetings_with_unfinished_deliveries now)) (\<lambda>owed.
     run_then
       (if owed = [] then Finished ()
        else change (\<lambda>s. s\<lparr>spawned := spawned s @ [RedeliverAll owed]\<rparr>)) (\<lambda>_.
     Finished (Good owed)))))"

section \<open>Retention rules and the exit\<close>

text \<open>The user's rule is no section of a run.\<close>

definition apply_retention :: "uuid \<Rightarrow> audio_retention \<Rightarrow> unit outcome work" where
  "apply_retention m rule =
     and_then (stage_query Retention (asset_of m)) (\<lambda>found.
     case found of
       None \<Rightarrow> Finished (Bad (failing Retention (AssetNotFound m)))
     | Some (i, a) \<Rightarrow>
         and_then (stage_transact None Retention
           (always (save_asset i (a\<lparr>a_retention := rule, a_expires := None\<rparr>)))) (\<lambda>_.
         stamp_deferred_retention None m Chosen))"

text \<open>The meetings in flight or waiting for the store that read \<open>processing\<close> go back to \<open>queued\<close>.\<close>

definition back_to_queued :: "meeting_row \<Rightarrow> meeting_row" where
  "back_to_queued r = (if m_state r = Processing then r\<lparr>m_state := Queued\<rparr> else r)"

primrec requeue_each :: "uuid list \<Rightarrow> unit work" where
  "requeue_each [] = Finished ()"
| "requeue_each (m # ms) =
     run_then (look_at clock) (\<lambda>now.
     run_then (transact_as None (update_meeting m now back_to_queued)) (\<lambda>_. requeue_each ms))"

definition quit_app :: "unit work" where
  "quit_app =
     run_then (change (\<lambda>s. s\<lparr>quit_latch := True\<rparr>)) (\<lambda>_.
     run_then (look_at for_store) (\<lambda>waits.
     run_then (look_at (\<lambda>s. map fst (marks s))) (\<lambda>in_flight.
     requeue_each (in_flight @ sorted_list_of_set waits))))"

definition background_job :: "services \<Rightarrow> background \<Rightarrow> unit work" where
  "background_job svc b = (case b of RunAsset i \<Rightarrow> run_asset svc i | RedeliverAll ms \<Rightarrow> redeliver_each svc ms)"

end
