(* ===== verification/Processing_Safety.thy ===== *)
theory Processing_Safety
  imports Processing_Queue
begin

text \<open>
  What the jobs of \<open>Processing_Queue\<close> hold, and what therefore holds in every interleaving: one run at a
  time per meeting, the engine loaded while it runs, nothing held once every job has ended, no waiting
  meeting forgotten, and what the user typed kept by every run.
\<close>

section \<open>Tokens and the invariant\<close>

datatype token =
    Mark uuid nat
  | AssetClaim uuid
  | EngineClaim nat bool
  | Preparing bool
  | Turn
  | Hand uuid

definition spawned_claims :: "background list \<Rightarrow> uuid list" where
  "spawned_claims bs = concat (map (\<lambda>b. case b of RunAsset i \<Rightarrow> [i] | RedeliverAll _ \<Rightarrow> []) bs)"

definition tokens :: "world \<Rightarrow> token multiset" where
  "tokens s =
     mset (map (case_prod Mark) (marks s))
     + image_mset AssetClaim (mset (claimed s) - mset (spawned_claims (spawned s)))
     + mset (map (case_prod EngineClaim) (claims s))
     + (case preparing s of None \<Rightarrow> {#} | Some b \<Rightarrow> {#Preparing b#})
     + (if turn s then {#Turn#} else {#})
     + image_mset Hand (in_hand s)"

text \<open>Which run has which meeting, by the events so far; \<open>None\<close> when a run did something outside its time.\<close>

fun replay :: "run_event list \<Rightarrow> (uuid \<Rightarrow> nat option) option" where
  "replay [] = Some (\<lambda>_. None)"
| "replay (e # es) =
     (case replay es of
        None \<Rightarrow> None
      | Some runner \<Rightarrow>
          (case e of
             Began m j \<Rightarrow> if runner m = None then Some (runner(m := Some j)) else None
           | Did m j \<Rightarrow> if runner m = Some j then Some runner else None
           | Used m j _ \<Rightarrow> if runner m = Some j then Some runner else None
           | Ended m j \<Rightarrow> if runner m = Some j then Some (runner(m := None)) else None))"

definition engine_was_loaded :: "run_event \<Rightarrow> bool" where
  "engine_was_loaded e = (case e of Used _ _ b \<Rightarrow> b | _ \<Rightarrow> True)"

text \<open>Runs and marks; started runs and their claims; the engine; the waits.\<close>

definition runs_ok :: "world \<Rightarrow> bool" where
  "runs_ok s \<longleftrightarrow>
     bt_ok (marks s) \<and> replay (history s) = Some (bt_get (marks s)) \<and> list_all engine_was_loaded (history s)"

definition starts_ok :: "world \<Rightarrow> bool" where
  "starts_ok s \<longleftrightarrow> distinct (claimed s) \<and> mset (spawned_claims (spawned s)) \<subseteq># mset (claimed s)"

definition engine_ok :: "world \<Rightarrow> bool" where
  "engine_ok s \<longleftrightarrow>
     bt_ok (claims s) \<and> list_all (\<lambda>(c, _). c < claims_made s) (claims s) \<and>
     (list_ex snd (claims s) \<longrightarrow> engine_loaded s \<and> preparing s \<noteq> Some True)"

definition waits_ok :: "world \<Rightarrow> bool" where
  "waits_ok s \<longleftrightarrow>
     finite (waiting s) \<and> finite (for_store s) \<and>
     (quit_latch s \<or> parked s \<subseteq> waiting s \<union> for_store s \<union> set_mset (in_hand s))"

definition invar :: "world \<Rightarrow> bool" where
  "invar s \<longleftrightarrow> runs_ok s \<and> starts_ok s \<and> engine_ok s \<and> waits_ok s"

lemmas invar_defs = invar_def runs_ok_def starts_ok_def engine_ok_def waits_ok_def

definition keeps_typed :: "world \<Rightarrow> world \<Rightarrow> bool" where
  "keeps_typed s s' \<longleftrightarrow> edits s' = edits s \<longrightarrow> typed_kept (db s) (db s')"

abbreviation own :: "'a work \<Rightarrow> token multiset \<Rightarrow> ('a \<Rightarrow> token multiset \<Rightarrow> bool) \<Rightarrow> bool" where
  "own j H Q \<equiv> owns invar tokens keeps_typed Q j H"

lemma keeps_typed_refl [simp]: "keeps_typed s s"
  by (simp add: keeps_typed_def)

lemma keeps_typed_same_db: "db s' = db s \<Longrightarrow> keeps_typed s s'"
  by (simp add: keeps_typed_def)

text \<open>The fields neither the tokens nor the invariant look at.\<close>

lemma tokens_frame [simp]:
  "tokens (s\<lparr>db := x1\<rparr>) = tokens s" "tokens (s\<lparr>clock := x2\<rparr>) = tokens s" "tokens (s\<lparr>lucks := x3\<rparr>) = tokens s"
  "tokens (s\<lparr>calls := x4\<rparr>) = tokens s" "tokens (s\<lparr>models_in := x5\<rparr>) = tokens s" "tokens (s\<lparr>live := x6\<rparr>) = tokens s"
  "tokens (s\<lparr>on_disk := x7\<rparr>) = tokens s" "tokens (s\<lparr>quit_latch := x8\<rparr>) = tokens s" "tokens (s\<lparr>posts := x9\<rparr>) = tokens s"
  "tokens (s\<lparr>held := x10\<rparr>) = tokens s" "tokens (s\<lparr>resumes := x11\<rparr>) = tokens s"
  "tokens (s\<lparr>unfinished_owed := x12\<rparr>) = tokens s" "tokens (s\<lparr>runs := x13\<rparr>) = tokens s"
  "tokens (s\<lparr>edits := x14\<rparr>) = tokens s" "tokens (s\<lparr>history := x15\<rparr>) = tokens s"
  "tokens (s\<lparr>engine_loaded := x16\<rparr>) = tokens s" "tokens (s\<lparr>parked := x17\<rparr>) = tokens s"
  "tokens (s\<lparr>waiting := x18\<rparr>) = tokens s" "tokens (s\<lparr>for_store := x19\<rparr>) = tokens s"
  "tokens (s\<lparr>admissions := x20\<rparr>) = tokens s" "tokens (s\<lparr>claims_made := x21\<rparr>) = tokens s"
  by (simp_all add: tokens_def)

lemma invar_frame [simp]:
  "invar (s\<lparr>db := x1\<rparr>) = invar s" "invar (s\<lparr>clock := x2\<rparr>) = invar s" "invar (s\<lparr>lucks := x3\<rparr>) = invar s"
  "invar (s\<lparr>calls := x4\<rparr>) = invar s" "invar (s\<lparr>models_in := x5\<rparr>) = invar s" "invar (s\<lparr>live := x6\<rparr>) = invar s"
  "invar (s\<lparr>on_disk := x7\<rparr>) = invar s" "invar (s\<lparr>posts := x8\<rparr>) = invar s" "invar (s\<lparr>held := x9\<rparr>) = invar s"
  "invar (s\<lparr>resumes := x10\<rparr>) = invar s" "invar (s\<lparr>unfinished_owed := x11\<rparr>) = invar s"
  "invar (s\<lparr>runs := x12\<rparr>) = invar s" "invar (s\<lparr>edits := x13\<rparr>) = invar s"
  "invar (s\<lparr>admissions := x14\<rparr>) = invar s"
  by (simp_all add: invar_defs)

lemma next_luck_frame:
  assumes "next_luck s = (l, s')"
  shows "tokens s' = tokens s" "invar s' = invar s" "db s' = db s" "edits s' = edits s"
    "history s' = history s" "marks s' = marks s" "claims s' = claims s" "preparing s' = preparing s"
    "claimed s' = claimed s" "spawned s' = spawned s" "turn s' = turn s" "in_hand s' = in_hand s"
  using assms by (auto simp: next_luck_def split: list.splits)

text \<open>What a token says of the state.\<close>

lemma mark_held: "Mark m j \<in># tokens s \<longleftrightarrow> (m, j) \<in> set (marks s)"
  by (force simp: tokens_def image_iff split: option.splits)

lemma claim_held: "EngineClaim c b \<in># tokens s \<longleftrightarrow> (c, b) \<in> set (claims s)"
  by (force simp: tokens_def image_iff split: option.splits)

lemma lock_held: "Preparing b \<in># tokens s \<longleftrightarrow> preparing s = Some b"
  by (auto simp: tokens_def image_iff split: option.splits)

lemma turn_held: "Turn \<in># tokens s \<longleftrightarrow> turn s"
  by (auto simp: tokens_def image_iff split: option.splits)

lemma asset_held:
  "AssetClaim i \<in># tokens s \<longleftrightarrow> i \<in># mset (claimed s) - mset (spawned_claims (spawned s))"
  by (auto simp: tokens_def image_iff split: option.splits)

lemma count_image_Hand: "count (image_mset Hand M) (Hand m) = count M m"
  by (induction M) auto

lemma count_hand: "count (tokens s) (Hand m) = count (in_hand s) m"
proof -
  have "count (mset (map (case_prod Mark) xs)) (Hand m) = 0" for xs :: "(uuid \<times> nat) list"
    by (induction xs) auto
  moreover have "count (mset (map (case_prod EngineClaim) xs)) (Hand m) = 0" for xs :: "(nat \<times> bool) list"
    by (induction xs) auto
  moreover have "count (image_mset AssetClaim M) (Hand m) = 0" for M :: "uuid multiset"
    by (induction M) auto
  ultimately show ?thesis by (simp add: tokens_def count_image_Hand split: option.splits)
qed

abbreviation hands :: "uuid set \<Rightarrow> token multiset" where
  "hands W \<equiv> image_mset Hand (mset_set W)"

lemma hands_held:
  assumes "hands W \<subseteq># tokens s"
  shows "mset_set W \<subseteq># in_hand s"
proof (rule mset_subset_eqI)
  fix m
  show "count (mset_set W) m \<le> count (in_hand s) m"
    using mset_subset_eq_count[OF assms, of "Hand m"] by (simp add: count_hand count_image_Hand)
qed

lemma replay_of_invar: "invar s \<Longrightarrow> replay (history s) = Some (bt_get (marks s))"
  by (simp add: invar_defs)

lemma runner_of_mark: "invar s \<Longrightarrow> Mark m j \<in># tokens s \<Longrightarrow> bt_get (marks s) m = Some j"
  unfolding mark_held invar_defs bt_get_def bt_ok_def
  by (intro map_of_is_SomeI) (auto simp: strict_sorted_iff)

section \<open>Work that takes and gives up nothing\<close>

definition calm :: "token multiset \<Rightarrow> 'a work \<Rightarrow> bool" where
  "calm M j \<longleftrightarrow> (\<forall>H. M \<subseteq># H \<longrightarrow> own j H (\<lambda>_ H'. H' = H))"

named_theorems calm_rules

lemma calm_Finished [calm_rules]: "calm M (Finished a)"
  by (simp add: calm_def)

lemma calm_run_then [calm_rules]: "calm M j \<Longrightarrow> (\<And>a. calm M (k a)) \<Longrightarrow> calm M (run_then j k)"
  unfolding calm_def by (blast intro: owns_run_then)

lemma calmD: "calm M j \<Longrightarrow> M \<subseteq># H \<Longrightarrow> own j H (\<lambda>_ H'. H' = H)"
  by (simp add: calm_def)

lemma own_calm: "calm M j \<Longrightarrow> M \<subseteq># H \<Longrightarrow> (\<And>a. Q a H) \<Longrightarrow> own j H Q"
  by (rule owns_mono[OF calmD]) auto

lemma own_after_calm:
  "calm M j \<Longrightarrow> M \<subseteq># H \<Longrightarrow> (\<And>a. own (k a) H Q) \<Longrightarrow> own (run_then j k) H Q"
  by (rule owns_run_then[OF calmD]) auto

lemma calm_and_then [calm_rules]: "calm M j \<Longrightarrow> (\<And>a. calm M (k a)) \<Longrightarrow> calm M (and_then j k)"
  unfolding and_then_def by (intro calm_run_then) (auto split: outcome.splits intro: calm_Finished)

lemma calm_mapping_result [calm_rules]: "calm M j \<Longrightarrow> calm M (mapping_result f j)"
  unfolding mapping_result_def by (intro calm_rules)

lemma calm_act:
  assumes "\<And>s. invar s \<Longrightarrow> M \<subseteq># tokens s \<Longrightarrow>
    invar (fst (f s)) \<and> keeps_typed s (fst (f s)) \<and> tokens (fst (f s)) = tokens s"
  shows "calm M (act f)"
  unfolding calm_def using assms by (blast intro: owns_act_same subset_mset.order_trans)

lemma calm_look_at [calm_rules]: "calm M (look_at g)"
  unfolding look_at_def by (rule calm_act) simp

lemma calm_change:
  assumes "\<And>s. invar s \<Longrightarrow> M \<subseteq># tokens s \<Longrightarrow> invar (f s) \<and> keeps_typed s (f s) \<and> tokens (f s) = tokens s"
  shows "calm M (change f)"
  unfolding change_def by (rule calm_act) (use assms in simp)

lemma calm_once:
  assumes "\<And>s. invar s \<Longrightarrow> M \<subseteq># tokens s \<Longrightarrow> invar (f s) \<and> keeps_typed s (f s) \<and> tokens (f s) = tokens s"
  shows "calm M (once g f)"
  unfolding calm_def
proof (intro allI impI)
  fix H assume H: "M \<subseteq># H"
  show "own (once g f) H (\<lambda>_ H'. H' = H)"
  proof (rule owns_once)
    fix s assume s: "invar s" "g s" "H \<subseteq># tokens s"
    then have "M \<subseteq># tokens s" using H by (meson subset_mset.order_trans)
    then show "invar (f s) \<and> keeps_typed s (f s) \<and> (\<exists>H'. tokens (f s) = H' + (tokens s - H) \<and> H' = H)"
      using assms[OF s(1)] subset_plus_rest[OF s(3)] by simp
  qed
qed

definition own_note :: "token multiset \<Rightarrow> run_event option \<Rightarrow> bool" where
  "own_note M e \<longleftrightarrow> (case e of None \<Rightarrow> True | Some (Did m j) \<Rightarrow> Mark m j \<in># M | _ \<Rightarrow> False)"

lemma invar_noted:
  assumes "invar s" and "own_note M e" and "M \<subseteq># tokens s"
  shows "invar (note_event e s)"
proof (cases e)
  case None
  then show ?thesis using assms by (simp add: note_event_def)
next
  case (Some x)
  obtain m j where x: "x = Did m j" and mark: "Mark m j \<in># tokens s"
    using assms(2,3) Some by (auto simp: own_note_def split: run_event.splits dest: mset_subset_eqD)
  show ?thesis
    using assms(1) runner_of_mark[OF assms(1) mark]
    by (simp add: invar_defs note_event_def Some x engine_was_loaded_def)
qed

lemma note_frame [simp]: "tokens (note_event e s) = tokens s" "db (note_event e s) = db s"
    "edits (note_event e s) = edits s"
  by (simp_all add: note_event_def split: option.splits)

lemma calm_transact_as:
  assumes "own_note M e" and "\<And>d a d'. t d = Inr (a, d') \<Longrightarrow> typed_kept d d'"
  shows "calm M (transact_as e t)"
  unfolding transact_as_def
proof (rule calm_act)
  fix s
  assume s: "invar s" "M \<subseteq># tokens s"
  obtain l s1 where l: "next_luck s = (l, s1)" by fastforce
  note frame = next_luck_frame[OF l]
  have "invar (note_event e (s1\<lparr>db := d'\<rparr>))" for d'
    using s frame by (intro invar_noted[OF _ assms(1)]) simp_all
  then show "invar (fst (case next_luck s of (l, s) \<Rightarrow>
       if l = Busy then (s, Inl StoreBusyError) else if l = Broken then (s, Inl StoreBroken)
       else case t (db s) of Inl err \<Rightarrow> (s, Inl err)
         | Inr (a, d) \<Rightarrow> (note_event e (s\<lparr>db := d\<rparr>), Inr a))) \<and>
     keeps_typed s (fst (case next_luck s of (l, s) \<Rightarrow>
       if l = Busy then (s, Inl StoreBusyError) else if l = Broken then (s, Inl StoreBroken)
       else case t (db s) of Inl err \<Rightarrow> (s, Inl err)
         | Inr (a, d) \<Rightarrow> (note_event e (s\<lparr>db := d\<rparr>), Inr a))) \<and>
     tokens (fst (case next_luck s of (l, s) \<Rightarrow>
       if l = Busy then (s, Inl StoreBusyError) else if l = Broken then (s, Inl StoreBroken)
       else case t (db s) of Inl err \<Rightarrow> (s, Inl err)
         | Inr (a, d) \<Rightarrow> (note_event e (s\<lparr>db := d\<rparr>), Inr a))) = tokens s"
    using s frame assms(2)[of "db s"]
    by (auto simp: l keeps_typed_def split: sum.splits prod.splits)
qed

lemma calm_query [calm_rules]: "calm M (query g)"
  unfolding query_def by (rule calm_transact_as) (auto simp: own_note_def)

lemma calm_boundary [calm_rules]: "calm M (boundary st f)"
  unfolding boundary_def
  by (rule calm_act) (auto simp: Let_def keeps_typed_def split: prod.splits dest: next_luck_frame)

lemma calm_post_event [calm_rules]: "calm M (post_event e)"
  unfolding post_event_def by (rule calm_change) (simp add: keeps_typed_def)

lemma calm_post_progress [calm_rules]: "calm M (post_progress st m)"
  unfolding post_progress_def by (rule calm_change) (simp add: keeps_typed_def)

lemma calm_until_released [calm_rules]: "calm M until_released"
  unfolding until_released_def by (rule calm_once) simp

lemma calm_owe_unfinished [calm_rules]: "calm M owe_unfinished"
  unfolding owe_unfinished_def by (rule calm_change) (simp add: keeps_typed_def)

section \<open>The stages that only work on rows\<close>

definition gentle :: "(database \<Rightarrow> store_error + 'a \<times> database) \<Rightarrow> bool" where
  "gentle t \<longleftrightarrow> (\<forall>d a d'. t d = Inr (a, d') \<longrightarrow> typed_kept d d')"

lemma gentle_writes [calm_rules]:
  "gentle (set_state m st now)" "gentle (replace_transcript m r segs sps)"
  "gentle (update_segment_texts m r segs)" "gentle (write_processing_results m r)"
  "gentle (ensure_me_participant m)" "gentle (always (save_asset i a))"
  "gentle (always (save_delivery m q))" "gentle (always (delete_me m))"
  using typed_kept_set_state typed_kept_replace typed_kept_texts typed_kept_results meeting_kept_by_me
  by (auto simp: gentle_def always_def)

lemma gentle_requeue [calm_rules]: "gentle (update_meeting m now back_to_queued)"
  by (auto simp: gentle_def update_meeting_def typed_kept_def back_to_queued_def split: option.splits)

lemma own_note_Did: "Mark m j \<in># M \<Longrightarrow> own_note M (Some (Did m j))"
  by (simp add: own_note_def)

lemma own_note_None [calm_rules]: "own_note M None"
  by (simp add: own_note_def)

lemma calm_transact [calm_rules]: "own_note M e \<Longrightarrow> gentle t \<Longrightarrow> calm M (transact_as e t)"
  by (rule calm_transact_as) (auto simp: gentle_def)

lemma calm_stage_transact [calm_rules]: "own_note M e \<Longrightarrow> gentle t \<Longrightarrow> calm M (stage_transact e st t)"
  unfolding stage_transact_def by (intro calm_rules)

lemma calm_own_transact [calm_rules]: "Mark m j \<in># M \<Longrightarrow> gentle t \<Longrightarrow> calm M (own_transact m j st t)"
  unfolding own_transact_def by (intro calm_rules own_note_Did)

lemma calm_stage_query [calm_rules]: "calm M (stage_query st g)"
  unfolding stage_query_def by (intro calm_rules)

lemma calm_models_gone [calm_rules]: "calm M (models_gone r)"
  unfolding models_gone_def by (auto split: outcome.splits intro!: calm_rules)

lemma calm_run_stage [calm_rules]: "calm M body \<Longrightarrow> calm M (run_stage st m body)"
  unfolding run_stage_def by (auto intro!: calm_rules)

lemma calm_begin_run [calm_rules]: "calm M (begin_run m st)"
  unfolding begin_run_def
proof (intro calm_rules)
  show "calm M (change (\<lambda>s. s\<lparr>runs := (runs s)(m := Some None)\<rparr>))"
    by (rule calm_change) (simp add: keeps_typed_def)
qed

lemma calm_carry_on_after [calm_rules]: "calm M (carry_on_after f)"
  unfolding carry_on_after_def by (intro calm_rules)

lemma calm_or_carry_on [calm_rules]: "calm M j \<Longrightarrow> calm M instead \<Longrightarrow> calm M (or_carry_on j instead)"
  unfolding or_carry_on_def by (auto split: outcome.splits intro!: calm_rules)

lemma calm_diarize [calm_rules]: "calm M (diarize svc m a lane handed)"
  unfolding diarize_def by (auto split: option.splits intro!: calm_rules)

lemma calm_without_diarizer [calm_rules]: "calm M (diarization_without_diarizer m lane)"
  unfolding diarization_without_diarizer_def by (auto split: option.splits intro!: calm_rules)

lemma calm_match_voices [calm_rules]: "calm M (match_voices svc sps done)"
  by (induction sps arbitrary: "done") (auto split: option.splits intro!: calm_rules)

lemma calm_match_speakers [calm_rules]: "calm M (match_speakers svc m sps)"
  unfolding match_speakers_def by (intro calm_rules)

lemma calm_merge [calm_rules]: "Mark m j \<in># M \<Longrightarrow> calm M (merge m j r lanes di)"
  unfolding merge_def by (auto simp: Let_def split: prod.splits intro!: calm_rules)

lemma calm_cleanup [calm_rules]: "Mark m j \<in># M \<Longrightarrow> calm M (cleanup svc m j r segs sps)"
  unfolding cleanup_def by (auto split: option.splits sum.splits prod.splits intro!: calm_rules)

lemma calm_summarize [calm_rules]: "Mark m j \<in># M \<Longrightarrow> calm M (summarize svc m j r segs sps)"
  unfolding summarize_def by (auto simp: Let_def split: option.splits intro!: calm_rules)

lemma calm_save_rows [calm_rules]: "Mark m j \<in># M \<Longrightarrow> calm M (save_rows m j qs)"
  by (induction qs) (auto intro!: calm_rules own_note_Did)

lemma calm_persist [calm_rules]: "Mark m j \<in># M \<Longrightarrow> calm M (persist svc m j i a)"
  unfolding persist_def by (auto simp: Let_def split: option.splits intro!: calm_rules)

lemma calm_deliver [calm_rules]: "Mark m j \<in># M \<Longrightarrow> calm M (deliver svc m j)"
  unfolding deliver_def by (auto intro!: calm_rules)

lemma calm_stored_results [calm_rules]: "calm M (stored_results_need_the_audio m a)"
  unfolding stored_results_need_the_audio_def by (auto split: option.splits intro!: calm_rules)

lemma calm_retention [calm_rules]: "own_note M e \<Longrightarrow> calm M (retention e m i a how)"
  unfolding retention_def by (auto simp: Let_def intro!: calm_rules)

lemma calm_stamp_deferred [calm_rules]: "own_note M e \<Longrightarrow> calm M (stamp_deferred_retention e m how)"
  unfolding stamp_deferred_retention_def by (auto split: option.splits prod.splits intro!: calm_rules)

section \<open>The engine: its turn, its claims, its lock\<close>

lemma bt_distinct: "bt_ok b \<Longrightarrow> distinct (map fst b)"
  by (simp add: bt_ok_def strict_sorted_iff)

lemma mset_bt_remove:
  assumes "bt_ok b" and "(k, v) \<in> set b"
  shows "mset (map f (bt_remove k b)) = mset (map f b) - {#f (k, v)#}"
proof -
  have "mset b = add_mset (k, v) (mset (bt_remove k b))"
    using bt_distinct[OF assms(1)] assms(2)
  proof (induction b)
    case (Cons x b)
    show ?case
    proof (cases "x = (k, v)")
      case True
      then have "bt_remove k b = b" using Cons.prems(1) by (force simp: bt_remove_def intro: filter_True)
      then show ?thesis using True by (simp add: bt_remove_def)
    next
      case False
      then have "(k, v) \<in> set b" using Cons.prems(2) by simp
      moreover have "fst x \<noteq> k"
        using Cons.prems(1) image_eqI[OF _ \<open>(k, v) \<in> set b\<close>, of k fst] by auto
      ultimately show ?thesis using Cons by (cases x) (simp add: bt_remove_def)
    qed
  qed simp
  then show ?thesis by simp
qed

lemma mset_bt_insert_new: "bt_get b k = None \<Longrightarrow> mset (bt_insert k v b) = add_mset (k, v) (mset b)"
  by (induction b) (auto simp: bt_get_def split: if_splits)

lemma mset_bt_insert_old:
  assumes "bt_ok b" and "(k, v0) \<in> set b"
  shows "mset (bt_insert k v b) = add_mset (k, v) (mset b - {#(k, v0)#})"
  using assms
proof (induction b)
  case (Cons x b)
  obtain k' v' where x: "x = (k', v')" by fastforce
  have ok: "bt_ok b" "\<forall>y\<in>set b. k' < fst y" using Cons.prems(1) by (auto simp: bt_ok_def x)
  show ?case
  proof (cases "k' = k")
    case True
    then have "v' = v0" using Cons.prems(2) ok(2) by (auto simp: x)
    then show ?thesis using True by (simp add: x)
  next
    case False
    then have mem: "(k, v0) \<in> set b" using Cons.prems(2) by (simp add: x)
    then have "k' < k" using ok(2) by force
    then show ?thesis using Cons.IH[OF ok(1) mem] mem False by (auto simp: x)
  qed
qed simp

lemma token_swap:
  fixes T :: "'t multiset"
  assumes "H \<subseteq># S" and "T \<subseteq># H"
  shows "S - T + U = (H - T + U) + (S - H)"
proof -
  obtain R where "S = H + R" using assms(1) by (auto simp: subset_mset.le_iff_add)
  moreover obtain K where "H = T + K" using assms(2) by (auto simp: subset_mset.le_iff_add)
  ultimately show ?thesis by simp
qed

lemma own_act_swap:
  assumes "T \<subseteq># H"
    and "\<And>s. invar s \<Longrightarrow> T \<subseteq># tokens s \<Longrightarrow> H \<subseteq># tokens s \<Longrightarrow> \<exists>U.
      invar (fst (f s)) \<and> keeps_typed s (fst (f s)) \<and> tokens (fst (f s)) = tokens s - T + U \<and>
      Q (snd (f s)) (H - T + U)"
  shows "own (act f) H Q"
proof (rule owns_act)
  fix s assume s: "invar s" "H \<subseteq># tokens s"
  then have "T \<subseteq># tokens s" using assms(1) by (meson subset_mset.order_trans)
  from assms(2)[OF s(1) this s(2)] token_swap[OF s(2) assms(1)]
  show "invar (fst (f s)) \<and> keeps_typed s (fst (f s)) \<and>
      (\<exists>H'. tokens (fst (f s)) = H' + (tokens s - H) \<and> Q (snd (f s)) H')"
    by metis
qed

lemma own_change_swap:
  assumes "T \<subseteq># H"
    and "\<And>s. invar s \<Longrightarrow> T \<subseteq># tokens s \<Longrightarrow> invar (f s) \<and> keeps_typed s (f s) \<and> tokens (f s) = tokens s - T + U"
    and "Q () (H - T + U)"
  shows "own (change f) H Q"
  unfolding change_def by (rule own_act_swap[OF assms(1)]) (use assms(2,3) in auto)

lemma own_once_gain:
  assumes "\<And>s. invar s \<Longrightarrow> g s \<Longrightarrow> invar (f s) \<and> keeps_typed s (f s) \<and> tokens (f s) = tokens s + U"
    and "Q () (H + U)"
  shows "own (once g f) H Q"
proof (rule owns_once)
  fix s assume s: "invar s" "g s" "H \<subseteq># tokens s"
  have "tokens (f s) = (H + U) + (tokens s - H)"
    using assms(1)[OF s(1,2)] token_swap[OF s(3), of "{#}" U] by simp
  then show "invar (f s) \<and> keeps_typed s (f s) \<and> (\<exists>H'. tokens (f s) = H' + (tokens s - H) \<and> Q () H')"
    using assms(1)[OF s(1,2)] assms(2) by blast
qed

lemma own_change_gain:
  assumes "\<And>s. invar s \<Longrightarrow> invar (f s) \<and> keeps_typed s (f s) \<and> tokens (f s) = tokens s + U"
    and "Q () (H + U)"
  shows "own (change f) H Q"
  by (rule own_change_swap[of "{#}" _ _ U]) (use assms in auto)

lemma own_change_lose:
  assumes "\<And>s. invar s \<Longrightarrow> T \<subseteq># tokens s \<Longrightarrow> invar (f s) \<and> keeps_typed s (f s) \<and> tokens (f s) = tokens s - T"
    and "Q () H"
  shows "own (change f) (H + T) Q"
  by (rule own_change_swap[of T _ _ "{#}"]) (use assms in auto)

lemma own_then: "own j H P \<Longrightarrow> (\<And>a H'. P a H' \<Longrightarrow> own (k a) H' Q) \<Longrightarrow> own (run_then j k) H Q"
  by (rule owns_run_then)

lemma own_quietly: "calm {#} j \<Longrightarrow> (\<And>a. own (k a) H Q) \<Longrightarrow> own (run_then j k) H Q"
  by (rule own_after_calm[of "{#}"]) simp_all

lemma invar_turn [simp]: "invar (s\<lparr>turn := b\<rparr>) = invar s"
  by (simp add: invar_defs)

lemma own_take_turn: "own (once (\<lambda>s. \<not> turn s) (\<lambda>s. s\<lparr>turn := True\<rparr>)) H (\<lambda>_ H'. H' = add_mset Turn H)"
  by (rule own_once_gain[of _ _ "{#Turn#}"]) (auto simp: keeps_typed_def tokens_def)

lemma own_drop_turn: "own (change (\<lambda>s. s\<lparr>turn := False\<rparr>)) (add_mset Turn H) (\<lambda>_ H'. H' = H)"
  unfolding add_mset_add_single[of Turn H]
proof (rule own_change_lose)
  fix s assume "invar s" "{#Turn#} \<subseteq># tokens s"
  then have "turn s" by (simp add: turn_held)
  then show "invar (s\<lparr>turn := False\<rparr>) \<and> keeps_typed s (s\<lparr>turn := False\<rparr>) \<and>
      tokens (s\<lparr>turn := False\<rparr>) = tokens s - {#Turn#}"
    using \<open>invar s\<close> by (simp add: keeps_typed_def tokens_def)
qed simp

lemma own_in_process_turn:
  assumes "Q (Good False) H" and "Q (Good True) (add_mset Turn H)" and "\<And>f. Q (Bad f) H"
  shows "own (in_process_turn svc m st) H Q"
proof -
  have wait: "calm {#} (if b then once (\<lambda>s. \<not> live s) id else Finished ())" for b
    by (auto intro!: calm_rules calm_once)
  have waits: "calm {#} (if b then post_event (WaitingForRecording m) else Finished ())" for b
    by (auto intro!: calm_rules)
  have quitting: "own (if quitting
      then run_then (change (\<lambda>s. s\<lparr>turn := False\<rparr>)) (\<lambda>_. Finished (Bad (failing st AppQuitting)))
      else Finished (Good True)) (add_mset Turn H) Q" for quitting
    using assms by (auto intro!: own_then[OF own_drop_turn])
  show ?thesis
  proof (cases "speech_in_process svc")
    case True
    show ?thesis
      unfolding in_process_turn_def using True
      apply (simp only: not_True_eq_False if_False)
      apply (rule own_quietly, rule calm_look_at)
      apply (rule own_quietly, rule waits)
      apply (rule own_then, rule own_take_turn)
      apply (erule ssubst)
      apply (rule own_quietly, rule calm_look_at)
      apply (rule own_quietly, rule waits)
      apply (rule own_quietly, rule wait)
      apply (rule own_quietly, rule calm_look_at)
      by (rule quitting)
  next
    case False
    then show ?thesis using assms(1) by (simp add: in_process_turn_def)
  qed
qed

text \<open>Work under the turn, whether or not it is taken.\<close>

lemma own_turned:
  assumes body: "\<And>T. own body (H + T) (\<lambda>r H'. \<exists>H1. H' = H1 + T \<and> R r H1)"
    and rest: "\<And>a H1. R (Good a) H1 \<Longrightarrow> own (k a) H1 Q"
    and failed: "\<And>f H1. R (Bad f) H1 \<Longrightarrow> Q (Bad f) H1" "\<And>H1. R Panicking H1 \<Longrightarrow> Q Panicking H1"
    and refused: "\<And>f. Q (Bad f) H"
  shows "own (and_then (in_process_turn svc m st) (\<lambda>taken. and_then (holding_turn taken body) k)) H Q"
proof -
  have after: "own (case r of Good a \<Rightarrow> k a | Bad f \<Rightarrow> Finished (Bad f) | Panicking \<Rightarrow> Finished Panicking) H1 Q"
    if "R r H1" for r H1
    using that rest failed by (auto split: outcome.splits)
  have taken: "own (holding_turn True body) (add_mset Turn H) R"
    unfolding holding_turn_def
    by (rule own_then[OF body[of "{#Turn#}", unfolded add_mset_add_single[symmetric]]]) (auto intro!: own_then[OF own_drop_turn])
  have not_taken: "own (holding_turn False body) H R"
    unfolding holding_turn_def using body[of "{#}"] by (auto intro!: own_then)
  have "own (and_then (holding_turn b body) k) (if b then add_mset Turn H else H) Q" for b
    unfolding and_then_def using taken not_taken
    by (cases b) (auto intro!: own_then after)
  note both = this[of True] this[of False]
  show ?thesis
    unfolding and_then_def[of "in_process_turn svc m st"]
    by (rule own_then[OF own_in_process_turn[where Q = "\<lambda>r H'.
          case r of Good b \<Rightarrow> H' = (if b then add_mset Turn H else H) | Bad _ \<Rightarrow> H' = H | Panicking \<Rightarrow> False"]])
      (use both refused in \<open>auto split: outcome.splits if_splits\<close>)
qed

lemma calm_turned:
  assumes "calm M body" and "\<And>a. calm M (k a)"
  shows "calm M (and_then (in_process_turn svc m st) (\<lambda>taken. and_then (holding_turn taken body) k))"
  unfolding calm_def
proof (intro allI impI)
  fix H assume H: "M \<subseteq># H"
  show "own (and_then (in_process_turn svc m st) (\<lambda>taken. and_then (holding_turn taken body) k)) H (\<lambda>_ H'. H' = H)"
  proof (rule own_turned[where R = "\<lambda>_ H1. H1 = H"])
    fix T :: "token multiset"
    have "M \<subseteq># H + T" using H by (simp add: subset_mset.add_increasing2)
    then show "own body (H + T) (\<lambda>r H'. \<exists>H1. H' = H1 + T \<and> H1 = H)"
      by (rule own_calm[OF assms(1)]) simp
  next
    fix a H1 assume "H1 = H"
    then show "own (k a) H1 (\<lambda>_ H'. H' = H)" using calmD[OF assms(2) H] by simp
  qed simp_all
qed

lemma own_claim_engine: "own claim_engine H (\<lambda>c H'. H' = add_mset (EngineClaim c False) H)"
  unfolding claim_engine_def
proof (rule own_act_swap[of "{#}"])
  fix s assume s: "invar s"
  have fresh: "bt_get (claims s) (claims_made s) = None"
    using s by (auto simp: invar_def engine_ok_def bt_get_def map_of_eq_None_iff list_all_iff)
  note new = mset_bt_insert_new[OF fresh, of False]
  have members: "set (bt_insert (claims_made s) False (claims s)) = insert (claims_made s, False) (set (claims s))"
    using arg_cong[OF new, of set_mset] by simp
  let ?s = "s\<lparr>claims := bt_insert (claims_made s) False (claims s), claims_made := Suc (claims_made s)\<rparr>"
  have "engine_ok ?s"
    using s bt_insert_ok members by (auto simp: invar_def engine_ok_def list_ex_iff list_all_iff less_Suc_eq)
  then have "invar ?s" using s by (simp add: invar_def runs_ok_def starts_ok_def waits_ok_def)
  moreover have "tokens ?s = tokens s + {#EngineClaim (claims_made s) False#}"
    by (simp add: tokens_def new mset_map)
  ultimately show "\<exists>U. invar (fst (?s, claims_made s)) \<and> keeps_typed s (fst (?s, claims_made s)) \<and>
      tokens (fst (?s, claims_made s)) = tokens s - {#} + U \<and>
      H - {#} + U = add_mset (EngineClaim (snd (?s, claims_made s)) False) H"
    by (intro exI[of _ "{#EngineClaim (claims_made s) False#}"]) (simp add: keeps_typed_def)
qed simp

lemma some_flag_removed: "list_ex snd (bt_remove c b) \<Longrightarrow> list_ex snd b"
  by (force simp: list_ex_iff bt_remove_def)

lemma own_end_claim: "own (end_claim c) (add_mset (EngineClaim c b) H) (\<lambda>_ H'. H' = H)"
  unfolding end_claim_def add_mset_add_single[of "EngineClaim c b" H]
proof (rule own_change_lose)
  fix s assume s: "invar s" "{#EngineClaim c b#} \<subseteq># tokens s"
  then have mem: "(c, b) \<in> set (claims s)" by (simp add: claim_held)
  have ok: "bt_ok (claims s)" using s by (simp add: invar_defs)
  let ?s = "s\<lparr>claims := bt_remove c (claims s)\<rparr>"
  have numbers: "list_all (\<lambda>(c, _). c < claims_made s) (bt_remove c (claims s))"
    using s(1) by (auto simp: invar_defs bt_remove_def list_all_iff)
  have "engine_ok ?s"
    using s(1) bt_remove_ok[OF ok, of c] some_flag_removed[of c "claims s"] numbers
    by (auto simp: invar_def engine_ok_def)
  then have "invar ?s" using s by (simp add: invar_def runs_ok_def starts_ok_def waits_ok_def)
  moreover have "EngineClaim c b \<in># mset (map (case_prod EngineClaim) (claims s))"
    using mem by force
  then have "tokens ?s = tokens s - {#EngineClaim c b#}"
    using mset_bt_remove[OF ok mem, of "case_prod EngineClaim"] by (simp add: tokens_def)
  ultimately show "invar ?s \<and> keeps_typed s ?s \<and> tokens ?s = tokens s - {#EngineClaim c b#}"
    by (simp add: keeps_typed_def)
qed simp

lemma own_lock_preparing: "own lock_preparing H (\<lambda>_ H'. H' = add_mset (Preparing False) H)"
  unfolding lock_preparing_def
  by (rule own_once_gain[of _ _ "{#Preparing False#}"])
    (auto simp: keeps_typed_def tokens_def invar_defs)

lemma own_unlock_preparing: "own unlock_preparing (add_mset (Preparing b) H) (\<lambda>_ H'. H' = H)"
  unfolding unlock_preparing_def add_mset_add_single[of "Preparing b" H]
proof (rule own_change_lose)
  fix s assume s: "invar s" "{#Preparing b#} \<subseteq># tokens s"
  then have "preparing s = Some b" by (simp add: lock_held)
  then show "invar (s\<lparr>preparing := None\<rparr>) \<and> keeps_typed s (s\<lparr>preparing := None\<rparr>) \<and>
      tokens (s\<lparr>preparing := None\<rparr>) = tokens s - {#Preparing b#}"
    using s(1) by (simp add: keeps_typed_def tokens_def invar_defs)
qed simp

text \<open>The warm-up, for a job with a claim: the claim says the engine is loaded unless it failed to load.\<close>

lemma own_engine_prepare:
  "own (engine_prepare (Some c)) (add_mset (Preparing False) (add_mset (EngineClaim c b) K))
     (\<lambda>r H'. \<exists>b'. H' = add_mset (Preparing False) (add_mset (EngineClaim c b') K) \<and>
        (case r of Good _ \<Rightarrow> b' | Bad f \<Rightarrow> f_stage f = Decode | Panicking \<Rightarrow> True))"
  unfolding engine_prepare_def
proof (rule own_act_swap[of "{#EngineClaim c b#}"], goal_cases)
  case (2 s)
  note s = 2(1)
  have "Preparing False \<in># tokens s" "EngineClaim c b \<in># tokens s"
    using mset_subset_eqD[OF 2(3)] by auto
  then have lock: "preparing s = Some False" and mem: "(c, b) \<in> set (claims s)"
    by (simp_all add: lock_held claim_held)
  obtain l s1 where l: "next_luck s = (l, s1)" by fastforce
  note frame = next_luck_frame[OF l]
  have ok: "bt_ok (claims s)" using s by (simp add: invar_defs)
  note old = mset_bt_insert_old[OF ok mem, of True]
  let ?s = "s1\<lparr>calls := Suc (calls s1), engine_loaded := True, claims := bt_insert c True (claims s)\<rparr>"
  have inv1: "invar s1" using frame s by simp
  have "set (bt_insert c True (claims s)) \<subseteq> insert (c, True) (set (claims s))"
    using arg_cong[OF old, of set_mset] by (auto dest: in_diffD)
  then have "list_all (\<lambda>(c, _). c < claims_made s1) (bt_insert c True (claims s))"
    using inv1 mem frame by (auto simp: invar_defs list_all_iff)
  then have "invar ?s"
    using inv1 bt_insert_ok[OF ok, of c True] lock frame by (simp add: invar_defs)
  moreover have "EngineClaim c b \<in># mset (map (case_prod EngineClaim) (claims s))" using mem by force
  then have "tokens ?s = tokens s - {#EngineClaim c b#} + {#EngineClaim c True#}"
    using mem frame(5-) old by (simp add: tokens_def mset_map image_mset_Diff)
  ultimately have loaded: "invar ?s" "tokens ?s = tokens s - {#EngineClaim c b#} + {#EngineClaim c True#}"
    by simp_all
  have kept: "tokens s = tokens s - {#EngineClaim c b#} + {#EngineClaim c b#}"
    using mem by (simp add: claim_held)
  let ?U = "{#EngineClaim c (if l = Fine then True else b)#}"
  show ?case
    using loaded kept frame inv1
    by (intro exI[of _ ?U]) (cases l; auto simp: l Let_def keeps_typed_def wrapping_def failing_def models_missing_def add_mset_commute)
qed simp

text \<open>What the warm-up of a job leaves: loaded when it succeeds or only the diarizer failed.\<close>

definition warmed_by :: "nat \<Rightarrow> token multiset \<Rightarrow> 'a outcome \<Rightarrow> token multiset \<Rightarrow> bool" where
  "warmed_by c K r H \<longleftrightarrow>
     (\<exists>b. H = add_mset (EngineClaim c b) K \<and>
        (case r of Good _ \<Rightarrow> b | Bad f \<Rightarrow> f_stage f = Diarize \<longrightarrow> b | Panicking \<Rightarrow> True))"

lemma own_models_gone: "own (models_gone r) H
     (\<lambda>r' H'. H' = H \<and> (case r of Bad f \<Rightarrow> (\<exists>f'. r' = Bad f' \<and> f_stage f' = f_stage f) | _ \<Rightarrow> r' = r))"
  unfolding models_gone_def mapping_result_def
  by (auto split: outcome.splits intro!: owns_run_then[OF owns_look_at[where Q = "\<lambda>_ H'. H' = H"]]
      simp: models_missing_def)

lemma own_warm_up:
  "own (warm_up (Some c)) (add_mset (EngineClaim c b) K) (warmed_by c K)"
proof -
  let ?P = "\<lambda>r H'. \<exists>b'. H' = add_mset (Preparing False) (add_mset (EngineClaim c b') K) \<and>
        (case r of Good _ \<Rightarrow> b' | Bad f \<Rightarrow> f_stage f = Diarize \<longrightarrow> b' | Panicking \<Rightarrow> True)"
  have engine: "own (run_then (engine_prepare (Some c)) models_gone)
      (add_mset (Preparing False) (add_mset (EngineClaim c b) K))
      (\<lambda>r H'. \<exists>b'. H' = add_mset (Preparing False) (add_mset (EngineClaim c b') K) \<and>
        (case r of Good _ \<Rightarrow> b' | Bad f \<Rightarrow> f_stage f = Decode | Panicking \<Rightarrow> True))"
    by (rule own_then[OF own_engine_prepare], rule owns_mono[OF own_models_gone])
      (auto split: outcome.splits)
  have diarizer: "own (run_then (boundary Diarize (\<lambda>_. ())) models_gone) H'
      (\<lambda>_ H''. H'' = H')" for H'
    by (rule own_calm[of "{#}"]) (auto intro!: calm_rules)
  have both: "own (and_then (run_then (engine_prepare (Some c)) models_gone) (\<lambda>_.
        run_then (boundary Diarize (\<lambda>_. ())) models_gone))
      (add_mset (Preparing False) (add_mset (EngineClaim c b) K)) ?P"
    unfolding and_then_def
  proof (rule own_then[OF engine])
    fix r :: "unit outcome" and H'
    assume "\<exists>b'. H' = add_mset (Preparing False) (add_mset (EngineClaim c b') K) \<and>
      (case r of Good _ \<Rightarrow> b' | Bad f \<Rightarrow> f_stage f = Decode | Panicking \<Rightarrow> True)"
    then obtain b' where H': "H' = add_mset (Preparing False) (add_mset (EngineClaim c b') K)"
      and b': "case r of Good _ \<Rightarrow> b' | Bad f \<Rightarrow> f_stage f = Decode | Panicking \<Rightarrow> True" by blast
    show "own (case r of Good a \<Rightarrow> run_then (boundary Diarize (\<lambda>_. ())) models_gone
        | Bad f \<Rightarrow> Finished (Bad f) | Panicking \<Rightarrow> Finished Panicking) H' ?P"
    proof (cases r)
      case (Good a)
      have "own (run_then (boundary Diarize (\<lambda>_. ())) models_gone) H' ?P"
        by (rule owns_mono[OF diarizer]) (use H' b' Good in \<open>auto split: outcome.split\<close>)
      then show ?thesis using Good by simp
    qed (use H' b' in auto)
  qed
  have unlock: "own (run_then unlock_preparing (\<lambda>_. Finished r)) H' (warmed_by c K)" if "?P r H'" for r H'
    using that by (auto simp: warmed_by_def intro!: own_then[OF own_unlock_preparing])
  have "own (run_then lock_preparing (\<lambda>_. run_then (and_then (run_then (engine_prepare (Some c)) models_gone)
      (\<lambda>_. run_then (boundary Diarize (\<lambda>_. ())) models_gone)) (\<lambda>r. run_then unlock_preparing (\<lambda>_. Finished r))))
      (add_mset (EngineClaim c b) K) (warmed_by c K)"
    by (rule own_then[OF own_lock_preparing]) (auto intro!: own_then[OF both] unlock)
  then show ?thesis
    unfolding warm_up_def by (intro own_quietly calm_look_at) (auto simp: warmed_by_def models_missing_def)
qed

lemma own_warm_up_for_job:
  "own (warm_up_for_job c) (add_mset (EngineClaim c b) K)
     (\<lambda>r H'. \<exists>b'. H' = add_mset (EngineClaim c b') K \<and> (case r of Good _ \<Rightarrow> b' | _ \<Rightarrow> True))"
  unfolding warm_up_for_job_def
proof (rule own_then[OF own_warm_up])
  fix r :: "unit outcome" and H'
  assume w: "warmed_by c K r H'"
  have "own (carry_on_after f) H' (\<lambda>_ H''. H'' = H')" for f
    by (rule own_calm[of "{#}"]) (auto intro!: calm_rules)
  then show "own (case r of Bad f \<Rightarrow> if f_stage f = Diarize then carry_on_after f else Finished r | _ \<Rightarrow> Finished r) H'
      (\<lambda>r H'. \<exists>b'. H' = add_mset (EngineClaim c b') K \<and> (case r of Good _ \<Rightarrow> b' | _ \<Rightarrow> True))"
    using w by (cases r) (auto simp: warmed_by_def intro: owns_mono split: outcome.split)
qed

lemma own_release:
  "own (act (\<lambda>s. if no_claims s then (s\<lparr>preparing := Some True\<rparr>, True) else (s, False)))
     (add_mset (Preparing False) K) (\<lambda>b H'. H' = add_mset (Preparing b) K)"
proof (rule own_act_swap[of "{#Preparing False#}"], goal_cases)
  case (2 s)
  have lock: "preparing s = Some False" using 2(2) by (simp add: lock_held)
  have "tokens s = tokens s - {#Preparing False#} + {#Preparing False#}"
    using 2(2) by simp
  moreover have "tokens (s\<lparr>preparing := Some True\<rparr>) = tokens s - {#Preparing False#} + {#Preparing True#}"
    using lock by (simp add: tokens_def)
  moreover have "no_claims s \<Longrightarrow> invar (s\<lparr>preparing := Some True\<rparr>)"
    using 2(1) by (simp add: invar_defs no_claims_def)
  ultimately show ?case
    using 2(1) by (intro exI[of _ "{#Preparing (no_claims s)#}"]) (auto simp: keeps_typed_def)
qed simp

lemma calm_unload: "calm {#Preparing True#} (change (\<lambda>s. s\<lparr>engine_loaded := False\<rparr>))"
  by (rule calm_change) (auto simp: invar_defs keeps_typed_def lock_held)

lemma own_finish_speech: "own (finish_speech c) (add_mset (EngineClaim c b) K) (\<lambda>_ H'. H' = K)"
proof -
  have released: "own (run_then (if b then change (\<lambda>s. s\<lparr>engine_loaded := False\<rparr>) else Finished ())
      (\<lambda>_. unlock_preparing)) (add_mset (Preparing b) K) (\<lambda>_ H'. H' = K)" for b
    by (cases b) (auto intro!: own_after_calm[OF calm_unload] own_unlock_preparing)
  have locked: "own (run_then lock_preparing (\<lambda>_.
      run_then (act (\<lambda>s. if no_claims s then (s\<lparr>preparing := Some True\<rparr>, True) else (s, False))) (\<lambda>still_free.
      run_then (if still_free then change (\<lambda>s. s\<lparr>engine_loaded := False\<rparr>) else Finished ()) (\<lambda>_.
      unlock_preparing)))) K (\<lambda>_ H'. H' = K)"
    by (rule own_then[OF own_lock_preparing]) (auto intro!: own_then[OF own_release] released)
  show ?thesis
    unfolding finish_speech_def
    by (rule own_then[OF own_end_claim]) (auto intro!: own_quietly calm_look_at locked)
qed

lemma calm_note_use:
  assumes "Mark m j \<in># M" and "EngineClaim c True \<in># M"
  shows "calm M (change (\<lambda>s. s\<lparr>history := Used m j (engine_loaded s) # history s\<rparr>))"
proof (rule calm_change)
  fix s assume s: "invar s" "M \<subseteq># tokens s"
  have "(c, True) \<in> set (claims s)"
    using mset_subset_eqD[OF s(2) assms(2)] by (simp add: claim_held)
  then have "engine_loaded s" using s(1) by (force simp: invar_defs list_ex_iff)
  moreover have "bt_get (marks s) m = Some j"
    using runner_of_mark[OF s(1) mset_subset_eqD[OF s(2) assms(1)]] .
  ultimately show "invar (s\<lparr>history := Used m j (engine_loaded s) # history s\<rparr>) \<and>
      keeps_typed s (s\<lparr>history := Used m j (engine_loaded s) # history s\<rparr>) \<and>
      tokens (s\<lparr>history := Used m j (engine_loaded s) # history s\<rparr>) = tokens s"
    using s(1) by (simp add: invar_defs keeps_typed_def engine_was_loaded_def)
qed

lemma calm_engine_transcribe:
  "Mark m j \<in># M \<Longrightarrow> EngineClaim c True \<in># M \<Longrightarrow> calm M (engine_transcribe m j f)"
  unfolding engine_transcribe_def by (intro calm_rules calm_note_use[of m j M c]; assumption)

lemma calm_transcribe_lanes:
  assumes "Mark m j \<in># M" and "EngineClaim c True \<in># M"
  shows "calm M (transcribe_lanes svc m j a ls index lanes hint final damaged longest)"
proof (induction ls arbitrary: index lanes hint final damaged longest)
  case (Cons lane ls)
  show ?case
    by (auto simp: Let_def intro!: calm_and_then calm_turned Cons.IH calm_rules calm_engine_transcribe[OF assms])
qed (simp add: calm_Finished)

lemma calm_decode_and_transcribe:
  assumes "Mark m j \<in># M" and "EngineClaim c True \<in># M"
  shows "calm M (decode_and_transcribe svc m j i a)"
  unfolding decode_and_transcribe_def
  using assms(1) by (auto split: option.splits intro!: calm_rules calm_transcribe_lanes[OF assms])

lemma own_claimed_transcription:
  assumes "Mark m j \<in># H"
  shows "own (claimed_transcription svc m j i a) H (\<lambda>_ H'. H' = H)"
proof -
  let ?post = "\<lambda>c r H'. \<exists>b. H' = add_mset (EngineClaim c b) H"
  have rest: "own (run_then (look_at clock) (\<lambda>now.
     and_then (own_transact m j Decode (set_state m Processing now)) (\<lambda>_.
     and_then (stage_query Decode (\<lambda>_. ())) (\<lambda>_.
     and_then (begin_run m Decode) (\<lambda>_.
     decode_and_transcribe svc m j i a))))) (add_mset (EngineClaim c True) H) (?post c)" for c
    by (rule own_calm[of "add_mset (EngineClaim c True) H"])
      (use assms in \<open>auto intro!: calm_rules calm_decode_and_transcribe[of m j _ c]\<close>)
  have body: "own (warm_up_for_job c) (add_mset (EngineClaim c False) H + T)
      (\<lambda>r H'. \<exists>H1. H' = H1 + T \<and> (\<exists>b'. H1 = add_mset (EngineClaim c b') H \<and>
        (case r of Good _ \<Rightarrow> b' | _ \<Rightarrow> True)))" for c T
    by (rule owns_mono[OF own_warm_up_for_job[where K = "H + T" and b = False, folded union_mset_add_mset_left]]) auto
  have start: "own (start_and_transcribe svc m j c i a) (add_mset (EngineClaim c False) H) (?post c)" for c
    unfolding start_and_transcribe_def by (rule own_turned[OF body]) (auto simp: rest)
  have ends: "own (run_then (case r of Panicking \<Rightarrow> end_claim c | _ \<Rightarrow> finish_speech c) (\<lambda>_. Finished r))
      (add_mset (EngineClaim c b) H) (\<lambda>_ H'. H' = H)" for r :: "(transcription \<times> decoded_lane option) outcome" and c b
    by (cases r) (auto intro!: own_then[OF own_end_claim] own_then[OF own_finish_speech])
  show ?thesis
    unfolding claimed_transcription_def
    by (rule own_then[OF own_claim_engine]) (auto intro!: own_then[OF start] ends)
qed

lemma calm_claimed_transcription [calm_rules]: "Mark m j \<in># M \<Longrightarrow> calm M (claimed_transcription svc m j i a)"
  unfolding calm_def by (auto intro: own_claimed_transcription dest: mset_subset_eqD)

lemma calm_process_until_persist [calm_rules]: "Mark m j \<in># M \<Longrightarrow> calm M (process_until_persist svc m j i a r)"
  unfolding process_until_persist_def
  by (auto simp: Let_def split: prod.splits option.splits intro!: calm_rules)

section \<open>Marks\<close>

lemma own_admit:
  "own (admit m st) H (\<lambda>r H'. case r of Good j \<Rightarrow> H' = add_mset (Mark m j) H | Bad _ \<Rightarrow> H' = H | Panicking \<Rightarrow> False)"
  unfolding admit_def
proof (rule own_act_swap[of "{#}"], goal_cases)
  case (2 s)
  show ?case
  proof (cases "bt_get (marks s) m = None")
    case True
    let ?s = "s\<lparr>marks := bt_insert m (admissions s) (marks s), admissions := Suc (admissions s),
               history := Began m (admissions s) # history s\<rparr>"
    have "bt_get (marks ?s) = (bt_get (marks s))(m := Some (admissions s))"
      using 2(1) by (auto simp: invar_defs bt_get_insert)
    then have "runs_ok ?s" using 2(1) True by (simp add: invar_defs engine_was_loaded_def)
    then have "invar ?s" using 2(1) by (simp add: invar_defs)
    moreover have "tokens ?s = tokens s + {#Mark m (admissions s)#}"
      by (simp add: tokens_def mset_bt_insert_new[OF True] mset_map)
    ultimately show ?thesis
      using True by (intro exI[of _ "{#Mark m (admissions s)#}"]) (simp add: keeps_typed_def)
  qed (use 2 in \<open>auto intro!: exI[of _ "{#}"]\<close>)
qed simp

lemma own_drop_admitted: "own (drop_admitted m j) (add_mset (Mark m j) H) (\<lambda>_ H'. H' = H)"
proof -
  let ?drop = "\<lambda>s. s\<lparr>marks := bt_remove m (marks s), history := Ended m j # history s\<rparr>"
  have drop: "own (change ?drop) (add_mset (Mark m j) H) (\<lambda>_ H'. H' = H)"
    unfolding add_mset_add_single[of "Mark m j" H]
  proof (rule own_change_lose)
    fix s assume s: "invar s" "{#Mark m j#} \<subseteq># tokens s"
    then have mem: "(m, j) \<in> set (marks s)" and runner: "bt_get (marks s) m = Some j"
      using runner_of_mark[OF s(1), of m j] by (simp_all add: mark_held)
    have ok: "bt_ok (marks s)" using s(1) by (simp add: invar_defs)
    have "bt_get (bt_remove m (marks s)) = (bt_get (marks s))(m := None)"
      by (auto simp: bt_get_remove)
    then have "runs_ok (?drop s)" using s(1) runner ok by (simp add: invar_defs engine_was_loaded_def)
    then have "invar (?drop s)" using s(1) by (simp add: invar_defs)
    moreover have "Mark m j \<in># mset (map (case_prod Mark) (marks s))" using mem by force
    then have "tokens (?drop s) = tokens s - {#Mark m j#}"
      using mset_bt_remove[OF ok mem, of "case_prod Mark"] by (simp add: tokens_def)
    ultimately show "invar (?drop s) \<and> keeps_typed s (?drop s) \<and> tokens (?drop s) = tokens s - {#Mark m j#}"
      by (simp add: keeps_typed_def)
  qed simp
  have forget: "calm {#} (change (\<lambda>s. s\<lparr>runs := (runs s)(m := None)\<rparr>))"
    by (rule calm_change) (simp add: keeps_typed_def)
  show ?thesis
    unfolding drop_admitted_def by (rule own_then[OF drop]) (auto intro!: own_calm[OF forget])
qed

lemma own_exclusively:
  assumes "\<And>j. own (body j) (add_mset (Mark m j) H) (\<lambda>r H'. \<exists>H1. H' = add_mset (Mark m j) H1 \<and> Q r H1)"
    and "\<And>f. Q (Bad f) H"
  shows "own (exclusively m st body) H Q"
  unfolding exclusively_def and_then_def
proof (rule own_then[OF own_admit])
  fix r H'
  assume r: "case r of Good j \<Rightarrow> H' = add_mset (Mark m j) H | Bad _ \<Rightarrow> H' = H | Panicking \<Rightarrow> False"
  have "own (run_then (body j) (\<lambda>r. run_then (drop_admitted m j) (\<lambda>_. Finished r))) (add_mset (Mark m j) H) Q" for j
    by (rule own_then[OF assms(1)]) (auto intro!: own_then[OF own_drop_admitted])
  then show "own (case r of Good j \<Rightarrow> run_then (body j) (\<lambda>r. run_then (drop_admitted m j) (\<lambda>_. Finished r))
      | Bad f \<Rightarrow> Finished (Bad f) | Panicking \<Rightarrow> Finished Panicking) H' Q"
    using r assms(2) by (cases r) auto
qed

section \<open>Waits\<close>

lemma let_go_frame [simp]: "marks (let_go W s) = marks s" "claimed (let_go W s) = claimed s"
    "spawned (let_go W s) = spawned s" "claims (let_go W s) = claims s" "preparing (let_go W s) = preparing s"
    "turn (let_go W s) = turn s" "history (let_go W s) = history s" "claims_made (let_go W s) = claims_made s"
    "engine_loaded (let_go W s) = engine_loaded s" "waiting (let_go W s) = waiting s"
    "for_store (let_go W s) = for_store s" "quit_latch (let_go W s) = quit_latch s" "parked (let_go W s) = parked s"
    "db (let_go W s) = db s" "edits (let_go W s) = edits s" "in_hand (let_go W s) = in_hand s - mset_set W"
  by (simp_all add: let_go_def)

lemma tokens_let_go:
  assumes "hands W \<subseteq># tokens s"
  shows "tokens (let_go W s) = tokens s - hands W"
proof -
  define R where "R = mset (map (case_prod Mark) (marks s))
     + image_mset AssetClaim (mset (claimed s) - mset (spawned_claims (spawned s)))
     + mset (map (case_prod EngineClaim) (claims s))
     + (case preparing s of None \<Rightarrow> {#} | Some b \<Rightarrow> {#Preparing b#})
     + (if turn s then {#Turn#} else {#})"
  have "tokens s = R + image_mset Hand (in_hand s)"
    by (simp only: tokens_def R_def)
  moreover have "tokens (let_go W s) = R + image_mset Hand (in_hand s - mset_set W)"
    by (simp only: tokens_def R_def let_go_frame)
  moreover obtain C where "in_hand s = mset_set W + C"
    using hands_held[OF assms] by (auto simp: subset_mset.le_iff_add)
  ultimately show ?thesis by simp
qed

text \<open>Recording meetings as waiting gives up the hands on them.\<close>

lemma in_hand_or_given: "finite W \<Longrightarrow> set_mset B \<subseteq> W \<union> set_mset (B - mset_set W)"
proof
  fix x assume "finite W" "x \<in># B"
  then show "x \<in> W \<union> set_mset (B - mset_set W)"
    by (cases "x \<in> W") (auto simp: in_diff_count)
qed

lemma own_give:
  assumes "finite W" and f: "\<And>s. tokens (f s) = tokens s"
    and ok: "\<And>s. invar s \<Longrightarrow> runs_ok (f s) \<and> starts_ok (f s) \<and> engine_ok (f s) \<and> keeps_typed s (f s) \<and>
      finite (waiting (f s)) \<and> finite (for_store (f s)) \<and> in_hand (f s) = in_hand s \<and>
      (quit_latch (f s) \<or> parked (f s) \<subseteq> waiting (f s) \<union> for_store (f s) \<union> (set_mset (in_hand s) - W))"
  shows "own (change (\<lambda>s. let_go W (f s))) (H + hands W) (\<lambda>_ H'. H' = H)"
proof (rule own_change_lose)
  fix s assume s: "invar s" "hands W \<subseteq># tokens s"
  note o = ok[OF s(1)]
  have "set_mset (in_hand s) - W \<subseteq> set_mset (in_hand s - mset_set W)"
    using in_hand_or_given[OF assms(1), of "in_hand s"] by blast
  then have "quit_latch (f s) \<or>
      parked (f s) \<subseteq> waiting (f s) \<union> for_store (f s) \<union> set_mset (in_hand s - mset_set W)"
    using o by blast
  then have "invar (let_go W (f s))"
    using o by (simp add: invar_defs)
  moreover have "tokens (let_go W (f s)) = tokens s - hands W"
    using tokens_let_go[of W "f s"] s(2) f by simp
  ultimately show "invar (let_go W (f s)) \<and> keeps_typed s (let_go W (f s)) \<and>
      tokens (let_go W (f s)) = tokens s - hands W"
    using o by (simp add: keeps_typed_def)
qed simp

lemma waits_parked: "invar s \<Longrightarrow> quit_latch s \<or> parked s \<subseteq> waiting s \<union> for_store s \<union> set_mset (in_hand s)"
  by (simp add: invar_defs)

lemma own_put_back:
  "finite M \<Longrightarrow> W \<subseteq> M \<Longrightarrow> own (put_back M W) (H + hands W) (\<lambda>_ H'. H' = H)"
  unfolding put_back_def Let_def
  by (rule own_give) (auto simp: invar_defs keeps_typed_def finite_subset)

lemma own_wait_for_store:
  "finite M \<Longrightarrow> W \<subseteq> M \<Longrightarrow> own (wait_for_store M W) (H + hands W) (\<lambda>_ H'. H' = H)"
  unfolding wait_for_store_def Let_def
  by (rule own_give) (auto simp: invar_defs keeps_typed_def finite_subset)

lemma own_settle: "finite W \<Longrightarrow> W \<subseteq> M \<Longrightarrow> own (settle M W) (H + hands W) (\<lambda>_ H'. H' = H)"
  unfolding settle_def
  by (rule own_give) (auto simp: invar_defs keeps_typed_def)

lemma own_wait_unless_resumed:
  "own (wait_unless_resumed m seen) (add_mset (Hand m) H)
     (\<lambda>b H'. H' = (if b then H else add_mset (Hand m) H))"
  unfolding wait_unless_resumed_def
proof (rule own_act_swap[of "{#Hand m#}"], goal_cases)
  case (2 s)
  let ?s = "s\<lparr>waiting := insert m (waiting s)\<rparr>"
  have "set_mset (in_hand s) \<subseteq> insert m (set_mset (in_hand s - {#m#}))"
    using in_hand_or_given[of "{m}" "in_hand s"] by simp
  then have "invar (let_go {m} ?s)"
    using 2(1) by (auto simp: invar_defs)
  moreover have "tokens (let_go {m} ?s) = tokens s - {#Hand m#}"
    using tokens_let_go[of "{m}" ?s] 2(2) by simp
  moreover have "tokens s = tokens s - {#Hand m#} + {#Hand m#}" using 2(2) by simp
  ultimately show ?case
    using 2(1) by (intro exI[of _ "if resumes s \<noteq> seen then {#Hand m#} else {#}"]) (auto simp: keeps_typed_def)
qed simp

lemma own_take:
  assumes f: "\<And>s. tokens (f s) = tokens s"
    and ok: "\<And>s. invar s \<Longrightarrow> hands A \<subseteq># tokens s \<Longrightarrow>
      runs_ok (f s) \<and> starts_ok (f s) \<and> engine_ok (f s) \<and> keeps_typed s (f s) \<and> finite (W s) \<and>
      finite (waiting (f s)) \<and> finite (for_store (f s)) \<and> in_hand (f s) = in_hand s \<and>
      (quit_latch (f s) \<or> parked (f s) \<subseteq> waiting (f s) \<union> for_store (f s) \<union> set_mset (in_hand s) \<union> W s)"
    and A: "hands A \<subseteq># H"
    and Q: "\<And>s. invar s \<Longrightarrow> finite (W s) \<Longrightarrow> Q (r s) (H + hands (W s))"
  shows "own (act (\<lambda>s. ((f s)\<lparr>in_hand := in_hand s + mset_set (W s)\<rparr>, r s))) H Q"
proof (rule own_act_swap[of "{#}"], goal_cases)
  case (2 s)
  let ?s = "(f s)\<lparr>in_hand := in_hand s + mset_set (W s)\<rparr>"
  have "hands A \<subseteq># tokens s" using A 2(3) by (meson subset_mset.order_trans)
  note o = ok[OF 2(1) this]
  have "invar ?s" using o by (auto simp: invar_defs)
  moreover have "tokens ?s = tokens s + hands (W s)"
    using f[of s] o by (simp add: tokens_def)
  ultimately show ?case
    using o Q[OF 2(1)] by (intro exI[of _ "hands (W s)"]) (simp add: keeps_typed_def)
qed simp

lemma own_count_resume:
  assumes "hands A \<subseteq># H" and "finite A"
  shows "own (count_resume A) H (\<lambda>M H'. finite M \<and> H' = H + hands (M - A))"
  unfolding count_resume_def
proof -
  have "own (act (\<lambda>s. ((s\<lparr>resumes := Suc (resumes s), waiting := {}\<rparr>)\<lparr>in_hand := in_hand s + mset_set (waiting s - A)\<rparr>,
      waiting s))) H (\<lambda>M H'. finite M \<and> H' = H + hands (M - A))"
  proof (rule own_take[where A = A, OF _ _ assms(1)])
    fix s
    assume s: "invar s" "hands A \<subseteq># tokens s"
    have "mset_set A \<subseteq># in_hand s" using hands_held[OF s(2)] .
    then have "A \<subseteq> set_mset (in_hand s)" using assms(2) by (metis finite_set_mset_mset_set set_mset_mono)
    then have "parked s \<subseteq> for_store s \<union> set_mset (in_hand s) \<union> (waiting s - A)" if "\<not> quit_latch s"
      using waits_parked[OF s(1)] that by blast
    then show "runs_ok (s\<lparr>resumes := Suc (resumes s), waiting := {}\<rparr>) \<and>
      starts_ok (s\<lparr>resumes := Suc (resumes s), waiting := {}\<rparr>) \<and>
      engine_ok (s\<lparr>resumes := Suc (resumes s), waiting := {}\<rparr>) \<and>
      keeps_typed s (s\<lparr>resumes := Suc (resumes s), waiting := {}\<rparr>) \<and> finite (waiting s - A) \<and>
      finite (waiting (s\<lparr>resumes := Suc (resumes s), waiting := {}\<rparr>)) \<and>
      finite (for_store (s\<lparr>resumes := Suc (resumes s), waiting := {}\<rparr>)) \<and>
      in_hand (s\<lparr>resumes := Suc (resumes s), waiting := {}\<rparr>) = in_hand s \<and>
      (quit_latch (s\<lparr>resumes := Suc (resumes s), waiting := {}\<rparr>) \<or>
       parked (s\<lparr>resumes := Suc (resumes s), waiting := {}\<rparr>)
       \<subseteq> waiting (s\<lparr>resumes := Suc (resumes s), waiting := {}\<rparr>) \<union>
         for_store (s\<lparr>resumes := Suc (resumes s), waiting := {}\<rparr>) \<union> set_mset (in_hand s) \<union> (waiting s - A))"
      using s(1) by (auto simp: invar_defs keeps_typed_def)
  qed (auto simp: invar_defs)
  then show "own (act (\<lambda>s. (s\<lparr>resumes := Suc (resumes s), waiting := {},
      in_hand := in_hand s + mset_set (waiting s - A)\<rparr>, waiting s))) H
      (\<lambda>M H'. finite M \<and> H' = H + hands (M - A))" by simp
qed

lemma own_take_store_waits:
  "own take_store_waits H (\<lambda>(M, _) H'. finite M \<and> H' = H + hands M)"
proof -
  have "own (act (\<lambda>s. ((s\<lparr>for_store := {}, unfinished_owed := False\<rparr>)\<lparr>in_hand := in_hand s + mset_set (for_store s)\<rparr>,
      (for_store s, unfinished_owed s)))) H (\<lambda>(M, _) H'. finite M \<and> H' = H + hands M)"
    by (rule own_take[where A = "{}"]) (auto simp: invar_defs keeps_typed_def)
  then show ?thesis by (simp add: take_store_waits_def)
qed

lemma own_leave_parked: "own (leave_parked m e) H (\<lambda>_ H'. H' = add_mset (Hand m) H)"
  unfolding leave_parked_def
proof (rule own_change_gain[of _ "{#Hand m#}"])
  fix s assume "invar s"
  then show "invar (s\<lparr>posts := e # posts s, parked := insert m (parked s), in_hand := in_hand s + {#m#}\<rparr>) \<and>
      keeps_typed s (s\<lparr>posts := e # posts s, parked := insert m (parked s), in_hand := in_hand s + {#m#}\<rparr>) \<and>
      tokens (s\<lparr>posts := e # posts s, parked := insert m (parked s), in_hand := in_hand s + {#m#}\<rparr>) =
      tokens s + {#Hand m#}"
    by (auto simp: invar_defs keeps_typed_def tokens_def)
qed simp

section \<open>Started runs\<close>

lemma own_claim_start:
  "own (claim_start m i) H (\<lambda>b H'. H' = (if b then add_mset (AssetClaim i) H else H))"
  unfolding claim_start_def
proof (rule own_act_swap[of "{#}"], goal_cases)
  case (2 s)
  let ?free = "bt_get (marks s) m = None \<and> i \<notin> set (claimed s)"
  let ?s = "s\<lparr>claimed := i # claimed s\<rparr>"
  obtain C where C: "mset (claimed s) = mset (spawned_claims (spawned s)) + C"
    using 2(1) by (auto simp: invar_defs subset_mset.le_iff_add)
  have "invar ?s" if "i \<notin> set (claimed s)"
    using 2(1) that by (simp add: invar_defs C)
  moreover have "tokens ?s = tokens s + {#AssetClaim i#}"
    by (simp add: tokens_def C)
  ultimately show ?case
    using 2(1) by (intro exI[of _ "if ?free then {#AssetClaim i#} else {#}"]) (auto simp: keeps_typed_def)
qed simp

lemma own_drop_claim: "own (drop_claim i) (add_mset (AssetClaim i) H) (\<lambda>_ H'. H' = H)"
  unfolding drop_claim_def add_mset_add_single[of "AssetClaim i" H]
proof (rule own_change_lose)
  fix s assume s: "invar s" "{#AssetClaim i#} \<subseteq># tokens s"
  obtain C where C: "mset (claimed s) = mset (spawned_claims (spawned s)) + C"
    using s(1) by (auto simp: invar_defs subset_mset.le_iff_add)
  then have "i \<in># C" using s(2) by (simp add: asset_held)
  then obtain D where D: "C = add_mset i D" by (blast dest: multi_member_split)
  let ?s = "s\<lparr>claimed := remove1 i (claimed s)\<rparr>"
  have "mset (claimed ?s) = mset (spawned_claims (spawned s)) + D" by (simp add: C D)
  then have "invar ?s" "tokens ?s = tokens s - {#AssetClaim i#}"
    using s(1) by (simp_all add: invar_defs tokens_def C D)
  then show "invar ?s \<and> keeps_typed s ?s \<and> tokens ?s = tokens s - {#AssetClaim i#}"
    by (simp add: keeps_typed_def)
qed simp

lemma spawned_claims_snoc: "spawned_claims (bs @ [b]) = spawned_claims bs @ spawned_claims [b]"
  by (simp add: spawned_claims_def)

lemma own_start: "own (start i) (add_mset (AssetClaim i) H) (\<lambda>_ H'. H' = H)"
proof -
  have spawn: "own (change (\<lambda>s. s\<lparr>spawned := spawned s @ [RunAsset i]\<rparr>)) (add_mset (AssetClaim i) H) (\<lambda>_ H'. H' = H)"
    unfolding add_mset_add_single[of "AssetClaim i" H]
  proof (rule own_change_lose)
    fix s assume s: "invar s" "{#AssetClaim i#} \<subseteq># tokens s"
    obtain C where C: "mset (claimed s) = mset (spawned_claims (spawned s)) + C"
      using s(1) by (auto simp: invar_defs subset_mset.le_iff_add)
    then have "i \<in># C" using s(2) by (simp add: asset_held)
    then obtain D where D: "C = add_mset i D" by (blast dest: multi_member_split)
    let ?s = "s\<lparr>spawned := spawned s @ [RunAsset i]\<rparr>"
    have "mset (spawned_claims (spawned ?s)) = add_mset i (mset (spawned_claims (spawned s)))"
      by (simp add: spawned_claims_snoc) (simp add: spawned_claims_def)
    then have "invar ?s" "tokens ?s = tokens s - {#AssetClaim i#}"
      using s(1) by (simp_all add: invar_defs tokens_def C D)
    then show "invar ?s \<and> keeps_typed s ?s \<and> tokens ?s = tokens s - {#AssetClaim i#}"
      by (simp add: keeps_typed_def)
  qed simp
  show ?thesis
    unfolding start_def by (rule own_quietly[OF calm_look_at]) (auto intro: own_drop_claim spawn)
qed

lemma calm_leaving_the_wait [calm_rules]: "calm M (leaving_the_wait among m)"
  unfolding leaving_the_wait_def by (auto intro!: calm_rules)

section \<open>Resumes\<close>

text \<open>Calls of the store do not panic.\<close>

definition sturdy :: "'a outcome work \<Rightarrow> bool" where
  "sturdy j \<longleftrightarrow> (\<forall>H. own j H (\<lambda>r H'. H' = H \<and> r \<noteq> Panicking))"

lemma sturdy_Good: "sturdy (Finished (Good a))"
  by (simp add: sturdy_def)

lemma sturdy_attributing: "calm {#} j \<Longrightarrow> sturdy (mapping_result (attributing st) j)"
  unfolding sturdy_def mapping_result_def
  by (auto intro!: own_quietly simp: attributing_def split: sum.split)

lemma sturdy_stage_query: "sturdy (stage_query st g)"
  unfolding stage_query_def by (intro sturdy_attributing calm_rules)

lemma sturdy_look: "(\<And>x. sturdy (k x)) \<Longrightarrow> sturdy (run_then (look_at g) k)"
  unfolding sturdy_def by (auto intro!: own_quietly calm_look_at)

lemma sturdy_and_then: "sturdy j \<Longrightarrow> (\<And>a. sturdy (k a)) \<Longrightarrow> sturdy (and_then j k)"
  unfolding sturdy_def and_then_def
  by (auto intro!: owns_run_then[where P = "\<lambda>r H'. H' = H \<and> r \<noteq> Panicking" for H] split: outcome.splits)

lemma own_sturdily: "sturdy j \<Longrightarrow> (\<And>r. r \<noteq> Panicking \<Longrightarrow> own (k r) H Q) \<Longrightarrow> own (run_then j k) H Q"
  unfolding sturdy_def by (rule owns_run_then[where P = "\<lambda>r H'. H' = H \<and> r \<noteq> Panicking"]) auto

text \<open>What a resume has on its hands when it ends: only meetings a run holds, when it succeeded.\<close>

definition resume_ends ::
  "uuid set \<Rightarrow> token multiset \<Rightarrow> (uuid list \<times> uuid list) outcome \<times> uuid set \<Rightarrow> token multiset \<Rightarrow> bool"
where
  "resume_ends W0 K rW H \<longleftrightarrow>
     (case rW of (r, W) \<Rightarrow>
        finite W \<and> W \<subseteq> W0 \<and> H = K + hands W \<and> (case r of Good (_, busy) \<Rightarrow> W \<subseteq> set busy | Bad _ \<Rightarrow> True | Panicking \<Rightarrow> False))"

lemma hands_split: "finite W \<Longrightarrow> V \<subseteq> W \<Longrightarrow> hands W = hands (W - V) + hands V"
  by (metis Diff_partition finite_Diff finite_subset image_mset_union inf.commute mset_set_Union Diff_disjoint union_commute)

lemma own_settle_some:
  assumes "finite W" and "V \<subseteq> W" and "V \<subseteq> M" and "Q () (K + hands (W - V))"
  shows "own (settle M V) (K + hands W) Q"
proof -
  have "own (settle M V) (K + hands (W - V) + hands V) (\<lambda>_ H'. H' = K + hands (W - V))"
    by (rule own_settle) (use assms in \<open>auto intro: finite_subset\<close>)
  moreover have "K + hands W = K + hands (W - V) + hands V"
    using hands_split[OF assms(1,2)] by (simp add: ac_simps)
  ultimately have "own (settle M V) (K + hands W) (\<lambda>_ H'. H' = K + hands (W - V))" by (simp only:)
  then show ?thesis by (rule owns_mono) (use assms(4) in simp)
qed

lemma resume_ends_mono: "resume_ends W K rW H \<Longrightarrow> W \<subseteq> W0 \<Longrightarrow> resume_ends W0 K rW H"
  by (auto simp: resume_ends_def split: prod.splits)

lemma resume_ends_failed: "finite W \<Longrightarrow> resume_ends W K (Bad f, W) (K + hands W)"
  by (simp add: resume_ends_def)

lemma own_resume_each:
  assumes "finite W" and "W \<subseteq> fst ` set ms \<union> set busy"
    and "case among of None \<Rightarrow> True | Some A \<Rightarrow> W \<subseteq> A"
  shows "own (resume_each among ms resumed busy W) (K + hands W) (resume_ends W K)"
  using assms
proof (induction ms arbitrary: resumed busy W)
  case Nil
  then show ?case by (simp add: resume_ends_def)
next
  case (Cons mr rest)
  define m where "m = fst mr"
  have skip: "own (resume_each among rest resumed' (busy @ [m]) W) (K + hands W) (resume_ends W K)" for resumed'
    by (rule Cons.IH) (use Cons.prems in \<open>auto simp: m_def\<close>)
  have smaller: "own (resume_each among rest resumed' busy (W - {m})) (K + hands (W - {m})) (resume_ends W K)" for resumed'
  proof (rule owns_mono[OF Cons.IH])
    show "case among of None \<Rightarrow> True | Some A \<Rightarrow> W - {m} \<subseteq> A" using Cons.prems(3) by (auto split: option.splits)
  qed (use Cons.prems in \<open>auto simp: m_def intro: resume_ends_mono\<close>)
  have settled: "own (run_then (settle {m} (W \<inter> {m})) (\<lambda>_. resume_each among rest resumed' busy (W - {m})))
      (K + hands W) (resume_ends W K)" for resumed'
    by (rule owns_run_then[where P = "\<lambda>_ H. H = K + hands (W - {m})"], rule own_settle_some)
      (use Cons.prems(1) smaller in \<open>auto simp: Diff_Int_distrib Diff_Int\<close>)
  have ended: "own (case saved of Good _ \<Rightarrow> run_then (settle {m} (W \<inter> {m})) (\<lambda>_. resume_each among rest resumed' busy (W - {m}))
      | Bad f \<Rightarrow> Finished (Bad f, W) | Panicking \<Rightarrow> Finished (Panicking, W)) (K + hands W) (resume_ends W K)"
    if "saved \<noteq> Panicking" for saved :: "'x outcome" and resumed'
    using that settled resume_ends_failed[OF Cons.prems(1)] by (auto split: outcome.split)
  have started: "own (run_then (leaving_the_wait among m) (\<lambda>_. run_then (start i) (\<lambda>_.
      run_then (settle {m} (W \<inter> {m})) (\<lambda>_. resume_each among rest resumed' busy (W - {m})))))
      (add_mset (AssetClaim i) (K + hands W)) (resume_ends W K)" for i resumed'
    by (rule own_quietly[OF calm_leaving_the_wait], rule own_then[OF own_start]) (auto intro: settled)
  have claim: "own (run_then (claim_start m i) (\<lambda>claimed. if \<not> claimed then resume_each among rest resumed' (busy @ [m]) W
      else run_then (leaving_the_wait among m) (\<lambda>_. run_then (start i) (\<lambda>_.
      run_then (settle {m} (W \<inter> {m})) (\<lambda>_. resume_each among rest resumed'' busy (W - {m}))))))
      (K + hands W) (resume_ends W K)" for i resumed' resumed''
    by (rule own_then[OF own_claim_start]) (auto intro: skip started)
  have over: "own (resume_each among rest resumed busy W) (K + hands W) (resume_ends W K)"
    if "among = Some A" "m \<notin> A" for A
    by (rule Cons.IH) (use Cons.prems that in \<open>auto simp: m_def\<close>)
  have gone: "own (run_then (look_at clock) (\<lambda>now. run_then (mapping_result (attributing Decode)
      (transact_as None (set_state m (Failed AssetGoneReason) now))) (\<lambda>saved.
      case saved of Good _ \<Rightarrow> run_then (settle {m} (W \<inter> {m})) (\<lambda>_. resume_each among rest resumed busy (W - {m}))
      | Bad f \<Rightarrow> Finished (Bad f, W) | Panicking \<Rightarrow> Finished (Panicking, W)))) (K + hands W) (resume_ends W K)"
    by (intro own_quietly[OF calm_look_at] own_sturdily[OF sturdy_attributing] ended calm_rules)
  have closed: "own (run_then (and_then (if a_expires a = None then Finished (Good ())
         else mapping_result (attributing Retention) (transact_as None (always (save_asset i (a\<lparr>a_expires := None\<rparr>)))))
       (\<lambda>_. run_then (look_at clock) (\<lambda>now. mapping_result (attributing Decode)
          (transact_as None (set_state m (Failed ClosedWhileProcessing) now))))) (\<lambda>saved.
      case saved of Good _ \<Rightarrow> run_then (settle {m} (W \<inter> {m})) (\<lambda>_. resume_each among rest resumed busy (W - {m}))
      | Bad f \<Rightarrow> Finished (Bad f, W) | Panicking \<Rightarrow> Finished (Panicking, W))) (K + hands W) (resume_ends W K)" for i a
    by (rule own_sturdily)
      (auto intro!: sturdy_and_then sturdy_attributing sturdy_Good sturdy_look ended calm_rules)
  note failed = resume_ends_failed[OF Cons.prems(1)]
  have found: "own (case found of Bad f \<Rightarrow> Finished (Bad f, W) | Panicking \<Rightarrow> Finished (Panicking, W)
      | Good None \<Rightarrow> G | Good (Some (i, a)) \<Rightarrow> if c a then C i a else S i) (K + hands W) (resume_ends W K)"
    if "own G (K + hands W) (resume_ends W K)" "\<And>i a. own (C i a) (K + hands W) (resume_ends W K)"
      "\<And>i. own (S i) (K + hands W) (resume_ends W K)" "found \<noteq> Panicking" for found :: "(uuid \<times> asset_row) option outcome" and G C S c
    using that failed by (auto split: outcome.split option.split)
  show ?case
  proof (cases "case among of None \<Rightarrow> False | Some A \<Rightarrow> m \<notin> A")
    case True
    then obtain A where "among = Some A" "m \<notin> A" by (auto split: option.splits)
    then show ?thesis using over by (simp add: Let_def m_def)
  next
    case False
    show ?thesis
      unfolding resume_each.simps Let_def m_def[symmetric] if_not_P[OF False]
      apply (rule own_quietly[OF calm_look_at])
      subgoal for held_now
        apply (cases held_now)
         apply (simp only: if_True skip)
        apply (simp only: if_False)
        apply (rule own_sturdily[OF sturdy_stage_query])
        apply (erule found[OF gone closed claim])
        done
      done
  qed
qed

lemma own_resume_among:
  assumes "finite W" and "case among of None \<Rightarrow> True | Some A \<Rightarrow> W \<subseteq> A"
  shows "own (resume_among among W) (K + hands W) (resume_ends W K)"
  unfolding resume_among_def
proof (rule own_sturdily[OF sturdy_stage_query])
  fix listed :: "(uuid \<times> meeting_row) list outcome"
  assume listed: "listed \<noteq> Panicking"
  have "own (run_then (settle (W - fst ` set ms) (W - fst ` set ms)) (\<lambda>_. resume_each among ms [] [] (W \<inter> fst ` set ms)))
      (K + hands W) (resume_ends W K)" for ms
  proof (rule owns_run_then)
    have "W - (W - fst ` set ms) = W \<inter> fst ` set ms" by blast
    then show "own (settle (W - fst ` set ms) (W - fst ` set ms)) (K + hands W) (\<lambda>_ H. H = K + hands (W \<inter> fst ` set ms))"
      by (intro own_settle_some) (use assms(1) in auto)
  next
    fix a H assume H: "H = K + hands (W \<inter> fst ` set ms)"
    have "own (resume_each among ms [] [] (W \<inter> fst ` set ms)) (K + hands (W \<inter> fst ` set ms))
        (resume_ends (W \<inter> fst ` set ms) K)"
      by (rule own_resume_each) (use assms in \<open>auto split: option.splits\<close>)
    then show "own (resume_each among ms [] [] (W \<inter> fst ` set ms)) H (resume_ends W K)"
      unfolding H by (rule owns_mono) (auto intro: resume_ends_mono)
  qed
  then show "own (case listed of Bad f \<Rightarrow> Finished (Bad f, W) | Panicking \<Rightarrow> Finished (Panicking, W)
      | Good ms \<Rightarrow> run_then (settle (W - fst ` set ms) (W - fst ` set ms))
          (\<lambda>_. resume_each among ms [] [] (W \<inter> fst ` set ms))) (K + hands W) (resume_ends W K)"
    using resume_ends_failed[OF assms(1)] listed by (auto split: outcome.split)
qed

lemma calm_post_each [calm_rules]: "calm M (post_each es)"
  by (induction es) (auto intro!: calm_rules)

lemma own_if: "(b \<Longrightarrow> own j H Q) \<Longrightarrow> (\<not> b \<Longrightarrow> own k H Q) \<Longrightarrow> own (if b then j else k) H Q"
  by simp

abbreviation leaves :: "token multiset \<Rightarrow> 'a \<Rightarrow> token multiset \<Rightarrow> bool" where
  "leaves K \<equiv> \<lambda>_ H. H = K"

lemma own_start_waiting:
  assumes "finite M"
  shows "own (start_waiting M) (K + hands M) (leaves K)"
  unfolding start_waiting_def
proof (rule owns_run_then[OF own_resume_among[OF assms]])
  show "case Some M of None \<Rightarrow> True | Some A \<Rightarrow> M \<subseteq> A" by simp
next
  fix rW H
  assume ends: "resume_ends M K rW H"
  obtain r W where rW: "rW = (r, W)" by fastforce
  have W: "finite W" "W \<subseteq> M" "H = K + hands W" "r \<noteq> Panicking" using ends by (auto simp: resume_ends_def rW)
  have give_back: "own (run_then (put_back V W) (\<lambda>_. Finished x)) H (leaves K)" if "finite V" "W \<subseteq> V"
    for V and x :: "uuid list outcome"
    unfolding W(3) by (rule owns_run_then[OF own_put_back[OF that]]) simp
  have failed: "own (run_then (if f_busy f then look_at quit_latch else Finished True) (\<lambda>not_now.
      if not_now then run_then (put_back M W) (\<lambda>_. Finished (Bad f))
      else run_then (post_each es) (\<lambda>_. run_then (wait_for_store M W) (\<lambda>_. Finished (Bad f :: uuid list outcome)))))
      H (leaves K)" for f es
  proof (rule own_quietly)
    show "calm {#} (if f_busy f then look_at quit_latch else Finished True)" by (auto intro!: calm_rules)
    have "own (run_then (post_each es) (\<lambda>_. run_then (wait_for_store M W) (\<lambda>_. Finished (Bad f :: uuid list outcome))))
        H (leaves K)"
      unfolding W(3)
      by (rule own_quietly[OF calm_post_each], rule owns_run_then[OF own_wait_for_store[OF assms W(2)]]) simp
    then show "own (if not_now then run_then (put_back M W) (\<lambda>_. Finished (Bad f))
        else run_then (post_each es) (\<lambda>_. run_then (wait_for_store M W) (\<lambda>_. Finished (Bad f :: uuid list outcome)))) H (leaves K)" for not_now
      using give_back[OF assms W(2)] by simp
  qed
  have good: "own (run_then (put_back (set busy) W) (\<lambda>_. Finished (Good resumed))) H (leaves K)"
    if "r = Good (resumed, busy)" for resumed busy
    by (rule give_back) (use ends that in \<open>auto simp: resume_ends_def rW\<close>)
  show "own (case rW of (result, W) \<Rightarrow>
      (case result of
         Good (resumed, busy) \<Rightarrow> run_then (put_back (set busy) W) (\<lambda>_. Finished (Good resumed))
       | Bad f \<Rightarrow> run_then (if f_busy f then look_at quit_latch else Finished True) (\<lambda>not_now.
           if not_now then run_then (put_back M W) (\<lambda>_. Finished (Bad f))
           else run_then (post_each (map StoreBusyFor (sorted_list_of_set M)))
             (\<lambda>_. run_then (wait_for_store M W) (\<lambda>_. Finished (Bad f))))
       | Panicking \<Rightarrow> Finished Panicking)) H (leaves K)"
    using good failed W(4) by (auto simp: rW split: outcome.split)
qed

fun refused_meeting :: "refusal \<Rightarrow> uuid" where
  "refused_meeting (ForModels m _) = m"
| "refused_meeting (ForStore m) = m"

definition hand_of :: "refusal option \<Rightarrow> token multiset" where
  "hand_of refused = (case refused of None \<Rightarrow> {#} | Some f \<Rightarrow> {#Hand (refused_meeting f)#})"

lemma own_set_aside: "own (set_aside f) (add_mset (Hand (refused_meeting f)) K) (leaves K)"
proof -
  have settle: "own (settle {m} {m}) (add_mset (Hand m) K) (leaves K)" for m
    using own_settle[of "{m}" "{m}" K] by simp
  have wait: "own (wait_for_store {m} {m}) (add_mset (Hand m) K) (leaves K)" for m
    using own_wait_for_store[of "{m}" "{m}" K] by simp
  have again: "own (run_then (start_waiting {m}) (\<lambda>_. Finished ())) (add_mset (Hand m) K) (leaves K)" for m
    using own_start_waiting[of "{m}" K] by (auto intro!: owns_run_then)
  show ?thesis
  proof (cases f)
    case (ForModels m seen)
    have quit: "own (run_then (look_at quit_latch) (\<lambda>quitting. if quitting then settle {m} {m}
        else run_then (start_waiting {m}) (\<lambda>_. Finished ()))) (add_mset (Hand m) K) (leaves K)"
      by (rule own_quietly[OF calm_look_at]) (simp add: settle again)
    show ?thesis
      unfolding set_aside_def ForModels refusal.case refused_meeting.simps
      by (rule owns_run_then[OF own_wait_unless_resumed]) (auto simp: quit)
  next
    case (ForStore m)
    show ?thesis
      unfolding set_aside_def ForStore refusal.case refused_meeting.simps
      by (rule own_quietly[OF calm_look_at]) (simp add: settle wait)
  qed
qed

section \<open>Runs\<close>

lemma own_park:
  assumes "Mark m j \<in># H"
  shows "own (park m j) H (leaves (add_mset (Hand m) H))"
  unfolding park_def
  by (rule own_quietly[OF calm_look_at], rule own_after_calm[of "{#Mark m j#}"])
    (use assms in \<open>auto intro!: calm_rules own_note_Did own_leave_parked\<close>)

lemma own_park_for_store:
  assumes "Mark m j \<in># H"
  shows "own (park_for_store m j) H (leaves (add_mset (Hand m) H))"
  unfolding park_for_store_def
  by (rule own_quietly[OF calm_query], rule own_after_calm[of "{#Mark m j#}"])
    (use assms in \<open>auto intro!: calm_rules own_note_Did own_leave_parked split: sum.split option.split\<close>)

lemma calm_unless_it_panics [calm_rules]: "calm M j \<Longrightarrow> calm M (unless_it_panics st j)"
  unfolding unless_it_panics_def by (auto intro!: calm_rules split: outcome.split)

definition run_leaves ::
  "token multiset \<Rightarrow> uuid \<Rightarrow> (unit outcome \<times> refusal option) outcome \<Rightarrow> token multiset \<Rightarrow> bool"
where
  "run_leaves H m r H' \<longleftrightarrow>
     (case r of
        Good (_, refused) \<Rightarrow> H' = H + hand_of refused
      | _ \<Rightarrow> H' = H)"

lemma own_run_admitted:
  assumes "Mark m j \<in># H"
  shows "own (run_admitted svc m j i a r) H (run_leaves H m)"
proof -
  have calm_end: "own (and_then (deliver svc m j) (\<lambda>_. run_then k (\<lambda>result.
      Finished (if result = Panicking then Panicking else Good (f result, None))))) H (run_leaves H m)"
    if "calm {#Mark m j#} k" for k :: "unit outcome work" and f
    unfolding and_then_def
    by (rule own_after_calm[of "{#Mark m j#}"])
      (use that assms in \<open>auto intro!: calm_rules own_after_calm[of "{#Mark m j#}"] simp: run_leaves_def hand_of_def
        split: outcome.split\<close>)
  have finished: "own (Finished (Good (f, None))) H (run_leaves H m)" for f
    by (simp add: run_leaves_def hand_of_def)
  have parks: "own (run_then (park m j) (\<lambda>_. Finished (Good (f, Some (ForModels m seen))))) H (run_leaves H m)" for f seen
    by (rule owns_run_then[OF own_park[OF assms]]) (simp add: run_leaves_def hand_of_def)
  have parks_for_store:
    "own (run_then (park_for_store m j) (\<lambda>_. Finished (Good (f, Some (ForStore m))))) H (run_leaves H m)" for f
    by (rule owns_run_then[OF own_park_for_store[OF assms]]) (simp add: run_leaves_def hand_of_def)
  have fails: "own (run_then (look_at clock) (\<lambda>now. run_then (transact_as (Some (Did m j)) (set_state m st now))
      (\<lambda>_. Finished (Good (f, None))))) H (run_leaves H m)" for st f
    by (rule own_quietly[OF calm_look_at], rule own_after_calm[of "{#Mark m j#}"])
      (use assms finished in \<open>auto intro!: calm_rules own_note_Did\<close>)
  have deliver: "calm {#Mark m j#} (retention (Some (Did m j)) m i p Automatic)"
    "calm {#Mark m j#} (stamp_deferred_retention (Some (Did m j)) m Automatic)" for p
    by (auto intro!: calm_rules own_note_Did)
  show ?thesis
    unfolding run_admitted_def
    apply (rule own_quietly[OF calm_look_at])
    apply (rule own_after_calm[of "{#Mark m j#}"])
      apply (intro calm_rules, simp)
     apply (use assms in simp)
    subgoal for seen until_persist
      apply (cases until_persist)
        apply (simp only: outcome.case)
        apply (rule calm_end[OF deliver(1)])
       apply (simp only: outcome.case)
       apply (rule own_quietly[OF calm_look_at])
       apply (intro own_if finished parks)
       apply (rule own_quietly[OF calm_query])
       apply (simp only: Let_def)
       apply (intro own_if calm_end[OF deliver(2)] parks_for_store fails)
      apply (simp add: run_leaves_def)
      done
    done
qed

lemma own_process_held: "own (process_held svc i) H (\<lambda>(_, refused) H'. H' = H + hand_of refused)"
proof -
  have marked: "own (exclusively m Decode (\<lambda>j. run_admitted svc m j i a r)) H (run_leaves H m)" for m a r
    by (rule own_exclusively)
      (auto simp: run_leaves_def intro!: owns_mono[OF own_run_admitted] split: outcome.splits prod.splits)
  have run: "own (run_then (exclusively m Decode (\<lambda>j. run_admitted svc m j i a r)) (\<lambda>result. Finished (case result of
      Good (result, refused) \<Rightarrow> (result, refused) | Bad f \<Rightarrow> (Bad f, None) | Panicking \<Rightarrow> (Panicking, None))))
      H (\<lambda>(_, refused) H'. H' = H + hand_of refused)" for m a r
    by (rule owns_run_then[OF marked]) (auto simp: run_leaves_def hand_of_def split: outcome.splits)
  show ?thesis
    unfolding process_held_def
    apply (rule own_quietly[OF calm_until_released])
    apply (rule own_quietly[OF calm_look_at])
    apply (rule own_if)
     apply (simp add: hand_of_def)
    apply (rule own_quietly)
     apply (intro calm_rules)
    subgoal for _ quitting found
      apply (cases found)
        apply (clarsimp simp only: outcome.case prod.case split: prod.split)
        apply (rule run)
       apply (simp_all add: hand_of_def)
      done
    done
qed

lemma own_after_refusal: "own (case refused of None \<Rightarrow> Finished () | Some f \<Rightarrow> set_aside f) (K + hand_of refused) (leaves K)"
  using own_set_aside by (auto simp: hand_of_def split: option.split)

lemma calm_process: "calm {#} (process svc i)"
  unfolding calm_def process_def
proof (intro allI impI)
  fix H
  show "own (run_then (process_held svc i) (\<lambda>(result, refused).
      run_then (case refused of None \<Rightarrow> Finished () | Some f \<Rightarrow> set_aside f) (\<lambda>_. Finished result))) H (leaves H)"
    by (rule owns_run_then[OF own_process_held]) (auto intro!: owns_run_then[OF own_after_refusal])
qed

lemma own_run_asset: "own (run_asset svc i) (add_mset (AssetClaim i) H) (leaves H)"
proof -
  have dropped: "own (run_then (drop_claim i) (\<lambda>_. case refused of None \<Rightarrow> Finished () | Some f \<Rightarrow> set_aside f))
      (add_mset (AssetClaim i) H + hand_of refused) (leaves H)" for refused
  proof (rule owns_run_then)
    show "own (drop_claim i) (add_mset (AssetClaim i) H + hand_of refused) (leaves (H + hand_of refused))"
      using own_drop_claim[where i = i and H = "H + hand_of refused"] by simp
  qed (use own_after_refusal in auto)
  have held: "own (mapping_result snd (process_held svc i)) (add_mset (AssetClaim i) H)
      (\<lambda>refused H'. H' = add_mset (AssetClaim i) H + hand_of refused)"
    unfolding mapping_result_def by (rule owns_run_then[OF own_process_held]) auto
  show ?thesis
    unfolding run_asset_def
    by (rule own_quietly[OF calm_look_at], rule owns_run_then[where P = "\<lambda>refused H'. H' = add_mset (AssetClaim i) H + hand_of refused"])
      (use held dropped in \<open>auto simp: hand_of_def[of None] simp del: union_mset_add_mset_left\<close>)
qed

section \<open>Resumes and queueing, whole\<close>

lemma calmI: "(\<And>H. own j H (leaves H)) \<Longrightarrow> calm M j"
  by (simp add: calm_def)

lemma calm_resume_waiting: "calm {#} resume_waiting"
proof (rule calmI)
  fix H
  have taken: "own (count_resume {}) H (\<lambda>M H'. finite M \<and> H' = H + hands M)"
    using own_count_resume[of "{}" H] by simp
  show "own resume_waiting H (leaves H)"
    unfolding resume_waiting_def
    by (rule own_quietly[OF calm_look_at], rule own_if)
      (auto intro!: owns_run_then[OF taken] own_start_waiting)
qed

lemma calm_resume_unfinished: "calm {#} resume_unfinished"
proof (rule calmI)
  fix H
  have taken: "own (count_resume {}) H (\<lambda>M H'. finite M \<and> H' = H + hands M)"
    using own_count_resume[of "{}" H] by simp
  have "own (resume_among None {}) (H + hands {}) (resume_ends {} H)"
    by (rule own_resume_among) simp_all
  then have among: "own (resume_among None {}) H (resume_ends {} H)" by simp
  have owe: "own owe_unfinished H (leaves H)"
    using calmD[OF calm_owe_unfinished, of "{#}" H] by simp
  have rest: "own (run_then (resume_among None {}) (\<lambda>(result, _).
      case result of Good (resumed, _) \<Rightarrow> Finished (Good resumed) | Panicking \<Rightarrow> Finished Panicking
      | Bad f \<Rightarrow> run_then (if f_busy f then owe_unfinished else Finished ()) (\<lambda>_. Finished (Bad f)))) H (leaves H)"
    by (rule owns_run_then[OF among])
      (auto simp: resume_ends_def intro!: owns_run_then[OF owe] split: outcome.splits)
  have settled: "own (settle M M) (H + hands M) (leaves H)" if "finite M" for M
    by (rule own_settle) (use that in auto)
  show "own resume_unfinished H (leaves H)"
    unfolding resume_unfinished_def
    apply (rule own_quietly[OF calm_look_at])
    apply (rule own_if)
     apply simp
    apply (rule owns_run_then[OF taken])
    apply clarsimp
    apply (rule owns_run_then)
     apply (rule settled, simp)
    apply (simp only: rest)
    done
qed

lemma calm_resume_waiting_for_store: "calm {#} resume_waiting_for_store"
proof (rule calmI)
  fix H
  have ending: "own (case rW of (result, W) \<Rightarrow>
      (case result of
        Good (resumed, held_now) \<Rightarrow>
          run_then (put_back (set held_now \<inter> F) (W \<inter> F)) (\<lambda>_.
          run_then (wait_for_store (set held_now \<inter> M) (W - F)) (\<lambda>_. Finished (Good resumed)))
      | Panicking \<Rightarrow> Finished Panicking
      | Bad f \<Rightarrow>
          run_then (put_back F (W \<inter> F)) (\<lambda>_.
          run_then
            (if f_busy f then
               (if owed then run_then owe_unfinished (\<lambda>_. settle M (W - F)) else wait_for_store M (W - F))
             else settle M (W - F)) (\<lambda>_. Finished (Bad f))))) H' (leaves H)"
    if ends: "resume_ends (M \<union> F) H rW H'" for rW H' M F owed
  proof -
    obtain r W where rW: "rW = (r, W)" by fastforce
    have W: "W \<subseteq> M \<union> F" "H' = H + hands W" "r \<noteq> Panicking" using ends by (auto simp: resume_ends_def rW)
    have "W - (W - F) = W \<inter> F" by blast
    then have both: "H' = H + hands (W - F) + hands (W \<inter> F)"
      using W(2) hands_split[of W "W \<inter> F"] by (simp add: ac_simps Diff_Int_distrib Diff_Int)
    have put: "own (put_back V (W \<inter> F)) H' (leaves (H + hands (W - F)))" if "W \<inter> F \<subseteq> V" for V
      unfolding both by (rule own_put_back) (use that in simp_all)
    have store: "own (wait_for_store V (W - F)) (H + hands (W - F)) (leaves H)" if "W - F \<subseteq> V" for V
      by (rule own_wait_for_store) (use that in simp_all)
    have settle: "own (settle M (W - F)) (H + hands (W - F)) (leaves H)"
      by (rule own_settle) (use W(1) in auto)
    have owe: "own (run_then owe_unfinished (\<lambda>_. settle M (W - F))) (H + hands (W - F)) (leaves H)"
      by (rule own_quietly[OF calm_owe_unfinished settle])
    have bad: "own (run_then (put_back F (W \<inter> F)) (\<lambda>_. run_then
            (if f_busy f then
               (if owed then run_then owe_unfinished (\<lambda>_. settle M (W - F)) else wait_for_store M (W - F))
             else settle M (W - F)) (\<lambda>_. Finished (Bad f :: uuid list outcome)))) H' (leaves H)" for f
      by (rule owns_run_then[OF put], simp, rule owns_run_then[where P = "leaves H"])
        (use settle owe store[of M] W(1) in auto)
    have good: "own (run_then (put_back (set held_now \<inter> F) (W \<inter> F)) (\<lambda>_.
          run_then (wait_for_store (set held_now \<inter> M) (W - F)) (\<lambda>_. Finished (Good resumed)))) H' (leaves H)"
      if "r = Good (resumed, held_now)" for resumed :: "uuid list" and held_now
    proof -
      have "W \<subseteq> set held_now" using ends that by (auto simp: resume_ends_def rW)
      then show ?thesis
        by (intro owns_run_then[OF put]) (use W(1) in \<open>auto intro!: owns_run_then[OF store]\<close>)
    qed
    show ?thesis
    proof (cases r)
      case (Good p)
      then show ?thesis using good by (cases p) (simp only: rW prod.case outcome.case)
    next
      case (Bad f)
      then show ?thesis using bad[of f] by (simp only: rW prod.case outcome.case)
    qed (use W(3) in simp)
  qed
  have among: "own (resume_among (if owed then None else Some M) (M \<union> F)) (H + hands (M \<union> F)) (resume_ends (M \<union> F) H)"
    if "\<not> owed \<Longrightarrow> F = {}" for owed M F
    by (rule own_resume_among) (use that in \<open>auto split: option.split\<close>)
  have counted: "own (if owed then count_resume M else Finished {}) (H + hands M)
      (\<lambda>F H'. H' = H + hands (M \<union> F) \<and> (\<not> owed \<longrightarrow> F = {}))" for owed M
  proof (cases owed)
    case True
    have "hands M + hands (F - M) = hands (M \<union> F)" for F
      using hands_split[of "M \<union> F" M] by (simp add: Un_Diff union_commute)
    then have "own (count_resume M) (H + hands M) (\<lambda>F H'. H' = H + hands (M \<union> F) \<and> (\<not> owed \<longrightarrow> F = {}))"
      by (intro owns_mono[OF own_count_resume]) (auto simp: True ac_simps)
    then show ?thesis using True by simp
  qed simp
  show "own resume_waiting_for_store H (leaves H)"
    unfolding resume_waiting_for_store_def
    apply (rule own_quietly[OF calm_look_at])
    apply (rule own_if)
     apply simp
    apply (rule owns_run_then[OF own_take_store_waits])
    subgoal for quitting MO H'
      apply (cases MO)
      apply (simp only: prod.case)
      apply (rule own_if)
       apply (simp (no_asm_simp) add: mset_set.empty)
      apply (elim conjE)
      apply (rule owns_run_then[OF counted])
      apply (elim conjE)
      apply hypsubst
      apply (rule owns_run_then[OF among])
       apply blast
      apply (erule ending)
      done
    done
qed

lemma calm_noting_edit [calm_rules]: "calm M (noting_edit save)"
  unfolding noting_edit_def
proof (rule calm_run_then[OF calm_look_at], rule calm_act)
  fix now s
  assume s: "invar s"
  obtain l s1 where l: "next_luck s = (l, s1)" by (cases "next_luck s")
  note frame = next_luck_frame(1-4)[OF l]
  have same: "invar s1 \<and> keeps_typed s s1 \<and> tokens s1 = tokens s"
    using s frame by (simp add: keeps_typed_def)
  have saved: "invar (s1\<lparr>db := d, edits := Suc (edits s1)\<rparr>) \<and> keeps_typed s (s1\<lparr>db := d, edits := Suc (edits s1)\<rparr>) \<and>
      tokens (s1\<lparr>db := d, edits := Suc (edits s1)\<rparr>) = tokens s" for d
    using s frame by (simp add: keeps_typed_def)
  let ?r = "case next_luck s of (l, s) \<Rightarrow>
       if l = Busy then (s, Inl StoreBusyError) else if l = Broken then (s, Inl StoreBroken)
       else case save now (db s) of Inl err \<Rightarrow> (s, Inl err)
         | Inr (a, d) \<Rightarrow> (s\<lparr>db := d, edits := Suc (edits s)\<rparr>, Inr a)"
  have "fst ?r = s1 \<or> (\<exists>d. fst ?r = s1\<lparr>db := d, edits := Suc (edits s1)\<rparr>)"
    by (cases "save now (db s1)") (auto simp: l split: prod.split)
  then show "invar (fst ?r) \<and> keeps_typed s (fst ?r) \<and> tokens (fst ?r) = tokens s"
    using same saved by (elim disjE exE) simp_all
qed

lemma own_enqueue_claimed: "own (enqueue_claimed i save) (add_mset (AssetClaim i) H) (leaves H)"
  unfolding enqueue_claimed_def
  by (rule own_quietly)
    (auto intro!: calm_rules owns_run_then[OF own_start] owns_run_then[OF own_drop_claim] split: outcome.split)

lemma own_claim_or_refuse:
  "own (claim_or_refuse m i) H (\<lambda>r H'. H' = (case r of Good _ \<Rightarrow> add_mset (AssetClaim i) H | _ \<Rightarrow> H))"
  unfolding claim_or_refuse_def mapping_result_def
  by (rule owns_run_then[OF own_claim_start]) simp

lemma calm_claimed_first:
  assumes "\<And>H. own k (add_mset (AssetClaim i) H) (leaves H)"
  shows "calm {#} (and_then (claim_or_refuse m i) (\<lambda>_. k))"
  unfolding and_then_def
proof (rule calmI, rule owns_run_then[OF own_claim_or_refuse])
  fix H H' and r :: "unit outcome"
  assume "H' = (case r of Good _ \<Rightarrow> add_mset (AssetClaim i) H | _ \<Rightarrow> H)"
  then show "own (case r of Good a \<Rightarrow> k | Bad f \<Rightarrow> Finished (Bad f) | Panicking \<Rightarrow> Finished Panicking) H' (leaves H)"
    using assms[of H] by (cases r) simp_all
qed

lemma calm_enqueues [calm_rules]:
  "calm {#} (enqueue m r i a)" "calm {#} (enqueue_new m r i a)"
  "calm {#} (enqueue_stopped_recording usual m dur i a given)" "calm {#} (enqueue_saved m i)"
  unfolding enqueue_def enqueue_new_def enqueue_stopped_recording_def enqueue_saved_def mapping_result_def
  by (intro calm_claimed_first own_enqueue_claimed owns_run_then[OF own_start]; simp)+

lemma own_giving_up:
  "own (giving_up None x) H (leaves H)" "own (giving_up (Some i) x) (add_mset (AssetClaim i) H) (leaves H)"
  by (auto simp: giving_up_def intro!: owns_run_then[OF own_drop_claim])

lemma calm_offered_again [calm_rules]: "calm M (offered_again m r a)"
  unfolding offered_again_def by (intro calm_rules)

text \<open>A claim, when there is an asset to claim.\<close>

definition claim_on :: "(uuid \<times> asset_row) option \<Rightarrow> token multiset" where
  "claim_on asset = (case asset of None \<Rightarrow> {#} | Some (i, _) \<Rightarrow> {#AssetClaim i#})"

lemma own_given_up: "own (giving_up (map_option fst asset) x) (H + claim_on asset) (leaves H)"
  using own_giving_up by (cases asset) (auto simp: claim_on_def)

lemma own_queue_again: "own (queue_again m r asset) (H + claim_on asset) (leaves H)"
  using own_giving_up(2) own_enqueue_claimed
  by (auto simp: queue_again_def claim_on_def mapping_result_def split: option.split
      intro!: own_quietly[OF calm_look_at] owns_run_then[OF own_enqueue_claimed])

lemma own_not_finished: "own (not_finished m st (map_option fst asset)) (H + claim_on asset) (leaves H)"
  unfolding not_finished_def
  by (intro own_quietly[OF calm_look_at] own_if own_given_up)

lemma calm_reprocess_if:
  assumes offered: "\<And>r a. calm {#} (offered r a)"
  shows "calm {#} (reprocess_if m offered)"
proof (rule calmI)
  fix H
  have offer: "own (case offer of
        Bad f \<Rightarrow> giving_up (map_option fst asset) (Some (RePipeline f))
      | Panicking \<Rightarrow> giving_up (map_option fst asset) None
      | Good offers \<Rightarrow> if offers then queue_again m r asset
          else giving_up (map_option fst asset) (Some (ReNotOffered m))) (H + claim_on asset) (leaves H)"
    for offer :: "bool outcome" and r asset
    by (cases offer) (simp_all add: own_given_up own_queue_again)
  have claimed: "own (reprocess_claimed m offered asset) (H + claim_on asset) (leaves H)" for asset
    unfolding reprocess_claimed_def Let_def
  proof (rule own_quietly)
    fix read :: "meeting_row option outcome"
    have "own (run_then (offered r (map_option snd asset)) (\<lambda>offer. case offer of
        Bad f \<Rightarrow> giving_up (map_option fst asset) (Some (RePipeline f))
      | Panicking \<Rightarrow> giving_up (map_option fst asset) None
      | Good offers \<Rightarrow> if offers then queue_again m r asset
          else giving_up (map_option fst asset) (Some (ReNotOffered m)))) (H + claim_on asset) (leaves H)" for r
      by (rule own_quietly[OF offered offer])
    then show "own (case read of
          Bad f \<Rightarrow> giving_up (map_option fst asset) (Some (RePipeline f))
        | Panicking \<Rightarrow> giving_up (map_option fst asset) None
        | Good None \<Rightarrow> giving_up (map_option fst asset) (Some (ReMeetingNotFound m))
        | Good (Some r) \<Rightarrow>
            if \<not> finished_state (m_state r) then not_finished m (m_state r) (map_option fst asset)
            else run_then (offered r (map_option snd asset)) (\<lambda>offer. case offer of
                Bad f \<Rightarrow> giving_up (map_option fst asset) (Some (RePipeline f))
              | Panicking \<Rightarrow> giving_up (map_option fst asset) None
              | Good offers \<Rightarrow> if offers then queue_again m r asset
                  else giving_up (map_option fst asset) (Some (ReNotOffered m)))) (H + claim_on asset) (leaves H)"
      by (cases read) (simp_all add: own_given_up own_not_finished split: option.split)
  qed (intro calm_rules)
  have start: "own (run_then (claim_start m i) (\<lambda>claimed. if claimed then reprocess_claimed m offered (Some (i, a))
      else Finished (Some (ReBusy m)))) H (leaves H)" for i a
    by (rule owns_run_then[OF own_claim_start])
      (use claimed[of "Some (i, a)" for i a] in \<open>auto simp: claim_on_def\<close>)
  have none: "own (reprocess_claimed m offered None) H (leaves H)"
    using claimed[where asset = None] by (simp add: claim_on_def)
  show "own (reprocess_if m offered) H (leaves H)"
    unfolding reprocess_if_def
    by (rule own_quietly[OF calm_look_at], rule own_if, simp, rule own_quietly[OF calm_stage_query])
      (auto split: outcome.split option.split intro: none start)
qed

lemma calm_reprocess [calm_rules]: "calm {#} (reprocess m)" "calm {#} (process_again m)"
  unfolding reprocess_def process_again_def by (intro calm_reprocess_if calm_rules)+

end
