(* ===== verification/Processing_System.thy ===== *)
theory Processing_System
  imports Processing_Safety
begin

text \<open>
  The pipeline's jobs as one system: which jobs the app starts, what moves around them, and the
  interpretation of \<open>job_system\<close> on them, from which the properties of every interleaving follow.
\<close>

section \<open>The remaining jobs\<close>

lemma own_and_then_admit:
  assumes "\<And>j. own (k j) (add_mset (Mark m j) H) (leaves H)"
  shows "own (and_then (admit m st) k) H (leaves H)"
  unfolding and_then_def
proof (rule owns_run_then[OF own_admit])
  fix r H'
  assume "case r of Good j \<Rightarrow> H' = add_mset (Mark m j) H | Bad _ \<Rightarrow> H' = H | Panicking \<Rightarrow> False"
  then show "own (case r of Good a \<Rightarrow> k a | Bad f \<Rightarrow> Finished (Bad f) | Panicking \<Rightarrow> Finished Panicking) H' (leaves H)"
    using assms by (cases r) auto
qed

lemma own_dropping: "own (run_then (drop_admitted m j) (\<lambda>_. k)) (add_mset (Mark m j) H) Q"
  if "own k H Q"
  by (rule owns_run_then[OF own_drop_admitted]) (use that in simp)

lemma calm_reporting [calm_rules]: "calm M (reporting m op r)"
  unfolding reporting_def by (auto intro!: calm_rules split: outcome.split)

lemma calm_resummarize [calm_rules]: "Mark m j \<in># M \<Longrightarrow> calm M (resummarize svc m j r template)"
  unfolding resummarize_def by (auto intro!: calm_rules own_note_Did split: option.split)

lemma calm_fail_pending [calm_rules]: "Mark m j \<in># M \<Longrightarrow> calm M (fail_pending m j reason qs)"
  by (induction qs) (auto simp: Let_def intro!: calm_rules own_note_Did)

lemma calm_fail_pending_deliveries [calm_rules]: "Mark m j \<in># M \<Longrightarrow> calm M (fail_pending_deliveries m j reason)"
  unfolding fail_pending_deliveries_def by (auto intro!: calm_rules split: sum.split)

lemma calm_deliver_again [calm_rules]: "Mark m j \<in># M \<Longrightarrow> calm M (deliver_again svc m j)"
  unfolding deliver_again_def by (auto intro!: calm_rules own_note_Did)

lemma own_deliver_again_claimed: "own (deliver_again_claimed svc m j) (add_mset (Mark m j) H) (leaves H)"
proof -
  have after: "own (run_then j (\<lambda>x. k x)) (add_mset (Mark m j') H) Q"
    if "calm {#Mark m j'#} j" "\<And>x. own (k x) (add_mset (Mark m j') H) Q" for j :: "'x work" and k :: "'x \<Rightarrow> 'y work" and Q j'
    by (rule own_after_calm[OF that(1)]) (simp_all add: that(2))
  show ?thesis
    unfolding deliver_again_claimed_def
    by (intro own_quietly[OF calm_until_released] after[of j] own_dropping calm_rules) simp_all
qed

lemma calm_redeliver: "calm {#} (redeliver svc m)"
  unfolding redeliver_def and_then_def[of "mapping_result _ _"]
proof (rule calm_run_then)
  have "own (and_then (admit m Deliver) (\<lambda>j. run_then (deliver_again_claimed svc m j) (\<lambda>result. reporting m Reexport result)))
      H (leaves H)" for H
    by (intro own_and_then_admit owns_run_then[OF own_deliver_again_claimed])
      (auto intro!: own_calm[OF calm_reporting, of "{#}"])
  then show "calm {#} (case r of Good a \<Rightarrow> and_then (admit m Deliver) (\<lambda>j.
      run_then (deliver_again_claimed svc m j) (\<lambda>result. reporting m Reexport result))
      | Bad f \<Rightarrow> Finished (Bad f) | Panicking \<Rightarrow> Finished Panicking)" for r :: "meeting_row outcome"
    by (auto intro!: calmI split: outcome.split)
qed (intro calm_rules)

lemma calm_rerun_summary: "calm {#} (rerun_summary svc m template)"
  unfolding rerun_summary_def
proof (intro calm_and_then calm_mapping_result calm_query)
  fix r
  have after: "own (run_then j (\<lambda>x. k x)) (add_mset (Mark m j') H) Q"
    if "calm {#Mark m j'#} j" "\<And>x. own (k x) (add_mset (Mark m j') H) Q" for j :: "'x work" and k :: "'x \<Rightarrow> 'y work" and Q j' H
    by (rule own_after_calm[OF that(1)]) (simp_all add: that(2))
  have "own (and_then (admit m Summarize) (\<lambda>j. run_then until_released (\<lambda>_.
      run_then (unless_it_panics (\<lambda>_. Summarize) (resummarize svc m j r template)) (\<lambda>result.
      run_then (drop_admitted m j) (\<lambda>_. reporting m SummaryRerun result))))) H (leaves H)" for H
    by (intro own_and_then_admit own_quietly[OF calm_until_released] after own_dropping calm_rules)
      (auto intro!: own_calm[OF calm_reporting, of "{#}"])
  then show "calm {#} (if summarizer svc = None then Finished (Bad (failing Summarize NoLlmEndpoint))
      else and_then (admit m Summarize) (\<lambda>j. run_then until_released (\<lambda>_.
        run_then (unless_it_panics (\<lambda>_. Summarize) (resummarize svc m j r template)) (\<lambda>result.
        run_then (drop_admitted m j) (\<lambda>_. reporting m SummaryRerun result)))))"
    by (auto intro!: calmI)
qed

lemma calm_still_owed [calm_rules]: "calm M (still_owed m)"
  unfolding still_owed_def by (auto intro!: calm_rules split: sum.split option.split)

lemma calm_redeliver_at_launch: "calm {#} (redeliver_at_launch svc m)"
  unfolding redeliver_at_launch_def
proof (rule calmI, rule owns_run_then[OF own_admit])
  fix H H' r
  assume r: "case r of Good j \<Rightarrow> H' = add_mset (Mark m j) H | Bad _ \<Rightarrow> H' = H | Panicking \<Rightarrow> False"
  have "own (run_then (still_owed m) (\<lambda>owed.
      if owed then run_then (deliver_again_claimed svc m j) (\<lambda>_. Finished ()) else drop_admitted m j))
      (add_mset (Mark m j) H) (leaves H)" for j
    by (intro own_quietly[OF calm_still_owed] own_if owns_run_then[OF own_deliver_again_claimed] own_drop_admitted) simp
  then show "own (case r of
        Good j \<Rightarrow> run_then (still_owed m) (\<lambda>owed.
          if owed then run_then (deliver_again_claimed svc m j) (\<lambda>_. Finished ()) else drop_admitted m j)
      | _ \<Rightarrow> Finished ()) H' (leaves H)"
    using r by (cases r) auto
qed

lemma calm_redeliver_each: "calm {#} (redeliver_each svc ms)"
  by (induction ms) (auto intro!: calm_rules calm_redeliver_at_launch)

lemma calm_redeliver_unfinished: "calm {#} redeliver_unfinished"
proof -
  have "calm {#} (change (\<lambda>s. s\<lparr>spawned := spawned s @ [RedeliverAll owed]\<rparr>))" for owed
    by (rule calm_change) (simp add: invar_defs keeps_typed_def tokens_def spawned_claims_def)
  then show ?thesis
    unfolding redeliver_unfinished_def by (auto intro!: calm_rules)
qed

lemma calm_apply_retention: "calm {#} (apply_retention m rule)"
  unfolding apply_retention_def by (auto intro!: calm_rules split: option.split)

lemma calm_requeue_each [calm_rules]: "calm M (requeue_each ms)"
  by (induction ms) (auto intro!: calm_rules)

lemma calm_quit_app: "calm {#} quit_app"
proof -
  have "calm {#} (change (\<lambda>s. s\<lparr>quit_latch := True\<rparr>))"
    by (rule calm_change) (simp add: invar_defs keeps_typed_def)
  then show ?thesis unfolding quit_app_def by (auto intro!: calm_rules)
qed

text \<open>A warm-up without a claim.\<close>

lemma calm_engine_prepare: "calm {#Preparing False#} (engine_prepare None)"
  unfolding engine_prepare_def
proof (rule calm_act, goal_cases)
  case (1 s)
  obtain l s1 where l: "next_luck s = (l, s1)" by (cases "next_luck s")
  note frame = next_luck_frame[OF l]
  have "invar s1" using 1(1) frame(2) by simp
  then have "invar (s1\<lparr>calls := Suc (calls s1), engine_loaded := True\<rparr>)" by (simp add: invar_defs)
  then show ?case
    using \<open>invar s1\<close> frame(1,3,4) by (cases l) (simp_all add: l Let_def keeps_typed_def)
qed

lemma own_preparing:
  assumes "calm {#Preparing False#} j"
  shows "own (run_then lock_preparing (\<lambda>_. run_then j (\<lambda>r. run_then unlock_preparing (\<lambda>_. Finished r)))) H (leaves H)"
  by (rule owns_run_then[OF own_lock_preparing], simp, rule own_after_calm[OF assms])
    (auto intro: owns_run_then[OF own_unlock_preparing])

lemma calm_warm_up: "calm {#} (warm_up None)" "calm {#} warm_up_diarizer"
proof -
  have "calm {#Preparing False#} (and_then (run_then (engine_prepare None) models_gone) (\<lambda>_.
      run_then (boundary Diarize (\<lambda>_. ())) models_gone))"
    by (intro calm_rules calm_engine_prepare)
  from own_preparing[OF this] show "calm {#} (warm_up None)"
    unfolding warm_up_def by (intro calm_run_then calm_look_at) (auto intro!: calmI)
  have "calm {#Preparing False#} (run_then (boundary Diarize (\<lambda>_. ())) models_gone)"
    by (intro calm_rules)
  from own_preparing[OF this] show "calm {#} warm_up_diarizer"
    unfolding warm_up_diarizer_def by (auto intro!: calmI)
qed

section \<open>The system\<close>

definition unit_of :: "'a work \<Rightarrow> unit work" where
  "unit_of j = mapping_result (\<lambda>_. ()) j"

text \<open>What the app calls, at any time and in any number.\<close>

inductive app_call :: "services \<Rightarrow> unit work \<Rightarrow> bool" for svc where
  "app_call svc (unit_of (enqueue m r i a))"
| "app_call svc (unit_of (enqueue_new m r i a))"
| "app_call svc (unit_of (enqueue_stopped_recording usual m dur i a given))"
| "app_call svc (unit_of (enqueue_saved m i))"
| "app_call svc (unit_of (reprocess m))"
| "app_call svc (unit_of (process_again m))"
| "app_call svc (unit_of (process svc i))"
| "app_call svc (unit_of resume_unfinished)"
| "app_call svc (unit_of resume_waiting)"
| "app_call svc (unit_of resume_waiting_for_store)"
| "app_call svc (unit_of (rerun_summary svc m template))"
| "app_call svc (unit_of (redeliver svc m))"
| "app_call svc (unit_of redeliver_unfinished)"
| "app_call svc (unit_of (apply_retention m rule))"
| "app_call svc (unit_of (warm_up None))"
| "app_call svc (unit_of warm_up_diarizer)"
| "app_call svc quit_app"

text \<open>A job arrives: a call of the app, or a background run that was spawned.\<close>

inductive arrives :: "services \<Rightarrow> world \<Rightarrow> unit work \<Rightarrow> world \<Rightarrow> bool" for svc where
  called: "app_call svc j \<Longrightarrow> arrives svc s j s"
| background: "spawned s = bs @ b # bs' \<Longrightarrow>
     arrives svc s (background_job svc b) (s\<lparr>spawned := bs @ bs'\<rparr>)"

text \<open>
  What moves around the jobs: the clock, the models and the recorder, the files, the fortunes of the
  calls to come, the hold of an update's install, and the user, who may change any row.
\<close>

inductive around :: "world \<Rightarrow> world \<Rightarrow> bool" where
  "clock s \<le> t \<Longrightarrow> around s (s\<lparr>clock := t\<rparr>)"
| "around s (s\<lparr>models_in := b\<rparr>)"
| "around s (s\<lparr>live := b\<rparr>)"
| "around s (s\<lparr>on_disk := there\<rparr>)"
| "around s (s\<lparr>lucks := ls\<rparr>)"
| "try_hold s = Some s' \<Longrightarrow> around s s'"
| "around s (drop_hold s)"
| "around s (s\<lparr>db := d, edits := Suc (edits s)\<rparr>)"

text \<open>The app at its launch: rows and files as they are, nothing in flight, nothing waiting.\<close>

definition at_launch :: "world \<Rightarrow> bool" where
  "at_launch s \<longleftrightarrow>
     \<not> quit_latch s \<and> marks s = [] \<and> claimed s = [] \<and> \<not> held s \<and> waiting s = {} \<and> for_store s = {} \<and>
     \<not> unfinished_owed s \<and> claims s = [] \<and> preparing s = None \<and> \<not> turn s \<and> spawned s = [] \<and>
     in_hand s = {#} \<and> parked s = {} \<and> history s = []"

lemma calm_app_call: "app_call svc j \<Longrightarrow> calm {#} j"
  by (induction rule: app_call.induct)
    (auto simp: unit_of_def intro!: calm_mapping_result calm_enqueues calm_reprocess calm_process calm_resume_unfinished
      calm_resume_waiting calm_resume_waiting_for_store calm_rerun_summary calm_redeliver calm_redeliver_unfinished
      calm_apply_retention calm_warm_up calm_quit_app)

definition background_claim :: "background \<Rightarrow> token multiset" where
  "background_claim b = (case b of RunAsset i \<Rightarrow> {#AssetClaim i#} | RedeliverAll _ \<Rightarrow> {#})"

lemma own_background_job: "own (background_job svc b) (background_claim b) (\<lambda>_ H. H = {#})"
  using own_run_asset calmD[OF calm_redeliver_each, of "{#}"]
  by (auto simp: background_job_def background_claim_def split: background.split)

interpretation jobs: job_system invar tokens keeps_typed "arrives svc" around at_launch for svc
proof
  fix s
  assume "at_launch s"
  then show "invar s \<and> tokens s = {#}"
    by (simp add: at_launch_def invar_defs tokens_def bt_get_def spawned_claims_def fun_eq_iff)
next
  fix s j s'
  assume s: "invar s" and "arrives svc s j s'"
  from this(2) show "invar s' \<and> keeps_typed s s' \<and>
      (\<exists>H. tokens s' = tokens s + H \<and> owns invar tokens keeps_typed (\<lambda>_ H. H = {#}) j H)"
  proof cases
    case called
    then show ?thesis using s calmD[OF calm_app_call, of svc j "{#}"] by auto
  next
    case (background bs b bs')
    have claims: "mset (spawned_claims (spawned s)) = mset (spawned_claims (bs @ bs')) + mset (spawned_claims [b])"
      by (simp add: spawned_claims_def background(3))
    obtain C where C: "mset (claimed s) = mset (spawned_claims (spawned s)) + C"
      using s by (auto simp: invar_defs subset_mset.le_iff_add)
    have D: "mset (claimed s) = mset (spawned_claims (bs @ bs')) + (mset (spawned_claims [b]) + C)"
      using C claims by simp
    have "invar s'"
      using s by (simp add: background(2) invar_defs D)
    moreover have "image_mset AssetClaim (mset (spawned_claims [b])) = background_claim b"
      by (cases b) (simp_all add: background_claim_def spawned_claims_def)
    then have "tokens s' = tokens s + background_claim b"
      by (simp add: tokens_def claims D background(2) ac_simps)
    ultimately show ?thesis
      using own_background_job[of svc b] background by (auto simp: keeps_typed_def)
  qed
next
  fix s s'
  assume "invar s" and "around s s'"
  from this(2,1) show "invar s' \<and> keeps_typed s s' \<and> tokens s' = tokens s"
    by cases (auto simp: keeps_typed_def try_hold_def drop_hold_def split: if_splits)
qed

section \<open>Properties of every interleaving\<close>

abbreviation reached :: "services \<Rightarrow> world \<times> unit work list \<Rightarrow> bool" where
  "reached svc \<equiv> jobs_reach (arrives svc) around at_launch"

text \<open>
  Samples: a recording is queued and its run finishes it; and one queued while the models are missing, so
  that its run is refused and the meeting waits.
\<close>

definition sample_services :: services where
  "sample_services = \<lparr>speech_in_process = False, decoded = (\<lambda>_ _ _. \<lparr>buffer_seconds = 1, buffer_damaged = False, buffer_samples = []\<rparr>),
     transcribed = (\<lambda>_ _ _. []), voices = (\<lambda>_ _. []), matched_voice = (\<lambda>_ _. None), cleaner = None, summarizer = None,
     mixdown_url = (\<lambda>_. None), pending_rows = (\<lambda>_. []), delivered_rows = (\<lambda>_ _. [])\<rparr>"
definition sample_meeting :: meeting_row where
  "sample_meeting = \<lparr>m_title = [84], m_started = 0, m_duration = 60, m_language = None, m_source = Phone, m_event = None,
     m_state = Queued, m_origin = DefaultTitle, m_template = ascii ''default'', m_summary = None, m_scratchpad = [], m_usage = None, m_updated = 0\<rparr>"
definition sample_asset :: asset_row where
  "sample_asset = \<lparr>a_meeting = 1, a_url = [], a_aac = True, a_lanes = [Mixed], a_sidecars = [], a_mixdown = None,
     a_retention = KeepForever, a_expires = None\<rparr>"
definition empty_database :: database where
  "empty_database = \<lparr>meetings = [], assets = [], speakers = (\<lambda>_. []), segments = (\<lambda>_. []), deliveries = (\<lambda>_. []), me = (\<lambda>_. [])\<rparr>"
definition fresh_world :: "bool \<Rightarrow> world" where
  "fresh_world there = \<lparr>db = empty_database, clock = 0, lucks = [], calls = 0, models_in = there, live = False, on_disk = (\<lambda>_. True),
     quit_latch = False, posts = [], marks = [], admissions = 0, claimed = [], held = False, waiting = {}, for_store = {},
     resumes = 0, unfinished_owed = False, claims = [], preparing = None, turn = False, runs = (\<lambda>_. None), spawned = [],
     claims_made = 0, engine_loaded = False, in_hand = {#}, parked = {}, edits = 0, history = []\<rparr>"


definition ran_alone :: "unit work \<Rightarrow> world \<Rightarrow> world" where
  "ran_alone j s = (case alone j s of None \<Rightarrow> s | Some (s', _) \<Rightarrow> s')"

definition queueing :: "unit work" where
  "queueing = unit_of (enqueue_new 1 sample_meeting 7 sample_asset)"

definition queued_world :: "bool \<Rightarrow> world" where
  "queued_world there = ran_alone queueing (fresh_world there)"

definition ended_world :: "bool \<Rightarrow> world" where
  "ended_world there =
     ran_alone (background_job sample_services (RunAsset 7)) ((queued_world there)\<lparr>spawned := []\<rparr>)"

lemma reached_ran_alone:
  assumes "reached svc (s, js)" and "arrives svc s j s'" and "alone j s' \<noteq> None"
  shows "reached svc (ran_alone j s', js @ [Finished ()])"
proof -
  obtain s'' where "alone j s' = Some (s'', ())" using assms(3) by auto
  then show ?thesis
    using jobs_reach_alone[OF jobs_reach_arrive[OF assms(1,2)]] by (simp add: ran_alone_def)
qed

lemma queueing_runs: "alone queueing (fresh_world there) \<noteq> None" "spawned (queued_world there) = [RunAsset 7]"
  by (cases there; code_simp)+

definition seen :: "world \<Rightarrow> run_event list \<times> (uuid \<times> nat) list \<times> background list \<times> uuid list \<times> bool" where
  "seen s = (rev (history s), marks s, spawned s, filter (\<lambda>m. m \<in> parked s) [1], quit_latch s)"

lemma run_there:
  "map_option (seen \<circ> fst) (alone (background_job sample_services (RunAsset 7)) ((queued_world True)\<lparr>spawned := []\<rparr>)) =
     Some ([Began 1 0, Did 1 0, Used 1 0 True, Used 1 0 True, Did 1 0, Did 1 0, Did 1 0, Did 1 0, Ended 1 0], [], [], [], False)"
  by code_simp

lemma run_refused_models:
  "map_option (seen \<circ> fst) (alone (background_job sample_services (RunAsset 7)) ((queued_world False)\<lparr>spawned := []\<rparr>)) =
     Some ([Began 1 0, Did 1 0, Ended 1 0], [], [], [1], False)"
  by code_simp

lemma run_ends: "alone (background_job sample_services (RunAsset 7)) ((queued_world there)\<lparr>spawned := []\<rparr>) \<noteq> None"
  using run_there run_refused_models by (cases there) auto

lemma seen_ended:
  "seen (ended_world True) =
     ([Began 1 0, Did 1 0, Used 1 0 True, Used 1 0 True, Did 1 0, Did 1 0, Did 1 0, Did 1 0, Ended 1 0], [], [], [], False)"
  "seen (ended_world False) = ([Began 1 0, Did 1 0, Ended 1 0], [], [], [1], False)"
  using run_there run_refused_models by (auto simp: ended_world_def ran_alone_def)

lemma fresh_at_launch: "at_launch (fresh_world there)"
  by (simp add: at_launch_def fresh_world_def)

lemma queued_reached: "reached sample_services (queued_world there, [Finished ()])"
  using reached_ran_alone[OF jobs_start called, OF fresh_at_launch, of sample_services queueing there] queueing_runs(1)
  by (simp add: queued_world_def queueing_def app_call.intros)

lemma ended_reached: "reached sample_services (ended_world there, [Finished (), Finished ()])"
proof -
  have "arrives sample_services (queued_world there) (background_job sample_services (RunAsset 7))
      ((queued_world there)\<lparr>spawned := []\<rparr>)"
    using background[of "queued_world there" "[]" "RunAsset 7" "[]"] queueing_runs(2) by simp
  from reached_ran_alone[OF queued_reached this run_ends] show ?thesis by (simp add: ended_world_def)
qed

text \<open>
  C3: One run at a time per meeting. In every interleaving of runs, re-exports, summary re-runs, resumes
  and calls of the app, a run writes a meeting's rows or uses the engine for it only between its own
  admission and its own end, and no other run of the meeting is admitted in between.
\<close>

theorem runs_never_overlap:
  assumes "reached svc (s, js)"
  shows "replay (history s) = Some (bt_get (marks s))"
  using jobs.reach_invar[OF assms] by (simp add: invar_defs)

lemma runs_never_overlap_witness:
  "rev (history (ended_world True)) =
     [Began 1 0, Did 1 0, Used 1 0 True, Used 1 0 True, Did 1 0, Did 1 0, Did 1 0, Did 1 0, Ended 1 0] \<and>
   replay (history (ended_world True)) = Some (bt_get (marks (ended_world True)))"
  using runs_never_overlap[OF ended_reached] seen_ended(1) by (simp add: seen_def)

text \<open>
  C8: The speech engine is loaded whenever a run uses it, from the start of each call to its answer:
  no release by another job's end comes in between.
\<close>

theorem engine_is_loaded_while_it_runs:
  assumes "reached svc (s, js)"
  shows "list_all engine_was_loaded (history s)"
  using jobs.reach_invar[OF assms] by (simp add: invar_defs)

lemma engine_is_loaded_while_it_runs_witness:
  "Used 1 0 True \<in> set (history (ended_world True)) \<and> list_all engine_was_loaded (history (ended_world True))"
proof
  have "Used 1 0 True \<in> set (rev (history (ended_world True)))" using seen_ended(1) by (simp add: seen_def)
  then show "Used 1 0 True \<in> set (history (ended_world True))" by simp
qed (rule engine_is_loaded_while_it_runs[OF ended_reached])

lemma all_tokens_gone:
  assumes "reached svc (s, js)" and "list_all (\<lambda>j. j = Finished ()) js"
  shows "tokens s = {#}"
  using assms by (intro jobs.all_finished[of svc s js]) (auto simp: list_all_iff)

text \<open>
  C9: Once every job has ended and every spawned run has been taken up, nothing is held: no meeting is
  marked, no asset is claimed, so the set is idle, and no claim, warm-up lock or turn of the engine is
  left, whatever failed or panicked on the way.
\<close>

theorem idle_leaves_nothing:
  assumes "reached svc (s, js)" and "list_all (\<lambda>j. j = Finished ()) js" and "spawned s = []"
  shows "is_idle s \<and> no_claims s \<and> preparing s = None \<and> \<not> turn s"
  using all_tokens_gone[OF assms(1,2)] assms(3)
  by (auto simp: tokens_def is_idle_def no_claims_def spawned_claims_def split: option.splits if_splits)

lemma idle_leaves_nothing_witness:
  "is_idle (ended_world True) \<and> no_claims (ended_world True) \<and> preparing (ended_world True) = None \<and> \<not> turn (ended_world True)"
proof -
  have "spawned (ended_world True) = []" using seen_ended(1) by (simp add: seen_def)
  then show ?thesis using idle_leaves_nothing[OF ended_reached] by simp
qed





end
