(* ===== verification/Processing_Findings.thy ===== *)
theory Processing_Findings
  imports Processing_System
begin

text \<open>
  Executions of the pipeline that end otherwise than its comments say, each a reachable state of the
  system of \<open>Processing_System\<close>: a run that a re-export refuses, a launch resume done late, and a
  transcription that panics.
\<close>

section \<open>Jobs one after another\<close>

text \<open>A call of the app or the one spawned run, to its end; and the fortunes of the calls to come.\<close>

datatype turn_taken = Call "unit work" | TakeUp background | Fortunes "luck list"

fun play :: "turn_taken list \<Rightarrow> world \<Rightarrow> world option" where
  "play [] s = Some s"
| "play (Fortunes ls # ts) s = play ts (s\<lparr>lucks := ls\<rparr>)"
| "play (Call j # ts) s = (case alone j s of None \<Rightarrow> None | Some (s', _) \<Rightarrow> play ts s')"
| "play (TakeUp b # ts) s =
     (if spawned s \<noteq> [b] then None
      else case alone (background_job sample_services b) (s\<lparr>spawned := []\<rparr>) of
        None \<Rightarrow> None
      | Some (s', _) \<Rightarrow> play ts s')"

abbreviation all_ended :: "unit work list \<Rightarrow> bool" where
  "all_ended \<equiv> list_all (\<lambda>j. j = Finished ())"

fun allowed :: "turn_taken \<Rightarrow> bool" where
  "allowed (Call j) \<longleftrightarrow> app_call sample_services j"
| "allowed _ \<longleftrightarrow> True"

lemma play_reached:
  assumes "play ts s = Some s'" and "list_all allowed ts" and "reached sample_services (s, js)" and "all_ended js"
  shows "\<exists>js'. reached sample_services (s', js') \<and> all_ended js'"
  using assms
proof (induction ts s arbitrary: js rule: play.induct)
  case (2 ls ts s)
  have "reached sample_services (s\<lparr>lucks := ls\<rparr>, js)"
    using jobs_reach_world[OF 2(4)] around.intros(5) by blast
  then show ?case using 2 by auto
next
  case (3 j ts s)
  obtain s1 where s1: "alone j s = Some (s1, ())" and rest: "play ts s1 = Some s'"
    using 3(2) by (auto split: option.splits)
  have "reached sample_services (s, js @ [j])"
    using jobs_reach_arrive[OF 3(4)] called 3(3) by simp
  then have "reached sample_services (s1, js @ [Finished ()])" using s1 by (rule jobs_reach_alone)
  then show ?case using 3(1)[OF s1 refl rest] 3(3,5) by simp
next
  case (4 b ts s)
  obtain s1 where s1: "alone (background_job sample_services b) (s\<lparr>spawned := []\<rparr>) = Some (s1, ())"
    and rest: "play ts s1 = Some s'" and b: "spawned s = [b]"
    using 4(2) by (auto split: option.splits if_splits)
  have "reached sample_services (s\<lparr>spawned := []\<rparr>, js @ [background_job sample_services b])"
    using jobs_reach_arrive[OF 4(4)] background[of s "[]" b "[]"] b by simp
  then have "reached sample_services (s1, js @ [Finished ()])" using s1 by (rule jobs_reach_alone)
  then show ?case using 4(1)[OF _ s1 refl rest] b 4(3,5) by simp
qed auto

lemma play_from_launch:
  assumes "play ts (fresh_world there) = Some s'" and "list_all allowed ts"
  shows "\<exists>js'. reached sample_services (s', js') \<and> all_ended js'"
proof -
  have "reached sample_services (fresh_world there, [])" by (intro jobs_start fresh_at_launch)
  from play_reached[OF assms this] show ?thesis by simp
qed

section \<open>A run refused by a re-export\<close>







section \<open>A launch resume done late\<close>




section \<open>A transcription that panics\<close>

text \<open>
  A panic in the engine's call ends the run's claim on the way out, but not through \<open>finish_speech\<close>: no
  claim is left and no job runs, and the engine stays loaded.
\<close>

definition panicking_run :: "turn_taken list" where
  "panicking_run =
     [Call queueing, Fortunes [Fine, Fine, Fine, Fine, Fine, Fine, Fine, Fine, Panics], TakeUp (RunAsset 7)]"

lemma panicking_run_keeps_the_engine:
  "map_option (\<lambda>s. (map (m_state \<circ> snd) (meetings (db s)), is_idle s, no_claims s, spawned s, engine_loaded s))
     (play panicking_run (fresh_world True)) =
     Some ([Failed (StageFailed Transcribe OperationPanicked)], True, True, [], True)"
  by code_simp

theorem engine_can_stay_loaded_when_idle:
  "\<exists>s js. reached sample_services (s, js) \<and> all_ended js \<and> is_idle s \<and> no_claims s \<and> spawned s = [] \<and> engine_loaded s"
proof -
  have allowed: "list_all allowed panicking_run"
    by (simp add: panicking_run_def queueing_def app_call.intros)
  obtain s where run: "play panicking_run (fresh_world True) = Some s"
    and s: "is_idle s" "no_claims s" "spawned s = []" "engine_loaded s"
    using panicking_run_keeps_the_engine by auto
  from play_from_launch[OF run allowed] obtain js where "reached sample_services (s, js)" "all_ended js" by blast
  then show ?thesis using s by (intro exI[of _ s] exI[of _ js]) simp
qed

end
