(* ===== verification/File_Urls.thy ===== *)
theory File_Urls
  imports Utf8_Text Lane_Merger
begin

text \<open>
  The \<open>file://\<close> URLs the store keeps of its files (\<open>steno-core/src/paths.rs\<close>, on Unix, where a path is
  its bytes): writing one, reading one back, and that the two agree.
\<close>

section \<open>Writing and reading a URL\<close>

definition alphanumeric :: "nat \<Rightarrow> bool" where
  "alphanumeric c \<longleftrightarrow> 48 \<le> c \<and> c \<le> 57 \<or> 65 \<le> c \<and> c \<le> 90 \<or> 97 \<le> c \<and> c \<le> 122"

definition is_path_allowed :: "byte \<Rightarrow> bool" where
  "is_path_allowed b \<longleftrightarrow> alphanumeric (unat b) \<or> unat b \<in> set (ascii ''-._~!$&'' @ [39] @ ascii ''()*+,;=:@/'')"

definition encoded_byte :: "byte \<Rightarrow> ustring" where
  "encoded_byte b =
     (if is_path_allowed b then [unat b] else [37, hex_digit (unat b div 16), hex_digit (unat b mod 16)])"

definition file_url :: "bytes \<Rightarrow> bool \<Rightarrow> ustring" where
  "file_url path is_directory =
     (let url = ascii ''file://'' @ concat (map encoded_byte path)
      in if is_directory \<and> last url \<noteq> 47 then url @ [47] else url)"

definition hex_value :: "byte \<Rightarrow> nat option" where
  "hex_value b =
     (let c = unat b
      in if 48 \<le> c \<and> c \<le> 57 then Some (c - 48)
         else if 65 \<le> c \<and> c \<le> 70 then Some (c - 55)
         else if 97 \<le> c \<and> c \<le> 102 then Some (c - 87)
         else None)"

fun unescaped :: "bytes \<Rightarrow> bytes" where
  "unescaped [] = []"
| "unescaped (b # bs) =
     (case bs of
        high # low # rest \<Rightarrow>
          (case (hex_value high, hex_value low) of
             (Some h, Some l) \<Rightarrow>
               if b = 37 then of_nat (h * 16 + l) # unescaped rest else b # unescaped bs
           | _ \<Rightarrow> b # unescaped bs)
      | _ \<Rightarrow> b # unescaped bs)"

definition starts_with_drive :: "bytes \<Rightarrow> bool" where
  "starts_with_drive bs =
     (case bs of
        slash # drive # colon # _ \<Rightarrow>
          slash = 47 \<and> colon = 58 \<and>
          (65 \<le> unat drive \<and> unat drive \<le> 90 \<or> 97 \<le> unat drive \<and> unat drive \<le> 122)
      | _ \<Rightarrow> False)"

definition drop_trailing_slash :: "bytes \<Rightarrow> bytes" where
  "drop_trailing_slash bs =
     (let drive_root = (length bs = 4 \<and> starts_with_drive bs \<and> last bs = 47)
      in if length bs > 1 \<and> last bs = 47 \<and> \<not> drive_root then butlast bs else bs)"

definition file_url_path :: "ustring \<Rightarrow> bytes option" where
  "file_url_path url =
     (case strip_prefix (ascii ''file://'') url of
        None \<Rightarrow> None
      | Some rest \<Rightarrow>
          (case index_of (\<lambda>c. c = 47) rest of
             None \<Rightarrow> None
           | Some slash \<Rightarrow> Some (drop_trailing_slash (unescaped (utf8_encode (drop slash rest))))))"

section \<open>Reading back\<close>

lemma hex_value_digit: "n < 16 \<Longrightarrow> hex_value (of_nat (hex_digit n)) = Some n"
  by (auto simp: hex_value_def hex_digit_def unat_of_nat Let_def)

lemma byte_bound: "unat (b :: byte) < 256"
  using unsigned_less[of b, where ?'a = nat] by simp

lemma allowed_is_ascii: "is_path_allowed b \<Longrightarrow> unat b < 128"
proof -
  have "list_all (\<lambda>c. c < 128) (ascii ''-._~!$&'' @ [39] @ ascii ''()*+,;=:@/'')" by code_simp
  then show "is_path_allowed b \<Longrightarrow> unat b < 128"
    unfolding is_path_allowed_def alphanumeric_def list_all_iff by (elim disjE) auto
qed

lemma escape_not_allowed: "\<not> is_path_allowed 37"
  by code_simp

lemma encoded_is_ascii: "c \<in> set (encoded_byte b) \<Longrightarrow> c < 128"
  using byte_bound[of b] allowed_is_ascii[of b] by (auto simp: encoded_byte_def hex_digit_def split: if_splits)

lemma utf8_encode_ascii: "\<forall>c\<in>set s. c < 128 \<Longrightarrow> utf8_encode s = map of_nat s"
  by (induction s) (auto simp: utf8_encode_def utf8_char_def)

lemma unescaped_encoded: "unescaped (map of_nat (encoded_byte b) @ bs) = b # unescaped bs"
proof (cases "is_path_allowed b")
  case True
  have "b \<noteq> 37" using True escape_not_allowed by auto
  then show ?thesis using True by (auto simp: encoded_byte_def split: list.splits option.splits)
next
  case False
  have "unat b div 16 < 16" using byte_bound[of b] by simp
  moreover have "of_nat (unat b div 16 * 16 + unat b mod 16) = b"
    by (simp only: div_mult_mod_eq) simp
  ultimately show ?thesis using False by (simp add: encoded_byte_def hex_value_digit)
qed

lemma unescaped_url: "unescaped (map of_nat (concat (map encoded_byte p)) @ bs) = p @ unescaped bs"
  by (induction p) (simp_all add: unescaped_encoded)

lemma file_url_path_of_text:
  assumes "\<forall>c\<in>set s. c < 128"
  shows "file_url_path (ascii ''file://'' @ 47 # s) = Some (drop_trailing_slash (unescaped (47 # map of_nat s)))"
  using assms utf8_encode_ascii[of "47 # s"]
  by (simp add: file_url_path_def strip_prefix_def starts_with_def)

text \<open>
  C27: A file's URL reads back as its path, whatever bytes are in it; a directory's too, unless it is the
  root of a drive.
\<close>

theorem file_url_reads_back:
  assumes "path \<noteq> []" and "hd path = 47" and "last path = 47 \<longrightarrow> path = [47]"
    and "is_directory \<longrightarrow> \<not> (length path = 3 \<and> starts_with_drive path)"
  shows "file_url_path (file_url path is_directory) = Some path"
proof -
  obtain p where p: "path = 47 # p" using assms(1,2) by (cases path) auto
  have slash: "encoded_byte 47 = [47]" by (simp add: encoded_byte_def is_path_allowed_def ascii_def)
  let ?text = "concat (map encoded_byte p)"
  have ascii: "\<forall>c\<in>set ?text. c < 128" using encoded_is_ascii by auto
  have plain: "unescaped (47 # map of_nat ?text @ bs) = path @ unescaped bs" for bs
    using unescaped_url[of path bs] by (simp add: p slash)
  have kept: "drop_trailing_slash path = path"
    by (cases "last path = 47") (use assms(3) in \<open>simp_all add: drop_trailing_slash_def Let_def\<close>)
  have reads: "file_url_path (ascii ''file://'' @ 47 # ?text) = Some path"
    using file_url_path_of_text[OF ascii] plain[of "[]"] kept by simp
  show ?thesis
  proof (cases "is_directory \<and> last (ascii ''file://'' @ 47 # ?text) \<noteq> 47")
    case True
    have "\<not> (length path = 3 \<and> starts_with_drive (path @ [47]))"
    proof
      assume short: "length path = 3 \<and> starts_with_drive (path @ [47])"
      then obtain x y z where "path = [x, y, z]" by (auto simp: numeral_3_eq_3 length_Suc_conv)
      then show False using short True assms(4) by (simp add: starts_with_drive_def)
    qed
    then have "drop_trailing_slash (path @ [47]) = path"
      by (simp add: drop_trailing_slash_def Let_def p)
    moreover have "file_url_path (ascii ''file://'' @ 47 # ?text @ [47]) = Some (drop_trailing_slash (path @ [47]))"
      using file_url_path_of_text[of "?text @ [47]"] ascii plain[of "[47]"] by simp
    ultimately show ?thesis using True by (simp add: file_url_def p slash)
  next
    case False
    have "concat (map encoded_byte path) = 47 # ?text" by (simp add: p slash)
    then show ?thesis unfolding file_url_def Let_def using False reads by (simp only: if_False)
  qed
qed

lemma file_url_reads_back_witness:
  "file_url (map of_nat [47, 32, 188]) True = ascii ''file:///%20%BC/'' \<and>
   file_url_path (file_url (map of_nat [47, 32, 188]) True) = Some (map of_nat [47, 32, 188])"
proof
  have "\<not> starts_with_drive (map of_nat [47, 32, 188])" by (simp add: starts_with_drive_def)
  then show "file_url_path (file_url (map of_nat [47, 32, 188]) True) = Some (map of_nat [47, 32, 188])"
    using file_url_reads_back[of "map of_nat [47, 32, 188]" True] by simp
qed code_simp

end
