(* ===== verification/Retention_Sweep.thy ===== *)
theory Retention_Sweep
  imports Handover_Store Processing_Store File_Urls
begin

text \<open>
  How recordings leave the disk: \<open>steno-pipeline/src/retention.rs\<close>, the sweep of clip files in
  \<open>sample_clips.rs\<close>, and the transactions of \<open>steno-core/src/store/assets.rs\<close> they run in. A path is the
  list of its components, as \<open>Path\<close> compares them. The store's calls fail as the list \<open>faults\<close> says, two
  entries for a write: at its begin, and at its commit, when the files are already gone. The order in
  which a directory lists its names and \<open>Uuid::try_parse\<close> are arguments.
\<close>

section \<open>Paths and files\<close>

type_synonym path = "bytes list"

text \<open>The components of an absolute path: empty ones and single dots do not count.\<close>

definition components :: "bytes \<Rightarrow> path" where
  "components bs = filter (\<lambda>c. c \<noteq> [] \<and> c \<noteq> [46]) (split_at_char 47 bs)"

definition url_path :: "ustring \<Rightarrow> path option" where
  "url_path url = map_option components (file_url_path url)"

definition file_name_of :: "path \<Rightarrow> bytes option" where
  "file_name_of p = (if p = [] \<or> last p = [46, 46] then None else Some (last p))"

definition parent :: "path \<Rightarrow> path option" where
  "parent p = (if p = [] then None else Some (butlast p))"

text \<open>
  What stands at a path: nothing, something whose presence cannot be read, or something, a regular file
  or not. The second flag says that its removal fails.
\<close>

datatype presence = Absent | Unreadable | Present bool

record shelf =
  rows :: database
  clip_urls :: "uuid \<Rightarrow> uuid \<Rightarrow> ustring option"
  node :: "path \<Rightarrow> presence"
  resists :: "path \<Rightarrow> bool"
  listed :: "path \<Rightarrow> bytes list option"
  faults :: "bool list"

definition known_gone :: "path \<Rightarrow> shelf \<Rightarrow> bool" where
  "known_gone p s \<longleftrightarrow> node s p = Absent"

definition remove_file :: "path \<Rightarrow> shelf \<Rightarrow> shelf \<times> bool" where
  "remove_file p s =
     (if node s p = Absent \<or> resists s p then (s, False) else (s\<lparr>node := (node s)(p := Absent)\<rparr>, True))"

definition next_fault :: "shelf \<Rightarrow> bool \<times> shelf" where
  "next_fault s = (case faults s of [] \<Rightarrow> (False, s) | b # bs \<Rightarrow> (b, s\<lparr>faults := bs\<rparr>))"

section \<open>Assets that are due\<close>

definition expirable_files :: "asset_row \<Rightarrow> ustring list" where
  "expirable_files a = a_url a # a_sidecars a @ (case a_mixdown a of None \<Rightarrow> [] | Some u \<Rightarrow> [u])"

definition due :: "instant \<Rightarrow> database \<Rightarrow> asset_row \<Rightarrow> bool" where
  "due now d a \<longleftrightarrow>
     (case a_expires a of None \<Rightarrow> False | Some t \<Rightarrow> db_date t \<le> db_date now) \<and>
     (case meeting_of_id (a_meeting a) d of
        None \<Rightarrow> False
      | Some r \<Rightarrow> m_state r \<noteq> Recording \<and> m_state r \<noteq> Queued \<and> m_state r \<noteq> Processing)"

definition expired_assets :: "instant \<Rightarrow> database \<Rightarrow> uuid list" where
  "expired_assets now d =
     map fst (sort_key (\<lambda>(i, a). ((case a_expires a of None \<Rightarrow> 0 | Some t \<Rightarrow> db_date t), i)) (filter (\<lambda>(i, a). due now d a) (assets d)))"

text \<open>Another row of the master's URL that is not due itself, and whose meeting is there.\<close>

definition keeps_master :: "instant \<Rightarrow> database \<Rightarrow> uuid \<Rightarrow> asset_row \<Rightarrow> uuid \<times> asset_row \<Rightarrow> bool" where
  "keeps_master now d i a k \<longleftrightarrow>
     a_url (snd k) = a_url a \<and> fst k \<noteq> i \<and> meeting_of_id (a_meeting (snd k)) d \<noteq> None \<and> \<not> due now d (snd k)"

definition keeper_of_master :: "instant \<Rightarrow> database \<Rightarrow> uuid \<Rightarrow> asset_row \<Rightarrow> uuid option" where
  "keeper_of_master now d i a = map_option fst (find (keeps_master now d i a) (assets d))"

section \<open>Sample clips\<close>

fun text_prefix :: "nat \<Rightarrow> ustring \<Rightarrow> ustring option" where
  "text_prefix n [] = (if n = 0 then Some [] else None)"
| "text_prefix n (c # cs) =
     (if n = 0 then Some []
      else if length (utf8_char c) \<le> n then map_option ((#) c) (text_prefix (n - length (utf8_char c)) cs)
      else None)"

definition clip_speaker :: "(ustring \<Rightarrow> uuid option) \<Rightarrow> bytes \<Rightarrow> uuid option" where
  "clip_speaker try_parse name =
     (case utf8_decode name of
        None \<Rightarrow> None
      | Some text \<Rightarrow>
          if \<not> list_ex (\<lambda>suffix. strip_suffix (ascii suffix) text \<noteq> None) [''.wav'', ''.partial'', ''.part''] then None
          else
            (case text_prefix 36 (case strip_prefix [46] text of None \<Rightarrow> text | Some rest \<Rightarrow> rest) of
               None \<Rightarrow> None
             | Some i \<Rightarrow> try_parse i))"

definition upper_byte :: "byte \<Rightarrow> byte" where
  "upper_byte b = (if 97 \<le> b \<and> b \<le> 122 then b - 32 else b)"

definition named_files :: "ustring list \<Rightarrow> bytes list" where
  "named_files urls =
     List.map_filter (\<lambda>url. map_option (map upper_byte) (Option.bind (url_path url) file_name_of)) urls"

definition spared :: "(ustring \<Rightarrow> uuid option) \<Rightarrow> uuid set \<Rightarrow> ustring list \<Rightarrow> bytes \<Rightarrow> bool" where
  "spared try_parse owners urls name \<longleftrightarrow>
     (case clip_speaker try_parse name of None \<Rightarrow> True | Some i \<Rightarrow> i \<notin> owners) \<or>
     map upper_byte name \<in> set (named_files urls)"

primrec sweep_names ::
  "(ustring \<Rightarrow> uuid option) \<Rightarrow> path \<Rightarrow> uuid set \<Rightarrow> ustring list \<Rightarrow> bytes list \<Rightarrow> shelf \<Rightarrow> shelf \<times> path list"
where
  "sweep_names try_parse dir owners urls [] s = (s, [])"
| "sweep_names try_parse dir owners urls (n # ns) s =
     (if spared try_parse owners urls n \<or> node s (dir @ [n]) \<noteq> Present True
      then sweep_names try_parse dir owners urls ns s
      else case remove_file (dir @ [n]) s of (s, gone) \<Rightarrow>
        (case sweep_names try_parse dir owners urls ns s of (s, removed) \<Rightarrow>
          (s, if gone then (dir @ [n]) # removed else removed)))"

definition sweep_clips ::
  "(ustring \<Rightarrow> uuid option) \<Rightarrow> path \<Rightarrow> uuid set \<Rightarrow> ustring list \<Rightarrow> shelf \<Rightarrow> shelf \<times> path list"
where
  "sweep_clips try_parse dir owners urls s =
     (case listed s dir of None \<Rightarrow> (s, []) | Some names \<Rightarrow> sweep_names try_parse dir owners urls names s)"

definition sample_clip_urls :: "shelf \<Rightarrow> ustring list" where
  "sample_clip_urls s =
     concat (map (\<lambda>(m, _). List.map_filter (\<lambda>sp. clip_urls s m (sp_id sp)) (speakers (rows s) m)) (meetings (rows s)))"

text \<open>After a merge: the clips of the rows it replaced, but not those of a confirmed speaker it gave none.\<close>

definition sweep_after_merge ::
  "(ustring \<Rightarrow> uuid option) \<Rightarrow> path \<Rightarrow> (speaker_row \<times> ustring option) list \<Rightarrow>
    (speaker_row \<times> ustring option) list \<Rightarrow> shelf \<Rightarrow> shelf \<times> path list option"
where
  "sweep_after_merge try_parse dir replaced committed s =
     (case next_fault s of (fault, s) \<Rightarrow>
      if fault then (s, None) else
      let given = sp_id ` fst ` set (filter (\<lambda>k. snd k \<noteq> None) committed);
          kept = filter (\<lambda>k. is_confirmed (fst k) \<and> sp_id (fst k) \<notin> given) replaced;
          urls = sample_clip_urls s @ List.map_filter snd kept;
          owners = given \<union> sp_id ` fst ` set (filter (\<lambda>k. \<not> (is_confirmed (fst k) \<and> sp_id (fst k) \<notin> given)) replaced)
      in case sweep_clips try_parse dir owners urls s of (s, removed) \<Rightarrow> (s, Some removed))"

section \<open>One asset\<close>

text \<open>The folder of the master, when it is named after the meeting.\<close>

definition own_folder :: "asset_row \<Rightarrow> path option" where
  "own_folder a =
     (case Option.bind (url_path (a_url a)) parent of
        None \<Rightarrow> None
      | Some dir \<Rightarrow>
          if file_name_of dir = Some (utf8_encode (uuid_string (a_meeting a))) then Some dir else None)"

definition confirmed_with_clips :: "uuid \<Rightarrow> shelf \<Rightarrow> (uuid \<times> ustring) list" where
  "confirmed_with_clips m s =
     List.map_filter (\<lambda>sp. if is_confirmed sp then map_option (Pair (sp_id sp)) (clip_urls s m (sp_id sp)) else None)
       (speakers (rows s) m)"

text \<open>Each file that is not known to be gone is removed; the removed ones and those that resisted.\<close>

primrec remove_each :: "path list \<Rightarrow> shelf \<Rightarrow> shelf \<times> path list \<times> path list" where
  "remove_each [] s = (s, [], [])"
| "remove_each (p # ps) s =
     (if known_gone p s then remove_each ps s
      else case remove_file p s of (s, gone) \<Rightarrow>
        (case remove_each ps s of (s, removed, failed) \<Rightarrow>
          (s, if gone then (p # removed, failed) else (removed, p # failed))))"

definition doomed_files :: "asset_row \<Rightarrow> shelf \<Rightarrow> path list" where
  "doomed_files a s =
     List.map_filter url_path (expirable_files a @ map snd (confirmed_with_clips (a_meeting a) s))"

definition remove_asset ::
  "(ustring \<Rightarrow> uuid option) \<Rightarrow> asset_row \<Rightarrow> shelf \<Rightarrow> shelf \<times> path list \<times> path list"
where
  "remove_asset try_parse a s =
     (case remove_each (doomed_files a s) s of (s1, removed, failed) \<Rightarrow>
      (case own_folder a of
         None \<Rightarrow> (s1, removed, failed)
       | Some dir \<Rightarrow>
           (case sweep_clips try_parse (dir @ [utf8_encode (ascii ''speakers'')]) (sp_id ` set (speakers (rows s) (a_meeting a)))
                   (sample_clip_urls s) s1 of
              (s2, clips) \<Rightarrow> (s2, removed @ clips, failed))))"

definition clear_sample_clips :: "uuid \<Rightarrow> uuid list \<Rightarrow> shelf \<Rightarrow> shelf" where
  "clear_sample_clips m ids s =
     s\<lparr>clip_urls := (clip_urls s)(m := (\<lambda>i. if i \<in> set ids then None else clip_urls s m i))\<rparr>"

definition still_there :: "shelf \<Rightarrow> uuid \<times> asset_row \<Rightarrow> bool" where
  "still_there s k = (case url_path (a_url (snd k)) of None \<Rightarrow> False | Some p \<Rightarrow> \<not> known_gone p s)"

text \<open>A write: what its failed commit rolls back is the store, not the disk.\<close>

definition in_write :: "(shelf \<Rightarrow> shelf \<times> 'a) \<Rightarrow> shelf \<Rightarrow> shelf \<times> 'a option" where
  "in_write f s =
     (case next_fault s of (fault, s) \<Rightarrow>
      if fault then (s, None) else
      (case f s of (s1, x) \<Rightarrow>
       (case next_fault s1 of (fault, s1) \<Rightarrow>
        if fault then (s1\<lparr>rows := rows s, clip_urls := clip_urls s\<rparr>, None) else (s1, Some x))))"

text \<open>
  One asset: still due, its master needed by no other row, and every file gone. Answers the files removed
  and those that resisted.
\<close>

definition sweep_due ::
  "(ustring \<Rightarrow> uuid option) \<Rightarrow> instant \<Rightarrow> uuid \<Rightarrow> asset_row \<Rightarrow> shelf \<Rightarrow> shelf \<times> path list \<times> path list"
where
  "sweep_due try_parse now i a s =
     (if still_there s (i, a) \<and> keeper_of_master now (rows s) i a \<noteq> None then (s, [], [])
      else case remove_asset try_parse a s of (s1, removed, failed) \<Rightarrow>
        (if failed \<noteq> [] then s1
         else (clear_sample_clips (a_meeting a) (map fst (confirmed_with_clips (a_meeting a) s)) s1)
                \<lparr>rows := save_asset i (a\<lparr>a_expires := None\<rparr>) (rows s1)\<rparr>,
         removed, failed))"

definition sweep_expired_asset ::
  "(ustring \<Rightarrow> uuid option) \<Rightarrow> instant \<Rightarrow> uuid \<Rightarrow> shelf \<Rightarrow> shelf \<times> (path list \<times> path list) option"
where
  "sweep_expired_asset try_parse now i =
     in_write (\<lambda>s.
       case asset_by_id i (rows s) of
         None \<Rightarrow> (s, [], [])
       | Some a \<Rightarrow> if due now (rows s) a then sweep_due try_parse now i a s else (s, [], []))"

section \<open>The sweep and the keep\<close>

datatype sweep_incomplete = ResistingFiles "path list" | StoreFailed

primrec sweep_each ::
  "(ustring \<Rightarrow> uuid option) \<Rightarrow> instant \<Rightarrow> uuid list \<Rightarrow> shelf \<Rightarrow> shelf \<times> (path list \<times> path list) option"
where
  "sweep_each try_parse now [] s = (s, Some ([], []))"
| "sweep_each try_parse now (i # is) s =
     (case sweep_expired_asset try_parse now i s of
        (s, None) \<Rightarrow> (s, None)
      | (s, Some (removed, failed)) \<Rightarrow>
          (case sweep_each try_parse now is s of
             (s, None) \<Rightarrow> (s, None)
           | (s, Some (removed', failed')) \<Rightarrow> (s, Some (removed @ removed', failed @ failed'))))"

definition sweep_run ::
  "(ustring \<Rightarrow> uuid option) \<Rightarrow> instant \<Rightarrow> shelf \<Rightarrow> shelf \<times> (sweep_incomplete + path list)"
where
  "sweep_run try_parse now s =
     (case next_fault s of (fault, s) \<Rightarrow>
      if fault then (s, Inl StoreFailed) else
      (case sweep_each try_parse now (expired_assets now (rows s)) s of
         (s, None) \<Rightarrow> (s, Inl StoreFailed)
       | (s, Some (removed, failed)) \<Rightarrow> (s, if failed = [] then Inr removed else Inl (ResistingFiles failed))))"

definition keep_row :: "uuid \<Rightarrow> database \<Rightarrow> database" where
  "keep_row i d =
     (case asset_by_id i d of
        None \<Rightarrow> d
      | Some a \<Rightarrow> save_asset i (a\<lparr>a_retention := KeepForever, a_expires := None\<rparr>) d)"

definition keep_forever :: "uuid list \<Rightarrow> database \<Rightarrow> database" where
  "keep_forever ids d = fold keep_row ids d"

definition keep_all :: "shelf \<Rightarrow> shelf \<times> nat option" where
  "keep_all s =
     (case next_fault s of (fault, s) \<Rightarrow>
      if fault then (s, None) else
      (let ids = map fst (filter (still_there s) (assets (rows s)))
       in in_write (\<lambda>s. (s\<lparr>rows := keep_forever ids (rows s)\<rparr>, length ids)) s))"

section \<open>What a sweep changes\<close>

lemma bt_in_get: "bt_ok m \<Longrightarrow> (k, v) \<in> set m \<longleftrightarrow> bt_get m k = Some v"
  by (simp add: bt_get_def bt_ok_def strict_sorted_iff map_of_eq_Some_iff)

lemma next_fault_shelf [simp]:
  "next_fault s = (b, s1) \<Longrightarrow> rows s1 = rows s \<and> clip_urls s1 = clip_urls s \<and> node s1 = node s \<and>
     resists s1 = resists s \<and> listed s1 = listed s"
  by (auto simp: next_fault_def split: list.splits)

lemma remove_file_shelf:
  "remove_file p s = (s1, gone) \<Longrightarrow> rows s1 = rows s \<and> clip_urls s1 = clip_urls s \<and>
     node s1 = (if gone then (node s)(p := Absent) else node s)"
  by (auto simp: remove_file_def split: if_splits)

lemma remove_each_shelf:
  "remove_each ps s = (s1, removed, failed) \<Longrightarrow>
     rows s1 = rows s \<and> clip_urls s1 = clip_urls s \<and> (\<forall>p\<in>set removed. p \<in> set ps) \<and>
     node s1 = (\<lambda>p. if p \<in> set removed then Absent else node s p) \<and>
     (failed = [] \<longrightarrow> (\<forall>p\<in>set ps. node s1 p = Absent))"
proof (induction ps arbitrary: s s1 removed failed)
  case (Cons p ps)
  show ?case
  proof (cases "known_gone p s")
    case True
    then show ?thesis using Cons.prems Cons.IH[of s s1 removed failed] by (auto simp: known_gone_def)
  next
    case False
    obtain s2 gone where s2: "remove_file p s = (s2, gone)" by fastforce
    obtain s3 r f where s3: "remove_each ps s2 = (s3, r, f)" by (metis prod_cases3)
    have ends: "s1 = s3" "removed = (if gone then p # r else r)" "failed = (if gone then f else p # f)"
      using Cons.prems False s2 s3 by (auto split: if_splits)
    have "node s3 = (\<lambda>q. if q \<in> set removed then Absent else node s q)"
      using Cons.IH[OF s3] remove_file_shelf[OF s2] by (simp add: ends fun_eq_iff)
    then show ?thesis
      using Cons.IH[OF s3] remove_file_shelf[OF s2] by (auto simp: ends split: if_splits)
  qed
qed auto

lemma sweep_names_shelf:
  "sweep_names x dir owners urls ns s = (s1, removed) \<Longrightarrow>
     rows s1 = rows s \<and> clip_urls s1 = clip_urls s \<and>
     node s1 = (\<lambda>p. if p \<in> set removed then Absent else node s p) \<and>
     list_all (\<lambda>p. \<exists>n. p = dir @ [n] \<and> n \<in> set ns \<and> \<not> spared x owners urls n \<and> node s p = Present True) removed"
proof (induction ns arbitrary: s s1 removed)
  case (Cons n ns)
  show ?case
  proof (cases "spared x owners urls n \<or> node s (dir @ [n]) \<noteq> Present True")
    case True
    then show ?thesis using Cons.prems Cons.IH[of s s1 removed] by (auto simp: list_all_iff)
  next
    case False
    obtain s2 gone where s2: "remove_file (dir @ [n]) s = (s2, gone)" by fastforce
    obtain s3 r where s3: "sweep_names x dir owners urls ns s2 = (s3, r)" by fastforce
    show ?thesis
      using Cons.prems False s2 s3 Cons.IH[OF s3] remove_file_shelf[OF s2]
      by (auto simp: fun_eq_iff list_all_iff split: if_splits)
  qed
qed auto

text \<open>
  C31: A sweep of clip files removes only regular files of its folder that belong to one of the owners
  and that no URL names, and touches nothing else.
\<close>

theorem clip_sweep_spares_named_clips:
  "case sweep_clips try_parse dir owners urls s of
     (s', removed) \<Rightarrow>
       node s' = (\<lambda>p. if p \<in> set removed then Absent else node s p) \<and> rows s' = rows s \<and>
       list_all (\<lambda>p. \<exists>n i. p = dir @ [n] \<and> node s p = Present True \<and> clip_speaker try_parse n = Some i \<and> i \<in> owners \<and>
         list_all (\<lambda>u. Option.bind (url_path u) file_name_of \<noteq> Some n) urls) removed"
proof -
  obtain s' removed where run: "sweep_clips try_parse dir owners urls s = (s', removed)" by fastforce
  have named: "list_all (\<lambda>u. Option.bind (url_path u) file_name_of \<noteq> Some n) urls"
    if "\<not> spared try_parse owners urls n" for n
    using that by (force simp: spared_def named_files_def list_all_iff map_filter_def)
  show ?thesis
    using run named
    by (fastforce simp: sweep_clips_def list_all_iff spared_def dest!: sweep_names_shelf split: option.splits)
qed

section \<open>What a sweep keeps\<close>

lemma remove_asset_shelf:
  assumes "remove_asset x a s = (s1, removed, failed)"
  shows "rows s1 = rows s \<and> clip_urls s1 = clip_urls s \<and> (\<forall>p. node s1 p = node s p \<or> node s1 p = Absent) \<and>
    (failed = [] \<longrightarrow> (\<forall>u\<in>set (expirable_files a). \<forall>p. url_path u = Some p \<longrightarrow> node s1 p = Absent)) \<and>
    (\<forall>p. node s1 p \<noteq> node s p \<longrightarrow> p \<in> set (doomed_files a s) \<or> p \<noteq> [] \<and> clip_speaker x (last p) \<noteq> None)"
proof -
  obtain s2 r f where s2: "remove_each (doomed_files a s) s = (s2, r, f)" by (metis prod_cases3)
  note first = remove_each_shelf[OF s2]
  have doomed: "p \<in> set (doomed_files a s)" if "u \<in> set (expirable_files a)" and "url_path u = Some p" for u p
    using that by (force simp: doomed_files_def map_filter_def)
  show ?thesis
  proof (cases "own_folder a")
    case None
    then have "s1 = s2" "failed = f" using assms s2 by (simp_all add: remove_asset_def)
    then show ?thesis using first doomed by (auto split: if_splits)
  next
    case (Some dir)
    obtain s3 clips where s3: "sweep_clips x (dir @ [utf8_encode (ascii ''speakers'')])
        (sp_id ` set (speakers (rows s) (a_meeting a))) (sample_clip_urls s) s2 = (s3, clips)" by fastforce
    then have ends: "s1 = s3" "failed = f" using assms s2 Some by (simp_all add: remove_asset_def)
    have second: "rows s3 = rows s2 \<and> clip_urls s3 = clip_urls s2 \<and>
        node s3 = (\<lambda>p. if p \<in> set clips then Absent else node s2 p) \<and>
        (\<forall>p\<in>set clips. p \<noteq> [] \<and> clip_speaker x (last p) \<noteq> None)"
      using s3 by (fastforce simp: sweep_clips_def list_all_iff spared_def dest!: sweep_names_shelf split: option.splits)
    show ?thesis using first second doomed unfolding ends by (auto split: if_splits)
  qed
qed

text \<open>
  The later shelf of a sweep: rows only lost the stamp of a due asset all of whose files are gone, files
  only went, clip URLs only were cleared.
\<close>

definition swept_row :: "instant \<Rightarrow> shelf \<Rightarrow> shelf \<Rightarrow> uuid \<Rightarrow> bool" where
  "swept_row now s s' i \<longleftrightarrow>
     asset_by_id i (rows s') = asset_by_id i (rows s) \<or>
     (\<exists>a. asset_by_id i (rows s) = Some a \<and> due now (rows s) a \<and>
        asset_by_id i (rows s') = Some (a\<lparr>a_expires := None\<rparr>) \<and>
        list_all (\<lambda>p. node s' p = Absent) (List.map_filter url_path (expirable_files a)))"

definition later :: "instant \<Rightarrow> shelf \<Rightarrow> shelf \<Rightarrow> bool" where
  "later now s s' \<longleftrightarrow>
     meetings (rows s') = meetings (rows s) \<and> speakers (rows s') = speakers (rows s) \<and> bt_ok (assets (rows s')) \<and>
     (\<forall>i. swept_row now s s' i) \<and> (\<forall>p. node s' p = node s p \<or> node s' p = Absent) \<and>
     (\<forall>m i. clip_urls s' m i = clip_urls s m i \<or> clip_urls s' m i = None)"

lemma later_row:
  assumes "later now s s'"
  obtains "asset_by_id i (rows s') = asset_by_id i (rows s)"
  | a where "asset_by_id i (rows s) = Some a" "due now (rows s) a" "asset_by_id i (rows s') = Some (a\<lparr>a_expires := None\<rparr>)"
      "list_all (\<lambda>p. node s' p = Absent) (List.map_filter url_path (expirable_files a))"
proof -
  have "swept_row now s s' i" using assms by (simp add: later_def)
  then show ?thesis using that unfolding swept_row_def by blast
qed

lemma due_unstamped [simp]: "\<not> due now d (a\<lparr>a_expires := None\<rparr>)"
  by (simp add: due_def)

lemma due_same_meetings: "meetings d' = meetings d \<Longrightarrow> due now d' a \<longleftrightarrow> due now d a"
  by (simp add: due_def meeting_of_id_def)

lemma due_later: "later now s s' \<Longrightarrow> due now (rows s') a \<longleftrightarrow> due now (rows s) a"
  by (rule due_same_meetings) (simp add: later_def)

lemma later_same:
  "bt_ok (assets (rows s)) \<Longrightarrow> rows s' = rows s \<Longrightarrow> clip_urls s' = clip_urls s \<Longrightarrow>
     \<forall>p. node s' p = node s p \<or> node s' p = Absent \<Longrightarrow> later now s s'"
  by (simp add: later_def swept_row_def)

lemma later_ok: "later now s s' \<Longrightarrow> bt_ok (assets (rows s'))"
  by (simp add: later_def)

lemma later_trans:
  assumes "later now s s1" and "later now s1 s2"
  shows "later now s s2"
proof -
  have gone: "node s2 p = Absent" if "node s1 p = Absent" for p
    using assms(2) that unfolding later_def by metis
  have "swept_row now s s2 i" for i
  proof (rule later_row[OF assms(1), of i])
    assume same: "asset_by_id i (rows s1) = asset_by_id i (rows s)"
    show ?thesis
      by (rule later_row[OF assms(2), of i]) (auto simp: swept_row_def same due_later[OF assms(1)])
  next
    fix a
    assume a: "asset_by_id i (rows s) = Some a" "due now (rows s) a" "asset_by_id i (rows s1) = Some (a\<lparr>a_expires := None\<rparr>)"
      "list_all (\<lambda>p. node s1 p = Absent) (List.map_filter url_path (expirable_files a))"
    have "asset_by_id i (rows s2) = Some (a\<lparr>a_expires := None\<rparr>)"
      by (rule later_row[OF assms(2), of i]) (auto simp: a(3))
    then show ?thesis using a gone by (auto simp: swept_row_def list_all_iff)
  qed
  moreover have "\<forall>p. node s2 p = node s p \<or> node s2 p = Absent"
    using assms unfolding later_def by metis
  moreover have "\<forall>m i. clip_urls s2 m i = clip_urls s m i \<or> clip_urls s2 m i = None"
    using assms unfolding later_def by metis
  ultimately show ?thesis using assms by (simp add: later_def)
qed

text \<open>
  A path the sweep has to leave: every due asset that names it names it as its master, which a row not
  due shares, and it is no sample clip.
\<close>

definition needed :: "(ustring \<Rightarrow> uuid option) \<Rightarrow> instant \<Rightarrow> shelf \<Rightarrow> path \<Rightarrow> bool" where
  "needed x now s p \<longleftrightarrow>
     list_all (\<lambda>(i, a). due now (rows s) a \<longrightarrow>
       list_all (\<lambda>u. url_path u = Some p \<longrightarrow> u = a_url a \<and> keeper_of_master now (rows s) i a \<noteq> None) (expirable_files a))
       (assets (rows s)) \<and>
     list_all (\<lambda>u. url_path u \<noteq> Some p) (sample_clip_urls s) \<and>
     (p = [] \<or> clip_speaker x (last p) = None)"

lemma keeper_iff: "keeper_of_master now d i a \<noteq> None \<longleftrightarrow> (\<exists>k\<in>set (assets d). keeps_master now d i a k)"
  by (auto simp: keeper_of_master_def find_None_iff)

lemma in_assets: "bt_ok (assets d) \<Longrightarrow> (i, a) \<in> set (assets d) \<longleftrightarrow> asset_by_id i d = Some a"
  by (simp add: asset_by_id_def bt_in_get)

lemma in_sample_clip_urls:
  "u \<in> set (sample_clip_urls s) \<longleftrightarrow>
     (\<exists>m r sp. (m, r) \<in> set (meetings (rows s)) \<and> sp \<in> set (speakers (rows s) m) \<and> clip_urls s m (sp_id sp) = Some u)"
  by (force simp: sample_clip_urls_def map_filter_def)

lemma clip_urls_later:
  assumes "later now s s'" and "u \<in> set (sample_clip_urls s')"
  shows "u \<in> set (sample_clip_urls s)"
proof -
  obtain m r sp where m: "(m, r) \<in> set (meetings (rows s))" "sp \<in> set (speakers (rows s) m)"
    and u: "clip_urls s' m (sp_id sp) = Some u"
    using assms by (auto simp: in_sample_clip_urls later_def)
  then have "clip_urls s m (sp_id sp) = Some u" using assms(1) unfolding later_def by (metis option.distinct(1))
  then show ?thesis using m by (auto simp: in_sample_clip_urls)
qed

lemma keeper_later:
  assumes "later now s s'" and "bt_ok (assets (rows s))" and "keeper_of_master now (rows s) i a \<noteq> None"
  shows "keeper_of_master now (rows s') i a \<noteq> None"
proof -
  obtain j b where b: "(j, b) \<in> set (assets (rows s))" "keeps_master now (rows s) i a (j, b)"
    using assms(3)[unfolded keeper_iff] by auto
  have j: "asset_by_id j (rows s) = Some b" using b(1) by (simp add: in_assets[OF assms(2)])
  have "asset_by_id j (rows s') = Some b"
    by (rule later_row[OF assms(1), of j]) (use b(2) j in \<open>auto simp: keeps_master_def\<close>)
  then have "(j, b) \<in> set (assets (rows s'))" by (simp add: in_assets[OF later_ok[OF assms(1)]])
  moreover have "keeps_master now (rows s') i a (j, b)"
    using b(2) assms(1) by (simp add: keeps_master_def due_later[OF assms(1)] meeting_of_id_def later_def)
  ultimately show ?thesis unfolding keeper_iff by blast
qed

lemma needed_later:
  assumes "needed x now s p" and "later now s s'" and "bt_ok (assets (rows s))"
  shows "needed x now s' p"
proof -
  have before: "(i, a) \<in> set (assets (rows s))" if "(i, a) \<in> set (assets (rows s'))" and "due now (rows s') a" for i a
  proof -
    have "asset_by_id i (rows s') = Some a" using that(1) by (simp add: in_assets[OF later_ok[OF assms(2)]])
    then have "asset_by_id i (rows s) = Some a"
      by (rule_tac later_row[OF assms(2), of i]) (use that(2) in auto)
    then show ?thesis by (simp add: in_assets[OF assms(3)])
  qed
  have "u = a_url a \<and> keeper_of_master now (rows s') i a \<noteq> None"
    if "(i, a) \<in> set (assets (rows s'))" "due now (rows s') a" "u \<in> set (expirable_files a)" "url_path u = Some p" for i a u
    using assms(1) before[OF that(1,2)] that due_later[OF assms(2), of a] keeper_later[OF assms(2,3)]
    by (fastforce simp: needed_def list_all_iff)
  moreover have "url_path u \<noteq> Some p" if "u \<in> set (sample_clip_urls s')" for u
    using assms(1) clip_urls_later[OF assms(2) that] by (auto simp: needed_def list_all_iff)
  moreover have "p = [] \<or> clip_speaker x (last p) = None" using assms(1) by (simp add: needed_def)
  ultimately show ?thesis unfolding needed_def list_all_iff by blast
qed

lemma sweep_due_keeps:
  assumes run: "sweep_due x now i a s = (s', r)" and ok: "bt_ok (assets (rows s))"
    and a: "asset_by_id i (rows s) = Some a" and due: "due now (rows s) a"
  shows "later now s s' \<and> (needed x now s p \<longrightarrow> node s' p = node s p)"
proof (cases "still_there s (i, a) \<and> keeper_of_master now (rows s) i a \<noteq> None")
  case True
  then have "s' = s" using run by (simp add: sweep_due_def)
  then show ?thesis using later_same[OF ok] by simp
next
  case False
  obtain s1 removed failed where s1: "remove_asset x a s = (s1, removed, failed)" by (metis prod_cases3)
  note shelf = remove_asset_shelf[OF s1]
  have s': "s' = (if failed \<noteq> [] then s1
      else (clear_sample_clips (a_meeting a) (map fst (confirmed_with_clips (a_meeting a) s)) s1)
             \<lparr>rows := save_asset i (a\<lparr>a_expires := None\<rparr>) (rows s1)\<rparr>)"
    using run False s1 by (auto simp: sweep_due_def)
  have "later now s s'"
  proof (cases "failed = []")
    case True
    then show ?thesis
      using shelf ok a due unfolding s'
      by (auto simp: later_def swept_row_def save_asset_def asset_by_id_def clear_sample_clips_def list_all_iff map_filter_def)
  next
    case False
    then show ?thesis using shelf later_same[OF ok] unfolding s' by simp
  qed
  moreover have "node s' p = node s p" if needed: "needed x now s p"
  proof (rule ccontr)
    assume "node s' p \<noteq> node s p"
    then have changed: "node s1 p \<noteq> node s p" by (simp add: s' clear_sample_clips_def split: if_splits)
    then have "p \<in> set (doomed_files a s)" using shelf needed by (auto simp: needed_def)
    moreover have "url_path u \<noteq> Some p" if "u \<in> snd ` set (confirmed_with_clips (a_meeting a) s)" for u
    proof -
      have "a_meeting a \<in> fst ` set (meetings (rows s))"
        using due by (force simp: due_def meeting_of_id_def split: option.splits dest: bt_get_in)
      then have "u \<in> set (sample_clip_urls s)"
        using that by (force simp: confirmed_with_clips_def sample_clip_urls_def map_filter_def split: if_splits)
      then show ?thesis using needed by (simp add: needed_def list_all_iff)
    qed
    ultimately obtain u where u: "u \<in> set (expirable_files a)" "url_path u = Some p"
      by (force simp: doomed_files_def map_filter_def)
    have "(i, a) \<in> set (assets (rows s))" using a by (simp add: in_assets[OF ok])
    then have "u = a_url a" "keeper_of_master now (rows s) i a \<noteq> None"
      using needed due u by (auto simp: needed_def list_all_iff)
    then have "known_gone p s" using False u(2) by (simp add: still_there_def)
    then show False using changed shelf unfolding known_gone_def by metis
  qed
  ultimately show ?thesis by simp
qed

lemma in_write_keeps:
  assumes "in_write f s = (s', r)" and ok: "bt_ok (assets (rows s))"
    and f: "\<And>t t' y. rows t = rows s \<Longrightarrow> clip_urls t = clip_urls s \<Longrightarrow> node t = node s \<Longrightarrow> f t = (t', y) \<Longrightarrow>
      later now t t' \<and> (needed x now t p \<longrightarrow> node t' p = node t p)"
  shows "later now s s' \<and> (needed x now s p \<longrightarrow> node s' p = node s p)"
proof -
  obtain fault t where t: "next_fault s = (fault, t)" by fastforce
  note same = next_fault_shelf[OF t]
  show ?thesis
  proof (cases fault)
    case True
    then show ?thesis using assms(1) t same later_same[OF ok] by (simp add: in_write_def)
  next
    case False
    obtain t1 y where t1: "f t = (t1, y)" by fastforce
    obtain fault' t2 where t2: "next_fault t1 = (fault', t2)" by fastforce
    have step: "later now t t1" "needed x now t p \<longrightarrow> node t1 p = node t p" using f[OF _ _ _ t1] same by auto
    have n: "needed x now t p = needed x now s p" "later now t = later now s"
      using same by (simp_all add: needed_def sample_clip_urls_def later_def swept_row_def fun_eq_iff)
    have s': "s' = (if fault' then t2\<lparr>rows := rows s, clip_urls := clip_urls s\<rparr> else t2)"
      using assms(1) t t1 t2 False same by (auto simp: in_write_def split: if_splits)
    have "later now s s'"
    proof (cases fault')
      case True
      then show ?thesis using step(1) next_fault_shelf[OF t2] later_same[OF ok, of s'] unfolding s' n by (simp add: later_def)
    next
      case False
      have "later now s t2 = later now s t1" using next_fault_shelf[OF t2] by (simp add: later_def swept_row_def)
      then show ?thesis using False step(1) n(2) unfolding s' by simp
    qed
    moreover have "node s' = node t1" using next_fault_shelf[OF t2] unfolding s' by simp
    ultimately show ?thesis using step(2) n same by simp
  qed
qed

lemma sweep_expired_keeps:
  assumes "sweep_expired_asset x now i s = (s', r)" and "bt_ok (assets (rows s))"
  shows "later now s s' \<and> (needed x now s p \<longrightarrow> node s' p = node s p)"
  using assms(1)[unfolded sweep_expired_asset_def] assms(2)
proof (rule in_write_keeps)
  fix t t' y
  assume t: "rows t = rows s" "clip_urls t = clip_urls s" "node t = node s"
    and run: "(case asset_by_id i (rows t) of None \<Rightarrow> (t, [], [])
      | Some a \<Rightarrow> if due now (rows t) a then sweep_due x now i a t else (t, [], [])) = (t', y)"
  have ok: "bt_ok (assets (rows t))" using t assms(2) by simp
  show "later now t t' \<and> (needed x now t p \<longrightarrow> node t' p = node t p)"
    using run sweep_due_keeps[OF _ ok] later_same[OF ok] by (auto split: option.splits if_splits)
qed

lemma sweeping_keeps:
  assumes "sweep_each x now is s = (s', r)" and "bt_ok (assets (rows s))"
  shows "later now s s' \<and> (needed x now s p \<longrightarrow> node s' p = node s p)"
  using assms
proof (induction "is" arbitrary: s s' r)
  case Nil
  then show ?case using later_same by simp
next
  case (Cons i "is")
  obtain t y where t: "sweep_expired_asset x now i s = (t, y)" by fastforce
  note step = sweep_expired_keeps[OF t Cons.prems(2), of p]
  show ?case
  proof (cases y)
    case None
    then show ?thesis using Cons.prems(1) t step by simp
  next
    case (Some z)
    obtain t' y' where t': "sweep_each x now is t = (t', y')" by fastforce
    have "s' = t'" using Cons.prems(1) t t' Some by (auto split: prod.splits option.splits)
    then show ?thesis
      using Cons.IH[OF t'] step later_trans needed_later[OF _ _ Cons.prems(2)] later_ok by metis
  qed
qed

lemma sweep_run_keeps:
  assumes "bt_ok (assets (rows s))"
  shows "later now s (fst (sweep_run x now s)) \<and>
    (needed x now s p \<longrightarrow> node (fst (sweep_run x now s)) p = node s p)"
proof -
  obtain fault t where t: "next_fault s = (fault, t)" by fastforce
  note same = next_fault_shelf[OF t]
  have n: "needed x now t p = needed x now s p" "later now t = later now s"
    using same by (simp_all add: needed_def sample_clip_urls_def later_def swept_row_def fun_eq_iff)
  obtain t' y where t': "sweep_each x now (expired_assets now (rows t)) t = (t', y)" by fastforce
  have "fst (sweep_run x now s) = (if fault then t else t')"
    using t t' by (auto simp: sweep_run_def split: prod.splits option.splits)
  then show ?thesis using sweeping_keeps[OF t'] later_same[OF assms, of t] same n assms by auto
qed

section \<open>What the sweep promises\<close>

text \<open>
  C5: The sweep leaves every recording that is still needed, however it ends: a path that every due asset
  naming it only shares, as its master, with a row that is not due, and that is no sample clip.
\<close>

theorem sweep_leaves_what_is_needed:
  assumes "bt_ok (assets (rows s))" and "needed try_parse now s p"
  shows "node (fst (sweep_run try_parse now s)) p = node s p"
  using sweep_run_keeps[OF assms(1)] assms(2) by blast

text \<open>
  Samples: two ready meetings, one recording under two rows, and one of its own.
\<close>

definition sample_row :: "meeting_state \<Rightarrow> meeting_row" where
  "sample_row st = \<lparr>m_title = [84], m_started = 0, m_duration = 60, m_language = None, m_source = Phone, m_event = None,
     m_state = st, m_origin = DefaultTitle, m_template = ascii ''default'', m_summary = None, m_scratchpad = [],
     m_usage = None, m_updated = 0\<rparr>"

definition sample_asset_row :: "uuid \<Rightarrow> string \<Rightarrow> instant option \<Rightarrow> asset_row" where
  "sample_asset_row m url t = \<lparr>a_meeting = m, a_url = ascii url, a_aac = True, a_lanes = [Mixed], a_sidecars = [],
     a_mixdown = None, a_retention = KeepDays 1, a_expires = t\<rparr>"

definition path_of_text :: "string list \<Rightarrow> path" where
  "path_of_text cs = map (\<lambda>c. utf8_encode (ascii c)) cs"

definition sample_shelf :: shelf where
  "sample_shelf = \<lparr>rows = \<lparr>meetings = [(1, sample_row Ready), (2, sample_row Ready)],
       assets = [(5, sample_asset_row 1 ''file:///m'' (Some 0)), (6, sample_asset_row 2 ''file:///m'' None),
                 (7, sample_asset_row 2 ''file:///n'' (Some 0))],
       speakers = (\<lambda>_. []), segments = (\<lambda>_. []), deliveries = (\<lambda>_. []), me = (\<lambda>_. [])\<rparr>,
     clip_urls = (\<lambda>_ _. None), node = (\<lambda>_. Present True), resists = (\<lambda>_. False), listed = (\<lambda>_. None), faults = []\<rparr>"

lemma sample_rows_ok: "bt_ok (assets (rows sample_shelf))"
  by (simp add: sample_shelf_def bt_ok_def)

lemma sample_swept:
  "(case fst (sweep_run (\<lambda>_. None) 1 sample_shelf) of s \<Rightarrow>
     (node s (path_of_text [''n'']), asset_by_id 7 (rows s))) = (Absent, Some (sample_asset_row 2 ''file:///n'' None))"
  by code_simp

lemma sweep_leaves_what_is_needed_witness:
  "node (fst (sweep_run (\<lambda>_. None) 1 sample_shelf)) (path_of_text [''m'']) = Present True \<and>
   node (fst (sweep_run (\<lambda>_. None) 1 sample_shelf)) (path_of_text [''n'']) = Absent"
proof
  have "needed (\<lambda>_. None) 1 sample_shelf (path_of_text [''m''])" by code_simp
  from sweep_leaves_what_is_needed[OF sample_rows_ok this]
  show "node (fst (sweep_run (\<lambda>_. None) 1 sample_shelf)) (path_of_text [''m'']) = Present True"
    by (simp add: sample_shelf_def)
qed (use sample_swept in simp)

text \<open>
  C13: A row changes in a sweep only by losing its stamp, and only when it was due and every one of its
  files is known to be gone: a file that resists, or cannot be read, keeps the stamp for the next sweep.
\<close>

theorem stamp_goes_with_the_files:
  assumes "bt_ok (assets (rows s))" and "asset_by_id i (rows s) = Some a"
    and "asset_by_id i (rows (fst (sweep_run try_parse now s))) \<noteq> Some a"
  shows "due now (rows s) a \<and>
    asset_by_id i (rows (fst (sweep_run try_parse now s))) = Some (a\<lparr>a_expires := None\<rparr>) \<and>
    list_all (\<lambda>p. node (fst (sweep_run try_parse now s)) p = Absent) (List.map_filter url_path (expirable_files a))"
proof -
  have "later now s (fst (sweep_run try_parse now s))" using sweep_run_keeps[OF assms(1)] by blast
  then show ?thesis by (rule later_row[of _ _ _ i]) (use assms(2,3) in auto)
qed

lemma stamp_goes_with_the_files_witness:
  "asset_by_id 7 (rows (fst (sweep_run (\<lambda>_. None) 1 sample_shelf))) = Some (sample_asset_row 2 ''file:///n'' None) \<and>
   due 1 (rows sample_shelf) (sample_asset_row 2 ''file:///n'' (Some 0))"
proof -
  have "asset_by_id 7 (rows sample_shelf) = Some (sample_asset_row 2 ''file:///n'' (Some 0))"
    by (simp add: sample_shelf_def asset_by_id_def bt_get_def)
  moreover have "asset_by_id 7 (rows (fst (sweep_run (\<lambda>_. None) 1 sample_shelf))) \<noteq>
      Some (sample_asset_row 2 ''file:///n'' (Some 0))"
    using sample_swept by (simp add: sample_asset_row_def)
  ultimately show ?thesis
    using stamp_goes_with_the_files[OF sample_rows_ok] sample_swept by fastforce
qed

lemma keep_row_rows:
  "asset_by_id i (keep_row j d) =
     (if i = j then map_option (\<lambda>a. a\<lparr>a_retention := KeepForever, a_expires := None\<rparr>) (asset_by_id i d)
      else asset_by_id i d)"
  "meetings (keep_row j d) = meetings d" "speakers (keep_row j d) = speakers d"
  "bt_ok (assets d) \<Longrightarrow> bt_ok (assets (keep_row j d))"
  by (simp_all add: keep_row_def save_asset_def asset_by_id_def split: option.splits)

lemma keep_forever_rows:
  "asset_by_id i (keep_forever ids d) =
     (if i \<in> set ids then map_option (\<lambda>a. a\<lparr>a_retention := KeepForever, a_expires := None\<rparr>) (asset_by_id i d)
      else asset_by_id i d) \<and>
   meetings (keep_forever ids d) = meetings d \<and> speakers (keep_forever ids d) = speakers d \<and>
   (bt_ok (assets d) \<longrightarrow> bt_ok (assets (keep_forever ids d)))"
  by (induction ids arbitrary: d)
    (auto simp: keep_forever_def keep_row_rows option.map_comp comp_def split: if_splits)

text \<open>No row names the path as anything but a master, and no clip is there.\<close>

definition only_a_master :: "(ustring \<Rightarrow> uuid option) \<Rightarrow> shelf \<Rightarrow> path \<Rightarrow> bool" where
  "only_a_master x s p \<longleftrightarrow>
     list_all (\<lambda>(i, a). list_all (\<lambda>u. url_path u \<noteq> Some p) (a_sidecars a @ (case a_mixdown a of None \<Rightarrow> [] | Some u \<Rightarrow> [u])))
       (assets (rows s)) \<and>
     list_all (\<lambda>u. url_path u \<noteq> Some p) (sample_clip_urls s) \<and>
     (p = [] \<or> clip_speaker x (last p) = None)"

text \<open>
  C23: After the user chose to keep everything, no sweep, now or later, takes a master that was there or
  may have been.
\<close>

theorem kept_masters_stay:
  assumes "bt_ok (assets (rows s))" and "keep_all s = (s', Some n)" and "only_a_master try_parse s p"
    and "\<not> known_gone p s"
  shows "node (fst (sweep_run try_parse later_on s')) p = node s p"
proof -
  obtain fault t where t: "next_fault s = (fault, t)" by fastforce
  define ids where "ids = map fst (filter (still_there t) (assets (rows t)))"
  have same: "rows t = rows s" "clip_urls t = clip_urls s" "node t = node s" using next_fault_shelf[OF t] by auto
  have s': "rows s' = keep_forever ids (rows s)" "clip_urls s' = clip_urls s" "node s' = node s"
    using assms(2) t same
    by (auto simp: keep_all_def in_write_def Let_def ids_def split: prod.splits if_splits dest!: next_fault_shelf)
  note kept = keep_forever_rows[of _ ids "rows s"]
  have ok: "bt_ok (assets (rows s'))" using kept assms(1) s' by simp
  have "\<not> due later_on (rows s') b \<or> url_path u \<noteq> Some p"
    if b: "(i, b) \<in> set (assets (rows s'))" and u: "u \<in> set (expirable_files b)" for i b u
  proof (cases "i \<in> set ids")
    case True
    have "asset_by_id i (keep_forever ids (rows s)) = Some b" using b in_assets[OF ok] by (simp add: s')
    then have "a_expires b = None" using True kept[of i] by auto
    then show ?thesis by (simp add: due_def)
  next
    case False
    have "asset_by_id i (keep_forever ids (rows s)) = Some b" using b in_assets[OF ok] by (simp add: s')
    then have b': "(i, b) \<in> set (assets (rows s))" using False kept[of i] by (simp add: in_assets[OF assms(1)])
    have "still_there t (i, b) = still_there s (i, b)"
      by (simp add: still_there_def known_gone_def same split: option.split)
    moreover have "\<not> still_there t (i, b)" using False b' by (force simp: ids_def same)
    ultimately have "\<not> still_there s (i, b)" by simp
    then have "url_path (a_url b) \<noteq> Some p" using assms(4) by (auto simp: still_there_def)
    then show ?thesis using u b' assms(3) by (auto simp: expirable_files_def only_a_master_def list_all_iff)
  qed
  moreover have "sample_clip_urls s' = sample_clip_urls s" using kept s' by (simp add: sample_clip_urls_def)
  ultimately have "needed try_parse later_on s' p"
    using assms(3) by (fastforce simp: needed_def only_a_master_def list_all_iff)
  then show ?thesis using sweep_run_keeps[OF ok] s' by metis
qed

lemma kept_masters_stay_witness:
  "node (fst (sweep_run (\<lambda>_. None) 1 (fst (keep_all sample_shelf)))) (path_of_text [''n'']) = Present True"
proof -
  have "bt_ok (assets (rows sample_shelf))" by (rule sample_rows_ok)
  moreover have "snd (keep_all sample_shelf) = Some 3"
    "only_a_master (\<lambda>_. None) sample_shelf (path_of_text [''n''])"
    "\<not> known_gone (path_of_text [''n'']) sample_shelf"
    by code_simp+
  moreover have "keep_all sample_shelf = (fst (keep_all sample_shelf), Some 3)"
    using \<open>snd (keep_all sample_shelf) = Some 3\<close> by (metis prod.collapse)
  moreover have "node sample_shelf (path_of_text [''n'']) = Present True" by (simp add: sample_shelf_def)
  ultimately show ?thesis using kept_masters_stay by metis
qed

end
